(* ===== verification/Prelude.thy ===== *)
theory Prelude
  imports Main "HOL-Library.AList" "HOL-Library.Char_ord" "HOL-Library.List_Lexorder"
    "HOL-Library.Product_Lexorder"
begin

section \<open>Prelude: maps, strings and step systems shared by the components\<close>

text \<open>
  What every component of the model builds on.
  \<^item> The JavaScript \<open>Map\<close>: keys in insertion order, \<open>set\<close> of a present key keeps its position,
    \<open>values()\<close> walks in insertion order. It is an association list with the operations of the
    AList library; \<open>keyed_map\<close> is the interface the stores rely on.
  \<^item> The string functions of the source (\<open>startsWith\<close>, \<open>slice\<close>, \<open>indexOf\<close>, \<open>split\<close>, \<open>trim\<close>,
    \<open>toLowerCase\<close>). A string is a list of code units; the model covers code units below 256.
  \<^item> \<open>step_system\<close> and its extensions: invariants and preorders lifted from one step of a state
    machine to all its runs.
\<close>

named_theorems jsmap "laws of the insertion-ordered map"
named_theorems jsstring "unfolding of the string functions"

type_synonym millis = int
type_synonym ('k, 'v) jsmap = "('k \<times> 'v) list"

subsection \<open>Insertion-ordered maps\<close>

abbreviation jm_get :: "('k, 'v) jsmap \<Rightarrow> 'k \<Rightarrow> 'v option" where
  "jm_get m k \<equiv> map_of m k"

abbreviation jm_set :: "'k \<Rightarrow> 'v \<Rightarrow> ('k, 'v) jsmap \<Rightarrow> ('k, 'v) jsmap" where
  "jm_set k v m \<equiv> AList.update k v m"

abbreviation jm_delete :: "'k \<Rightarrow> ('k, 'v) jsmap \<Rightarrow> ('k, 'v) jsmap" where
  "jm_delete k m \<equiv> AList.delete k m"

abbreviation jm_values :: "('k, 'v) jsmap \<Rightarrow> 'v list" where
  "jm_values m \<equiv> map snd m"

abbreviation jm_keys :: "('k, 'v) jsmap \<Rightarrow> 'k list" where
  "jm_keys m \<equiv> map fst m"

text \<open>A JavaScript map has one entry per key.\<close>

abbreviation jm_ok :: "('k, 'v) jsmap \<Rightarrow> bool" where
  "jm_ok m \<equiv> distinct (map fst m)"

text \<open>The list under a key, the empty list where there is none (\<open>m.get(k) ?? []\<close>).\<close>

definition jm_list :: "('k, 'v list) jsmap \<Rightarrow> 'k \<Rightarrow> 'v list" where
  "jm_list m k = (case jm_get m k of None \<Rightarrow> [] | Some xs \<Rightarrow> xs)"

lemma jm_get_set [simp, jsmap]: "jm_get (jm_set k v m) k' = (if k' = k then Some v else jm_get m k')"
  by (simp add: update_conv')

lemma jm_get_delete [simp, jsmap]: "jm_get (jm_delete k m) k' = (if k' = k then None else jm_get m k')"
  by (simp add: delete_conv')

lemma jm_ok_set [simp, intro]: "jm_ok m \<Longrightarrow> jm_ok (jm_set k v m)"
  by (rule distinct_update)

lemma jm_ok_delete [simp, intro]: "jm_ok m \<Longrightarrow> jm_ok (jm_delete k m)"
  by (rule distinct_delete)

lemma jm_list_set [simp, jsmap]: "jm_list (jm_set k xs m) k' = (if k' = k then xs else jm_list m k')"
  by (simp add: jm_list_def)

lemma jm_list_delete [simp, jsmap]: "jm_list (jm_delete k m) k' = (if k' = k then [] else jm_list m k')"
  by (simp add: jm_list_def)

lemma jm_values_iff: "jm_ok m \<Longrightarrow> v \<in> set (jm_values m) \<longleftrightarrow> (\<exists>k. jm_get m k = Some v)"
  by (auto intro: map_of_is_SomeI dest: map_of_SomeD) (metis map_of_SomeD snd_conv image_eqI)

lemma jm_get_in_values: "jm_get m k = Some v \<Longrightarrow> v \<in> set (jm_values m)"
  by (force dest: map_of_SomeD)

lemma jm_keys_set: "set (jm_keys (jm_set k v m)) = insert k (set (jm_keys m))"
  using dom_update [of k v m] by simp

lemma jm_keys_set_present: "k \<in> set (jm_keys m) \<Longrightarrow> jm_keys (jm_set k v m) = jm_keys m"
  by (induction m) auto

lemma jm_get_None_iff: "jm_get m k = None \<longleftrightarrow> k \<notin> set (jm_keys m)"
  by (simp add: map_of_eq_None_iff)

lemma jm_get_Some_key: "jm_get m k = Some v \<Longrightarrow> k \<in> set (jm_keys m)"
  by (force dest: map_of_SomeD)

lemma jm_set_absent: "k \<notin> set (jm_keys m) \<Longrightarrow> jm_set k v m = m @ [(k, v)]"
  by (induction m) auto

text \<open>Writing back what is there changes nothing, neither the contents nor the order.\<close>

lemma jm_set_same: "jm_get m k = Some v \<Longrightarrow> jm_set k v m = m"
  by (induction m) (auto split: if_splits)

text \<open>
  The interface the stores rely on: reading back a write, the frame, the one-entry-per-key
  invariant. The client lemmas (last write wins, writes to different keys commute as reads)
  follow from these laws alone.
\<close>

locale keyed_map =
  fixes get :: "'m \<Rightarrow> 'k \<Rightarrow> 'v option"
    and put :: "'k \<Rightarrow> 'v \<Rightarrow> 'm \<Rightarrow> 'm"
    and remove :: "'k \<Rightarrow> 'm \<Rightarrow> 'm"
    and ok :: "'m \<Rightarrow> bool"
  assumes get_put: "ok m \<Longrightarrow> get (put k v m) k' = (if k' = k then Some v else get m k')"
    and get_remove: "ok m \<Longrightarrow> get (remove k m) k' = (if k' = k then None else get m k')"
    and ok_put: "ok m \<Longrightarrow> ok (put k v m)"
    and ok_remove: "ok m \<Longrightarrow> ok (remove k m)"
begin

lemma last_write_wins: "ok m \<Longrightarrow> get (put k v (put k w m)) k' = get (put k v m) k'"
  by (simp add: get_put ok_put)

lemma put_commute: "ok m \<Longrightarrow> k \<noteq> l \<Longrightarrow> get (put k v (put l w m)) k' = get (put l w (put k v m)) k'"
  by (auto simp: get_put ok_put)

lemma remove_put: "ok m \<Longrightarrow> get (remove k (put k v m)) k' = get (remove k m) k'"
  by (simp add: get_put get_remove ok_put)

lemma fold_remove: "ok m \<Longrightarrow> get (fold remove ks m) k = (if k \<in> set ks then None else get m k)"
proof (induction ks arbitrary: m)
  case Nil
  then show ?case by simp
next
  case (Cons x ks)
  then show ?case by (simp add: ok_remove get_remove)
qed

lemma ok_fold_remove: "ok m \<Longrightarrow> ok (fold remove ks m)"
  by (induction ks arbitrary: m) (simp_all add: ok_remove)

end

interpretation jsm: keyed_map map_of AList.update AList.delete "\<lambda>m. distinct (map fst m)"
  by unfold_locales simp_all

subsection \<open>Strings\<close>

definition starts_with :: "string \<Rightarrow> string \<Rightarrow> bool" where
  "starts_with p s = (take (length p) s = p)"

definition ends_with :: "string \<Rightarrow> string \<Rightarrow> bool" where
  "ends_with p s = (length p \<le> length s \<and> drop (length s - length p) s = p)"

text \<open>\<open>indexOf\<close> of one code unit: the position of its first occurrence.\<close>

fun index_of :: "char \<Rightarrow> string \<Rightarrow> nat option" where
  "index_of c [] = None"
| "index_of c (x # s) = (if x = c then Some 0 else map_option Suc (index_of c s))"

text \<open>\<open>split\<close> on one code unit: always at least one part.\<close>

fun split_on :: "char \<Rightarrow> string \<Rightarrow> string list" where
  "split_on c [] = [[]]"
| "split_on c (x # s) =
     (if x = c then [] # split_on c s
      else (case split_on c s of [] \<Rightarrow> [[x]] | p # ps \<Rightarrow> (x # p) # ps))"

text \<open>White space of \<open>trim\<close> and of the regular expression class \<open>\s\<close>, below code unit 256.\<close>

definition is_space :: "char \<Rightarrow> bool" where
  "is_space c = (let n = (of_char c :: nat) in n = 32 \<or> (9 \<le> n \<and> n \<le> 13) \<or> n = 160)"

definition js_trim :: "string \<Rightarrow> string" where
  "js_trim s = rev (dropWhile is_space (rev (dropWhile is_space s)))"

text \<open>\<open>replace(/\s+/g, " ")\<close>\<close>

fun collapseSpace :: "bool \<Rightarrow> string \<Rightarrow> string" where
  "collapseSpace prev [] = []"
| "collapseSpace prev (c # s) =
     (if is_space c then (if prev then collapseSpace True s else CHR '' '' # collapseSpace True s)
      else c # collapseSpace False s)"

definition lower_char :: "char \<Rightarrow> char" where
  "lower_char c = (let n = (of_char c :: nat) in
     if (65 \<le> n \<and> n \<le> 90) \<or> (192 \<le> n \<and> n \<le> 222 \<and> n \<noteq> 215) then char_of (n + 32) else c)"

definition to_lower :: "string \<Rightarrow> string" where
  "to_lower s = map lower_char s"

fun join_with :: "string \<Rightarrow> string list \<Rightarrow> string" where
  "join_with sep [] = []"
| "join_with sep [x] = x"
| "join_with sep (x # y # xs) = x @ sep @ join_with sep (y # xs)"

text \<open>
  Falsy strings: \<open>if (s)\<close> on an optional string is false for the absent and for the empty one.
\<close>

fun truthy :: "string option \<Rightarrow> bool" where
  "truthy None = False"
| "truthy (Some s) = (s \<noteq> [])"

text \<open>Decimal printing, as template literals and \<open>String(n)\<close> do it.\<close>

fun show_nat :: "nat \<Rightarrow> string" where
  "show_nat n = (if n < 10 then [char_of (48 + n)] else show_nat (n div 10) @ [char_of (48 + n mod 10)])"

declare show_nat.simps [simp del]

definition show_int :: "int \<Rightarrow> string" where
  "show_int i = (if i < 0 then ''-'' @ show_nat (nat (- i)) else show_nat (nat i))"

text \<open>\<open>[...new Set(xs)]\<close>: the first occurrence of each element, in order.\<close>

definition js_uniq :: "'a list \<Rightarrow> 'a list" where
  "js_uniq xs = rev (remdups (rev xs))"

text \<open>\<open>findIndex\<close>: the position of the first element that satisfies a predicate.\<close>

fun find_index :: "('a \<Rightarrow> bool) \<Rightarrow> 'a list \<Rightarrow> nat option" where
  "find_index P [] = None"
| "find_index P (x # xs) = (if P x then Some 0 else map_option Suc (find_index P xs))"

text \<open>\<open>xs.slice(-n)\<close> for an integer \<open>n\<close>: the last \<open>n\<close> elements for a positive \<open>n\<close>, everything for 0.\<close>

definition slice_neg :: "int \<Rightarrow> 'a list \<Rightarrow> 'a list" where
  "slice_neg n xs = (if n > 0 then drop (length xs - nat n) xs else drop (nat (- n)) xs)"

text \<open>Line terminators of regular expressions, below code unit 256.\<close>

definition is_newline :: "char \<Rightarrow> bool" where
  "is_newline c = (c = char_of (10::nat) \<or> c = char_of (13::nat))"

lemma find_index_Some:
  "find_index P xs = Some n \<Longrightarrow> n < length xs \<and> P (xs ! n) \<and> (\<forall>m < n. \<not> P (xs ! m))"
proof (induction xs arbitrary: n)
  case (Cons x xs)
  then show ?case by (cases n) (auto simp: nth_Cons split: if_splits nat.splits)
qed simp

lemma find_index_None: "find_index P xs = None \<longleftrightarrow> (\<forall>x \<in> set xs. \<not> P x)"
  by (induction xs) auto

lemma set_js_uniq [simp]: "set (js_uniq xs) = set xs"
  by (simp add: js_uniq_def)

lemma distinct_js_uniq [simp]: "distinct (js_uniq xs)"
  by (simp add: js_uniq_def)

definition digit :: "char \<Rightarrow> bool" where
  "digit c = (48 \<le> (of_char c :: nat) \<and> (of_char c :: nat) \<le> 57)"

lemma show_nat_digits: "\<forall>c \<in> set (show_nat n). digit c"
proof (induction n rule: show_nat.induct)
  case (1 n)
  then show ?case by (subst show_nat.simps) (auto simp: digit_def)
qed

lemma show_nat_not_in: "\<not> digit c \<Longrightarrow> c \<notin> set (show_nat n)"
  using show_nat_digits by blast

text \<open>Reading a numeral back: printing is injective.\<close>

definition read_digits :: "string \<Rightarrow> nat" where
  "read_digits s = foldl (\<lambda>a c. 10 * a + (of_char c - 48)) 0 s"

lemma read_show_nat: "read_digits (show_nat n) = n"
proof (induction n rule: show_nat.induct)
  case (1 n)
  show ?case
  proof (cases "n < 10")
    case True
    then show ?thesis by (subst show_nat.simps) (simp add: read_digits_def)
  next
    case False
    with 1 have "read_digits (show_nat (n div 10)) = n div 10" by simp
    with False show ?thesis by (subst show_nat.simps) (simp add: read_digits_def)
  qed
qed

lemma show_nat_inj [simp]: "show_nat m = show_nat n \<longleftrightarrow> m = n"
  by (metis read_show_nat)

text \<open>A list cut at the last occurrence of a separator is cut in one way only.\<close>

lemma split_last_unique:
  assumes "xs @ c # ys = us @ c # vs" "c \<notin> set ys" "c \<notin> set vs"
  shows "xs = us \<and> ys = vs"
proof -
  have tail: "takeWhile (\<lambda>x. x \<noteq> c) (rev (as @ c # bs)) = rev bs" if "c \<notin> set bs" for as bs
  proof -
    have "takeWhile (\<lambda>x. x \<noteq> c) (rev bs @ c # rev as) = rev bs"
      using that by (subst takeWhile_append2) auto
    then show ?thesis by simp
  qed
  have "rev ys = rev vs" using assms tail by metis
  with assms(1) show ?thesis by simp
qed

lemma starts_with_append [simp, jsstring]: "starts_with p (p @ s)"
  by (simp add: starts_with_def)

lemma starts_with_iff: "starts_with p s \<longleftrightarrow> (\<exists>t. s = p @ t)"
  by (metis append_eq_conv_conj append_take_drop_id starts_with_def)

lemma starts_with_drop: "starts_with p s \<Longrightarrow> p @ drop (length p) s = s"
  by (metis append_take_drop_id starts_with_def)

lemma index_of_None_iff: "index_of c s = None \<longleftrightarrow> c \<notin> set s"
  by (induction s) auto

lemma index_of_append: "c \<notin> set p \<Longrightarrow> index_of c (p @ c # s) = Some (length p)"
  by (induction p) auto

lemma index_of_Some:
  "index_of c s = Some n \<Longrightarrow> n < length s \<and> s = take n s @ c # drop (Suc n) s \<and> c \<notin> set (take n s)"
  by (induction s arbitrary: n) (auto split: if_splits)

lemma split_on_nonempty [simp]: "split_on c s \<noteq> []"
  by (induction s) (auto split: list.splits)

lemma join_split_on: "join_with [c] (split_on c s) = s"
proof (induction s)
  case Nil
  then show ?case by simp
next
  case (Cons x s)
  obtain p ps where ps: "split_on c s = p # ps"
    by (meson neq_Nil_conv split_on_nonempty)
  then show ?case using Cons by (cases ps) auto
qed

lemma is_space_lower [simp]: "is_space (lower_char c) = is_space c"
proof -
  have "of_char c < (256::nat)"
    by (metis of_char_mod_256 mod_less_divisor zero_less_numeral)
  then show ?thesis
    by (auto simp: is_space_def lower_char_def Let_def)
qed

lemma lower_char_idem [simp]: "lower_char (lower_char c) = lower_char c"
proof -
  have "of_char c < (256::nat)"
    by (metis of_char_mod_256 mod_less_divisor zero_less_numeral)
  then show ?thesis
    by (auto simp: lower_char_def Let_def)
qed

lemma to_lower_idem [simp]: "to_lower (to_lower s) = to_lower s"
  by (simp add: to_lower_def)

lemma dropWhile_none: "s = [] \<or> \<not> P (hd s) \<Longrightarrow> dropWhile P s = s"
  by (cases s) auto

lemma hd_strip_end: "\<not> P (hd s) \<Longrightarrow> s \<noteq> [] \<Longrightarrow> hd (rev (dropWhile P (rev s))) = hd s"
proof (induction s rule: rev_induct)
  case Nil
  then show ?case by simp
next
  case (snoc x s)
  then show ?case by (cases s) auto
qed

lemma dropWhile_trimmed:
  "dropWhile P (rev (dropWhile P (rev (dropWhile P s)))) = rev (dropWhile P (rev (dropWhile P s)))"
proof (rule dropWhile_none)
  let ?t = "dropWhile P s"
  show "rev (dropWhile P (rev ?t)) = [] \<or> \<not> P (hd (rev (dropWhile P (rev ?t))))"
  proof (cases "?t = []")
    case True
    then show ?thesis by (metis dropWhile.simps(1) rev.simps(1))
  next
    case False
    then show ?thesis using hd_strip_end [of P ?t] hd_dropWhile [of P s] by auto
  qed
qed

lemma js_trim_idem [simp]: "js_trim (js_trim s) = js_trim s"
  by (simp add: js_trim_def dropWhile_trimmed)

subsection \<open>JSON values\<close>

text \<open>
  What reaches the program as \<open>unknown\<close>: a parsed JSON value. A number is kept as its JSON text.
\<close>

datatype json = JNull | JBool bool | JNum string | JStr string | JArr "json list" | JObj "(string \<times> json) list"

fun jfield :: "json \<Rightarrow> string \<Rightarrow> json option" where
  "jfield (JObj fs) k = map_of fs k"
| "jfield _ k = None"

text \<open>\<open>JSON.stringify\<close>: two-unit escapes where JSON has them, \<open>\u00xy\<close> for the other control characters.\<close>

definition hex_digit :: "nat \<Rightarrow> char" where
  "hex_digit n = (if n < 10 then char_of (48 + n) else char_of (87 + n))"

definition json_escape :: "char \<Rightarrow> string" where
  "json_escape c =
     (let n = (of_char c :: nat) in
      if n = 34 \<or> n = 92 then [char_of (92::nat), c]
      else if n = 8 then [char_of (92::nat), CHR ''b'']
      else if n = 9 then [char_of (92::nat), CHR ''t'']
      else if n = 10 then [char_of (92::nat), CHR ''n'']
      else if n = 12 then [char_of (92::nat), CHR ''f'']
      else if n = 13 then [char_of (92::nat), CHR ''r'']
      else if n < 32 then [char_of (92::nat)] @ ''u00'' @ [hex_digit (n div 16), hex_digit (n mod 16)]
      else [c])"

definition json_string :: "string \<Rightarrow> string" where
  "json_string s = [char_of (34::nat)] @ concat (map json_escape s) @ [char_of (34::nat)]"

fun stringify :: "json \<Rightarrow> string" where
  "stringify JNull = ''null''"
| "stringify (JBool b) = (if b then ''true'' else ''false'')"
| "stringify (JNum s) = s"
| "stringify (JStr s) = json_string s"
| "stringify (JArr xs) = ''['' @ join_with '','' (map stringify xs) @ '']''"
| "stringify (JObj fs) =
     [CHR 0x7B] @ join_with '','' (map (\<lambda>(k, v). json_string k @ '':'' @ stringify v) fs) @ [CHR 0x7D]"

subsection \<open>Step systems\<close>

text \<open>
  A component is a step relation on its state. An invariant kept by one step is kept by every
  run; a preorder that every step respects relates the ends of every run.
\<close>

locale step_system =
  fixes step :: "'s \<Rightarrow> 's \<Rightarrow> bool"
    and inv :: "'s \<Rightarrow> bool"
  assumes step_inv: "inv s \<Longrightarrow> step s t \<Longrightarrow> inv t"
begin

lemma steps_inv: "step\<^sup>*\<^sup>* s t \<Longrightarrow> inv s \<Longrightarrow> inv t"
  by (induction rule: rtranclp_induct) (auto intro: step_inv)

end

locale step_preorder = step_system +
  fixes R :: "'s \<Rightarrow> 's \<Rightarrow> bool"
  assumes R_refl: "R s s"
    and R_trans: "R s t \<Longrightarrow> R t u \<Longrightarrow> R s u"
    and step_R: "inv s \<Longrightarrow> step s t \<Longrightarrow> R s t"
begin

lemma steps_R: "step\<^sup>*\<^sup>* s t \<Longrightarrow> inv s \<Longrightarrow> R s t"
proof (induction rule: rtranclp_induct)
  case base
  then show ?case by (simp add: R_refl)
next
  case (step t u)
  then have "inv t" using steps_inv by blast
  with step show ?case using R_trans step_R by blast
qed

end

text \<open>
  A concrete system simulates an abstract one when every step is matched by a run of the
  abstract system between the abstractions of its ends; then so is every run.
\<close>

locale simulation = step_system +
  fixes abs :: "'s \<Rightarrow> 'a"
    and astep :: "'a \<Rightarrow> 'a \<Rightarrow> bool"
  assumes step_sim: "inv s \<Longrightarrow> step s t \<Longrightarrow> astep\<^sup>*\<^sup>* (abs s) (abs t)"
begin

lemma steps_sim: "step\<^sup>*\<^sup>* s t \<Longrightarrow> inv s \<Longrightarrow> astep\<^sup>*\<^sup>* (abs s) (abs t)"
proof (induction rule: rtranclp_induct)
  case (step t u)
  then have "inv t" using steps_inv by blast
  with step show ?case using step_sim by (meson rtranclp_trans)
qed simp

end

end
