(* ===== verification/Runs.thy ===== *)
theory Runs
  imports Prelude
begin

section \<open>The run queue: leases, retries and the tool ledger\<close>

text \<open>
  Models \<open>src/src/runs/run-store.ts\<close> and \<open>src/src/runs/memory-run-store.ts\<close>: the queue of turns
  that workers claim, keep alive by heartbeats, complete, fail or lose to the reaper.
  The request of a run is opaque to the store, so it is a type parameter. The clock
  (\<open>Date.now()\<close>) and each \<open>randomUUID()\<close> are arguments. \<open>settle\<close> notifies the terminal
  listeners; the model records the notified runs, in order, in \<open>rs_settled\<close>.
\<close>

subsection \<open>Data\<close>

datatype run_status = Pending | Running | Done | Failed

datatype turn_status = TOk | TRefused | TFailed | TPendingApproval | TQueued | TSilent | TReact

record turn_result =
  tr_status :: turn_status
  tr_sessionId :: "string option"
  tr_reply :: "string option"
  tr_reason :: "string option"
  tr_refusalKind :: "string option"
  tr_attachments :: "json list option"

record 'q run =
  r_id :: string
  r_sessionId :: string
  r_status :: run_status
  r_request :: 'q
  r_result :: "turn_result option"
  r_deliveryState :: "string option option"
  r_dedupKey :: "string option"
  r_attempts :: int
  r_errorAttempts :: int
  r_maxAttempts :: int
  r_leaseToken :: "string option"
  r_leaseExpiresAt :: "millis option"
  r_workerId :: "string option"
  r_createdAt :: millis
  r_startedAt :: "millis option"
  r_finishedAt :: "millis option"

record 'q run_store =
  rs_maxClaims :: "int option"
  rs_runs :: "(string, 'q run) jsmap"
  rs_byKey :: "(string, string) jsmap"
  rs_settled :: "'q run list"

record 'q enqueue_input =
  ei_sessionId :: string
  ei_request :: 'q
  ei_dedupKey :: "string option"
  ei_maxAttempts :: "int option"

datatype reap_outcome = Requeued | Parked

record reap_event =
  re_runId :: string
  re_sessionId :: string
  re_workerId :: "string option"
  re_attempts :: int
  re_errorAttempts :: int
  re_outcome :: reap_outcome

subsection \<open>Pure helpers of the store\<close>

definition isTerminal :: "run_status \<Rightarrow> bool" where
  "isTerminal st = (st = Done \<or> st = Failed)"

definition errorParks :: "'q run \<Rightarrow> int option \<Rightarrow> bool" where
  "errorParks r maxClaims =
     (r_errorAttempts r + 1 \<ge> r_maxAttempts r \<or>
      (case maxClaims of None \<Rightarrow> False | Some m \<Rightarrow> r_attempts r \<ge> m))"

definition leaseLapsed :: "'q run \<Rightarrow> millis \<Rightarrow> bool" where
  "leaseLapsed r asOf =
     (r_status r = Running \<and> (case r_leaseExpiresAt r of None \<Rightarrow> False | Some e \<Rightarrow> e \<le> asOf))"

definition sessionHasRunning :: "'q run_store \<Rightarrow> string \<Rightarrow> string option \<Rightarrow> bool" where
  "sessionHasRunning s sid exceptId =
     (\<exists>r \<in> set (jm_values (rs_runs s)).
        r_sessionId r = sid \<and> r_status r = Running \<and> Some (r_id r) \<noteq> exceptId)"

text \<open>A run object is mutated in place: it stays under its own id.\<close>

definition put_run :: "'q run \<Rightarrow> 'q run_store \<Rightarrow> 'q run_store" where
  "put_run r s = s\<lparr>rs_runs := jm_set (r_id r) r (rs_runs s)\<rparr>"

definition get_run :: "'q run_store \<Rightarrow> string \<Rightarrow> 'q run option" where
  "get_run s i = jm_get (rs_runs s) i"

definition settle :: "'q run \<Rightarrow> 'q run_store \<Rightarrow> 'q run_store" where
  "settle r s = (if \<not> isTerminal (r_status r) then s else s\<lparr>rs_settled := rs_settled s @ [r]\<rparr>)"

definition overClaimed :: "'q run_store \<Rightarrow> 'q run \<Rightarrow> bool" where
  "overClaimed s r = (case rs_maxClaims s of None \<Rightarrow> False | Some m \<Rightarrow> r_attempts r \<ge> m)"

definition lease_run :: "string \<Rightarrow> millis \<Rightarrow> string \<Rightarrow> int \<Rightarrow> 'q run \<Rightarrow> 'q run" where
  "lease_run uuid now workerId ttl r =
     r\<lparr>r_status := Running,
       r_leaseToken := Some uuid,
       r_leaseExpiresAt := Some (now + ttl),
       r_workerId := Some workerId,
       r_attempts := r_attempts r + 1,
       r_startedAt := Some (case r_startedAt r of None \<Rightarrow> now | Some t \<Rightarrow> t)\<rparr>"

definition crashLoopReason :: "'q run \<Rightarrow> string" where
  "crashLoopReason r =
     ''run parked after '' @ show_int (r_attempts r) @ '' claims without completing (suspected crash loop)''"

text \<open>\<open>retire\<close>: hand the run back to the queue or park it as failed.\<close>

definition retire ::
  "millis \<Rightarrow> 'q run \<Rightarrow> string \<Rightarrow> bool \<Rightarrow> millis option \<Rightarrow> bool \<Rightarrow> 'q run_store \<Rightarrow> (bool \<times> bool) \<times> 'q run_store"
where
  "retire now r err retry ifExpiredAt countsAsError s =
     (if r_status r \<noteq> Running then ((False, False), s)
      else if (case ifExpiredAt of None \<Rightarrow> False
               | Some t \<Rightarrow> (case r_leaseExpiresAt r of None \<Rightarrow> True | Some e \<Rightarrow> e > t)) then ((False, False), s)
      else
        let r1 = r\<lparr>r_leaseToken := None, r_leaseExpiresAt := None, r_workerId := None,
                   r_errorAttempts := r_errorAttempts r + (if countsAsError then 1 else 0)\<rparr>;
            over = overClaimed s r1
        in if retry \<and> r_errorAttempts r1 < r_maxAttempts r1 \<and> \<not> over
           then ((True, True), put_run (r1\<lparr>r_status := Pending\<rparr>) s)
           else
             let reason = (if \<not> countsAsError \<and> over \<and> retry \<and> r_errorAttempts r1 < r_maxAttempts r1
                           then crashLoopReason r1 else err);
                 r2 = r1\<lparr>r_status := Failed,
                         r_result := Some \<lparr>tr_status = TFailed, tr_sessionId = Some (r_sessionId r1),
                                           tr_reply = None, tr_reason = Some reason, tr_refusalKind = None, tr_attachments = None\<rparr>,
                         r_finishedAt := Some now\<rparr>
             in ((False, True), settle r2 (put_run r2 s)))"

subsection \<open>Operations\<close>

definition createMemoryRunStore :: "int option \<Rightarrow> 'q run_store" where
  "createMemoryRunStore maxClaims =
     \<lparr>rs_maxClaims = maxClaims, rs_runs = [], rs_byKey = [], rs_settled = []\<rparr>"

definition findByDedupKey :: "'q run_store \<Rightarrow> string option \<Rightarrow> 'q run option" where
  "findByDedupKey s key =
     (if truthy key then
        (case jm_get (rs_byKey s) (the key) of
           None \<Rightarrow> None
         | Some existingId \<Rightarrow> if existingId = [] then None else get_run s existingId)
      else None)"

definition newRun :: "string \<Rightarrow> millis \<Rightarrow> 'q enqueue_input \<Rightarrow> 'q run" where
  "newRun uuid now inp =
     \<lparr>r_id = uuid, r_sessionId = ei_sessionId inp, r_status = Pending, r_request = ei_request inp,
      r_result = None, r_deliveryState = None, r_dedupKey = ei_dedupKey inp,
      r_attempts = 0, r_errorAttempts = 0,
      r_maxAttempts = (case ei_maxAttempts inp of None \<Rightarrow> 3 | Some n \<Rightarrow> n),
      r_leaseToken = None, r_leaseExpiresAt = None, r_workerId = None,
      r_createdAt = now, r_startedAt = None, r_finishedAt = None\<rparr>"

definition enqueue ::
  "string \<Rightarrow> millis \<Rightarrow> 'q enqueue_input \<Rightarrow> 'q run_store \<Rightarrow> ('q run \<times> bool) \<times> 'q run_store"
where
  "enqueue uuid now inp s =
     (case findByDedupKey s (ei_dedupKey inp) of
        Some existing \<Rightarrow> ((existing, True), s)
      | None \<Rightarrow>
          let r = newRun uuid now inp; s1 = put_run r s
          in ((r, False),
              if truthy (ei_dedupKey inp)
              then s1\<lparr>rs_byKey := jm_set (the (ei_dedupKey inp)) uuid (rs_byKey s1)\<rparr> else s1))"

definition claimable :: "'q run_store \<Rightarrow> 'q run \<Rightarrow> bool" where
  "claimable s r = (r_status r = Pending \<and> \<not> sessionHasRunning s (r_sessionId r) None)"

definition claim :: "string \<Rightarrow> millis \<Rightarrow> string \<Rightarrow> int \<Rightarrow> 'q run_store \<Rightarrow> 'q run option \<times> 'q run_store" where
  "claim uuid now workerId ttl s =
     (case sort_key r_createdAt (filter (claimable s) (jm_values (rs_runs s))) of
        [] \<Rightarrow> (None, s)
      | r # _ \<Rightarrow> let r' = lease_run uuid now workerId ttl r in (Some r', put_run r' s))"

definition claimById ::
  "string \<Rightarrow> millis \<Rightarrow> string \<Rightarrow> string \<Rightarrow> int \<Rightarrow> 'q run_store \<Rightarrow> 'q run option \<times> 'q run_store"
where
  "claimById uuid now runId workerId ttl s =
     (case get_run s runId of
        None \<Rightarrow> (None, s)
      | Some r \<Rightarrow>
          if r_status r \<noteq> Pending \<or> sessionHasRunning s (r_sessionId r) None then (None, s)
          else let r' = lease_run uuid now workerId ttl r in (Some r', put_run r' s))"

definition heartbeat :: "millis \<Rightarrow> string \<Rightarrow> string \<Rightarrow> int \<Rightarrow> 'q run_store \<Rightarrow> bool \<times> 'q run_store" where
  "heartbeat now runId token ttl s =
     (case get_run s runId of
        None \<Rightarrow> (False, s)
      | Some r \<Rightarrow>
          if r_status r \<noteq> Running \<or> r_leaseToken r \<noteq> Some token then (False, s)
          else (True, put_run (r\<lparr>r_leaseExpiresAt := Some (now + ttl)\<rparr>) s))"

definition releaseRunLease :: "string \<Rightarrow> string \<Rightarrow> 'q run_store \<Rightarrow> bool \<times> 'q run_store" where
  "releaseRunLease runId token s =
     (case get_run s runId of
        None \<Rightarrow> (False, s)
      | Some r \<Rightarrow>
          if r_status r \<noteq> Running \<or> r_leaseToken r \<noteq> Some token then (False, s)
          else (True, put_run (r\<lparr>r_status := Pending, r_leaseToken := None,
                                 r_leaseExpiresAt := None, r_workerId := None\<rparr>) s))"

definition complete :: "millis \<Rightarrow> string \<Rightarrow> string \<Rightarrow> turn_result \<Rightarrow> 'q run_store \<Rightarrow> bool \<times> 'q run_store" where
  "complete now runId token res s =
     (case get_run s runId of
        None \<Rightarrow> (False, s)
      | Some r \<Rightarrow>
          if r_leaseToken r \<noteq> Some token then (False, s)
          else let r' = r\<lparr>r_status := Done, r_result := Some res, r_leaseToken := None,
                          r_leaseExpiresAt := None, r_finishedAt := Some now\<rparr>
               in (True, settle r' (put_run r' s)))"

definition fail :: "millis \<Rightarrow> string \<Rightarrow> string \<Rightarrow> string \<Rightarrow> bool \<Rightarrow> 'q run_store \<Rightarrow> bool \<times> 'q run_store" where
  "fail now runId token err retry s =
     (case get_run s runId of
        None \<Rightarrow> (False, s)
      | Some r \<Rightarrow>
          if r_leaseToken r \<noteq> Some token then (False, s)
          else (case retire now r err retry None True s of ((requeued, _), s') \<Rightarrow> (requeued, s')))"

definition setDeliveryState ::
  "string \<Rightarrow> string option \<Rightarrow> string option \<Rightarrow> 'q run_store \<Rightarrow> bool \<times> 'q run_store"
where
  "setDeliveryState runId token st s =
     (case get_run s runId of
        None \<Rightarrow> (False, s)
      | Some r \<Rightarrow>
          if token \<noteq> None \<and> r_leaseToken r \<noteq> token then (False, s)
          else (True, put_run (r\<lparr>r_deliveryState := Some st\<rparr>) s))"

definition activeForThread :: "string \<Rightarrow> 'q run_store \<Rightarrow> 'q run option" where
  "activeForThread sid s =
     (case sort_key (\<lambda>r. - r_createdAt r)
             (filter (\<lambda>r. r_sessionId r = sid \<and> \<not> isTerminal (r_status r)) (jm_values (rs_runs s))) of
        [] \<Rightarrow> None | r # _ \<Rightarrow> Some r)"

definition activeSessionIds :: "'q run_store \<Rightarrow> string list" where
  "activeSessionIds s =
     js_uniq (map r_sessionId (filter (\<lambda>r. \<not> isTerminal (r_status r)) (jm_values (rs_runs s))))"

definition list_runs :: "nat option \<Rightarrow> 'q run_store \<Rightarrow> 'q run list" where
  "list_runs limit s =
     take (case limit of None \<Rightarrow> 200 | Some n \<Rightarrow> n) (sort_key (\<lambda>r. - r_createdAt r) (jm_values (rs_runs s)))"

text \<open>
  The reaper's loop. It walks the runs whose lease had lapsed when it started; \<open>retire\<close>
  re-checks the lease against the same instant.
\<close>

record 'q reap_state =
  rp_store :: "'q run_store"
  rp_requeued :: int
  rp_parked :: int
  rp_sessions :: "string list"
  rp_events :: "reap_event list"

definition reapTooOld :: "millis \<Rightarrow> millis option \<Rightarrow> 'q run \<Rightarrow> bool" where
  "reapTooOld now maxAge r =
     (case (maxAge, r_startedAt r) of (Some a, Some t) \<Rightarrow> now - t > a | _ \<Rightarrow> False)"

definition reapOne :: "millis \<Rightarrow> millis option \<Rightarrow> string \<Rightarrow> 'q reap_state \<Rightarrow> 'q reap_state" where
  "reapOne now maxAge i st =
     (case get_run (rp_store st) i of
        None \<Rightarrow> st
      | Some r \<Rightarrow>
          let tooOld = reapTooOld now maxAge r;
              reason = (if tooOld then ''run exceeded max age (reaped)'' else ''lease expired (reaped)'')
          in (case retire now r reason (\<not> tooOld) (Some now) False (rp_store st) of
                ((requeued, applied), s') \<Rightarrow>
                  if \<not> applied then st
                  else
                    \<lparr>rp_store = s',
                     rp_requeued = rp_requeued st + (if requeued then 1 else 0),
                     rp_parked = rp_parked st + (if requeued then 0 else 1),
                     rp_sessions = rp_sessions st @ [r_sessionId r],
                     rp_events = rp_events st @
                       [\<lparr>re_runId = r_id r, re_sessionId = r_sessionId r, re_workerId = r_workerId r,
                         re_attempts = r_attempts r, re_errorAttempts = r_errorAttempts r,
                         re_outcome = (if requeued then Requeued else Parked)\<rparr>]\<rparr>))"

definition expiredIds :: "millis \<Rightarrow> 'q run_store \<Rightarrow> string list" where
  "expiredIds now s = map r_id (filter (\<lambda>r. leaseLapsed r now) (jm_values (rs_runs s)))"

definition reapExpired :: "millis \<Rightarrow> millis option \<Rightarrow> 'q run_store \<Rightarrow> 'q reap_state" where
  "reapExpired now maxAge s =
     fold (reapOne now maxAge) (expiredIds now s)
       \<lparr>rp_store = s, rp_requeued = 0, rp_parked = 0, rp_sessions = [], rp_events = []\<rparr>"

text \<open>The tool ledger: outputs of completed tool calls, replayed when an attempt resumes.\<close>

definition ledgerKey :: "string \<Rightarrow> nat \<Rightarrow> nat \<Rightarrow> string" where
  "ledgerKey runId attempt callIndex = runId @ '':'' @ show_nat attempt @ '':'' @ show_nat callIndex"

definition ledgerBegin :: "(string, string) jsmap \<Rightarrow> string \<Rightarrow> nat \<Rightarrow> nat \<Rightarrow> string option" where
  "ledgerBegin l runId attempt callIndex = jm_get l (ledgerKey runId attempt callIndex)"

definition ledgerRecord ::
  "string \<Rightarrow> nat \<Rightarrow> nat \<Rightarrow> string \<Rightarrow> (string, string) jsmap \<Rightarrow> (string, string) jsmap"
where
  "ledgerRecord runId attempt callIndex out l = jm_set (ledgerKey runId attempt callIndex) out l"

subsection \<open>The state machine and its invariant\<close>

text \<open>One step is one store operation; a new run gets an id that is not in use.\<close>

inductive run_step :: "'q run_store \<Rightarrow> 'q run_store \<Rightarrow> bool" where
  step_enqueue: "get_run s uuid = None \<Longrightarrow> uuid \<noteq> [] \<Longrightarrow> run_step s (snd (enqueue uuid now inp s))"
| step_claim: "run_step s (snd (claim uuid now w ttl s))"
| step_claimById: "run_step s (snd (claimById uuid now i w ttl s))"
| step_heartbeat: "run_step s (snd (heartbeat now i tok ttl s))"
| step_release: "run_step s (snd (releaseRunLease i tok s))"
| step_complete: "run_step s (snd (complete now i tok res s))"
| step_fail: "run_step s (snd (fail now i tok err retry s))"
| step_delivery: "run_step s (snd (setDeliveryState i otok st s))"
| step_reap: "run_step s (rp_store (reapExpired now maxAge s))"

text \<open>
  A run is well formed when its lease fields agree with its status, its result and finishing time
  are there exactly when it is terminal, and errors never outnumber attempts.
\<close>

definition run_wf :: "'q run \<Rightarrow> bool" where
  "run_wf r \<longleftrightarrow>
     (r_leaseToken r \<noteq> None \<longleftrightarrow> r_status r = Running) \<and>
     (r_leaseExpiresAt r \<noteq> None \<longleftrightarrow> r_status r = Running) \<and>
     (r_status r = Running \<longrightarrow> r_workerId r \<noteq> None \<and> r_errorAttempts r < r_attempts r) \<and>
     (r_result r \<noteq> None \<longleftrightarrow> isTerminal (r_status r)) \<and>
     (r_finishedAt r \<noteq> None \<longleftrightarrow> isTerminal (r_status r)) \<and>
     0 \<le> r_errorAttempts r \<and> r_errorAttempts r \<le> r_attempts r \<and>
     (r_startedAt r \<noteq> None \<longleftrightarrow> 0 < r_attempts r)"

definition one_running :: "'q run_store \<Rightarrow> bool" where
  "one_running s \<longleftrightarrow>
     (\<forall>i j r r'. get_run s i = Some r \<longrightarrow> get_run s j = Some r' \<longrightarrow> r_status r = Running \<longrightarrow>
        r_status r' = Running \<longrightarrow> r_sessionId r = r_sessionId r' \<longrightarrow> i = j)"

definition run_inv :: "'q run_store \<Rightarrow> bool" where
  "run_inv s \<longleftrightarrow>
     jm_ok (rs_runs s) \<and>
     (\<forall>i r. get_run s i = Some r \<longrightarrow> r_id r = i \<and> i \<noteq> [] \<and> run_wf r) \<and>
     one_running s \<and>
     (\<forall>k i. jm_get (rs_byKey s) k = Some i \<longrightarrow> (\<exists>r. get_run s i = Some r \<and> r_dedupKey r = Some k))"

lemmas run_op_defs = enqueue_def claim_def claimById_def heartbeat_def releaseRunLease_def
  complete_def fail_def setDeliveryState_def

lemma get_put_run [simp]: "get_run (put_run r s) i = (if i = r_id r then Some r else get_run s i)"
  by (simp add: get_run_def put_run_def)

lemma jm_ok_put_run [simp]: "jm_ok (rs_runs s) \<Longrightarrow> jm_ok (rs_runs (put_run r s))"
  by (simp add: put_run_def)

lemma byKey_put_run [simp]: "rs_byKey (put_run r s) = rs_byKey s"
  by (simp add: put_run_def)

lemma maxClaims_put_run [simp]: "rs_maxClaims (put_run r s) = rs_maxClaims s"
  by (simp add: put_run_def)

lemma settle_simps [simp]:
  "get_run (settle r s) i = get_run s i" "rs_runs (settle r s) = rs_runs s"
  "rs_byKey (settle r s) = rs_byKey s" "rs_maxClaims (settle r s) = rs_maxClaims s"
  by (simp_all add: settle_def get_run_def)

lemma run_inv_settle [simp]: "run_inv (settle r s) = run_inv s"
  by (simp add: run_inv_def one_running_def)

lemma run_invD:
  assumes "run_inv s" "get_run s i = Some r"
  shows "r_id r = i" "i \<noteq> []" "run_wf r"
  using assms by (auto simp: run_inv_def)

lemma one_runningD:
  "run_inv s \<Longrightarrow> get_run s i = Some r \<Longrightarrow> get_run s j = Some r' \<Longrightarrow> r_status r = Running \<Longrightarrow>
     r_status r' = Running \<Longrightarrow> r_sessionId r = r_sessionId r' \<Longrightarrow> i = j"
  unfolding run_inv_def one_running_def by blast

lemma run_inv_byKey:
  "run_inv s \<Longrightarrow> jm_get (rs_byKey s) k = Some i \<Longrightarrow> \<exists>r. get_run s i = Some r \<and> r_dedupKey r = Some k"
  by (simp add: run_inv_def)

lemma run_values_iff: "run_inv s \<Longrightarrow> r \<in> set (jm_values (rs_runs s)) \<longleftrightarrow> get_run s (r_id r) = Some r"
  by (metis get_run_def jm_values_iff run_invD(1) run_inv_def)

lemma run_ids_distinct: "run_inv s \<Longrightarrow> distinct (map r_id (filter P (jm_values (rs_runs s))))"
proof (rule distinct_map_filter)
  assume "run_inv s"
  then have "jm_ok (rs_runs s)" "map r_id (jm_values (rs_runs s)) = map fst (rs_runs s)"
    by (auto simp: run_inv_def get_run_def)
  then show "distinct (map r_id (jm_values (rs_runs s)))" by metis
qed

lemma sessionHasRunning_iff:
  "run_inv s \<Longrightarrow> sessionHasRunning s sid None \<longleftrightarrow>
     (\<exists>i r. get_run s i = Some r \<and> r_sessionId r = sid \<and> r_status r = Running)"
  unfolding sessionHasRunning_def by (metis run_values_iff run_invD(1) option.distinct(1))

text \<open>The one proof about writing a run back; every operation reduces to it.\<close>

lemma run_inv_put:
  assumes inv: "run_inv s" and old: "get_run s (r_id r') = Some r"
    and same: "r_sessionId r' = r_sessionId r" "r_dedupKey r' = r_dedupKey r"
    and wf: "run_wf r'"
    and excl: "r_status r' = Running \<Longrightarrow> r_status r = Running \<or> \<not> sessionHasRunning s (r_sessionId r) None"
  shows "run_inv (put_run r' s)"
proof -
  have "one_running (put_run r' s)"
    unfolding one_running_def
  proof (intro allI impI)
    fix i j a b
    assume a: "get_run (put_run r' s) i = Some a" and b: "get_run (put_run r' s) j = Some b"
      and run: "r_status a = Running" "r_status b = Running" and sess: "r_sessionId a = r_sessionId b"
    have one: "one_running s" using inv by (simp add: run_inv_def)
    note shr = sessionHasRunning_iff [OF inv]
    show "i = j"
      using a b run sess one old same excl
      by (auto simp: shr one_running_def split: if_splits)
  qed
  then show ?thesis
    using inv old same wf by (auto simp: run_inv_def) (metis option.inject)
qed

lemma run_wf_lease: "run_wf r \<Longrightarrow> r_status r = Pending \<Longrightarrow> run_wf (lease_run uuid now w ttl r)"
  by (auto simp: run_wf_def lease_run_def isTerminal_def split: option.splits)

lemma lease_run_simps [simp]:
  "r_id (lease_run uuid now w ttl r) = r_id r" "r_sessionId (lease_run uuid now w ttl r) = r_sessionId r"
  "r_dedupKey (lease_run uuid now w ttl r) = r_dedupKey r" "r_status (lease_run uuid now w ttl r) = Running"
  "r_leaseToken (lease_run uuid now w ttl r) = Some uuid" "r_maxAttempts (lease_run uuid now w ttl r) = r_maxAttempts r"
  "r_attempts (lease_run uuid now w ttl r) = r_attempts r + 1"
  "r_errorAttempts (lease_run uuid now w ttl r) = r_errorAttempts r"
  "r_deliveryState (lease_run uuid now w ttl r) = r_deliveryState r"
  by (simp_all add: lease_run_def)

lemma run_inv_lease:
  assumes "run_inv s" "get_run s (r_id r) = Some r" "claimable s r"
  shows "run_inv (put_run (lease_run uuid now w ttl r) s)"
  using assms by (intro run_inv_put) (auto simp: claimable_def intro: run_wf_lease run_invD)

lemma claim_cases:
  assumes "run_inv s"
  obtains (none) "claim uuid now w ttl s = (None, s)" "filter (claimable s) (jm_values (rs_runs s)) = []"
  | (some) r where "get_run s (r_id r) = Some r" "claimable s r"
      "\<forall>r'. get_run s (r_id r') = Some r' \<longrightarrow> claimable s r' \<longrightarrow> r_createdAt r \<le> r_createdAt r'"
      "claim uuid now w ttl s =
         (Some (lease_run uuid now w ttl r), put_run (lease_run uuid now w ttl r) s)"
proof (cases "sort_key r_createdAt (filter (claimable s) (jm_values (rs_runs s)))")
  case Nil
  then have "filter (claimable s) (jm_values (rs_runs s)) = []"
    by (metis length_0_conv length_sort)
  with Nil show thesis by (intro none) (simp_all add: claim_def)
next
  case (Cons r rs)
  let ?xs = "filter (claimable s) (jm_values (rs_runs s))"
  have r: "r \<in> set ?xs" using Cons by (metis list.set_intros(1) set_sort)
  have le: "r_createdAt r \<le> r_createdAt r'" if "r' \<in> set ?xs" for r'
  proof -
    have "sorted (map r_createdAt (r # rs))" using Cons by (metis sorted_sort_key)
    moreover have "r' \<in> set (r # rs)" using that Cons by (metis set_sort)
    ultimately show ?thesis by auto
  qed
  show thesis
  proof (rule some)
    show "get_run s (r_id r) = Some r" "claimable s r"
      using r assms run_values_iff by auto
    show "\<forall>r'. get_run s (r_id r') = Some r' \<longrightarrow> claimable s r' \<longrightarrow> r_createdAt r \<le> r_createdAt r'"
      using le by (simp add: run_values_iff [OF assms, symmetric])
    show "claim uuid now w ttl s =
         (Some (lease_run uuid now w ttl r), put_run (lease_run uuid now w ttl r) s)"
      using Cons by (simp add: claim_def Let_def)
  qed
qed

text \<open>What \<open>retire\<close> does: nothing, or hand the run back, or park it as failed.\<close>

lemma retire_cases [consumes 2, case_names skip requeue park]:
  assumes "run_inv s" "get_run s (r_id r) = Some r"
  obtains "retire now r err retry ife cae s = ((False, False), s)"
  | r' where "r_status r = Running"
      "retire now r err retry ife cae s = ((True, True), put_run r' s)"
      "r_id r' = r_id r" "r_status r' = Pending" "run_wf r'" "r_sessionId r' = r_sessionId r"
      "r_dedupKey r' = r_dedupKey r"
  | r' where "r_status r = Running"
      "retire now r err retry ife cae s = ((False, True), settle r' (put_run r' s))"
      "r_id r' = r_id r" "r_status r' = Failed" "run_wf r'" "r_sessionId r' = r_sessionId r"
      "r_dedupKey r' = r_dedupKey r"
proof -
  let ?late = "case ife of None \<Rightarrow> False
     | Some t \<Rightarrow> (case r_leaseExpiresAt r of None \<Rightarrow> True | Some e \<Rightarrow> e > t)"
  let ?r1 = "r\<lparr>r_leaseToken := None, r_leaseExpiresAt := None, r_workerId := None,
     r_errorAttempts := r_errorAttempts r + (if cae then 1 else 0)\<rparr>"
  let ?retry = "retry \<and> r_errorAttempts ?r1 < r_maxAttempts ?r1 \<and> \<not> overClaimed s ?r1"
  note wf = run_invD(3) [OF assms]
  consider (a) "r_status r \<noteq> Running \<or> ?late" | (b) "r_status r = Running" "\<not> ?late" ?retry
    | (c) "r_status r = Running" "\<not> ?late" "\<not> ?retry" by blast
  then show thesis
  proof cases
    case a
    then show thesis by (intro that(1)) (auto simp: retire_def)
  next
    case b
    let ?r2 = "?r1\<lparr>r_status := Pending\<rparr>"
    have "retire now r err retry ife cae s = ((True, True), put_run ?r2 s)"
      using b by (simp only: retire_def Let_def if_False if_True simp_thms)
    then show thesis using b wf
      by (intro that(2) [of ?r2]) (auto simp: run_wf_def isTerminal_def)
  next
    case c
    let ?r2 = "?r1\<lparr>r_status := Failed,
       r_result := Some \<lparr>tr_status = TFailed, tr_sessionId = Some (r_sessionId ?r1), tr_reply = None,
         tr_reason = Some (if \<not> cae \<and> overClaimed s ?r1 \<and> retry \<and> r_errorAttempts ?r1 < r_maxAttempts ?r1
           then crashLoopReason ?r1 else err), tr_refusalKind = None, tr_attachments = None\<rparr>,
       r_finishedAt := Some now\<rparr>"
    have "retire now r err retry ife cae s = ((False, True), settle ?r2 (put_run ?r2 s))"
      using c by (simp only: retire_def Let_def if_False simp_thms)
    then show thesis using c wf
      by (intro that(3) [of ?r2]) (auto simp: run_wf_def isTerminal_def)
  qed
qed

lemma run_inv_retire:
  assumes "run_inv s" "get_run s (r_id r) = Some r"
  shows "run_inv (snd (retire now r err retry ife cae s))"
  using assms
proof (cases rule: retire_cases [where now = now and err = err and retry = retry and ife = ife and cae = cae])
  case skip
  with assms show ?thesis by simp
next
  case (requeue r')
  with assms show ?thesis by (auto intro!: run_inv_put)
next
  case (park r')
  with assms show ?thesis by (auto intro!: run_inv_put)
qed

lemma run_inv_reapOne: "run_inv (rp_store st) \<Longrightarrow> run_inv (rp_store (reapOne now maxAge i st))"
  using run_inv_retire [of "rp_store st"] run_invD(1) [of "rp_store st"]
  by (auto simp: reapOne_def Let_def case_prod_unfold split: option.split)

lemma run_inv_reap_fold:
  "run_inv (rp_store st) \<Longrightarrow> run_inv (rp_store (fold (reapOne now maxAge) is st))"
  by (induction "is" arbitrary: st) (auto intro: run_inv_reapOne)

lemma run_inv_reap: "run_inv s \<Longrightarrow> run_inv (rp_store (reapExpired now maxAge s))"
  unfolding reapExpired_def by (rule run_inv_reap_fold) simp

lemma run_inv_enqueue:
  assumes "run_inv s" "get_run s uuid = None" "uuid \<noteq> []"
  shows "run_inv (snd (enqueue uuid now inp s))"
proof (cases "findByDedupKey s (ei_dedupKey inp)")
  case (Some r)
  with assms show ?thesis by (simp add: enqueue_def)
next
  case None
  let ?r = "newRun uuid now inp" and ?s = "snd (enqueue uuid now inp s)"
  have new: "r_id ?r = uuid" "r_status ?r = Pending" "run_wf ?r" "r_dedupKey ?r = ei_dedupKey inp"
    by (simp_all add: newRun_def run_wf_def isTerminal_def)
  have runs: "rs_runs ?s = rs_runs (put_run ?r s)"
    using None by (simp add: enqueue_def Let_def)
  then have get: "get_run ?s i = (if i = uuid then Some ?r else get_run s i)" for i
    using new(1) by (metis get_put_run get_run_def)
  have key: "jm_get (rs_byKey ?s) k =
      (if truthy (ei_dedupKey inp) \<and> k = the (ei_dedupKey inp) then Some uuid else jm_get (rs_byKey s) k)" for k
    using None by (simp add: enqueue_def Let_def)
  have "one_running ?s"
    using assms(1) new(2) by (auto simp: one_running_def get run_inv_def)
  moreover have "jm_ok (rs_runs ?s)"
    using assms(1) runs by (metis jm_ok_put_run run_inv_def)
  moreover have "\<exists>r. get_run ?s i = Some r \<and> r_dedupKey r = Some k" if "jm_get (rs_byKey ?s) k = Some i" for k i
  proof (cases "truthy (ei_dedupKey inp) \<and> k = the (ei_dedupKey inp)")
    case True
    with that new(4) show ?thesis unfolding key get by (cases "ei_dedupKey inp") auto
  next
    case False
    with that have "jm_get (rs_byKey s) k = Some i" unfolding key by presburger
    then obtain r where "get_run s i = Some r" "r_dedupKey r = Some k"
      using run_inv_byKey [OF assms(1)] by blast
    with assms(2) show ?thesis unfolding get by auto
  qed
  ultimately show ?thesis
    using assms new unfolding run_inv_def by (auto simp: get)
qed

lemma run_inv_fail: "run_inv s \<Longrightarrow> run_inv (snd (fail now i tok err retry s))"
  using run_inv_retire [of s] run_invD(1) [of s i]
  by (auto simp: fail_def case_prod_unfold split: option.split)

lemma run_inv_heartbeat: "run_inv s \<Longrightarrow> run_inv (snd (heartbeat now i tok ttl s))"
  using run_invD [of s i]
  by (auto simp: heartbeat_def run_wf_def intro!: run_inv_put split: option.split)

lemma run_inv_release: "run_inv s \<Longrightarrow> run_inv (snd (releaseRunLease i tok s))"
  using run_invD [of s i]
  by (auto simp: releaseRunLease_def run_wf_def isTerminal_def intro!: run_inv_put split: option.split)

lemma run_inv_complete: "run_inv s \<Longrightarrow> run_inv (snd (complete now i tok res s))"
  using run_invD [of s i]
  by (auto simp: complete_def Let_def run_wf_def isTerminal_def intro!: run_inv_put split: option.split)

lemma run_inv_delivery: "run_inv s \<Longrightarrow> run_inv (snd (setDeliveryState i otok st s))"
  using run_invD [of s i]
  by (auto simp: setDeliveryState_def run_wf_def intro!: run_inv_put split: option.split)

lemma run_inv_claim: "run_inv s \<Longrightarrow> run_inv (snd (claim uuid now w ttl s))"
  by (rule claim_cases [of s uuid now w ttl]) (auto intro: run_inv_lease)

lemma run_inv_claimById: "run_inv s \<Longrightarrow> run_inv (snd (claimById uuid now i w ttl s))"
  using run_inv_lease [of s] run_invD(1) [of s i]
  by (auto simp: claimById_def claimable_def Let_def split: option.split)

lemmas run_inv_ops = run_inv_enqueue run_inv_claim run_inv_claimById run_inv_heartbeat run_inv_release
  run_inv_complete run_inv_fail run_inv_delivery run_inv_reap

lemma run_step_inv: "run_step s t \<Longrightarrow> run_inv s \<Longrightarrow> run_inv t"
  by (induction rule: run_step.induct) (auto intro: run_inv_ops)

interpretation runs: step_system run_step run_inv
  by unfold_locales (rule run_step_inv)

lemma run_inv_init: "run_inv (createMemoryRunStore m)"
  by (simp add: createMemoryRunStore_def run_inv_def one_running_def get_run_def)

text \<open>
  What a run keeps for good: its identity, a claim count that only grows and, once it is
  terminal, everything but the delivery bookkeeping.
\<close>

definition run_le :: "'q run_store \<Rightarrow> 'q run_store \<Rightarrow> bool" where
  "run_le s t \<longleftrightarrow>
     (\<forall>i r. get_run s i = Some r \<longrightarrow>
        (\<exists>r'. get_run t i = Some r' \<and> r_sessionId r' = r_sessionId r \<and> r_request r' = r_request r \<and>
           r_createdAt r' = r_createdAt r \<and> r_attempts r \<le> r_attempts r' \<and>
           r_errorAttempts r \<le> r_errorAttempts r' \<and>
           (isTerminal (r_status r) \<longrightarrow> r'\<lparr>r_deliveryState := r_deliveryState r\<rparr> = r)))"

lemma run_le_refl: "run_le s s"
  by (simp add: run_le_def)

lemma run_le_trans: "run_le s t \<Longrightarrow> run_le t u \<Longrightarrow> run_le s u"
proof -
  assume st: "run_le s t" and tu: "run_le t u"
  show "run_le s u"
    unfolding run_le_def
  proof (intro allI impI)
    fix i r
    assume "get_run s i = Some r"
    with st obtain r' where r': "get_run t i = Some r'"
      and le: "r_sessionId r' = r_sessionId r" "r_request r' = r_request r" "r_createdAt r' = r_createdAt r"
        "r_attempts r \<le> r_attempts r'" "r_errorAttempts r \<le> r_errorAttempts r'"
      and fix1: "isTerminal (r_status r) \<longrightarrow> r'\<lparr>r_deliveryState := r_deliveryState r\<rparr> = r"
      unfolding run_le_def by blast
    from tu r' obtain r'' where r'': "get_run u i = Some r''"
      and le': "r_sessionId r'' = r_sessionId r'" "r_request r'' = r_request r'" "r_createdAt r'' = r_createdAt r'"
        "r_attempts r' \<le> r_attempts r''" "r_errorAttempts r' \<le> r_errorAttempts r''"
      and fix2: "isTerminal (r_status r') \<longrightarrow> r''\<lparr>r_deliveryState := r_deliveryState r'\<rparr> = r'"
      unfolding run_le_def by blast
    have "r''\<lparr>r_deliveryState := r_deliveryState r\<rparr> = r" if "isTerminal (r_status r)"
    proof -
      from that fix1 have eq: "r'\<lparr>r_deliveryState := r_deliveryState r\<rparr> = r" by simp
      then have "r_status r' = r_status r" by (metis run.select_convs(3) run.surjective run.update_convs(6))
      with that fix2 have "r''\<lparr>r_deliveryState := r_deliveryState r'\<rparr> = r'" by simp
      then have "r''\<lparr>r_deliveryState := r_deliveryState r\<rparr> = r'\<lparr>r_deliveryState := r_deliveryState r\<rparr>"
        by (metis (no_types, lifting) run.surjective run.update_convs(6))
      with eq show ?thesis by simp
    qed
    with r'' le le' show "\<exists>r'. get_run u i = Some r' \<and> r_sessionId r' = r_sessionId r \<and> r_request r' = r_request r \<and>
        r_createdAt r' = r_createdAt r \<and> r_attempts r \<le> r_attempts r' \<and>
        r_errorAttempts r \<le> r_errorAttempts r' \<and>
        (isTerminal (r_status r) \<longrightarrow> r'\<lparr>r_deliveryState := r_deliveryState r\<rparr> = r)"
      by auto
  qed
qed

lemma run_le_put:
  assumes "get_run s (r_id r') = Some r" "r_sessionId r' = r_sessionId r" "r_request r' = r_request r"
    "r_createdAt r' = r_createdAt r" "r_attempts r \<le> r_attempts r'" "r_errorAttempts r \<le> r_errorAttempts r'"
    "isTerminal (r_status r) \<Longrightarrow> r'\<lparr>r_deliveryState := r_deliveryState r\<rparr> = r"
  shows "run_le s (put_run r' s)"
  using assms by (auto simp: run_le_def)

lemma run_le_settle [simp]: "run_le s (settle r t) = run_le s t"
  by (simp add: run_le_def)

lemma run_le_retire:
  assumes "run_inv s" "get_run s (r_id r) = Some r"
  shows "run_le s (snd (retire now r err retry ife cae s))"
  using assms
  by (auto simp: retire_def Let_def isTerminal_def run_le_refl intro!: run_le_put)

lemma run_le_reapOne:
  "run_inv (rp_store st) \<Longrightarrow> run_le (rp_store st) (rp_store (reapOne now maxAge i st))"
  using run_le_retire [of "rp_store st"] run_invD(1) [of "rp_store st"]
  by (auto simp: reapOne_def Let_def case_prod_unfold run_le_refl split: option.split)

lemma run_le_reap_fold:
  "run_inv (rp_store st) \<Longrightarrow> run_le (rp_store st) (rp_store (fold (reapOne now maxAge) is st))"
proof (induction "is" arbitrary: st)
  case Nil
  then show ?case by (simp add: run_le_refl)
next
  case (Cons i "is")
  from Cons.prems have "run_inv (rp_store (reapOne now maxAge i st))" by (rule run_inv_reapOne)
  from Cons.IH [OF this] run_le_reapOne [OF Cons.prems] show ?case
    by (auto intro: run_le_trans)
qed

lemma run_le_reap: "run_inv s \<Longrightarrow> run_le s (rp_store (reapExpired now maxAge s))"
  unfolding reapExpired_def using run_le_reap_fold [of "\<lparr>rp_store = s, rp_requeued = 0, rp_parked = 0,
    rp_sessions = [], rp_events = []\<rparr>"] by simp

lemma run_le_enqueue: "get_run s uuid = None \<Longrightarrow> run_le s (snd (enqueue uuid now inp s))"
  by (auto simp: enqueue_def run_le_def Let_def newRun_def put_run_def get_run_def split: option.split)

lemma run_le_lease:
  assumes "get_run s (r_id r) = Some r" "claimable s r"
  shows "run_le s (put_run (lease_run uuid now w ttl r) s)"
  using assms by (intro run_le_put) (auto simp: lease_run_def claimable_def isTerminal_def)

lemma run_le_claim: "run_inv s \<Longrightarrow> run_le s (snd (claim uuid now w ttl s))"
  by (rule claim_cases [of s uuid now w ttl]) (auto intro: run_le_lease run_le_refl)

lemma run_le_ops:
  assumes inv: "run_inv s"
  shows "run_le s (snd (claimById uuid now i w ttl s))" "run_le s (snd (heartbeat now i tok ttl s))"
    "run_le s (snd (releaseRunLease i tok s))" "run_le s (snd (complete now i tok res s))"
    "run_le s (snd (fail now i tok err retry s))" "run_le s (snd (setDeliveryState i otok st s))"
proof -
  note d = run_invD [OF inv]
  show "run_le s (snd (claimById uuid now i w ttl s))"
    using run_le_lease [of s] d(1) [of i]
    by (auto simp: claimById_def claimable_def Let_def run_le_refl split: option.split)
  show "run_le s (snd (heartbeat now i tok ttl s))" "run_le s (snd (releaseRunLease i tok s))"
    using d(1) [of i]
    by (auto simp: heartbeat_def releaseRunLease_def isTerminal_def run_le_refl
        intro!: run_le_put split: option.split)
  show "run_le s (snd (complete now i tok res s))"
    using d(1,3) [of i]
    by (auto simp: complete_def Let_def isTerminal_def run_wf_def run_le_refl
        intro!: run_le_put split: option.split)
  show "run_le s (snd (fail now i tok err retry s))"
    using run_le_retire [OF inv] d(1) [of i]
    by (auto simp: fail_def case_prod_unfold run_le_refl split: option.split)
  show "run_le s (snd (setDeliveryState i otok st s))"
    using d(1) [of i]
    by (auto simp: setDeliveryState_def run_le_refl intro!: run_le_put split: option.split)
qed

lemma run_step_le: "run_step s t \<Longrightarrow> run_inv s \<Longrightarrow> run_le s t"
  by (induction rule: run_step.induct) (auto intro: run_le_ops run_le_claim run_le_enqueue run_le_reap)

interpretation runs_history: step_preorder run_step run_inv run_le
  by unfold_locales (auto intro: run_le_refl run_le_trans run_step_le)

subsection \<open>The reaper retires exactly the lapsed leases\<close>

lemma reapOne_lapsed:
  assumes inv: "run_inv (rp_store st)" and r: "get_run (rp_store st) i = Some r" and lapsed: "leaseLapsed r now"
  shows "\<exists>r'. (\<forall>j. get_run (rp_store (reapOne now maxAge i st)) j =
                 (if j = i then Some r' else get_run (rp_store st) j)) \<and>
           r_status r' \<noteq> Running \<and>
           rp_requeued (reapOne now maxAge i st) + rp_parked (reapOne now maxAge i st) =
             rp_requeued st + rp_parked st + 1 \<and>
           rp_sessions (reapOne now maxAge i st) = rp_sessions st @ [r_sessionId r]"
proof -
  let ?old = "reapTooOld now maxAge r"
  let ?err = "if ?old then ''run exceeded max age (reaped)'' else ''lease expired (reaped)''"
  have id: "r_id r = i" using run_invD(1) [OF inv r] .
  have app: "snd (fst (retire now r ?err (\<not> ?old) (Some now) False (rp_store st)))"
    using lapsed by (auto simp: leaseLapsed_def retire_def Let_def split: option.splits)
  have "get_run (rp_store st) (r_id r) = Some r" using r id by simp
  with inv show ?thesis
  proof (cases rule: retire_cases
      [where now = now and err = ?err and retry = "\<not> ?old" and ife = "Some now" and cae = False])
    case skip
    with app show ?thesis by simp
  next
    case (requeue r')
    then show ?thesis using r id by (intro exI [of _ r']) (simp add: reapOne_def Let_def)
  next
    case (park r')
    then show ?thesis using r id by (intro exI [of _ r']) (simp add: reapOne_def Let_def)
  qed
qed

lemma reap_fold_spec:
  assumes "run_inv (rp_store st)" "distinct is"
    "\<forall>i \<in> set is. \<exists>r. get_run (rp_store st) i = Some r \<and> leaseLapsed r now"
  shows "(\<forall>i. i \<notin> set is \<longrightarrow> get_run (rp_store (fold (reapOne now maxAge) is st)) i = get_run (rp_store st) i) \<and>
    (\<forall>i \<in> set is. \<exists>r. get_run (rp_store (fold (reapOne now maxAge) is st)) i = Some r \<and> r_status r \<noteq> Running) \<and>
    rp_requeued (fold (reapOne now maxAge) is st) + rp_parked (fold (reapOne now maxAge) is st) =
      rp_requeued st + rp_parked st + int (length is) \<and>
    rp_sessions (fold (reapOne now maxAge) is st) =
      rp_sessions st @ map (\<lambda>i. r_sessionId (the (get_run (rp_store st) i))) is"
  using assms
proof (induction "is" arbitrary: st)
  case Nil
  then show ?case by simp
next
  case (Cons i "is")
  let ?st = "reapOne now maxAge i st"
  from Cons.prems obtain r where r: "get_run (rp_store st) i = Some r" "leaseLapsed r now" by auto
  from reapOne_lapsed [OF Cons.prems(1) this, where maxAge = maxAge] obtain r' where
    get: "\<And>j. get_run (rp_store ?st) j = (if j = i then Some r' else get_run (rp_store st) j)"
    and r': "r_status r' \<noteq> Running"
    and cnt: "rp_requeued ?st + rp_parked ?st = rp_requeued st + rp_parked st + 1"
    and ses: "rp_sessions ?st = rp_sessions st @ [r_sessionId r]" by blast
  have inv: "run_inv (rp_store ?st)" using Cons.prems(1) by (rule run_inv_reapOne)
  have other: "\<forall>j \<in> set is. j \<noteq> i" using Cons.prems(2) by auto
  have "\<forall>j \<in> set is. \<exists>r. get_run (rp_store ?st) j = Some r \<and> leaseLapsed r now"
    using Cons.prems(3) other by (simp add: get)
  note IH = Cons.IH [OF inv _ this]
  have "map (\<lambda>j. r_sessionId (the (get_run (rp_store ?st) j))) is =
        map (\<lambda>j. r_sessionId (the (get_run (rp_store st) j))) is"
    using other by (simp add: get)
  with IH Cons.prems(2) get r r' cnt ses show ?case by auto
qed

subsection \<open>Properties\<close>

text \<open>A small queue used by the witnesses: one run, enqueued at 5 and claimed at 10 for 100 ms.\<close>

definition ex_input :: "unit enqueue_input" where
  "ex_input = \<lparr>ei_sessionId = ''s'', ei_request = (), ei_dedupKey = Some ''k'', ei_maxAttempts = None\<rparr>"

definition ex_queued :: "unit run_store" where
  "ex_queued = snd (enqueue ''r'' 5 ex_input (createMemoryRunStore None))"

definition ex_claimed :: "unit run_store" where
  "ex_claimed = snd (claim ''t'' 10 ''w'' 100 ex_queued)"

lemmas ex_run_defs = ex_input_def ex_queued_def ex_claimed_def createMemoryRunStore_def run_op_defs
  findByDedupKey_def newRun_def put_run_def get_run_def claimable_def sessionHasRunning_def lease_run_def Let_def

lemma ex_queued_reachable: "run_step\<^sup>*\<^sup>* (createMemoryRunStore None) ex_queued"
  unfolding ex_queued_def
  by (rule r_into_rtranclp, rule step_enqueue) (simp_all add: createMemoryRunStore_def get_run_def)

lemma ex_claimed_reachable: "run_step\<^sup>*\<^sup>* (createMemoryRunStore None) ex_claimed"
  unfolding ex_claimed_def
  by (rule rtranclp.rtrancl_into_rtrancl [OF ex_queued_reachable step_claim])

lemma reachable_run_inv: "run_step\<^sup>*\<^sup>* (createMemoryRunStore m) s \<Longrightarrow> run_inv s"
  using runs.steps_inv run_inv_init by blast

lemma ex_claimed_run:
  "get_run ex_claimed ''r'' = Some \<lparr>r_id = ''r'', r_sessionId = ''s'', r_status = Running, r_request = (),
     r_result = None, r_deliveryState = None, r_dedupKey = Some ''k'', r_attempts = 1, r_errorAttempts = 0,
     r_maxAttempts = 3, r_leaseToken = Some ''t'', r_leaseExpiresAt = Some 110, r_workerId = Some ''w'',
     r_createdAt = 5, r_startedAt = Some 10, r_finishedAt = None\<rparr>"
  by (simp add: ex_run_defs)

text \<open>
  C1. In every state the queue can reach, at most one run of a session is running, whatever the
  workers, the reaper and the producers did and in whatever order.
\<close>

theorem session_mutual_exclusion:
  assumes "run_step\<^sup>*\<^sup>* (createMemoryRunStore m) s"
  shows "length (filter (\<lambda>r. r_status r = Running \<and> r_sessionId r = sid) (jm_values (rs_runs s))) \<le> 1"
proof -
  let ?f = "filter (\<lambda>r. r_status r = Running \<and> r_sessionId r = sid) (jm_values (rs_runs s))"
  have inv: "run_inv s" using assms by (rule reachable_run_inv)
  then have d: "distinct ?f" using run_ids_distinct distinct_map by blast
  have "a = b" if "a \<in> set ?f" "b \<in> set ?f" for a b
  proof -
    from that inv have "get_run s (r_id a) = Some a" "get_run s (r_id b) = Some b"
      by (simp_all add: run_values_iff [symmetric])
    moreover from that have "r_status a = Running" "r_status b = Running" "r_sessionId a = r_sessionId b" by auto
    ultimately show ?thesis using one_runningD [OF inv] by (metis option.inject)
  qed
  then have "card (set ?f) \<le> Suc 0" using card_le_Suc0_iff_eq [of "set ?f"] by blast
  with d show ?thesis by (metis One_nat_def distinct_card)
qed

theorem session_mutual_exclusion_witness:
  "run_step\<^sup>*\<^sup>* (createMemoryRunStore None) ex_claimed \<and>
   length (filter (\<lambda>r. r_status r = Running \<and> r_sessionId r = ''s'') (jm_values (rs_runs ex_claimed))) \<le> 1"
  using ex_claimed_reachable session_mutual_exclusion [OF ex_claimed_reachable, of "''s''"] by blast

text \<open>
  C2. A finished run is final: once it is done or failed, no later sequence of store operations
  changes anything of it but the delivery bookkeeping, and it never disappears.
\<close>

theorem terminal_run_is_final:
  assumes "run_step\<^sup>*\<^sup>* (createMemoryRunStore m) s" "run_step\<^sup>*\<^sup>* s t"
    and "get_run s i = Some r" "isTerminal (r_status r)"
  shows "\<exists>r'. get_run t i = Some r' \<and> r'\<lparr>r_deliveryState := r_deliveryState r\<rparr> = r"
proof -
  have "run_le s t" using assms(1,2) reachable_run_inv runs_history.steps_R by blast
  with assms(3,4) show ?thesis unfolding run_le_def by blast
qed

definition ex_done :: "unit run_store" where
  "ex_done = snd (complete 20 ''r'' ''t''
     \<lparr>tr_status = TOk, tr_sessionId = None, tr_reply = Some ''hi'', tr_reason = None, tr_refusalKind = None, tr_attachments = None\<rparr> ex_claimed)"

lemma ex_done_reachable: "run_step\<^sup>*\<^sup>* (createMemoryRunStore None) ex_done"
  unfolding ex_done_def by (rule rtranclp.rtrancl_into_rtrancl [OF ex_claimed_reachable step_complete])

theorem terminal_run_is_final_witness:
  "\<exists>r r'. get_run ex_done ''r'' = Some r \<and> isTerminal (r_status r) \<and>
     get_run (snd (setDeliveryState ''r'' None (Some ''e'') ex_done)) ''r'' = Some r' \<and>
     r'\<lparr>r_deliveryState := r_deliveryState r\<rparr> = r"
proof -
  obtain r where r: "get_run ex_done ''r'' = Some r" "isTerminal (r_status r)"
    using that by (simp add: ex_done_def complete_def ex_claimed_run Let_def isTerminal_def)
  have "run_step\<^sup>*\<^sup>* ex_done (snd (setDeliveryState ''r'' None (Some ''e'') ex_done))"
    by (rule r_into_rtranclp, rule step_delivery)
  from terminal_run_is_final [OF ex_done_reachable this r] r show ?thesis by blast
qed

text \<open>
  Fencing: an operation that presents a lease token other than the run's current one is
  refused and changes nothing, so a worker whose lease was reaped or handed on cannot touch the run.
\<close>

theorem stale_lease_is_fenced:
  assumes "get_run s i = Some r" "r_leaseToken r \<noteq> Some tok"
  shows "heartbeat now i tok ttl s = (False, s) \<and> releaseRunLease i tok s = (False, s) \<and>
    complete now i tok res s = (False, s) \<and> fail now i tok err retry s = (False, s) \<and>
    setDeliveryState i (Some tok) st s = (False, s)"
  using assms by (simp add: run_op_defs)

theorem stale_lease_is_fenced_witness:
  "heartbeat 50 ''r'' ''old'' 100 ex_claimed = (False, ex_claimed) \<and>
   releaseRunLease ''r'' ''old'' ex_claimed = (False, ex_claimed) \<and>
   complete 50 ''r'' ''old'' \<lparr>tr_status = TOk, tr_sessionId = None, tr_reply = None, tr_reason = None, tr_refusalKind = None, tr_attachments = None\<rparr> ex_claimed
     = (False, ex_claimed) \<and>
   fail 50 ''r'' ''old'' ''x'' True ex_claimed = (False, ex_claimed) \<and>
   setDeliveryState ''r'' (Some ''old'') None ex_claimed = (False, ex_claimed)"
  by (rule stale_lease_is_fenced [OF ex_claimed_run]) simp

text \<open>
  The queue is fair by age and never idles: a claim takes a pending run of a session that has
  nothing running, no such run is older than the one taken, the claimed run holds the new token and
  counts one more attempt; and a claim comes back empty exactly when there is no such run.
\<close>

theorem claim_takes_oldest:
  assumes "run_inv s"
  shows "case claim uuid now w ttl s of
      (None, s') \<Rightarrow> s' = s \<and> (\<forall>i. case get_run s i of None \<Rightarrow> True | Some r \<Rightarrow> \<not> claimable s r)
    | (Some r', s') \<Rightarrow>
        (\<exists>r. get_run s (r_id r) = Some r \<and> claimable s r \<and> r' = lease_run uuid now w ttl r \<and>
          s' = put_run r' s \<and>
          (\<forall>i. case get_run s i of None \<Rightarrow> True | Some q \<Rightarrow> \<not> claimable s q \<or> r_createdAt r \<le> r_createdAt q))"
  using assms
proof (cases rule: claim_cases [where uuid = uuid and now = now and w = w and ttl = ttl, consumes 1])
  case none
  have "\<not> claimable s r" if "get_run s i = Some r" for i r
  proof -
    from that have "r \<in> set (jm_values (rs_runs s))"
      using jm_get_in_values unfolding get_run_def by fast
    with none(2) show ?thesis by (auto simp: filter_empty_conv)
  qed
  with none(1) show ?thesis by (auto split: option.split)
next
  case (some r)
  have "\<not> claimable s q \<or> r_createdAt r \<le> r_createdAt q" if "get_run s i = Some q" for i q
    using some(3) run_invD(1) [OF assms that] that by blast
  with some show ?thesis by (auto split: option.split)
qed

theorem claim_takes_oldest_witness:
  "run_inv ex_queued \<and>
   (\<exists>r. get_run ex_queued (r_id r) = Some r \<and> fst (claim ''t'' 10 ''w'' 100 ex_queued) = Some (lease_run ''t'' 10 ''w'' 100 r))"
proof -
  have "fst (claim ''t'' 10 ''w'' 100 ex_queued) \<noteq> None" by code_simp
  then show ?thesis
    using reachable_run_inv [OF ex_queued_reachable]
      claim_takes_oldest [OF reachable_run_inv [OF ex_queued_reachable], of "''t''" 10 "''w''" 100]
    by (auto split: prod.splits option.splits)
qed

text \<open>
  The worker tells a turn that it is the final attempt exactly when an error would park the
  run: with a retryable error, \<open>fail\<close> requeues the leased run if and only if \<open>errorParks\<close> is
  false for the run as claimed.
\<close>

theorem errorParks_predicts_fail:
  assumes "run_inv s" "get_run s i = Some r" "r_leaseToken r = Some tok"
  shows "fst (fail now i tok err True s) = (\<not> errorParks r (rs_maxClaims s))"
proof -
  have "r_status r = Running" using run_invD(3) [OF assms(1,2)] assms(3) by (auto simp: run_wf_def)
  with assms show ?thesis
    by (auto simp: fail_def retire_def errorParks_def overClaimed_def Let_def split: option.splits)
qed

theorem errorParks_predicts_fail_witness:
  "\<exists>r. get_run ex_claimed ''r'' = Some r \<and>
     fst (fail 50 ''r'' ''t'' ''boom'' True ex_claimed) = (\<not> errorParks r (rs_maxClaims ex_claimed))"
  using errorParks_predicts_fail
    [OF reachable_run_inv [OF ex_claimed_reachable] ex_claimed_run, of "''t''" 50 "''boom''"] ex_claimed_run
  by simp

text \<open>
  The reaper retires exactly the runs whose lease has lapsed: it accounts for each of them
  once, afterwards none of them is running and no lease is lapsed, and every other run is untouched.
\<close>

theorem reap_retires_exactly_lapsed:
  fixes s :: "'q run_store" and now :: millis and maxAge :: "millis option"
  defines "p \<equiv> reapExpired now maxAge s"
  assumes "run_inv s"
  shows "rp_requeued p + rp_parked p = int (length (expiredIds now s)) \<and>
    rp_sessions p = map (\<lambda>i. r_sessionId (the (get_run s i))) (expiredIds now s) \<and>
    (\<forall>i. case get_run s i of
           None \<Rightarrow> get_run (rp_store p) i = None
         | Some r \<Rightarrow> if leaseLapsed r now
             then (\<exists>r'. get_run (rp_store p) i = Some r' \<and> r_status r' \<noteq> Running)
             else get_run (rp_store p) i = Some r)"
proof -
  let ?ids = "expiredIds now s"
  have lap: "i \<in> set ?ids \<longleftrightarrow> (\<exists>r. get_run s i = Some r \<and> leaseLapsed r now)" for i
  proof -
    have "i \<in> set ?ids \<longleftrightarrow> (\<exists>r. r \<in> set (jm_values (rs_runs s)) \<and> leaseLapsed r now \<and> r_id r = i)"
      unfolding expiredIds_def by auto
    then show ?thesis using run_values_iff [OF assms(2)] run_invD(1) [OF assms(2)] by metis
  qed
  have "distinct ?ids"
    using run_ids_distinct [OF assms(2)] unfolding expiredIds_def .
  from reap_fold_spec [of "\<lparr>rp_store = s, rp_requeued = 0, rp_parked = 0, rp_sessions = [], rp_events = []\<rparr>",
      OF _ this, of now maxAge] lap assms(2)
  show ?thesis unfolding p_def reapExpired_def by (auto split: option.split)
qed

theorem reap_retires_exactly_lapsed_witness:
  "run_inv ex_claimed \<and>
   rp_requeued (reapExpired 500 None ex_claimed) + rp_parked (reapExpired 500 None ex_claimed) =
     int (length (expiredIds 500 ex_claimed))"
  using reap_retires_exactly_lapsed [OF reachable_run_inv [OF ex_claimed_reachable], of 500 None]
    reachable_run_inv [OF ex_claimed_reachable] by simp

text \<open>
  Enqueueing is idempotent under its deduplication key: after a run was enqueued under a
  non-empty key, enqueueing again under that key returns the run stored under the first id, marks it
  as deduplicated and leaves the queue as it is.
\<close>

theorem enqueue_dedup:
  assumes "run_inv s" "get_run s uuid = None" "uuid \<noteq> []" "ei_dedupKey inp = Some k" "k \<noteq> []"
    and "ei_dedupKey inp' = Some k"
  shows "let s1 = snd (enqueue uuid now inp s)
    in enqueue uuid' now' inp' s1 = ((fst (fst (enqueue uuid now inp s)), True), s1)"
proof (cases "findByDedupKey s (Some k)")
  case None
  with assms show ?thesis
    by (simp add: enqueue_def Let_def findByDedupKey_def newRun_def put_run_def get_run_def)
next
  case (Some r)
  with assms show ?thesis by (simp add: enqueue_def Let_def)
qed

theorem enqueue_dedup_witness:
  "enqueue ''q'' 9 ex_input ex_queued = ((fst (fst (enqueue ''r'' 5 ex_input (createMemoryRunStore None))), True), ex_queued)"
  using enqueue_dedup [OF run_inv_init, of None "''r''" ex_input "''k''" ex_input 5 "''q''" 9]
  by (simp add: ex_queued_def ex_input_def createMemoryRunStore_def get_run_def Let_def)

lemma ledgerKey_inj: "ledgerKey i a c = ledgerKey i' a' c' \<longleftrightarrow> i = i' \<and> a = a' \<and> c = c'"
proof
  have nd: "\<not> digit (CHR '':'')" by (simp add: digit_def)
  assume eq: "ledgerKey i a c = ledgerKey i' a' c'"
  then have "(i @ '':'' @ show_nat a) @ CHR '':'' # show_nat c = (i' @ '':'' @ show_nat a') @ CHR '':'' # show_nat c'"
    by (simp add: ledgerKey_def)
  from split_last_unique [OF this show_nat_not_in [OF nd] show_nat_not_in [OF nd]]
  have "i @ CHR '':'' # show_nat a = i' @ CHR '':'' # show_nat a'" and c: "show_nat c = show_nat c'"
    by simp_all
  from split_last_unique [OF this(1) show_nat_not_in [OF nd] show_nat_not_in [OF nd]] c
  show "i = i' \<and> a = a' \<and> c = c'" by simp
qed simp

text \<open>
  The tool ledger replays the recorded output of exactly the recorded call: ledger keys of
  different (run, attempt, call) triples never collide, even for run ids that contain colons.
\<close>

theorem ledger_replays_recorded:
  "ledgerBegin (ledgerRecord i a c out l) i' a' c' =
     (if i' = i \<and> a' = a \<and> c' = c then Some out else ledgerBegin l i' a' c')"
  by (auto simp: ledgerBegin_def ledgerRecord_def ledgerKey_inj)

end
