(* ===== verification/Scopes.thy ===== *)
theory Scopes
  imports Prelude
begin

section \<open>Scopes, people and resource references\<close>

text \<open>
  Models the vocabulary every component speaks: scope identifiers and principals
  (\<open>src/src/types.ts\<close>), who is the same person (\<open>src/src/directory/person.ts\<close>), resource
  references in grants (\<open>src/src/acl/resource-ref.ts\<close>), which history an audience may see
  (\<open>src/src/resolution/context-filter.ts\<close>), who can see a room (\<open>src/src/directory/visibility.ts\<close>) and whom
  a publication reaches by default (\<open>src/src/resolution/publish-audience.ts\<close>).
  Directory lookups are parameters: functions from a query to the directory's answer.
\<close>

subsection \<open>Scope identifiers\<close>

datatype principal_type = Internal | Guest

record principal =
  p_id :: string
  p_type :: principal_type
  p_teamIds :: "string list option"
  p_displayName :: "string option"

datatype scope_kind = Personal | Channel | Team | Org | Group

type_synonym scope_id = string

fun kind_name :: "scope_kind \<Rightarrow> string" where
  "kind_name Personal = ''personal''"
| "kind_name Channel = ''channel''"
| "kind_name Team = ''team''"
| "kind_name Org = ''org''"
| "kind_name Group = ''group''"

definition scope_kinds :: "scope_kind list" where
  "scope_kinds = [Personal, Channel, Team, Org, Group]"

definition isScopeKind :: "string \<Rightarrow> scope_kind option" where
  "isScopeKind s = find (\<lambda>k. kind_name k = s) scope_kinds"

definition scopeId :: "scope_kind \<Rightarrow> string \<Rightarrow> scope_id" where
  "scopeId k ref = kind_name k @ '':'' @ ref"

definition personalScope :: "string \<Rightarrow> scope_id" where
  "personalScope i = scopeId Personal i"

definition parseScopeId :: "scope_id \<Rightarrow> scope_kind option \<times> string" where
  "parseScopeId i =
     (case index_of (CHR '':'') i of
        None \<Rightarrow> (None, [])
      | Some sep \<Rightarrow> (isScopeKind (take sep i), drop (Suc sep) i))"

definition isManageableCreationScope :: "scope_id option \<Rightarrow> bool" where
  "isManageableCreationScope i =
     (truthy i \<and> (let k = fst (parseScopeId (the i)) in k = Some Channel \<or> k = Some Team))"

definition isSharedScope :: "scope_id option \<Rightarrow> bool" where
  "isSharedScope i =
     (truthy i \<and> (let k = fst (parseScopeId (the i)) in k = Some Channel \<or> k = Some Group))"

subsection \<open>People\<close>

definition personKey :: "string option \<Rightarrow> string" where
  "personKey i =
     (let s = js_trim (case i of None \<Rightarrow> [] | Some x \<Rightarrow> x)
      in if CHR ''@'' \<in> set s then to_lower s else s)"

definition samePerson :: "string option \<Rightarrow> string option \<Rightarrow> bool" where
  "samePerson a b = (personKey a \<noteq> [] \<and> personKey a = personKey b)"

record roster_person =
  rp_principalId :: "string option"
  rp_slackId :: "string option"

definition personKeys :: "roster_person option \<Rightarrow> string \<Rightarrow> string list" where
  "personKeys m rawId =
     js_uniq (filter (\<lambda>k. k \<noteq> [])
       (map personKey [Some rawId, Option.bind m rp_principalId, Option.bind m rp_slackId]))"

definition samePersonInDirectory :: "(string \<Rightarrow> roster_person option) \<Rightarrow> string \<Rightarrow> string \<Rightarrow> bool" where
  "samePersonInDirectory dir a b =
     (if samePerson (Some a) (Some b) then True
      else if personKey (Some a) = [] \<or> personKey (Some b) = [] then False
      else list_ex (\<lambda>k. k \<in> set (personKeys (dir b) b)) (personKeys (dir a) a))"

definition samePersonMatcher :: "(string \<Rightarrow> roster_person option) \<Rightarrow> string \<Rightarrow> string \<Rightarrow> bool" where
  "samePersonMatcher dir actorId i =
     (let row = dir actorId; keys = personKeys row actorId
      in if personKey (Some i) \<in> set keys then True
         else if row \<noteq> None then False
         else samePersonInDirectory dir i actorId)"

subsection \<open>Resource references\<close>

datatype resource_kind = RFile | RSkill | RDeploy | RCron | RServiceCred

record resource_ref =
  rr_kind :: resource_kind
  rr_id :: string

text \<open>\<open>PREFIX\<close>; files have none.\<close>

fun refPrefix :: "resource_kind \<Rightarrow> string" where
  "refPrefix RSkill = ''skill:''"
| "refPrefix RDeploy = ''deployment:''"
| "refPrefix RCron = ''cron:''"
| "refPrefix RServiceCred = ''service-cred:''"
| "refPrefix RFile = []"

definition resource_kinds :: "resource_kind list" where
  "resource_kinds = [RFile, RSkill, RDeploy, RCron, RServiceCred]"

definition encodeRef :: "resource_ref \<Rightarrow> string" where
  "encodeRef r = (if rr_kind r = RFile then rr_id r else refPrefix (rr_kind r) @ rr_id r)"

definition parseRef :: "string \<Rightarrow> resource_ref" where
  "parseRef s =
     (case find (\<lambda>k. k \<noteq> RFile \<and> starts_with (refPrefix k) s) resource_kinds of
        Some k \<Rightarrow> \<lparr>rr_kind = k, rr_id = drop (length (refPrefix k)) s\<rparr>
      | None \<Rightarrow> \<lparr>rr_kind = RFile, rr_id = s\<rparr>)"

subsection \<open>Which scopes a principal is entitled to\<close>

definition principalEntitledToScope :: "principal \<Rightarrow> scope_id \<Rightarrow> scope_id \<Rightarrow> scope_id \<Rightarrow> bool" where
  "principalEntitledToScope p label sessionScopeId orgScopeId =
     (if label = orgScopeId then True
      else if label = sessionScopeId then True
      else case parseScopeId label of
             (Some Personal, ref) \<Rightarrow> p_id p = ref
           | (Some Team, ref) \<Rightarrow> ref \<in> set (case p_teamIds p of None \<Rightarrow> [] | Some ts \<Rightarrow> ts)
           | _ \<Rightarrow> False)"

definition filterHistoryForAudience ::
  "('e \<Rightarrow> scope_id) \<Rightarrow> 'e list \<Rightarrow> principal list \<Rightarrow> scope_id \<Rightarrow> scope_id \<Rightarrow> 'e list"
where
  "filterHistoryForAudience scopeLabel entries audience sessionScopeId orgScopeId =
     (if audience = [] then []
      else filter (\<lambda>e. list_all (\<lambda>p. principalEntitledToScope p (scopeLabel e) sessionScopeId orgScopeId) audience)
             entries)"

subsection \<open>Who sees a room\<close>

datatype visibility_target = VDm string | VGroup string | VChannel string "bool option"

record visibility_directory =
  vd_channelMember :: "string \<Rightarrow> string \<Rightarrow> bool"
  vd_groupMember :: "string \<Rightarrow> string \<Rightarrow> bool"
  vd_listChannelsFor :: "(string \<Rightarrow> string list) option"

fun isVisible :: "visibility_directory \<Rightarrow> string \<Rightarrow> visibility_target \<Rightarrow> bool" where
  "isVisible dir actorId (VDm ownerId) = samePerson (Some actorId) (Some ownerId)"
| "isVisible dir actorId (VGroup groupId) = vd_groupMember dir groupId actorId"
| "isVisible dir actorId (VChannel channelId isPrivate) =
     (if isPrivate = Some True then vd_channelMember dir channelId actorId
      else if isPrivate = Some False then True
      else case vd_listChannelsFor dir of
             None \<Rightarrow> False
           | Some f \<Rightarrow> channelId \<in> set (f actorId))"

subsection \<open>Default audience of a publication\<close>

text \<open>The human-readable \<open>reason\<close> shown with an audience carries no decision and is left out.\<close>

datatype conversation_kind = CDm | CChannel | CGroup

datatype publish_audience_kind = PAOrg | PAMembers | PAOwner

record publish_audience =
  pa_kind :: publish_audience_kind
  pa_grantees :: "scope_id list"
  pa_memberCount :: "nat option"
  pa_incomplete :: bool

record publish_args =
  pg_kind :: conversation_kind
  pg_isPrivate :: "bool option"
  pg_isMpim :: "bool option"
  pg_members :: "principal list option"
  pg_orgScopeId :: scope_id
  pg_ownerId :: string

definition owner_only :: "bool \<Rightarrow> publish_audience" where
  "owner_only incomplete =
     \<lparr>pa_kind = PAOwner, pa_grantees = [], pa_memberCount = None, pa_incomplete = incomplete\<rparr>"

fun collectGrantees :: "string \<Rightarrow> string list \<Rightarrow> principal list \<Rightarrow> scope_id list" where
  "collectGrantees ownerId seen [] = []"
| "collectGrantees ownerId seen (m # ms) =
     (if p_type m \<noteq> Internal then collectGrantees ownerId seen ms
      else if p_id m = ownerId then collectGrantees ownerId seen ms
      else if p_id m \<in> set seen then collectGrantees ownerId seen ms
      else scopeId Personal (p_id m) # collectGrantees ownerId (p_id m # seen) ms)"

definition defaultPublishAudience :: "publish_args \<Rightarrow> publish_audience" where
  "defaultPublishAudience a =
     (if pg_kind a = CDm then owner_only False
      else if pg_kind a = CGroup \<or> pg_isMpim a = Some True then owner_only False
      else case pg_isPrivate a of
             Some False \<Rightarrow>
               \<lparr>pa_kind = PAOrg, pa_grantees = [pg_orgScopeId a], pa_memberCount = None, pa_incomplete = False\<rparr>
           | None \<Rightarrow> owner_only True
           | Some True \<Rightarrow>
               (case pg_members a of
                  None \<Rightarrow> owner_only True
                | Some members \<Rightarrow>
                    let grantees = collectGrantees (pg_ownerId a) [] members
                    in if grantees = [] then owner_only False
                       else \<lparr>pa_kind = PAMembers, pa_grantees = grantees,
                             pa_memberCount = Some (length grantees), pa_incomplete = False\<rparr>))"

subsection \<open>Lemmas\<close>

lemma scope_kinds_all: "k \<in> set scope_kinds"
  by (cases k) (simp_all add: scope_kinds_def)

lemma kind_name_inj [simp]: "kind_name k = kind_name l \<longleftrightarrow> k = l"
  by (cases k; cases l) simp_all

lemma isScopeKind_iff: "isScopeKind s = Some k \<longleftrightarrow> s = kind_name k"
  by (cases k) (auto simp: isScopeKind_def scope_kinds_def split: if_splits)

lemma kind_name_no_colon [simp]: "CHR '':'' \<notin> set (kind_name k)"
  by (cases k) simp_all

lemma parse_scopeId [simp]: "parseScopeId (scopeId k r) = (Some k, r)"
  using index_of_append [OF kind_name_no_colon, of k r]
  by (simp add: parseScopeId_def scopeId_def isScopeKind_iff)

lemma parseScopeId_Some: "parseScopeId i = (Some k, r) \<longleftrightarrow> i = scopeId k r"
proof
  assume p: "parseScopeId i = (Some k, r)"
  then obtain n where n: "index_of (CHR '':'') i = Some n" "isScopeKind (take n i) = Some k" "r = drop (Suc n) i"
    by (auto simp: parseScopeId_def split: option.splits)
  with index_of_Some [OF n(1)] show "i = scopeId k r"
    by (simp add: scopeId_def isScopeKind_iff)
qed simp

lemma scopeId_inj [simp]: "scopeId k r = scopeId l q \<longleftrightarrow> k = l \<and> r = q"
  by (metis parse_scopeId prod.inject option.inject)

lemma personKey_idem [simp]: "personKey (Some (personKey a)) = personKey a"
proof -
  have lower: "lower_char c = CHR ''@'' \<longleftrightarrow> c = CHR ''@''" for c
  proof
    assume l: "lower_char c = CHR ''@''"
    then have "of_char (lower_char c) = (64::nat)" by simp
    moreover have "of_char c < (256::nat)" by (metis of_char_mod_256 mod_less_divisor zero_less_numeral)
    ultimately have "lower_char c = c" by (auto simp: lower_char_def Let_def split: if_splits)
    with l show "c = CHR ''@''" by simp
  qed (simp add: lower_char_def)
  have at: "CHR ''@'' \<in> set (to_lower s) \<longleftrightarrow> CHR ''@'' \<in> set s" for s
    unfolding to_lower_def by (induction s) (simp_all add: lower eq_commute [of "CHR ''@''"])
  have trim: "js_trim (to_lower s) = to_lower (js_trim s)" for s
    by (simp add: js_trim_def to_lower_def dropWhile_map rev_map comp_def)
  show ?thesis by (auto simp: personKey_def Let_def at trim)
qed

lemma samePerson_sym: "samePerson a b \<Longrightarrow> samePerson b a"
  by (auto simp: samePerson_def)

lemma samePerson_trans: "samePerson a b \<Longrightarrow> samePerson b c \<Longrightarrow> samePerson a c"
  by (auto simp: samePerson_def)

text \<open>
  An entitlement check decides, for a principal and a resource's scope, what may be seen. Any
  such check yields an audience filter that only ever narrows when people join.
\<close>

locale entitlement =
  fixes entitled :: "'p \<Rightarrow> 'l \<Rightarrow> bool"
    and visible :: "('e \<Rightarrow> 'l) \<Rightarrow> 'e list \<Rightarrow> 'p list \<Rightarrow> 'e list"
  assumes visible_iff: "e \<in> set (visible label es audience) \<longleftrightarrow>
      audience \<noteq> [] \<and> e \<in> set es \<and> list_all (\<lambda>p. entitled p (label e)) audience"
begin

lemma visible_narrows:
  "set audience \<subseteq> set wider \<Longrightarrow> audience \<noteq> [] \<Longrightarrow> set (visible label es wider) \<subseteq> set (visible label es audience)"
  by (fastforce simp: visible_iff list_all_iff)

lemma visible_pairwise:
  "xs \<noteq> [] \<Longrightarrow> ys \<noteq> [] \<Longrightarrow>
     set (visible label es (xs @ ys)) = set (visible label es xs) \<inter> set (visible label es ys)"
  by (auto simp: visible_iff list_all_iff)

lemma visible_sound: "e \<in> set (visible label es audience) \<Longrightarrow> p \<in> set audience \<Longrightarrow> entitled p (label e)"
  by (simp add: visible_iff list_all_iff)

end

interpretation history: entitlement
  "\<lambda>p label. principalEntitledToScope p label sessionScopeId orgScopeId"
  "\<lambda>label es audience. filterHistoryForAudience label es audience sessionScopeId orgScopeId"
  for sessionScopeId orgScopeId
  by unfold_locales (auto simp: filterHistoryForAudience_def)

lemma collectGrantees_spec:
  "set (collectGrantees ownerId seen ms) =
     {scopeId Personal (p_id m) |m. m \<in> set ms \<and> p_type m = Internal \<and> p_id m \<noteq> ownerId \<and> p_id m \<notin> set seen} \<and>
   distinct (collectGrantees ownerId seen ms)"
proof (induction ownerId seen ms rule: collectGrantees.induct)
  case (1 ownerId seen)
  then show ?case by simp
next
  case (2 ownerId seen m ms)
  then show ?case by (auto split: if_splits)
qed

lemma parseRef_encode_nonfile: "rr_kind r \<noteq> RFile \<Longrightarrow> parseRef (encodeRef r) = r"
  by (cases r; cases "rr_kind r")
    (auto simp: parseRef_def encodeRef_def resource_kinds_def starts_with_def)

lemma encode_parseRef: "encodeRef (parseRef s) = s"
proof (cases "find (\<lambda>k. k \<noteq> RFile \<and> starts_with (refPrefix k) s) resource_kinds")
  case None
  then show ?thesis by (simp add: parseRef_def encodeRef_def)
next
  case (Some k)
  then have "k \<noteq> RFile" "starts_with (refPrefix k) s" by (auto simp: find_Some_iff)
  with Some show ?thesis by (simp add: parseRef_def encodeRef_def starts_with_drop)
qed

lemma parseRef_file_iff:
  "rr_kind (parseRef s) = RFile \<longleftrightarrow> (\<forall>k. k \<noteq> RFile \<longrightarrow> \<not> starts_with (refPrefix k) s)"
proof -
  have "k \<in> set resource_kinds" for k by (cases k) (simp_all add: resource_kinds_def)
  then show ?thesis
    by (auto simp: parseRef_def find_None_iff find_Some_iff split: option.splits)
qed

subsection \<open>Properties\<close>

text \<open>
  Scope identifiers round-trip: printing a kind and a reference parses back to them, even if
  the reference itself contains colons, and whatever parses with a kind is the printed form of it.
\<close>

theorem scopeId_roundtrip:
  "parseScopeId (scopeId k r) = (Some k, r) \<and> (parseScopeId i = (Some k, r) \<longleftrightarrow> i = scopeId k r)"
  by (simp add: parseScopeId_Some)

text \<open>
  Resource references in grants: decoding then encoding gives back every string; encoding then
  decoding gives back every reference except a file whose path starts with one of the prefixes
  \<open>skill:\<close>, \<open>deployment:\<close>, \<open>cron:\<close>, \<open>service-cred:\<close>, which decodes as that other kind.
\<close>

theorem resourceRef_roundtrip:
  "encodeRef (parseRef s) = s \<and>
   (parseRef (encodeRef r) \<noteq> r \<longleftrightarrow>
      rr_kind r = RFile \<and> (\<exists>k. k \<noteq> RFile \<and> starts_with (refPrefix k) (rr_id r)))"
proof (cases "rr_kind r = RFile")
  case True
  then have "encodeRef r = rr_id r" by (simp add: encodeRef_def)
  moreover have "parseRef (rr_id r) = r \<longleftrightarrow> rr_kind (parseRef (rr_id r)) = RFile"
    using True encode_parseRef [of "rr_id r"] by (auto simp: encodeRef_def intro: resource_ref.equality)
  ultimately show ?thesis using True parseRef_file_iff [of "rr_id r"] encode_parseRef by auto
next
  case False
  then show ?thesis by (simp add: encode_parseRef parseRef_encode_nonfile)
qed

text \<open>
  Identity of people is a partial equivalence: symmetric and transitive, reflexive exactly on
  ids that are not blank, and insensitive to surrounding space and, for addresses, to case.
\<close>

theorem samePerson_equivalence:
  "(samePerson a b = samePerson b a) \<and> (samePerson a b \<and> samePerson b c \<longrightarrow> samePerson a c) \<and>
   (samePerson a a \<longleftrightarrow> personKey a \<noteq> []) \<and> (personKey a \<noteq> [] \<longrightarrow> samePerson a (Some (personKey a)))"
  by (auto simp: samePerson_def)

theorem samePerson_equivalence_witness:
  "personKey (Some '' Ann@X.io '') = ''ann@x.io'' \<and> samePerson (Some '' Ann@X.io '') (Some ''ann@x.io'')"
proof -
  have k: "personKey (Some '' Ann@X.io '') = ''ann@x.io''" by code_simp
  then show ?thesis using samePerson_equivalence [of "Some '' Ann@X.io ''" None None] by simp
qed

text \<open>
  History shown to an audience contains exactly the entries whose scope label every member is
  entitled to, in order; so adding people to a non-empty audience can only remove entries.
\<close>

theorem history_narrows_with_audience:
  assumes "audience \<noteq> []" "set audience \<subseteq> set wider"
  shows "set (filterHistoryForAudience label es wider sess org) \<subseteq>
           set (filterHistoryForAudience label es audience sess org) \<and>
    (\<forall>e \<in> set (filterHistoryForAudience label es wider sess org).
       \<forall>p \<in> set wider. principalEntitledToScope p (label e) sess org)"
proof (intro conjI ballI)
  show "set (filterHistoryForAudience label es wider sess org) \<subseteq>
      set (filterHistoryForAudience label es audience sess org)"
    using assms by (intro history.visible_narrows)
qed (rule history.visible_sound)

theorem history_narrows_with_audience_witness:
  "let ann = \<lparr>p_id = ''ann'', p_type = Internal, p_teamIds = None, p_displayName = None\<rparr>;
       bob = ann\<lparr>p_id := ''bob''\<rparr>
   in set (filterHistoryForAudience id [''personal:ann'', ''org:o''] [ann, bob] ''channel:c'' ''org:o'') \<subseteq>
      set (filterHistoryForAudience id [''personal:ann'', ''org:o''] [ann] ''channel:c'' ''org:o'')"
  unfolding Let_def by (rule history_narrows_with_audience [THEN conjunct1]) simp_all

text \<open>
  The default audience of a publication never reaches further than the room: the whole
  organisation only for a channel known to be public; otherwise the grantees are personal scopes of
  internal members of that private channel other than the owner, each once, and a direct message, a
  group message or an unreadable channel shares with nobody else.
\<close>

theorem publish_audience_within_room:
  "let a' = defaultPublishAudience a in
   (pa_kind a' = PAOrg \<longleftrightarrow> pg_kind a = CChannel \<and> pg_isMpim a \<noteq> Some True \<and> pg_isPrivate a = Some False) \<and>
   (pa_kind a' = PAOwner \<longleftrightarrow> pa_grantees a' = []) \<and>
   (pa_kind a' = PAMembers \<longrightarrow>
      pg_kind a = CChannel \<and> pg_isPrivate a = Some True \<and> distinct (pa_grantees a') \<and>
      set (pa_grantees a') = {scopeId Personal (p_id m) |m. m \<in> set (the (pg_members a)) \<and>
        p_type m = Internal \<and> p_id m \<noteq> pg_ownerId a})"
proof (cases "pg_kind a = CChannel \<and> pg_isMpim a \<noteq> Some True")
  case False
  then have "defaultPublishAudience a = owner_only False"
    by (cases "pg_kind a") (auto simp: defaultPublishAudience_def)
  with False show ?thesis by (auto simp: owner_only_def)
next
  case True
  then have d: "defaultPublishAudience a =
      (case pg_isPrivate a of
         Some False \<Rightarrow> \<lparr>pa_kind = PAOrg, pa_grantees = [pg_orgScopeId a], pa_memberCount = None, pa_incomplete = False\<rparr>
       | None \<Rightarrow> owner_only True
       | Some True \<Rightarrow> (case pg_members a of None \<Rightarrow> owner_only True
          | Some members \<Rightarrow> let grantees = collectGrantees (pg_ownerId a) [] members
              in if grantees = [] then owner_only False
                 else \<lparr>pa_kind = PAMembers, pa_grantees = grantees, pa_memberCount = Some (length grantees),
                       pa_incomplete = False\<rparr>))"
    by (simp add: defaultPublishAudience_def)
  consider "pg_isPrivate a = None" | "pg_isPrivate a = Some False" | "pg_isPrivate a = Some True" "pg_members a = None"
    | ms where "pg_isPrivate a = Some True" "pg_members a = Some ms" by (metis (full_types) not_None_eq)
  then show ?thesis
  proof cases
    case 4
    with True d show ?thesis using collectGrantees_spec [of "pg_ownerId a" "[]" ms]
      by (simp add: owner_only_def Let_def)
  qed (use True d in \<open>simp_all add: owner_only_def Let_def\<close>)
qed

theorem publish_audience_within_room_witness:
  "let a = \<lparr>pg_kind = CChannel, pg_isPrivate = Some True, pg_isMpim = None,
        pg_members = Some [\<lparr>p_id = ''bob'', p_type = Internal, p_teamIds = None, p_displayName = None\<rparr>],
        pg_orgScopeId = ''org:o'', pg_ownerId = ''ann''\<rparr>
   in pa_kind (defaultPublishAudience a) = PAMembers \<and> distinct (pa_grantees (defaultPublishAudience a))"
  using publish_audience_within_room [of "\<lparr>pg_kind = CChannel, pg_isPrivate = Some True, pg_isMpim = None,
        pg_members = Some [\<lparr>p_id = ''bob'', p_type = Internal, p_teamIds = None, p_displayName = None\<rparr>],
        pg_orgScopeId = ''org:o'', pg_ownerId = ''ann''\<rparr>"]
  by (simp add: defaultPublishAudience_def Let_def)

end
