(* ===== verification/Egress.thy ===== *)
theory Egress
  imports Scopes
begin

section \<open>Egress policy: hosts, audience floors and the proxy's decision\<close>

text \<open>
  Models \<open>src/src/resolution/egress-policy.ts\<close> (parsing a policy, matching hosts, the decision),
  \<open>src/src/resolution/audience-floor.ts\<close> (the policy of an audience), the claim builder
  \<open>egressClaimAllowingControlPlane\<close> of \<open>src/src/core/orchestrator/turn-helpers.ts\<close> and the host
  decision of the proxy in \<open>src/src/egress-authz-main.ts\<close> with \<open>src/src/util/network.ts\<close>.
  The URL parser of the platform is the parameter \<open>url\<close> (\<open>new URL(s).hostname\<close>, \<open>None\<close> where it
  throws); DNS lookup and the address library \<open>node:net\<close> are parameters of \<open>decide\<close>.
\<close>

subsection \<open>Host names\<close>

record egress_policy =
  ep_allowedHosts :: "string list"
  ep_denyPrivateNetworks :: "bool option"
  ep_privateNetworkAllowedHosts :: "string list option"
  ep_deniedHosts :: "string list option"

definition strip_wildcard :: "string \<Rightarrow> string" where
  "strip_wildcard s = (if starts_with ''*.'' s then drop 2 s else s)"

definition strip_dot :: "string \<Rightarrow> string" where
  "strip_dot s = (if ends_with ''.'' s then butlast s else s)"

text \<open>\<open>replace(/^\[(.*)\]$/, "$1")\<close>; the dot matches no line terminator.\<close>

definition strip_brackets :: "string \<Rightarrow> string" where
  "strip_brackets s =
     (if length s \<ge> 2 \<and> starts_with ''['' s \<and> ends_with '']'' s \<and>
         list_all (\<lambda>c. c \<noteq> char_of (10::nat) \<and> c \<noteq> char_of (13::nat)) s
      then butlast (tl s) else s)"

definition normalizeHost :: "(string \<Rightarrow> string option) \<Rightarrow> string \<Rightarrow> string" where
  "normalizeHost url host =
     (let s = strip_brackets (strip_dot (strip_wildcard (to_lower (js_trim host))))
      in if s = [] then []
         else
           let isIPv6 = count_list s (CHR '':'') \<ge> 2
           in case url (''https://'' @ (if isIPv6 then ''['' @ s @ '']'' else s)) of
                Some h \<Rightarrow> strip_dot (strip_brackets h)
              | None \<Rightarrow> s)"

definition hostMatches :: "(string \<Rightarrow> string option) \<Rightarrow> string \<Rightarrow> string \<Rightarrow> bool" where
  "hostMatches url requestHost ruleHost =
     (let h = normalizeHost url requestHost; r = normalizeHost url ruleHost
      in if h = [] \<or> r = [] then False else h = r \<or> ends_with (''.'' @ r) h)"

definition isHostDenied :: "(string \<Rightarrow> string option) \<Rightarrow> string \<Rightarrow> string list option \<Rightarrow> bool" where
  "isHostDenied url host denied =
     (case denied of None \<Rightarrow> False | Some ds \<Rightarrow> list_ex (\<lambda>d. d \<noteq> [] \<and> hostMatches url host d) ds)"

datatype egress_verdict = EOk | EDenied | ENotAllowlisted

definition egressDecision ::
  "(string \<Rightarrow> string option) \<Rightarrow> string \<Rightarrow> egress_policy option \<Rightarrow> bool \<times> egress_verdict"
where
  "egressDecision url host policy =
     (case policy of
        None \<Rightarrow> (True, EOk)
      | Some p \<Rightarrow>
          if isHostDenied url host (ep_deniedHosts p) then (False, EDenied)
          else if ep_allowedHosts p \<noteq> [] \<and> \<not> list_ex (hostMatches url host) (ep_allowedHosts p)
          then (False, ENotAllowlisted)
          else (True, EOk))"

subsection \<open>Parsing a policy\<close>

text \<open>\<open>/\s|\*|:\/\/|[/?#@]/\<close>\<close>

definition notHostLike :: "string \<Rightarrow> bool" where
  "notHostLike s = list_ex (\<lambda>c. is_space c \<or> c \<in> set ''*/?#@'') s"

definition alnum :: "char \<Rightarrow> bool" where
  "alnum c = (let n = (of_char c :: nat) in (48 \<le> n \<and> n \<le> 57) \<or> (65 \<le> n \<and> n \<le> 90) \<or> (97 \<le> n \<and> n \<le> 122))"

text \<open>One label: 1 to 63 letters, digits and hyphens, no hyphen at either end.\<close>

definition hostLabel :: "string \<Rightarrow> bool" where
  "hostLabel l = (l \<noteq> [] \<and> length l \<le> 63 \<and> alnum (hd l) \<and> alnum (last l) \<and>
     list_all (\<lambda>c. alnum c \<or> c = CHR ''-'') l)"

definition validHostName :: "string \<Rightarrow> bool" where
  "validHostName s = list_all hostLabel (split_on (CHR ''.'') s)"

fun parseHostItems ::
  "(string \<Rightarrow> string option) \<Rightarrow> string \<Rightarrow> json list \<Rightarrow> string list \<Rightarrow> string + string list"
where
  "parseHostItems url name [] hosts = Inr hosts"
| "parseHostItems url name (JStr item # raw) hosts =
     (let candidate = js_trim item in
      if candidate = [] then parseHostItems url name raw hosts
      else if notHostLike candidate
      then Inl (candidate @ '' is not a host name; omit schemes, wildcards, ports, paths, and credentials'')
      else
        let colonCount = count_list candidate (CHR '':'') in
        if colonCount = 1 then Inl (candidate @ '' includes a port; enter a host name only'')
        else
          let normalized = normalizeHost url candidate in
          if normalized = [] \<or> (colonCount < 2 \<and> \<not> validHostName normalized)
          then Inl (candidate @ '' is not a valid host name'')
          else if normalized \<in> set hosts
          then Inl (name @ '' contains duplicate host '' @ normalized)
          else parseHostItems url name raw (hosts @ [normalized]))"
| "parseHostItems url name (_ # raw) hosts = Inl (name @ '' must contain only host names'')"

definition parseHostList :: "(string \<Rightarrow> string option) \<Rightarrow> string \<Rightarrow> json option \<Rightarrow> string + string list" where
  "parseHostList url name raw =
     (case raw of
        None \<Rightarrow> Inr []
      | Some JNull \<Rightarrow> Inr []
      | Some (JArr items) \<Rightarrow> parseHostItems url name items []
      | Some _ \<Rightarrow> Inl (name @ '' must be an array of host names''))"

definition parseEgressPolicy :: "(string \<Rightarrow> string option) \<Rightarrow> json \<Rightarrow> string + egress_policy" where
  "parseEgressPolicy url inp =
     (case inp of
        JObj fs \<Rightarrow>
          (case parseHostList url ''allowedHosts'' (map_of fs ''allowedHosts'') of
             Inl e \<Rightarrow> Inl e
           | Inr allowed \<Rightarrow>
               (case parseHostList url ''deniedHosts'' (map_of fs ''deniedHosts'') of
                  Inl e \<Rightarrow> Inl e
                | Inr denied \<Rightarrow>
                    (case find (\<lambda>h. h \<in> set denied) allowed of
                       Some overlap \<Rightarrow> Inl (overlap @ '' cannot appear in both allowedHosts and deniedHosts'')
                     | None \<Rightarrow> Inr \<lparr>ep_allowedHosts = allowed, ep_denyPrivateNetworks = None,
                                    ep_privateNetworkAllowedHosts = None, ep_deniedHosts = Some denied\<rparr>)))
      | _ \<Rightarrow> Inl ''egress requires { allowedHosts, deniedHosts }'')"

subsection \<open>The floor of an audience\<close>

type_synonym egress_config = "scope_id \<Rightarrow> egress_policy option"

definition principalScopes :: "principal \<Rightarrow> scope_id \<Rightarrow> scope_id option \<Rightarrow> scope_id list" where
  "principalScopes p orgScope contextScope =
     js_uniq (filter (\<lambda>s. s \<noteq> [])
       ([orgScope] @ (case contextScope of None \<Rightarrow> [] | Some c \<Rightarrow> [c]) @ [scopeId Personal (p_id p)] @
        map (scopeId Team) (case p_teamIds p of None \<Rightarrow> [] | Some ts \<Rightarrow> ts)))"

definition principalEgressHosts ::
  "principal \<Rightarrow> egress_config \<Rightarrow> scope_id \<Rightarrow> scope_id option \<Rightarrow> string list"
where
  "principalEgressHosts p config orgScope contextScope =
     js_uniq (concat (map (\<lambda>s. case config s of None \<Rightarrow> [] | Some e \<Rightarrow> ep_allowedHosts e)
                       (principalScopes p orgScope contextScope)))"

definition principalDeniedHosts ::
  "principal \<Rightarrow> egress_config \<Rightarrow> scope_id \<Rightarrow> scope_id option \<Rightarrow> string list"
where
  "principalDeniedHosts p config orgScope contextScope =
     js_uniq (concat (map (\<lambda>s. case Option.bind (config s) ep_deniedHosts of None \<Rightarrow> [] | Some hs \<Rightarrow> hs)
                       (principalScopes p orgScope contextScope)))"

definition audienceEgressFloor ::
  "principal list \<Rightarrow> egress_config \<Rightarrow> scope_id \<Rightarrow> scope_id option \<Rightarrow> string list"
where
  "audienceEgressFloor audience config orgScope contextScope =
     (case map (\<lambda>p. principalEgressHosts p config orgScope contextScope) audience of
        [] \<Rightarrow> []
      | first # rest \<Rightarrow> filter (\<lambda>h. list_all (\<lambda>s. h \<in> set s) rest) first)"

definition audienceDeniedFloor ::
  "principal list \<Rightarrow> egress_config \<Rightarrow> scope_id \<Rightarrow> scope_id option \<Rightarrow> string list"
where
  "audienceDeniedFloor audience config orgScope contextScope =
     js_uniq (concat (map (\<lambda>p. principalDeniedHosts p config orgScope contextScope) audience))"

text \<open>The egress part of \<open>resolve\<close> in \<open>src/src/resolution/resolution-service.ts\<close>.\<close>

definition audienceEgress ::
  "principal list \<Rightarrow> egress_config \<Rightarrow> scope_id \<Rightarrow> scope_id option \<Rightarrow> egress_policy"
where
  "audienceEgress audience config orgScope contextScope =
     \<lparr>ep_allowedHosts = audienceEgressFloor audience config orgScope contextScope,
      ep_denyPrivateNetworks = None, ep_privateNetworkAllowedHosts = None,
      ep_deniedHosts = Some (audienceDeniedFloor audience config orgScope contextScope)\<rparr>"

subsection \<open>The claim carried by a sandbox and the proxy's decision\<close>

definition egressClaimAllowingControlPlane ::
  "(string \<Rightarrow> string option) \<Rightarrow> egress_policy \<Rightarrow> string \<Rightarrow> bool \<Rightarrow> egress_policy option"
where
  "egressClaimAllowingControlPlane url egress apiBaseUrl denyPrivateNetworks =
     (let allowedHosts = ep_allowedHosts egress;
          deniedHosts = (case ep_deniedHosts egress of None \<Rightarrow> [] | Some ds \<Rightarrow> ds)
      in if allowedHosts = [] \<and> deniedHosts = [] \<and> \<not> denyPrivateNetworks then None
         else
           let coreHost = (if apiBaseUrl = [] then [] else case url apiBaseUrl of None \<Rightarrow> [] | Some h \<Rightarrow> h);
               safeDenied = (if coreHost \<noteq> [] then filter (\<lambda>d. \<not> hostMatches url coreHost d) deniedHosts
                             else deniedHosts);
               allowedWithCore = (if coreHost \<noteq> [] \<and> allowedHosts \<noteq> [] \<and> coreHost \<notin> set allowedHosts
                                  then allowedHosts @ [coreHost] else allowedHosts)
           in if allowedWithCore \<noteq> [] \<or> safeDenied \<noteq> [] \<or> denyPrivateNetworks
              then Some \<lparr>ep_allowedHosts = allowedWithCore,
                         ep_denyPrivateNetworks = (if denyPrivateNetworks then Some True else None),
                         ep_privateNetworkAllowedHosts =
                           (if denyPrivateNetworks \<and> coreHost \<noteq> [] then Some [coreHost] else None),
                         ep_deniedHosts = (if safeDenied \<noteq> [] then Some safeDenied else None)\<rparr>
              else None)"















subsection \<open>Lemmas\<close>

lemma floor_iff:
  "h \<in> set (audienceEgressFloor audience config org ctx) \<longleftrightarrow>
     audience \<noteq> [] \<and> (\<forall>p \<in> set audience. h \<in> set (principalEgressHosts p config org ctx))"
  by (cases audience) (auto simp: audienceEgressFloor_def list_all_iff)


lemma isHostDenied_mono:
  "isHostDenied url h (Some ds) \<Longrightarrow> set ds \<subseteq> set es \<Longrightarrow> isHostDenied url h (Some es)"
  by (auto simp: isHostDenied_def list_ex_iff)

lemma egressDecision_allow_iff:
  "fst (egressDecision url h (Some p)) \<longleftrightarrow>
     \<not> isHostDenied url h (ep_deniedHosts p) \<and>
     (ep_allowedHosts p = [] \<or> (\<exists>rule \<in> set (ep_allowedHosts p). hostMatches url h rule))"
  by (auto simp: egressDecision_def list_ex_iff)

lemma parseHostItems_spec:
  "parseHostItems url name raw hosts = Inr out \<Longrightarrow> distinct hosts \<Longrightarrow> [] \<notin> set hosts \<Longrightarrow>
     distinct out \<and> [] \<notin> set out \<and> set hosts \<subseteq> set out"
  by (induction url name raw hosts arbitrary: out rule: parseHostItems.induct)
    (auto simp: Let_def split: if_splits)

lemma parseHostList_spec: "parseHostList url name raw = Inr out \<Longrightarrow> distinct out \<and> [] \<notin> set out"
  using parseHostItems_spec [of url name _ "[]" out]
  by (auto simp: parseHostList_def split: option.splits json.splits)

subsection \<open>Properties\<close>

text \<open>
  A denied host stays denied: the decision allows a host exactly when no deny rule matches it
  and the allowlist is empty or has a rule for it; in particular no allow rule overrides a deny rule.
\<close>

theorem egress_deny_wins:
  "(fst (egressDecision url h (Some p)) \<longleftrightarrow>
     \<not> isHostDenied url h (ep_deniedHosts p) \<and>
     (ep_allowedHosts p = [] \<or> (\<exists>rule \<in> set (ep_allowedHosts p). hostMatches url h rule))) \<and>
   (snd (egressDecision url h (Some p)) = EDenied \<longleftrightarrow> isHostDenied url h (ep_deniedHosts p))"
  by (auto simp: egressDecision_allow_iff) (auto simp: egressDecision_def split: if_splits)


definition ex_ann :: principal where
  "ex_ann = \<lparr>p_id = ''ann'', p_type = Internal, p_teamIds = None, p_displayName = None\<rparr>"

definition ex_bob :: principal where
  "ex_bob = \<lparr>p_id = ''bob'', p_type = Internal, p_teamIds = None, p_displayName = None\<rparr>"

definition ex_config :: egress_config where
  "ex_config s =
     (if s = ''personal:ann'' then Some \<lparr>ep_allowedHosts = [''a.test''], ep_denyPrivateNetworks = None,
        ep_privateNetworkAllowedHosts = None, ep_deniedHosts = Some [''x.test'']\<rparr>
      else if s = ''personal:bob'' then Some \<lparr>ep_allowedHosts = [''b.test''], ep_denyPrivateNetworks = None,
        ep_privateNetworkAllowedHosts = None, ep_deniedHosts = None\<rparr>
      else None)"


text \<open>
  An audience whose members have no allowlisted host in common gets an empty allowlist, which
  the decision reads as no restriction at all: every host that is not denied is allowed, although
  each member alone is restricted to an allowlist.
\<close>

theorem empty_floor_is_unrestricted:
  assumes "\<nexists>h. \<forall>p \<in> set audience. h \<in> set (principalEgressHosts p config org ctx)"
    and "\<not> isHostDenied url host (Some (audienceDeniedFloor audience config org ctx))"
  shows "egressDecision url host (Some (audienceEgress audience config org ctx)) = (True, EOk)"
proof -
  have "h \<notin> set (audienceEgressFloor audience config org ctx)" for h
    using assms(1) unfolding floor_iff by simp
  then have "audienceEgressFloor audience config org ctx = []" by (metis list.set_intros(1) neq_Nil_conv)
  with assms(2) show ?thesis by (simp add: egressDecision_def audienceEgress_def)
qed

text \<open>
  The witness: Ann may reach only \<open>a.test\<close>, Bob only \<open>b.test\<close>; alone, neither reaches \<open>evil.test\<close>,
  together they do.
\<close>

lemma ex_hosts:
  "principalEgressHosts ex_ann ex_config ''org:o'' None = [''a.test'']"
  "principalEgressHosts ex_bob ex_config ''org:o'' None = [''b.test'']"
  by code_simp+

lemma ex_denied: "audienceDeniedFloor [ex_ann, ex_bob] ex_config ''org:o'' None = [''x.test'']"
  by code_simp

theorem empty_floor_is_unrestricted_witness:
  "egressDecision (\<lambda>_. None) ''evil.test'' (Some (audienceEgress [ex_ann] ex_config ''org:o'' None)) =
     (False, ENotAllowlisted) \<and>
   egressDecision (\<lambda>_. None) ''evil.test'' (Some (audienceEgress [ex_bob] ex_config ''org:o'' None)) =
     (False, ENotAllowlisted) \<and>
   egressDecision (\<lambda>_. None) ''evil.test'' (Some (audienceEgress [ex_ann, ex_bob] ex_config ''org:o'' None)) =
     (True, EOk)"
proof -
  have "\<not> isHostDenied (\<lambda>_. None) ''evil.test'' (Some (audienceDeniedFloor [ex_ann, ex_bob] ex_config ''org:o'' None))"
    unfolding ex_denied by code_simp
  moreover have "\<nexists>h. \<forall>p \<in> set [ex_ann, ex_bob]. h \<in> set (principalEgressHosts p ex_config ''org:o'' None)"
    by (simp add: ex_hosts)
  ultimately have "egressDecision (\<lambda>_. None) ''evil.test''
      (Some (audienceEgress [ex_ann, ex_bob] ex_config ''org:o'' None)) = (True, EOk)"
    by (intro empty_floor_is_unrestricted)
  moreover have "egressDecision (\<lambda>_. None) ''evil.test'' (Some (audienceEgress [ex_ann] ex_config ''org:o'' None)) =
     (False, ENotAllowlisted)" by code_simp
  moreover have "egressDecision (\<lambda>_. None) ''evil.test'' (Some (audienceEgress [ex_bob] ex_config ''org:o'' None)) =
     (False, ENotAllowlisted)" by code_simp
  ultimately show ?thesis by blast
qed




text \<open>
  C5. A parsed policy is unambiguous: both lists are free of duplicates and of empty names, and no
  host is on both.
\<close>

theorem parsed_egress_policy_unambiguous:
  assumes "parseEgressPolicy url inp = Inr p"
  shows "distinct (ep_allowedHosts p) \<and> (\<exists>ds. ep_deniedHosts p = Some ds \<and> distinct ds \<and>
    set (ep_allowedHosts p) \<inter> set ds = {} \<and> [] \<notin> set (ep_allowedHosts p) \<union> set ds)"
  using assms
  by (auto simp: parseEgressPolicy_def find_None_iff dest!: parseHostList_spec
      split: json.splits sum.splits option.splits)

theorem parsed_egress_policy_unambiguous_witness:
  "\<exists>p ds. parseEgressPolicy (\<lambda>_. None)
       (JObj [(''allowedHosts'', JArr [JStr ''A.test'', JStr '' b.test '']), (''deniedHosts'', JArr [JStr ''c.test''])]) = Inr p \<and>
     distinct (ep_allowedHosts p) \<and> ep_deniedHosts p = Some ds \<and> set (ep_allowedHosts p) \<inter> set ds = {}"
proof -
  have "parseEgressPolicy (\<lambda>_. None)
      (JObj [(''allowedHosts'', JArr [JStr ''A.test'', JStr '' b.test '']), (''deniedHosts'', JArr [JStr ''c.test''])]) =
    Inr \<lparr>ep_allowedHosts = [''a.test'', ''b.test''], ep_denyPrivateNetworks = None,
         ep_privateNetworkAllowedHosts = None, ep_deniedHosts = Some [''c.test'']\<rparr>"
    by code_simp
  from this parsed_egress_policy_unambiguous [OF this] show ?thesis by blast
qed

text \<open>
  A sandbox can always reach the control plane: whatever the policy, the claim it carries
  (none at all means no restriction) allows the host of the control plane's base URL, provided that
  host survives normalisation.
\<close>

theorem control_plane_stays_reachable:
  assumes "apiBaseUrl \<noteq> []" "url apiBaseUrl = Some core" "normalizeHost url core \<noteq> []"
  shows "egressDecision url core (egressClaimAllowingControlPlane url egress apiBaseUrl dpn) = (True, EOk)"
proof (cases "egressClaimAllowingControlPlane url egress apiBaseUrl dpn")
  case None
  then show ?thesis by (simp add: egressDecision_def)
next
  case (Some c)
  have core: "core \<noteq> []" using assms(3) by (auto simp: normalizeHost_def js_trim_def to_lower_def
        strip_wildcard_def strip_dot_def strip_brackets_def starts_with_def ends_with_def Let_def)
  have self: "hostMatches url core core" using assms(3) by (simp add: hostMatches_def Let_def)
  have "\<not> isHostDenied url core (ep_deniedHosts c)"
    using Some core assms(1,2)
    by (auto simp: egressClaimAllowingControlPlane_def isHostDenied_def list_ex_iff Let_def split: if_splits)
  moreover have "ep_allowedHosts c = [] \<or> core \<in> set (ep_allowedHosts c)"
    using Some core assms(1,2)
    by (auto simp: egressClaimAllowingControlPlane_def Let_def split: if_splits)
  ultimately show ?thesis
    using Some self by (auto simp: egressDecision_def list_ex_iff)
qed

theorem control_plane_stays_reachable_witness:
  "egressDecision (\<lambda>_. Some ''core.test'') ''core.test''
     (egressClaimAllowingControlPlane (\<lambda>_. Some ''core.test'')
        \<lparr>ep_allowedHosts = [''a.test''], ep_denyPrivateNetworks = None, ep_privateNetworkAllowedHosts = None,
         ep_deniedHosts = Some [''core.test'']\<rparr> ''https://core.test'' True) = (True, EOk)"
proof (rule control_plane_stays_reachable)
  show "normalizeHost (\<lambda>_. Some ''core.test'') ''core.test'' \<noteq> []" by code_simp
qed simp_all

end
