(* ===== verification/Acl.thy ===== *)
theory Acl
  imports Scopes
begin

section \<open>Grants: the access-control store\<close>

text \<open>
  Models \<open>src/src/acl/acl-store.ts\<close> with its in-memory persistence. A grant gives a grantee scope
  read or write access to a resource of an owner scope. Who may manage a shared scope is decided
  by code behind the \<open>manages\<close> option, a parameter here (\<open>None\<close> where the store is built without it).
\<close>

subsection \<open>Data\<close>

datatype permission = PRead | PWrite

record grant =
  g_ownerScopeId :: scope_id
  g_ref :: string
  g_granteeScopeId :: scope_id
  g_permission :: permission
  g_grantedBy :: string

record granted_handle =
  h_handlePath :: string
  h_ownerScopeId :: scope_id
  h_ownerPath :: string
  h_permission :: permission

datatype acl_error = NotManagerGrant | NotManagerRevoke | NotManagerReplace | ForeignReplacement

type_synonym manages = "(string \<Rightarrow> scope_id \<Rightarrow> string option \<Rightarrow> bool) option"
type_synonym entitlement = "principal \<Rightarrow> scope_id \<Rightarrow> scope_id \<Rightarrow> scope_id \<Rightarrow> bool"

subsection \<open>Helpers\<close>

definition isFileGrant :: "grant \<Rightarrow> bool" where
  "isFileGrant g = (rr_kind (parseRef (g_ref g)) = RFile)"

definition basename :: "string \<Rightarrow> string" where
  "basename p = (let l = last (split_on (CHR ''/'') p) in if l \<noteq> [] then l else p)"

definition toHandle :: "grant \<Rightarrow> granted_handle" where
  "toHandle g =
     \<lparr>h_handlePath = ''shared/'' @ basename (g_ref g), h_ownerScopeId = g_ownerScopeId g,
      h_ownerPath = g_ref g, h_permission = g_permission g\<rparr>"

definition ownerOf :: "scope_id \<Rightarrow> string option" where
  "ownerOf s = (case parseScopeId s of (Some Personal, ref) \<Rightarrow> Some ref | _ \<Rightarrow> None)"

definition isMembershipManaged :: "scope_id \<Rightarrow> bool" where
  "isMembershipManaged s = (fst (parseScopeId s) \<in> {Some Channel, Some Group})"

definition sameGrant :: "grant \<Rightarrow> grant \<Rightarrow> bool" where
  "sameGrant a b =
     (g_ownerScopeId a = g_ownerScopeId b \<and> g_ref a = g_ref b \<and>
      g_granteeScopeId a = g_granteeScopeId b \<and> g_permission a = g_permission b)"

definition sameGrantTuple :: "grant \<Rightarrow> grant \<Rightarrow> bool" where
  "sameGrantTuple a b = (sameGrant a b \<and> g_grantedBy a = g_grantedBy b)"

definition sameGrantSet :: "grant list \<Rightarrow> grant list \<Rightarrow> bool" where
  "sameGrantSet a b = (length a = length b \<and> list_all (\<lambda>g. list_ex (sameGrantTuple g) b) a)"

subsection \<open>The in-memory persistence\<close>

fun permission_name :: "permission \<Rightarrow> string" where
  "permission_name PRead = ''read''"
| "permission_name PWrite = ''write''"

definition grantKey :: "grant \<Rightarrow> string" where
  "grantKey g =
     join_with [char_of (10::nat)] [g_ownerScopeId g, g_ref g, g_granteeScopeId g, permission_name (g_permission g)]"

definition persistAll :: "grant list \<Rightarrow> grant list" where
  "persistAll grants = sort_key grantKey grants"

definition persistPut :: "grant \<Rightarrow> grant list \<Rightarrow> grant list" where
  "persistPut g grants = (if \<not> list_ex (\<lambda>x. sameGrant x g) grants then grants @ [g] else grants)"

definition persistRemove :: "grant \<Rightarrow> grant list \<Rightarrow> grant list" where
  "persistRemove g grants = filter (\<lambda>x. \<not> sameGrant x g) grants"

definition ofResource :: "scope_id \<Rightarrow> string \<Rightarrow> grant \<Rightarrow> bool" where
  "ofResource owner ref g = (g_ownerScopeId g = owner \<and> g_ref g = ref)"

definition replaceForResourceIfCurrent ::
  "scope_id \<Rightarrow> string \<Rightarrow> grant list \<Rightarrow> grant list \<Rightarrow> grant list \<Rightarrow> bool \<times> grant list"
where
  "replaceForResourceIfCurrent owner ref expected replacement grants =
     (let current = filter (ofResource owner ref) grants
      in if \<not> sameGrantSet current expected then (False, grants)
         else (True, filter (\<lambda>g. \<not> ofResource owner ref g) grants @ replacement))"

subsection \<open>The store\<close>

definition canManage :: "manages \<Rightarrow> scope_id \<Rightarrow> string \<Rightarrow> string option \<Rightarrow> bool" where
  "canManage mgs s principalId authoredBy =
     (case ownerOf s of
        Some owner \<Rightarrow> samePerson (Some principalId) (Some owner)
      | None \<Rightarrow>
          (case mgs of
             Some f \<Rightarrow> if isMembershipManaged s then f principalId s authoredBy else True
           | None \<Rightarrow> True))"

definition acl_grant :: "manages \<Rightarrow> grant \<Rightarrow> string option \<Rightarrow> grant list \<Rightarrow> acl_error + grant list" where
  "acl_grant mgs g authoredBy grants =
     (if \<not> canManage mgs (g_ownerScopeId g) (g_grantedBy g) authoredBy then Inl NotManagerGrant
      else Inr (persistPut g grants))"

definition acl_revoke ::
  "manages \<Rightarrow> scope_id \<Rightarrow> string \<Rightarrow> scope_id \<Rightarrow> string \<Rightarrow> string option \<Rightarrow> grant list \<Rightarrow> acl_error + grant list"
where
  "acl_revoke mgs owner ref grantee revokedBy authoredBy grants =
     (if \<not> canManage mgs owner revokedBy authoredBy then Inl NotManagerRevoke
      else
        let matches = filter (\<lambda>g. g_ownerScopeId g = owner \<and> g_ref g = ref \<and> g_granteeScopeId g = grantee)
                        (persistAll grants)
        in Inr (fold persistRemove matches grants))"

definition replaceGrantsIfCurrent ::
  "manages \<Rightarrow> scope_id \<Rightarrow> string \<Rightarrow> grant list \<Rightarrow> grant list \<Rightarrow> string \<Rightarrow> string option \<Rightarrow> grant list \<Rightarrow>
     acl_error + (bool \<times> grant list)"
where
  "replaceGrantsIfCurrent mgs owner ref expected replacement changedBy authoredBy grants =
     (if \<not> canManage mgs owner changedBy authoredBy then Inl NotManagerReplace
      else if list_ex (\<lambda>g. \<not> ofResource owner ref g) expected \<or>
              list_ex (\<lambda>g. \<not> ofResource owner ref g) replacement then Inl ForeignReplacement
      else Inr (replaceForResourceIfCurrent owner ref expected replacement grants))"

definition handlesFor :: "scope_id list \<Rightarrow> grant list \<Rightarrow> granted_handle list" where
  "handlesFor scopeIds grants =
     map toHandle (filter (\<lambda>g. isFileGrant g \<and> g_granteeScopeId g \<in> set scopeIds) (persistAll grants))"

definition reaches :: "entitlement \<Rightarrow> scope_id \<Rightarrow> scope_id \<Rightarrow> principal \<Rightarrow> grant \<Rightarrow> bool" where
  "reaches entitled sess org p g =
     (entitled p (g_granteeScopeId g) sess org \<or> entitled p (g_ownerScopeId g) sess org)"

definition audienceGrants :: "entitlement \<Rightarrow> principal list \<Rightarrow> scope_id \<Rightarrow> scope_id \<Rightarrow> grant list \<Rightarrow> grant list" where
  "audienceGrants entitled audience sess org grants =
     filter (\<lambda>g. isFileGrant g \<and> list_ex (\<lambda>p. entitled p (g_granteeScopeId g) sess org) audience \<and>
                 list_all (\<lambda>p. reaches entitled sess org p g) audience)
       (persistAll grants)"

definition handlesForAudience ::
  "entitlement \<Rightarrow> principal list \<Rightarrow> scope_id \<Rightarrow> scope_id \<Rightarrow> grant list \<Rightarrow> granted_handle list"
where
  "handlesForAudience entitled audience sess org grants =
     (if audience = [] then [] else map toHandle (audienceGrants entitled audience sess org grants))"

definition grantsFor :: "scope_id \<Rightarrow> string \<Rightarrow> grant list \<Rightarrow> grant list" where
  "grantsFor owner ref grants = filter (ofResource owner ref) (persistAll grants)"

definition grantsOfKind ::
  "resource_kind \<Rightarrow> entitlement \<Rightarrow> principal list \<Rightarrow> scope_id \<Rightarrow> scope_id \<Rightarrow> grant list \<Rightarrow> grant list"
where
  "grantsOfKind kind entitled audience sess org grants =
     (if audience = [] then []
      else filter (\<lambda>g. starts_with (refPrefix kind) (g_ref g) \<and> g_ownerScopeId g = org \<and>
                       list_all (\<lambda>p. entitled p (g_granteeScopeId g) sess org) audience)
             (persistAll grants))"

subsection \<open>Lemmas\<close>

lemma set_persistAll [simp]: "set (persistAll grants) = set grants"
  by (simp add: persistAll_def)

lemma sameGrant_refl [simp]: "sameGrant g g"
  by (simp add: sameGrant_def)

lemma sameGrantTuple_eq: "sameGrantTuple a b \<longleftrightarrow> a = b"
  by (cases a; cases b) (auto simp: sameGrantTuple_def sameGrant_def)

lemma fold_persistRemove: "fold persistRemove ms grants = filter (\<lambda>x. list_all (\<lambda>g. \<not> sameGrant x g) ms) grants"
  by (induction ms arbitrary: grants) (simp_all add: persistRemove_def conj_commute)

text \<open>
  Comparing lengths and one inclusion is enough for equality as sets when one side has no
  duplicates: the pigeonhole principle.
\<close>

lemma sameGrantSet_distinct: "distinct a \<Longrightarrow> sameGrantSet a b \<longleftrightarrow> distinct b \<and> set a = set b"
proof -
  assume a: "distinct a"
  have "sameGrantSet a b \<longleftrightarrow> length a = length b \<and> set a \<subseteq> set b"
    by (auto simp: sameGrantSet_def sameGrantTuple_eq list_all_iff list_ex_iff)
  also have "\<dots> \<longleftrightarrow> distinct b \<and> set a = set b"
  proof
    assume h: "length a = length b \<and> set a \<subseteq> set b"
    then have "card (set b) \<le> card (set a)" using a by (metis card_length distinct_card)
    with h have "set a = set b" by (metis card_seteq finite_set)
    with h a show "distinct b \<and> set a = set b" by (metis card_distinct distinct_card)
  next
    assume "distinct b \<and> set a = set b"
    with a show "length a = length b \<and> set a \<subseteq> set b" by (metis distinct_card order_refl)
  qed
  finally show ?thesis .
qed

subsection \<open>The store as a step system\<close>

text \<open>
  One call of the store that does not throw, with the principal who makes it and the author the
  caller names for the resource. A replacement is attributed to \<open>changedBy\<close>, whatever the
  replacement grants say.
\<close>

inductive acl_step :: "manages \<Rightarrow> string \<Rightarrow> string option \<Rightarrow> grant list \<Rightarrow> grant list \<Rightarrow> bool"
  for mgs actor authoredBy
where
  acl_step_grant:
    "acl_grant mgs g authoredBy gs = Inr gs' \<Longrightarrow> g_grantedBy g = actor \<Longrightarrow> acl_step mgs actor authoredBy gs gs'"
| acl_step_revoke:
    "acl_revoke mgs owner ref grantee actor authoredBy gs = Inr gs' \<Longrightarrow> acl_step mgs actor authoredBy gs gs'"
| acl_step_replace:
    "replaceGrantsIfCurrent mgs owner ref expected replacement actor authoredBy gs = Inr (b, gs') \<Longrightarrow>
       acl_step mgs actor authoredBy gs gs'"

text \<open>The grants of one scope, and the calls of everybody who does not manage it.\<close>

definition grantsOfScope :: "scope_id \<Rightarrow> grant list \<Rightarrow> grant list" where
  "grantsOfScope s gs = filter (\<lambda>g. g_ownerScopeId g = s) gs"

definition outsider_step :: "manages \<Rightarrow> scope_id \<Rightarrow> grant list \<Rightarrow> grant list \<Rightarrow> bool" where
  "outsider_step mgs s gs gs' = (\<exists>actor ab. \<not> canManage mgs s actor ab \<and> acl_step mgs actor ab gs gs')"

lemma filter_filter_same: "(\<And>x. x \<in> set xs \<Longrightarrow> P x \<Longrightarrow> Q x) \<Longrightarrow> filter P (filter Q xs) = filter P xs"
  by (induction xs) auto

lemma grantsOfScope_put: "g_ownerScopeId g \<noteq> s \<Longrightarrow> grantsOfScope s (persistPut g gs) = grantsOfScope s gs"
  by (simp add: grantsOfScope_def persistPut_def)

lemma acl_revoke_result:
  "acl_revoke mgs owner ref grantee by ab gs =
     (if canManage mgs owner by ab
      then Inr (filter (\<lambda>g. \<not> (g_ownerScopeId g = owner \<and> g_ref g = ref \<and> g_granteeScopeId g = grantee)) gs)
      else Inl NotManagerRevoke)"
proof -
  have "list_all (\<lambda>g. \<not> sameGrant x g)
          (filter (\<lambda>g. g_ownerScopeId g = owner \<and> g_ref g = ref \<and> g_granteeScopeId g = grantee) (persistAll gs)) =
        (\<not> (g_ownerScopeId x = owner \<and> g_ref x = ref \<and> g_granteeScopeId x = grantee))" if "x \<in> set gs" for x
    using that by (fastforce simp: list_all_iff sameGrant_def)
  then show ?thesis
    by (simp add: acl_revoke_def Let_def fold_persistRemove cong: filter_cong)
qed

lemma grantsOfScope_replace:
  assumes "list_all (ofResource owner ref) replacement" "owner \<noteq> s"
  shows "grantsOfScope s (snd (replaceForResourceIfCurrent owner ref expected replacement gs)) = grantsOfScope s gs"
proof -
  have "filter (\<lambda>g. g_ownerScopeId g = s) replacement = []"
    using assms by (auto simp: filter_empty_conv list_all_iff ofResource_def)
  moreover have "filter (\<lambda>g. g_ownerScopeId g = s) (filter (\<lambda>g. \<not> ofResource owner ref g) gs) =
                 filter (\<lambda>g. g_ownerScopeId g = s) gs"
    using assms(2) by (intro filter_filter_same) (auto simp: ofResource_def)
  ultimately show ?thesis
    by (simp add: replaceForResourceIfCurrent_def Let_def grantsOfScope_def del: filter_filter)
qed

lemma outsider_step_frame: "outsider_step mgs s gs gs' \<Longrightarrow> grantsOfScope s gs = grantsOfScope s gs'"
proof -
  assume "outsider_step mgs s gs gs'"
  then obtain actor ab where nm: "\<not> canManage mgs s actor ab" and st: "acl_step mgs actor ab gs gs'"
    by (auto simp: outsider_step_def)
  from st show ?thesis
  proof cases
    case (acl_step_grant g)
    with nm have "g_ownerScopeId g \<noteq> s" "gs' = persistPut g gs"
      by (auto simp: acl_grant_def split: if_splits)
    then show ?thesis by (simp add: grantsOfScope_put)
  next
    case (acl_step_revoke owner ref grantee)
    then have "canManage mgs owner actor ab"
      and gs': "gs' = filter (\<lambda>g. \<not> (g_ownerScopeId g = owner \<and> g_ref g = ref \<and> g_granteeScopeId g = grantee)) gs"
      by (auto simp: acl_revoke_result split: if_splits)
    with nm have "owner \<noteq> s" by auto
    then show ?thesis
      unfolding gs' grantsOfScope_def by (intro filter_filter_same [symmetric]) auto
  next
    case (acl_step_replace owner ref expected replacement b)
    then have "canManage mgs owner actor ab" "list_all (ofResource owner ref) replacement"
      and gs': "gs' = snd (replaceForResourceIfCurrent owner ref expected replacement gs)"
      by (auto simp: replaceGrantsIfCurrent_def list_all_iff list_ex_iff split: if_splits)
    with nm have "owner \<noteq> s" by auto
    then show ?thesis
      using \<open>list_all (ofResource owner ref) replacement\<close> by (simp add: gs' grantsOfScope_replace)
  qed
qed

interpretation acl: step_preorder "outsider_step mgs s" "\<lambda>_. True" "\<lambda>gs gs'. grantsOfScope s gs = grantsOfScope s gs'"
  for mgs s
  by unfold_locales (simp_all add: outsider_step_frame)

subsection \<open>Properties\<close>

text \<open>
  C6. No transitive re-share: whatever sequence of grant, revoke and replace calls is made by
  principals other than the owner of a personal scope (a different person key than the owner's),
  the grants of that scope stay exactly as they were.
\<close>

theorem personal_grants_only_by_owner:
  assumes "(outsider_step mgs (personalScope u))\<^sup>*\<^sup>* gs gs'"
  shows "grantsOfScope (personalScope u) gs' = grantsOfScope (personalScope u) gs \<and>
         (canManage mgs (personalScope u) actor ab \<longleftrightarrow> samePerson (Some actor) (Some u))"
proof
  show "grantsOfScope (personalScope u) gs' = grantsOfScope (personalScope u) gs"
    using acl.steps_R [OF assms] by simp
  show "canManage mgs (personalScope u) actor ab \<longleftrightarrow> samePerson (Some actor) (Some u)"
    by (simp add: canManage_def ownerOf_def personalScope_def parse_scopeId)
qed

definition ex_grant :: "string \<Rightarrow> string \<Rightarrow> string \<Rightarrow> grant" where
  "ex_grant owner ref by =
     \<lparr>g_ownerScopeId = owner, g_ref = ref, g_granteeScopeId = ''team:eng'', g_permission = PRead, g_grantedBy = by\<rparr>"

theorem personal_grants_only_by_owner_witness:
  "grantsOfScope (personalScope ''U1'') [ex_grant ''team:eng'' ''b.md'' ''U2''] =
     grantsOfScope (personalScope ''U1'') [] \<and>
   (canManage None (personalScope ''U1'') ''U2'' None \<longleftrightarrow> samePerson (Some ''U2'') (Some ''U1''))"
proof (rule personal_grants_only_by_owner)
  have "acl_grant None (ex_grant ''team:eng'' ''b.md'' ''U2'') None [] = Inr [ex_grant ''team:eng'' ''b.md'' ''U2'']"
    by code_simp
  moreover have "g_grantedBy (ex_grant ''team:eng'' ''b.md'' ''U2'') = ''U2''"
    by (simp add: ex_grant_def)
  ultimately have "acl_step None ''U2'' None [] [ex_grant ''team:eng'' ''b.md'' ''U2'']"
    by (rule acl_step_grant)
  moreover have "\<not> canManage None (personalScope ''U1'') ''U2'' None" by code_simp
  ultimately show "(outsider_step None (personalScope ''U1''))\<^sup>*\<^sup>* [] [ex_grant ''team:eng'' ''b.md'' ''U2'']"
    unfolding outsider_step_def by blast
qed

text \<open>
  A revocation by a manager removes every grant of the resource to the grantee, whatever its
  permission, keeps every other grant in place, and is refused for everybody else.
\<close>

theorem revoke_is_exact:
  "acl_revoke mgs owner ref grantee by ab gs =
     (if canManage mgs owner by ab
      then Inr (filter (\<lambda>g. (g_ownerScopeId g, g_ref g, g_granteeScopeId g) \<noteq> (owner, ref, grantee)) gs)
      else Inl NotManagerRevoke)"
  by (simp add: acl_revoke_result)

text \<open>
  Replacing the grants of a resource is a compare-and-swap: with a store that holds no grant
  twice it succeeds exactly when the caller's expected grants are the current ones (in any
  order, none repeated), then holds exactly the replacement for the resource and every other
  grant unchanged; otherwise it changes nothing.
\<close>

theorem replace_is_compare_and_swap:
  assumes "distinct gs"
    and "replaceGrantsIfCurrent mgs owner ref expected replacement by ab gs = Inr (b, gs')"
  shows "(b \<longleftrightarrow> distinct expected \<and> set expected = set (grantsFor owner ref gs)) \<and>
         (\<not> b \<or> set (grantsFor owner ref gs') = set replacement) \<and>
         (b \<or> gs' = gs) \<and>
         filter (\<lambda>g. \<not> ofResource owner ref g) gs' = filter (\<lambda>g. \<not> ofResource owner ref g) gs"
proof -
  from assms(2) have rep: "list_all (ofResource owner ref) replacement"
    and r: "replaceForResourceIfCurrent owner ref expected replacement gs = (b, gs')"
    by (auto simp: replaceGrantsIfCurrent_def list_all_iff list_ex_iff split: if_splits)
  have b: "b \<longleftrightarrow> sameGrantSet (filter (ofResource owner ref) gs) expected"
    using r by (auto simp: replaceForResourceIfCurrent_def Let_def split: if_splits)
  have gs': "gs' = (if b then filter (\<lambda>g. \<not> ofResource owner ref g) gs @ replacement else gs)"
    using r by (auto simp: replaceForResourceIfCurrent_def Let_def split: if_splits)
  have "b \<longleftrightarrow> distinct expected \<and> set expected = set (grantsFor owner ref gs)"
    using assms(1) by (auto simp: b sameGrantSet_distinct grantsFor_def)
  moreover have "filter (\<lambda>g. \<not> ofResource owner ref g) replacement = []"
    using rep by (simp add: filter_empty_conv list_all_iff)
  ultimately show ?thesis
    using rep by (auto simp: gs' grantsFor_def list_all_iff)
qed

theorem replace_is_compare_and_swap_witness:
  "set (grantsFor ''org:acme'' ''a.md'' [ex_grant ''org:acme'' ''b.md'' ''U1'']) = set [] \<and>
   filter (\<lambda>g. \<not> ofResource ''org:acme'' ''a.md'' g) [ex_grant ''org:acme'' ''b.md'' ''U1''] =
   filter (\<lambda>g. \<not> ofResource ''org:acme'' ''a.md'' g) [ex_grant ''org:acme'' ''a.md'' ''U1'', ex_grant ''org:acme'' ''b.md'' ''U1'']"
proof -
  have d: "distinct [ex_grant ''org:acme'' ''a.md'' ''U1'', ex_grant ''org:acme'' ''b.md'' ''U1'']"
    by (simp add: ex_grant_def)
  have r: "replaceGrantsIfCurrent None ''org:acme'' ''a.md'' [ex_grant ''org:acme'' ''a.md'' ''U1''] [] ''U1'' None
          [ex_grant ''org:acme'' ''a.md'' ''U1'', ex_grant ''org:acme'' ''b.md'' ''U1''] =
        Inr (True, [ex_grant ''org:acme'' ''b.md'' ''U1''])"
    by code_simp
  show ?thesis using replace_is_compare_and_swap [OF d r] by blast
qed

end
