(* ===== verification/Transcript.thy ===== *)
theory Transcript
  imports Scopes
begin

section \<open>Session entries and transcripts\<close>

text \<open>
  Models the pure part of \<open>src/src/sessions/session-store.ts\<close>: the entries of a session log, the walk
  to the root of a thread, the origin of a session read off its thread reference, previews of
  user messages, and the window of a transcript that is sent to a client under a byte budget.
  The payload of an entry is a JSON value.
\<close>

subsection \<open>Entries\<close>

datatype entry_type = EUser | EAssistant | EThinking | EText | EToolCall | EToolResult | ESoul | ESystem
  | EDelivery | EApprovalRequest | EApprovalResolved

record session_entry =
  e_sessionId :: string
  e_seq :: int
  e_parentSeq :: "int option"
  e_type :: entry_type
  e_payload :: json
  e_scopeLabel :: scope_id
  e_createdAt :: millis

subsection \<open>The root of a thread\<close>

text \<open>\<open>new Map(entries.map(...))\<close>: a later entry replaces an earlier one with the same number.\<close>

definition entriesBySeq :: "session_entry list \<Rightarrow> (int, session_entry) jsmap" where
  "entriesBySeq entries = fold (\<lambda>e m. jm_set (e_seq e) e m) entries []"

definition parentOf :: "(int, session_entry) jsmap \<Rightarrow> session_entry \<Rightarrow> session_entry option" where
  "parentOf m e = (case e_parentSeq e of None \<Rightarrow> None | Some p \<Rightarrow> jm_get m p)"

function threadWalk ::
  "(int, session_entry) jsmap \<Rightarrow> session_entry \<Rightarrow> int list \<Rightarrow> int option \<Rightarrow> int option"
where
  "threadWalk m current seen root =
     (if e_seq current \<in> set seen then root
      else if e_type current \<noteq> EUser
      then (case parentOf m current of
              None \<Rightarrow> root
            | Some parent \<Rightarrow> threadWalk m parent (e_seq current # seen) root)
      else (case parentOf m current of
              None \<Rightarrow> Some (e_seq current)
            | Some parent \<Rightarrow>
                if e_type parent \<noteq> EUser then Some (e_seq current)
                else threadWalk m parent (e_seq current # seen) (Some (e_seq current))))"
  by pat_completeness auto

lemma parentOf_in_values: "parentOf m e = Some p \<Longrightarrow> p \<in> set (jm_values m)"
  by (auto simp: parentOf_def jm_get_in_values split: option.splits dest!: jm_get_in_values)

lemma walk_measure:
  assumes "parentOf m e = Some p" "e_seq e \<notin> set seen"
  shows "card (insert (e_seq p) (e_seq ` set (jm_values m)) - set (e_seq e # seen)) <
         card (insert (e_seq e) (e_seq ` set (jm_values m)) - set seen)"
proof (rule psubset_card_mono)
  show "finite (insert (e_seq e) (e_seq ` set (jm_values m)) - set seen)" by simp
  have "e_seq p \<in> e_seq ` set (jm_values m)" using parentOf_in_values [OF assms(1)] by blast
  then show "insert (e_seq p) (e_seq ` set (jm_values m)) - set (e_seq e # seen) \<subset>
      insert (e_seq e) (e_seq ` set (jm_values m)) - set seen"
    using assms(2) by auto
qed

termination threadWalk
  by (relation "measure (\<lambda>(m, current, seen, root).
        card (insert (e_seq current) (e_seq ` set (jm_values m)) - set seen))")
     (simp_all add: walk_measure del: list.set(2) set_map)

declare threadWalk.simps [simp del]

definition resolveThreadRootSeq :: "session_entry list \<Rightarrow> int \<Rightarrow> int option" where
  "resolveThreadRootSeq entries refSeq =
     (case jm_get (entriesBySeq entries) refSeq of
        None \<Rightarrow> None
      | Some current \<Rightarrow> threadWalk (entriesBySeq entries) current [] None)"

subsection \<open>The origin of a session\<close>

datatype session_origin = OConversation | OCron | OWebhook | OMonitor

datatype session_category = CatConversation | CatBackground

fun origin_name :: "session_origin \<Rightarrow> string" where
  "origin_name OConversation = ''conversation''"
| "origin_name OCron = ''cron''"
| "origin_name OWebhook = ''webhook''"
| "origin_name OMonitor = ''monitor''"

text \<open>\<open>^agent:main:\<langle>origin\<rangle>:([^:]+)$\<close>: the identifier, where the pattern matches.\<close>

definition stableOriginId :: "session_origin \<Rightarrow> string \<Rightarrow> string option" where
  "stableOriginId og t =
     (let p = ''agent:main:'' @ origin_name og @ '':''; r = drop (length p) t
      in if starts_with p t \<and> r \<noteq> [] \<and> CHR '':'' \<notin> set r then Some r else None)"

text \<open>\<open>^\<langle>origin\<rangle>:([^:]+)(:.+)?$\<close>\<close>

definition legacyOriginId :: "session_origin \<Rightarrow> string \<Rightarrow> string option" where
  "legacyOriginId og t =
     (let p = origin_name og @ '':''; r = drop (length p) t;
          i = takeWhile (\<lambda>c. c \<noteq> CHR '':'') r; rest = dropWhile (\<lambda>c. c \<noteq> CHR '':'') r
      in if starts_with p t \<and> i \<noteq> [] \<and>
            (rest = [] \<or> (length rest \<ge> 2 \<and> list_all (\<lambda>c. \<not> is_newline c) rest))
         then Some i else None)"

definition background_origins :: "session_origin list" where
  "background_origins = [OCron, OWebhook, OMonitor]"

definition sessionOrigin :: "string option \<Rightarrow> session_origin" where
  "sessionOrigin threadRef =
     (let t = (case threadRef of None \<Rightarrow> [] | Some x \<Rightarrow> x)
      in case find (\<lambda>og. stableOriginId og t \<noteq> None) background_origins of
           Some og \<Rightarrow> og
         | None \<Rightarrow>
             (case find (\<lambda>og. legacyOriginId og t \<noteq> None) background_origins of
                Some og \<Rightarrow> og
              | None \<Rightarrow> OConversation))"

definition sessionCategory :: "session_origin \<Rightarrow> session_category" where
  "sessionCategory og = (if og = OConversation then CatConversation else CatBackground)"

definition cronIdOf :: "string option \<Rightarrow> string option" where
  "cronIdOf threadRef =
     (let t = (case threadRef of None \<Rightarrow> [] | Some x \<Rightarrow> x)
      in case stableOriginId OCron t of
           Some i \<Rightarrow> Some i
         | None \<Rightarrow> legacyOriginId OCron t)"

definition sessionBucket :: "session_origin \<Rightarrow> conversation_kind \<Rightarrow> string" where
  "sessionBucket og ty =
     (if og = OConversation then (case ty of CDm \<Rightarrow> ''dm'' | CChannel \<Rightarrow> ''channel'' | CGroup \<Rightarrow> ''group'')
      else origin_name og)"

subsection \<open>Previews\<close>

text \<open>\<open>split("\n\n")\<close>\<close>

fun splitBlank :: "string \<Rightarrow> string list" where
  "splitBlank [] = [[]]"
| "splitBlank [c] = [[c]]"
| "splitBlank (c # d # s) =
     (if c = char_of (10::nat) \<and> d = char_of (10::nat) then [] # splitBlank s
      else (case splitBlank (d # s) of [] \<Rightarrow> [[c]] | p # ps \<Rightarrow> (c # p) # ps))"

text \<open>\<open>/^\s*\[/\<close>\<close>

definition startsBracketed :: "string \<Rightarrow> bool" where
  "startsBracketed p = starts_with ''['' (dropWhile is_space p)"

text \<open>The flag tells whether the ellipsis is appended (its code unit is outside the model's strings).\<close>

definition userMessagePreview :: "json \<Rightarrow> nat \<Rightarrow> string \<times> bool" where
  "userMessagePreview payload maxLen =
     (let text = (case payload of
                    JStr s \<Rightarrow> s
                  | JObj fs \<Rightarrow> (case map_of fs ''text'' of Some (JStr s) \<Rightarrow> s | _ \<Rightarrow> [])
                  | _ \<Rightarrow> []);
          body = js_trim (join_with [char_of (10::nat), char_of (10::nat)]
                   (filter (\<lambda>p. \<not> startsBracketed p) (splitBlank text)));
          kept = (if body \<noteq> [] then body else js_trim text);
          oneLine = js_trim (collapseSpace False kept)
      in if length oneLine > maxLen then (take (maxLen - 1) oneLine, True) else (oneLine, False))"

definition transcriptEntries :: "session_entry list \<Rightarrow> session_entry list" where
  "transcriptEntries entries = filter (\<lambda>e. e_type e \<noteq> ESoul) entries"

definition isOverheardEntry :: "session_entry \<Rightarrow> bool" where
  "isOverheardEntry e = (e_type e = EUser \<and> jfield (e_payload e) ''overheard'' = Some (JBool True))"

subsection \<open>The size of a payload\<close>

definition transcriptByteBudget :: nat where
  "transcriptByteBudget = 400000"

definition entryStringBudget :: nat where
  "entryStringBudget = 2000"

definition walkDepth :: nat where
  "walkDepth = 8"

fun payloadBytes :: "json \<Rightarrow> nat \<Rightarrow> nat" where
  "payloadBytes (JStr s) depth = length s + 2"
| "payloadBytes (JArr xs) depth =
     (if depth \<ge> walkDepth then length (stringify (JArr xs))
      else 2 + sum_list (map (\<lambda>x. payloadBytes x (depth + 1) + 1) xs))"
| "payloadBytes (JObj fs) depth =
     (if depth \<ge> walkDepth then length (stringify (JObj fs))
      else 2 + sum_list (map (\<lambda>(k, v). length k + payloadBytes v (depth + 1) + 4) fs))"
| "payloadBytes _ depth = 8"

fun shortenStrings :: "json \<Rightarrow> nat \<Rightarrow> json \<times> bool" where
  "shortenStrings (JStr s) depth =
     (if length s > entryStringBudget then (JStr (take entryStringBudget s), True) else (JStr s, False))"
| "shortenStrings (JArr xs) depth =
     (if depth \<ge> walkDepth
      then (if payloadBytes (JArr xs) depth > entryStringBudget then (JNull, True) else (JArr xs, False))
      else let walked = map (\<lambda>x. shortenStrings x (depth + 1)) xs
           in if list_ex snd walked then (JArr (map fst walked), True) else (JArr xs, False))"
| "shortenStrings (JObj fs) depth =
     (if depth \<ge> walkDepth
      then (if payloadBytes (JObj fs) depth > entryStringBudget then (JNull, True) else (JObj fs, False))
      else let walked = map (\<lambda>(k, v). (k, shortenStrings v (depth + 1))) fs
           in if list_ex (\<lambda>(k, w). snd w) walked then (JObj (map (\<lambda>(k, w). (k, fst w)) walked), True)
              else (JObj fs, False))"
| "shortenStrings v depth = (v, False)"

subsection \<open>The window of a transcript\<close>

record transcript_entry =
  te_entry :: session_entry
  te_truncated :: bool

record transcript_window =
  tw_tailTurns :: "int option"
  tw_sinceSeq :: "int option"
  tw_beforeSeq :: "int option"

definition postsToTheConversation :: "session_entry \<Rightarrow> bool" where
  "postsToTheConversation e = (e_type e = EToolCall \<and> jfield (e_payload e) ''action'' = Some (JStr ''post''))"

definition projectEntry :: "session_entry \<Rightarrow> transcript_entry" where
  "projectEntry e =
     (if e_type e \<notin> {EToolCall, EToolResult} \<or> postsToTheConversation e
      then \<lparr>te_entry = e, te_truncated = False\<rparr>
      else let (v, truncated) = shortenStrings (e_payload e) 0
           in if truncated then \<lparr>te_entry = e\<lparr>e_payload := v\<rparr>, te_truncated = True\<rparr>
              else \<lparr>te_entry = e, te_truncated = False\<rparr>)"

text \<open>\<open>findIndex\<close>, the length where there is none.\<close>

definition indexOrEnd :: "(session_entry \<Rightarrow> bool) \<Rightarrow> session_entry list \<Rightarrow> nat" where
  "indexOrEnd P es = (case find_index P es of None \<Rightarrow> length es | Some i \<Rightarrow> i)"

fun tailCut :: "session_entry list \<Rightarrow> int \<Rightarrow> int \<Rightarrow> nat \<Rightarrow> nat" where
  "tailCut es tailTurns turns 0 = 0"
| "tailCut es tailTurns turns (Suc i) =
     (if e_type (es ! i) \<noteq> EUser then tailCut es tailTurns turns i
      else if turns + 1 = tailTurns then i
      else tailCut es tailTurns (turns + 1) i)"

fun budgetFrom :: "transcript_entry list \<Rightarrow> nat \<Rightarrow> nat \<Rightarrow> nat" where
  "budgetFrom ws spend 0 = 0"
| "budgetFrom ws spend (Suc i) =
     (let bytes = payloadBytes (e_payload (te_entry (ws ! i))) 0
      in if spend + bytes > transcriptByteBudget \<and> Suc i < length ws then Suc i
         else budgetFrom ws (spend + bytes) i)"

definition userBoundary :: "transcript_entry list \<Rightarrow> nat \<Rightarrow> nat" where
  "userBoundary ws from =
     (if from > 0
      then (case find_index (\<lambda>w. e_type (te_entry w) = EUser) (drop from ws) of
              Some k \<Rightarrow> from + k
            | None \<Rightarrow> from)
      else from)"

definition beforeWindow :: "transcript_window option \<Rightarrow> session_entry list \<Rightarrow> session_entry list" where
  "beforeWindow w entries =
     (case Option.bind w tw_beforeSeq of
        Some b \<Rightarrow> take (indexOrEnd (\<lambda>e. e_seq e \<ge> b) entries) entries
      | None \<Rightarrow> entries)"

definition windowCut :: "transcript_window option \<Rightarrow> session_entry list \<Rightarrow> nat" where
  "windowCut w es =
     (case Option.bind w tw_sinceSeq of
        Some s \<Rightarrow> indexOrEnd (\<lambda>e. e_seq e \<ge> s) es
      | None \<Rightarrow>
          (case Option.bind w tw_tailTurns of
             Some n \<Rightarrow> if n > 0 then tailCut es n 0 (length es) else 0
           | None \<Rightarrow> 0))"

definition windowedTranscript ::
  "session_entry list \<Rightarrow> transcript_window option \<Rightarrow> transcript_entry list \<times> nat"
where
  "windowedTranscript entries w =
     (let es = beforeWindow w entries; cut = windowCut w es; windowed = map projectEntry (drop cut es)
      in if w = None \<or> Option.bind w tw_sinceSeq \<noteq> None then (windowed, cut)
         else let from = userBoundary windowed (budgetFrom windowed 0 (length windowed))
              in (drop from windowed, cut + from))"

subsection \<open>Lemmas: the walk to the root\<close>

definition log_ordered :: "session_entry list \<Rightarrow> bool" where
  "log_ordered entries =
     (distinct (map e_seq entries) \<and>
      list_all (\<lambda>e. case e_parentSeq e of None \<Rightarrow> True | Some p \<Rightarrow> p < e_seq e) entries)"

lemma fold_entries_get:
  assumes "distinct (map e_seq entries)"
  shows "jm_get (fold (\<lambda>e m. jm_set (e_seq e) e m) entries m) k = Some e \<longleftrightarrow>
         (e \<in> set entries \<and> e_seq e = k) \<or> (k \<notin> e_seq ` set entries \<and> jm_get m k = Some e)"
  using assms
proof (induction entries arbitrary: m)
  case Nil
  then show ?case by simp
next
  case (Cons x xs)
  then show ?case by (auto simp: image_iff)
qed

lemma entriesBySeq_get:
  "distinct (map e_seq entries) \<Longrightarrow>
   jm_get (entriesBySeq entries) k = Some e \<longleftrightarrow> e \<in> set entries \<and> e_seq e = k"
  by (simp add: entriesBySeq_def fold_entries_get)

text \<open>
  In an ordered log the walk never revisits an entry: it goes down in sequence number. A root
  found so far is only carried past a user entry whose parent is one, too.
\<close>

lemma threadWalk_root:
  assumes ord: "log_ordered es"
    and "m = entriesBySeq es" "threadWalk m cur seen root = Some r" "cur \<in> set es"
    and "\<forall>s \<in> set seen. e_seq cur < s" "root = None \<or> e_type cur = EUser"
  shows "\<exists>e \<in> set es. e_seq e = r \<and> e_type e = EUser \<and> r \<le> e_seq cur \<and>
           (\<forall>p. parentOf m e = Some p \<longrightarrow> e_type p \<noteq> EUser)"
  using assms(2-)
proof (induction m cur seen root rule: threadWalk.induct)
  case (1 m cur seen root)
  have fresh: "e_seq cur \<notin> set seen" using 1 by auto
  have parent: "p \<in> set es \<and> e_seq p < e_seq cur" if "parentOf m cur = Some p" for p
    using that ord 1
    by (auto simp: parentOf_def log_ordered_def entriesBySeq_get list_all_iff split: option.splits)
  show ?case
  proof (cases "e_type cur = EUser")
    case user: True
    show ?thesis
    proof (cases "\<exists>p. parentOf m cur = Some p \<and> e_type p = EUser")
      case True
      then obtain p where p: "parentOf m cur = Some p" "e_type p = EUser" by auto
      have "threadWalk m p (e_seq cur # seen) (Some (e_seq cur)) = Some r"
        using 1(4) user p fresh by (simp add: threadWalk.simps [of m cur])
      moreover have "\<forall>s \<in> set (e_seq cur # seen). e_seq p < s" using 1(6) parent [OF p(1)] by auto
      ultimately obtain e where "e \<in> set es" "e_seq e = r" "e_type e = EUser" "r \<le> e_seq p"
        "\<forall>p. parentOf m e = Some p \<longrightarrow> e_type p \<noteq> EUser"
        using 1(2) [OF fresh _ p(1)] user p(2) parent [OF p(1)] 1(3) by auto
      then show ?thesis using parent [OF p(1)] by force
    next
      case False
      then have "r = e_seq cur"
        using 1(4) user fresh by (auto simp: threadWalk.simps [of m cur] split: option.splits if_splits)
      then show ?thesis using user False 1(5) by auto
    qed
  next
    case other: False
    then have root: "root = None" using 1(7) by simp
    obtain p where p: "parentOf m cur = Some p"
      using 1(4) other fresh root by (auto simp: threadWalk.simps [of m cur] split: option.splits)
    have "threadWalk m p (e_seq cur # seen) root = Some r"
      using 1(4) other p fresh by (simp add: threadWalk.simps [of m cur])
    moreover have "\<forall>s \<in> set (e_seq cur # seen). e_seq p < s" using 1(6) parent [OF p] by auto
    ultimately obtain e where "e \<in> set es" "e_seq e = r" "e_type e = EUser" "r \<le> e_seq p"
      "\<forall>p. parentOf m e = Some p \<longrightarrow> e_type p \<noteq> EUser"
      using 1(1) [OF fresh other p] root parent [OF p] 1(3) by auto
    then show ?thesis using parent [OF p] by force
  qed
qed

lemma threadWalk_at_root:
  "e_type e = EUser \<Longrightarrow> (\<And>p. parentOf m e = Some p \<Longrightarrow> e_type p \<noteq> EUser) \<Longrightarrow>
   threadWalk m e [] None = Some (e_seq e)"
  by (subst threadWalk.simps) (auto split: option.splits)

subsection \<open>Lemmas: sizes and windows\<close>

definition transcriptBytes :: "transcript_entry list \<Rightarrow> nat" where
  "transcriptBytes ws = sum_list (map (\<lambda>w. payloadBytes (e_payload (te_entry w)) 0) ws)"

lemma transcriptBytes_drop_mono: "transcriptBytes (drop (i + k) ws) \<le> transcriptBytes (drop i ws)"
proof -
  have "drop i ws = take k (drop i ws) @ drop (i + k) ws"
    by (metis append_take_drop_id drop_drop add.commute)
  then have "transcriptBytes (drop i ws) = transcriptBytes (take k (drop i ws)) + transcriptBytes (drop (i + k) ws)"
    by (metis (mono_tags) transcriptBytes_def map_append sum_list.append)
  then show ?thesis by simp
qed

lemma budgetFrom_le: "budgetFrom ws spend i \<le> i \<and> (i \<le> length ws \<longrightarrow> ws \<noteq> [] \<longrightarrow> budgetFrom ws spend i < length ws)"
  by (induction i arbitrary: spend) (auto simp: Let_def le_Suc_eq)

lemma budgetFrom_within:
  assumes "i \<le> length ws" "spend = transcriptBytes (drop i ws)"
    and "spend \<le> transcriptByteBudget \<or> length ws \<le> Suc i"
  shows "transcriptBytes (drop (budgetFrom ws spend i) ws) \<le> transcriptByteBudget \<or>
         length ws \<le> Suc (budgetFrom ws spend i)"
  using assms
proof (induction i arbitrary: spend)
  case 0
  then show ?case by simp
next
  case (Suc i)
  let ?b = "payloadBytes (e_payload (te_entry (ws ! i))) 0"
  have "drop i ws = ws ! i # drop (Suc i) ws" using Suc.prems(1) by (simp add: Cons_nth_drop_Suc)
  then have "spend + ?b = transcriptBytes (drop i ws)" using Suc.prems(2) by (simp add: transcriptBytes_def)
  then show ?case
    using Suc.IH [of "spend + ?b"] Suc.prems by (auto simp: Let_def not_less)
qed

lemma userBoundary_ge: "from \<le> userBoundary ws from"
  by (auto simp: userBoundary_def split: option.splits)

lemma userBoundary_less: "from < length ws \<Longrightarrow> userBoundary ws from < length ws"
  by (auto simp: userBoundary_def split: option.splits dest!: find_index_Some)

lemma tailCut_less: "i \<le> length es \<Longrightarrow> es \<noteq> [] \<Longrightarrow> tailCut es n t i < length es"
  by (induction i arbitrary: t) auto

lemma indexOrEnd_le: "indexOrEnd P es \<le> length es"
  by (auto simp: indexOrEnd_def split: option.splits dest: find_index_Some)

lemma windowCut_le: "windowCut w es \<le> length es"
proof (cases "es = []")
  case True
  then show ?thesis by (auto simp: windowCut_def indexOrEnd_def split: option.splits)
next
  case False
  then show ?thesis
    using indexOrEnd_le tailCut_less [OF order_refl False]
    by (auto simp: windowCut_def less_imp_le split: option.splits)
qed

lemma windowCut_less:
  "Option.bind w tw_sinceSeq = None \<Longrightarrow> es \<noteq> [] \<Longrightarrow> windowCut w es < length es"
  using tailCut_less [OF order_refl] by (auto simp: windowCut_def split: option.splits)

text \<open>
  What shortening promises of its result: no string is longer than the budget, and nothing deeper
  than the walk is larger than it.
\<close>

fun boundedStrings :: "json \<Rightarrow> nat \<Rightarrow> bool" where
  "boundedStrings (JStr s) depth = (length s \<le> entryStringBudget)"
| "boundedStrings (JArr xs) depth =
     (if depth \<ge> walkDepth then payloadBytes (JArr xs) depth \<le> entryStringBudget
      else list_all (\<lambda>x. boundedStrings x (depth + 1)) xs)"
| "boundedStrings (JObj fs) depth =
     (if depth \<ge> walkDepth then payloadBytes (JObj fs) depth \<le> entryStringBudget
      else list_all (\<lambda>(k, v). boundedStrings v (depth + 1)) fs)"
| "boundedStrings v depth = True"

lemma map_fix_iff: "map f xs = xs \<longleftrightarrow> (\<forall>x \<in> set xs. f x = x)"
  by (induction xs) auto

lemma shortenStrings_flag: "snd (shortenStrings v d) \<longleftrightarrow> fst (shortenStrings v d) \<noteq> v"
proof (induction v d rule: shortenStrings.induct)
  case (1 s depth)
  then show ?case by (auto simp: entryStringBudget_def dest!: arg_cong [of _ s length])
next
  case (2 xs depth)
  then show ?case
    by (cases "depth \<ge> walkDepth") (auto simp: Let_def list_ex_iff map_fix_iff)
next
  case (3 fs depth)
  show ?case
  proof (cases "depth \<ge> walkDepth")
    case False
    have "map (\<lambda>(k, v). (k, fst (shortenStrings v (depth + 1)))) fs = fs \<longleftrightarrow>
          (\<forall>(k, v) \<in> set fs. \<not> snd (shortenStrings v (depth + 1)))"
      unfolding map_fix_iff using 3 [OF False] by fastforce
    then show ?thesis
      using False by (auto simp: Let_def list_ex_iff comp_def case_prod_unfold)
  qed simp
qed auto

lemma shortenStrings_unchanged: "\<not> snd (shortenStrings v d) \<Longrightarrow> fst (shortenStrings v d) = v"
  using shortenStrings_flag by blast

lemma shortenStrings_bounded: "boundedStrings (fst (shortenStrings v d)) d"
proof (induction v d rule: shortenStrings.induct)
  case (2 xs depth)
  show ?case
  proof (cases "depth \<ge> walkDepth")
    case False
    have "boundedStrings x (depth + 1)" if "x \<in> set xs" "\<not> snd (shortenStrings x (depth + 1))" for x
      using 2 [OF False that(1)] shortenStrings_unchanged [OF that(2)] by simp
    then show ?thesis using False 2 by (auto simp: Let_def list_all_iff list_ex_iff)
  qed simp
next
  case (3 fs depth)
  show ?case
  proof (cases "depth \<ge> walkDepth")
    case False
    have IH: "boundedStrings (fst (shortenStrings v (depth + 1))) (depth + 1)" if "(k, v) \<in> set fs" for k v
      using 3 [OF False that] by simp
    have "boundedStrings v (depth + 1)" if "(k, v) \<in> set fs" "\<not> snd (shortenStrings v (depth + 1))" for k v
      using IH [OF that(1)] shortenStrings_unchanged [OF that(2)] by simp
    with IH False show ?thesis by (fastforce simp: Let_def list_all_iff list_ex_iff)
  qed simp
qed auto

subsection \<open>Properties\<close>

text \<open>
  Replies extend threads: in a log whose parents precede their children, what a reference
  resolves to is a user entry that is itself no reply in a thread, at or before the reference, and
  resolving that root gives the root again, so a reply to any message of a thread lands on one
  and the same root.
\<close>

theorem thread_root_is_stable:
  assumes "log_ordered entries" "resolveThreadRootSeq entries ref = Some root"
  shows "root \<le> ref \<and> resolveThreadRootSeq entries root = Some root \<and>
    (\<exists>e \<in> set entries. e_seq e = root \<and> e_type e = EUser \<and>
       (\<forall>p \<in> set entries. e_parentSeq e = Some (e_seq p) \<longrightarrow> e_type p \<noteq> EUser))"
proof -
  let ?m = "entriesBySeq entries"
  have get: "jm_get ?m k = Some e \<longleftrightarrow> e \<in> set entries \<and> e_seq e = k" for k e
    using assms(1) by (simp add: log_ordered_def entriesBySeq_get)
  obtain cur where cur: "cur \<in> set entries" "e_seq cur = ref" "threadWalk ?m cur [] None = Some root"
    using assms(2) get by (auto simp: resolveThreadRootSeq_def split: option.splits)
  obtain e where e: "e \<in> set entries" "e_seq e = root" "e_type e = EUser" "root \<le> e_seq cur"
    "\<forall>p. parentOf ?m e = Some p \<longrightarrow> e_type p \<noteq> EUser"
    using threadWalk_root [OF assms(1) refl cur(3,1)] by auto
  then have "resolveThreadRootSeq entries root = Some root"
    using get [of root e] by (simp add: resolveThreadRootSeq_def threadWalk_at_root)
  moreover have "e_type p \<noteq> EUser" if "p \<in> set entries" "e_parentSeq e = Some (e_seq p)" for p
    using e(5) get [of "e_seq p" p] that by (auto simp: parentOf_def)
  ultimately show ?thesis using e cur by auto
qed

definition ex_entry :: "int \<Rightarrow> int option \<Rightarrow> entry_type \<Rightarrow> session_entry" where
  "ex_entry n p ty =
     \<lparr>e_sessionId = ''s'', e_seq = n, e_parentSeq = p, e_type = ty, e_payload = JStr ''hi'',
      e_scopeLabel = ''org:o'', e_createdAt = 0\<rparr>"

definition ex_log :: "session_entry list" where
  "ex_log = [ex_entry 0 None EUser, ex_entry 1 (Some 0) EAssistant, ex_entry 2 (Some 0) EUser,
             ex_entry 3 (Some 2) EAssistant]"

theorem thread_root_is_stable_witness:
  "resolveThreadRootSeq ex_log 0 = Some 0 \<and> (\<exists>e \<in> set ex_log. e_seq e = 0 \<and> e_type e = EUser)"
proof -
  have lo: "log_ordered ex_log" by code_simp
  have "jm_get (entriesBySeq ex_log) 3 = Some (ex_entry 3 (Some 2) EAssistant)" by code_simp
  moreover have "parentOf (entriesBySeq ex_log) (ex_entry 3 (Some 2) EAssistant) = Some (ex_entry 2 (Some 0) EUser)"
    "parentOf (entriesBySeq ex_log) (ex_entry 2 (Some 0) EUser) = Some (ex_entry 0 None EUser)"
    "parentOf (entriesBySeq ex_log) (ex_entry 0 None EUser) = None"
    by code_simp+
  ultimately have "resolveThreadRootSeq ex_log 3 = Some 0"
    by (simp add: resolveThreadRootSeq_def threadWalk.simps) (simp add: ex_entry_def)
  from thread_root_is_stable [OF lo this] show ?thesis by blast
qed

text \<open>
  The transcript sent to a client is a faithful tail of the log: exactly the entries after the
  number reported as earlier, each projected on its own. A budgeted window of a non-empty log is never
  empty, and it stays within the byte budget unless it is a single entry.
\<close>

theorem transcript_window_is_budgeted_tail:
  assumes "windowedTranscript entries w = (out, earlier)"
  shows "out = map projectEntry (drop earlier (beforeWindow w entries)) \<and>
    earlier \<le> length (beforeWindow w entries) \<and>
    (Option.bind w tw_sinceSeq = None \<and> beforeWindow w entries \<noteq> [] \<longrightarrow> out \<noteq> []) \<and>
    (w \<noteq> None \<and> Option.bind w tw_sinceSeq = None \<longrightarrow>
       transcriptBytes out \<le> transcriptByteBudget \<or> length out \<le> 1)"
proof -
  let ?es = "beforeWindow w entries"
  let ?cut = "windowCut w ?es"
  let ?ws = "map projectEntry (drop ?cut ?es)"
  show ?thesis
  proof (cases "w = None \<or> Option.bind w tw_sinceSeq \<noteq> None")
    case True
    then have "out = ?ws" "earlier = ?cut" using assms by (auto simp: windowedTranscript_def Let_def)
    then show ?thesis using True windowCut_le [of w ?es] windowCut_less [of w ?es] by auto
  next
    case False
    let ?b = "budgetFrom ?ws 0 (length ?ws)"
    let ?from = "userBoundary ?ws ?b"
    have out: "out = drop ?from ?ws" "earlier = ?cut + ?from"
      using assms False by (auto simp: windowedTranscript_def Let_def)
    have ne: "?from < length ?ws" if "?es \<noteq> []"
    proof -
      have "?ws \<noteq> []" using windowCut_less [of w ?es] False that by auto
      then show ?thesis using budgetFrom_le [of ?ws 0 "length ?ws"] by (intro userBoundary_less) auto
    qed
    have le: "?cut + ?from \<le> length ?es"
    proof (cases "?es = []")
      case True
      then have "?ws = []" by (metis drop_Nil list.simps(8))
      then show ?thesis using True by (simp add: windowCut_def indexOrEnd_def userBoundary_def split: option.splits)
    next
      case nonempty: False
      then show ?thesis using ne by simp
    qed
    have "transcriptBytes (drop ?b ?ws) \<le> transcriptByteBudget \<or> length ?ws \<le> Suc ?b"
      by (rule budgetFrom_within) (simp_all add: transcriptBytes_def)
    moreover have "transcriptBytes (drop ?from ?ws) \<le> transcriptBytes (drop ?b ?ws)"
      using transcriptBytes_drop_mono [of ?b "?from - ?b" ?ws] userBoundary_ge [of ?b ?ws] by simp
    moreover have "?b \<le> ?from" by (rule userBoundary_ge)
    ultimately have "transcriptBytes out \<le> transcriptByteBudget \<or> length out \<le> 1"
      unfolding out by auto
    moreover have "out = map projectEntry (drop earlier ?es)"
      unfolding out by (simp add: drop_map add.commute)
    moreover have "out \<noteq> []" if "?es \<noteq> []" using ne [OF that] unfolding out by simp
    ultimately show ?thesis using le out False by auto
  qed
qed

theorem transcript_window_is_budgeted_tail_witness:
  "[projectEntry (ex_entry 2 (Some 0) EUser), projectEntry (ex_entry 3 (Some 2) EAssistant)] =
     map projectEntry (drop 2 (beforeWindow (Some \<lparr>tw_tailTurns = Some 1, tw_sinceSeq = None, tw_beforeSeq = None\<rparr>) ex_log)) \<and>
   transcriptBytes [projectEntry (ex_entry 2 (Some 0) EUser), projectEntry (ex_entry 3 (Some 2) EAssistant)] \<le>
     transcriptByteBudget"
proof -
  let ?w = "Some \<lparr>tw_tailTurns = Some 1, tw_sinceSeq = None, tw_beforeSeq = None\<rparr>"
  have "windowedTranscript ex_log ?w =
      ([projectEntry (ex_entry 2 (Some 0) EUser), projectEntry (ex_entry 3 (Some 2) EAssistant)], 2)"
    by (simp add: windowedTranscript_def beforeWindow_def windowCut_def ex_log_def ex_entry_def projectEntry_def
        userBoundary_def transcriptByteBudget_def Let_def)
  note tail = transcript_window_is_budgeted_tail [OF this]
  have "transcriptBytes [projectEntry (ex_entry 2 (Some 0) EUser), projectEntry (ex_entry 3 (Some 2) EAssistant)] \<le>
      transcriptByteBudget"
    using tail [THEN conjunct2, THEN conjunct2, THEN conjunct2] by simp
  with tail [THEN conjunct1] show ?thesis by (rule conjI)
qed

text \<open>
  Shortening a payload is honest and effective: the truncation flag is set exactly when the
  value changed, and in the result no string exceeds the budget and nothing below the walk's depth is
  larger than it.
\<close>

theorem shortening_is_honest:
  "(snd (shortenStrings v d) \<longleftrightarrow> fst (shortenStrings v d) \<noteq> v) \<and> boundedStrings (fst (shortenStrings v d)) d"
  using shortenStrings_flag shortenStrings_bounded by blast

end
