(* ===== verification/Sessions.thy ===== *)
theory Sessions
  imports Transcript
begin

section \<open>The session store\<close>

text \<open>
  Models \<open>src/src/sessions/memory-session-store.ts\<close>: sessions by thread, their append-only logs and
  tapes behind a lease, participants with the window of the log each of them may see, and the
  listings built from these. \<open>randomUUID()\<close> is the argument \<open>fresh\<close>; \<open>now()\<close> is the argument \<open>now\<close>,
  the same value throughout one call; the time to live of a lease is \<open>ttl\<close>.
  An operation that can throw returns a sum next to the store, which it may have changed before.
\<close>

subsection \<open>Data\<close>

record room_config =
  rc_personaIds :: "string list"
  rc_rounds :: int

record session =
  s_id :: string
  s_type :: conversation_kind
  s_scopeId :: scope_id
  s_threadRef :: string
  s_surface :: "string option"
  s_room :: "room_config option"
  s_createdAt :: millis
  s_channelName :: "string option"
  s_title :: "string option"
  s_archived :: bool
  s_pinned :: bool
  s_color :: "string option"
  s_lastActivityAt :: "millis option"
  s_hasEntries :: "bool option"

datatype lease_holder = HTurn | HCompaction | HFork | HBackfill

record lease =
  ls_sessionId :: string
  ls_token :: string

record held_lease =
  hl_token :: string
  hl_expiresAt :: millis
  hl_acquiredAt :: millis
  hl_holder :: "lease_holder option"

record lease_attempt =
  la_lease :: "lease option"
  la_heldBy :: "lease_holder option"
  la_heldSince :: "millis option"
  la_heldUntil :: "millis option"

text \<open>\<open>parentSeq\<close> may be absent (\<open>None\<close>), null (\<open>Some None\<close>) or a number.\<close>

record new_entry =
  ne_type :: entry_type
  ne_payload :: json
  ne_scopeLabel :: scope_id
  ne_parentSeq :: "int option option"

datatype tape_kind = TMessage | TContextEvent | TAnnotation

record new_tape_record =
  nt_kind :: tape_kind
  nt_payload :: json
  nt_scopeLabel :: scope_id
  nt_harness :: "string option"
  nt_meta :: "json option"
  nt_entrySeq :: "int option"
  nt_coversEntrySeq :: "int option"

record tape_record =
  tr_rec :: new_tape_record
  tr_sessionId :: string
  tr_seq :: int
  tr_createdAt :: millis

record new_llm_request =
  nl_turnSeq :: "int option"
  nl_step :: int
  nl_model :: string
  nl_scopeLabel :: scope_id
  nl_request :: json
  nl_truncated :: "bool option"
  nl_ttftMs :: "int option"
  nl_durationMs :: "int option"
  nl_stepGapMs :: "int option"
  nl_toolWallMs :: "int list option"
  nl_gapPhases :: "json option"
  nl_usage :: "json option"
  nl_transport :: "json option"

record llm_request =
  lr_id :: string
  lr_sessionId :: string
  lr_turnSeq :: "int option"
  lr_step :: int
  lr_model :: string
  lr_scopeLabel :: scope_id
  lr_createdAt :: millis
  lr_request :: json
  lr_truncated :: bool
  lr_ttftMs :: "int option"
  lr_durationMs :: "int option"
  lr_stepGapMs :: "int option"
  lr_toolWallMs :: "int list option"
  lr_gapPhases :: "json option"
  lr_usage :: "json option"
  lr_transport :: "json option"

text \<open>
  The window of a participant. An absent title, colour or flag and a null or false one are
  never told apart by the store.
\<close>

record window =
  w_validFrom :: millis
  w_validTo :: "millis option"
  w_validFromSeq :: int
  w_validToSeq :: "int option"
  w_title :: "string option"
  w_archived :: bool
  w_pinned :: bool
  w_color :: "string option"

record session_store =
  ss_sessions :: "(string, session) jsmap"
  ss_entries :: "(string, session_entry list) jsmap"
  ss_tape :: "(string, tape_record list) jsmap"
  ss_llmRequests :: "(string, llm_request list) jsmap"
  ss_byThread :: "(string, string) jsmap"
  ss_participants :: "(string, string list) jsmap"
  ss_windows :: "(string, (string, window) jsmap) jsmap"
  ss_leases :: "(string, held_lease) jsmap"

datatype session_error = AppendWithoutLease | TapeWithoutLease | UnknownSession string

definition createMemorySessionStore :: session_store where
  "createMemorySessionStore =
     \<lparr>ss_sessions = [], ss_entries = [], ss_tape = [], ss_llmRequests = [], ss_byThread = [],
      ss_participants = [], ss_windows = [], ss_leases = []\<rparr>"

subsection \<open>Sessions\<close>

definition nonblank :: "string option \<Rightarrow> string option" where
  "nonblank s = (if truthy s then s else None)"

definition getByThread :: "session_store \<Rightarrow> string \<Rightarrow> session option" where
  "getByThread st threadRef =
     (case nonblank (jm_get (ss_byThread st) threadRef) of
        None \<Rightarrow> None
      | Some i \<Rightarrow> jm_get (ss_sessions st) i)"

definition get_session :: "session_store \<Rightarrow> string \<Rightarrow> session option" where
  "get_session st i = jm_get (ss_sessions st) i"

definition touchSession :: "string option \<Rightarrow> string option \<Rightarrow> session \<Rightarrow> session" where
  "touchSession channelName surface s =
     s\<lparr>s_channelName := (if truthy channelName then channelName else s_channelName s),
       s_surface := (if truthy surface \<and> \<not> truthy (s_surface s) then surface else s_surface s)\<rparr>"

definition newSession ::
  "string \<Rightarrow> millis \<Rightarrow> string \<Rightarrow> conversation_kind \<Rightarrow> scope_id \<Rightarrow> string option \<Rightarrow> string option \<Rightarrow> session"
where
  "newSession fresh wall threadRef ty sid channelName surface =
     \<lparr>s_id = fresh, s_type = ty, s_scopeId = sid, s_threadRef = threadRef, s_surface = nonblank surface,
      s_room = None, s_createdAt = wall, s_channelName = nonblank channelName, s_title = None,
      s_archived = False, s_pinned = False, s_color = None, s_lastActivityAt = None, s_hasEntries = None\<rparr>"

definition getOrCreateByThread ::
  "string \<Rightarrow> millis \<Rightarrow> string \<Rightarrow> conversation_kind \<Rightarrow> scope_id \<Rightarrow> string option \<Rightarrow> string option \<Rightarrow>
     session_store \<Rightarrow> session \<times> session_store"
where
  "getOrCreateByThread fresh wall threadRef ty sid channelName surface st =
     (case getByThread st threadRef of
        Some s \<Rightarrow>
          let s' = touchSession channelName surface s
          in (s', st\<lparr>ss_sessions := jm_set (the (jm_get (ss_byThread st) threadRef)) s' (ss_sessions st)\<rparr>)
      | None \<Rightarrow>
          let s = newSession fresh wall threadRef ty sid channelName surface
          in (s, st\<lparr>ss_sessions := jm_set fresh s (ss_sessions st),
                    ss_entries := jm_set fresh [] (ss_entries st),
                    ss_byThread := jm_set threadRef fresh (ss_byThread st)\<rparr>))"

definition updateTitle :: "string \<Rightarrow> string \<Rightarrow> session_store \<Rightarrow> session_store" where
  "updateTitle i title st =
     (case jm_get (ss_sessions st) i of
        None \<Rightarrow> st
      | Some s \<Rightarrow> st\<lparr>ss_sessions := jm_set i (s\<lparr>s_title := Some title\<rparr>) (ss_sessions st)\<rparr>)"

definition setRoom :: "string \<Rightarrow> room_config option \<Rightarrow> session_store \<Rightarrow> session_store" where
  "setRoom i room st =
     (case jm_get (ss_sessions st) i of
        None \<Rightarrow> st
      | Some s \<Rightarrow> st\<lparr>ss_sessions := jm_set i (s\<lparr>s_room := room\<rparr>) (ss_sessions st)\<rparr>)"

definition dropMembership :: "string \<Rightarrow> string \<Rightarrow> (string, string list) jsmap \<Rightarrow> (string, string list) jsmap" where
  "dropMembership sessionId principalId parts =
     (case jm_get parts principalId of
        None \<Rightarrow> parts
      | Some ids \<Rightarrow> jm_set principalId (filter (\<lambda>i. i \<noteq> sessionId) ids) parts)"

definition deleteSession :: "string \<Rightarrow> session_store \<Rightarrow> session_store" where
  "deleteSession i st =
     st\<lparr>ss_byThread := (case jm_get (ss_sessions st) i of
                          None \<Rightarrow> ss_byThread st
                        | Some s \<Rightarrow> jm_delete (s_threadRef s) (ss_byThread st)),
        ss_participants :=
          fold (dropMembership i)
            (case jm_get (ss_windows st) i of None \<Rightarrow> [] | Some w \<Rightarrow> jm_keys w) (ss_participants st),
        ss_sessions := jm_delete i (ss_sessions st),
        ss_entries := jm_delete i (ss_entries st),
        ss_tape := jm_delete i (ss_tape st),
        ss_llmRequests := jm_delete i (ss_llmRequests st),
        ss_windows := jm_delete i (ss_windows st),
        ss_leases := jm_delete i (ss_leases st)\<rparr>"

subsection \<open>Leases and the log\<close>

definition acquireLease ::
  "millis \<Rightarrow> millis \<Rightarrow> string \<Rightarrow> string \<Rightarrow> lease_holder option \<Rightarrow> session_store \<Rightarrow> lease_attempt \<times> session_store"
where
  "acquireLease now ttl fresh sessionId holder st =
     (let granted =
        (\<lparr>la_lease = Some \<lparr>ls_sessionId = sessionId, ls_token = fresh\<rparr>, la_heldBy = None,
          la_heldSince = None, la_heldUntil = None\<rparr>,
         st\<lparr>ss_leases := jm_set sessionId
              \<lparr>hl_token = fresh, hl_expiresAt = now + ttl, hl_acquiredAt = now, hl_holder = holder\<rparr>
              (ss_leases st)\<rparr>)
      in case jm_get (ss_leases st) sessionId of
           Some held \<Rightarrow>
             if now < hl_expiresAt held
             then (\<lparr>la_lease = None, la_heldBy = hl_holder held, la_heldSince = Some (hl_acquiredAt held),
                    la_heldUntil = Some (hl_expiresAt held)\<rparr>, st)
             else granted
         | None \<Rightarrow> granted)"

definition releaseLease :: "lease \<Rightarrow> session_store \<Rightarrow> session_store" where
  "releaseLease l st =
     (if map_option hl_token (jm_get (ss_leases st) (ls_sessionId l)) = Some (ls_token l)
      then st\<lparr>ss_leases := jm_delete (ls_sessionId l) (ss_leases st)\<rparr> else st)"

definition forceReleaseLease :: "string \<Rightarrow> session_store \<Rightarrow> session_store" where
  "forceReleaseLease i st = st\<lparr>ss_leases := jm_delete i (ss_leases st)\<rparr>"

text \<open>The lease row an append renews, where the token is the current one.\<close>

definition renewLease :: "millis \<Rightarrow> millis \<Rightarrow> lease \<Rightarrow> session_store \<Rightarrow> session_store option" where
  "renewLease now ttl l st =
     (case jm_get (ss_leases st) (ls_sessionId l) of
        None \<Rightarrow> None
      | Some held \<Rightarrow>
          if hl_token held \<noteq> ls_token l then None
          else Some (st\<lparr>ss_leases := jm_set (ls_sessionId l) (held\<lparr>hl_expiresAt := now + ttl\<rparr>) (ss_leases st)\<rparr>))"

definition newEntry :: "millis \<Rightarrow> string \<Rightarrow> int \<Rightarrow> new_entry \<Rightarrow> session_entry" where
  "newEntry now sessionId seq e =
     \<lparr>e_sessionId = sessionId, e_seq = seq,
      e_parentSeq = (case ne_parentSeq e of
                       Some p \<Rightarrow> p
                     | None \<Rightarrow> if seq = 0 then None else Some (seq - 1)),
      e_type = ne_type e, e_payload = ne_payload e, e_scopeLabel = ne_scopeLabel e, e_createdAt = now\<rparr>"

definition append_entry ::
  "millis \<Rightarrow> millis \<Rightarrow> lease \<Rightarrow> new_entry \<Rightarrow> session_store \<Rightarrow> (session_error + session_entry) \<times> session_store"
where
  "append_entry now ttl l e st =
     (case renewLease now ttl l st of
        None \<Rightarrow> (Inl AppendWithoutLease, st)
      | Some st' \<Rightarrow>
          (case jm_get (ss_entries st') (ls_sessionId l) of
             None \<Rightarrow> (Inl (UnknownSession (ls_sessionId l)), st')
           | Some log \<Rightarrow>
               let full = newEntry now (ls_sessionId l) (int (length log)) e
               in (Inr full, st'\<lparr>ss_entries := jm_set (ls_sessionId l) (log @ [full]) (ss_entries st')\<rparr>)))"

definition getEntries :: "session_store \<Rightarrow> string \<Rightarrow> int option \<Rightarrow> int option \<Rightarrow> session_entry list" where
  "getEntries st sessionId sinceSeq limit =
     (let since = (case sinceSeq of None \<Rightarrow> 0 | Some s \<Rightarrow> s);
          filtered = filter (\<lambda>e. e_seq e \<ge> since) (jm_list (ss_entries st) sessionId)
      in case limit of None \<Rightarrow> filtered | Some n \<Rightarrow> slice_neg n filtered)"

definition appendTape ::
  "millis \<Rightarrow> millis \<Rightarrow> lease \<Rightarrow> new_tape_record \<Rightarrow> session_store \<Rightarrow> (session_error + tape_record) \<times> session_store"
where
  "appendTape now ttl l r st =
     (case renewLease now ttl l st of
        None \<Rightarrow> (Inl TapeWithoutLease, st)
      | Some st' \<Rightarrow>
          let log = jm_list (ss_tape st') (ls_sessionId l);
              full = \<lparr>tr_rec = r, tr_sessionId = ls_sessionId l, tr_seq = int (length log), tr_createdAt = now\<rparr>
          in (Inr full, st'\<lparr>ss_tape := jm_set (ls_sessionId l) (log @ [full]) (ss_tape st')\<rparr>))"

definition getTape :: "session_store \<Rightarrow> string \<Rightarrow> int option \<Rightarrow> int option \<Rightarrow> tape_record list" where
  "getTape st sessionId sinceSeq limit =
     (let log = jm_list (ss_tape st) sessionId;
          filtered = (case sinceSeq of None \<Rightarrow> log | Some s \<Rightarrow> filter (\<lambda>r. tr_seq r > s) log)
      in case limit of None \<Rightarrow> filtered | Some n \<Rightarrow> slice_neg n filtered)"

definition coveredBy :: "tape_record \<Rightarrow> int" where
  "coveredBy r =
     (let n = tr_rec r; seq = (\<lambda>x. case x of None \<Rightarrow> - 1 | Some k \<Rightarrow> k)
      in max (if nt_kind n = TAnnotation \<and> jfield (nt_payload n) ''turnEnd'' = Some (JBool True)
              then seq (nt_entrySeq n) else - 1)
             (if nt_kind n = TContextEvent \<and> jfield (nt_payload n) ''event'' = Some (JStr ''legacy_import'')
              then seq (nt_coversEntrySeq n) else - 1))"

definition tapeCoverage :: "session_store \<Rightarrow> string \<Rightarrow> int" where
  "tapeCoverage st sessionId = foldl (\<lambda>m r. max m (coveredBy r)) (- 1) (jm_list (ss_tape st) sessionId)"

definition recordLlmRequest ::
  "millis \<Rightarrow> string \<Rightarrow> string \<Rightarrow> new_llm_request \<Rightarrow> session_store \<Rightarrow> llm_request \<times> session_store"
where
  "recordLlmRequest now fresh sessionId r st =
     (let full = \<lparr>lr_id = fresh, lr_sessionId = sessionId, lr_turnSeq = nl_turnSeq r, lr_step = nl_step r,
                  lr_model = nl_model r, lr_scopeLabel = nl_scopeLabel r, lr_createdAt = now,
                  lr_request = nl_request r, lr_truncated = (nl_truncated r = Some True),
                  lr_ttftMs = nl_ttftMs r, lr_durationMs = nl_durationMs r, lr_stepGapMs = nl_stepGapMs r,
                  lr_toolWallMs = nl_toolWallMs r, lr_gapPhases = nl_gapPhases r, lr_usage = nl_usage r,
                  lr_transport = nl_transport r\<rparr>
      in (full, st\<lparr>ss_llmRequests :=
                     jm_set sessionId (jm_list (ss_llmRequests st) sessionId @ [full]) (ss_llmRequests st)\<rparr>))"

definition listLlmRequests ::
  "session_store \<Rightarrow> string \<Rightarrow> int list option \<Rightarrow> bool \<Rightarrow> bool \<Rightarrow> llm_request list"
where
  "listLlmRequests st sessionId turnSeqs orphans omitRequest =
     (let all = jm_list (ss_llmRequests st) sessionId;
          filtered = (if turnSeqs \<noteq> None \<or> orphans
                      then filter (\<lambda>r. (case (turnSeqs, lr_turnSeq r) of
                                          (Some want, Some t) \<Rightarrow> t \<in> set want
                                        | _ \<Rightarrow> False) \<or> (orphans \<and> lr_turnSeq r = None)) all
                      else all)
      in map (\<lambda>r. if omitRequest then r\<lparr>lr_request := JNull\<rparr> else r) filtered)"

subsection \<open>Participants\<close>

definition logLength :: "session_store \<Rightarrow> string \<Rightarrow> int" where
  "logLength st sessionId = int (length (jm_list (ss_entries st) sessionId))"

definition windowsOf :: "session_store \<Rightarrow> string \<Rightarrow> (string, window) jsmap" where
  "windowsOf st sessionId = jm_list (ss_windows st) sessionId"

definition openWindow ::
  "millis \<Rightarrow> bool \<Rightarrow> string option \<Rightarrow> int \<Rightarrow> window option \<Rightarrow> window"
where
  "openWindow now includeHistory title len existing =
     \<lparr>w_validFrom = (if includeHistory then 0 else now), w_validTo = None,
      w_validFromSeq = (if includeHistory then 0 else len), w_validToSeq = None,
      w_title = (if title \<noteq> None then title else Option.bind existing w_title),
      w_archived = (case existing of None \<Rightarrow> False | Some w \<Rightarrow> w_archived w),
      w_pinned = (case existing of None \<Rightarrow> False | Some w \<Rightarrow> w_pinned w),
      w_color = Option.bind existing w_color\<rparr>"

definition extendWindow :: "bool \<Rightarrow> string option \<Rightarrow> window \<Rightarrow> window" where
  "extendWindow includeHistory title w =
     w\<lparr>w_validFrom := (if includeHistory then 0 else w_validFrom w),
       w_validFromSeq := (if includeHistory then 0 else w_validFromSeq w),
       w_title := (if title \<noteq> None then title else w_title w)\<rparr>"

definition addParticipant ::
  "millis \<Rightarrow> string \<Rightarrow> string \<Rightarrow> string option \<Rightarrow> bool \<Rightarrow> session_store \<Rightarrow> session_store"
where
  "addParticipant now sessionId principalId title includeHistory st =
     (let ids = jm_list (ss_participants st) principalId;
          w = windowsOf st sessionId;
          w' = (case jm_get w principalId of
                  Some existing \<Rightarrow>
                    if w_validTo existing \<noteq> None
                    then openWindow now includeHistory title (logLength st sessionId) (Some existing)
                    else extendWindow includeHistory title existing
                | None \<Rightarrow> openWindow now includeHistory title (logLength st sessionId) None)
      in st\<lparr>ss_windows := jm_set sessionId (jm_set principalId w' w) (ss_windows st),
            ss_participants :=
              jm_set principalId (if sessionId \<in> set ids then ids else ids @ [sessionId]) (ss_participants st)\<rparr>)"

definition windowOf :: "session_store \<Rightarrow> string \<Rightarrow> string \<Rightarrow> window option" where
  "windowOf st sessionId principalId = jm_get (windowsOf st sessionId) principalId"

definition setWindow :: "string \<Rightarrow> string \<Rightarrow> window \<Rightarrow> session_store \<Rightarrow> session_store" where
  "setWindow sessionId principalId w st =
     st\<lparr>ss_windows := jm_set sessionId (jm_set principalId w (windowsOf st sessionId)) (ss_windows st)\<rparr>"

definition removeParticipant :: "millis \<Rightarrow> string \<Rightarrow> string \<Rightarrow> session_store \<Rightarrow> session_store" where
  "removeParticipant now sessionId principalId st =
     (case windowOf st sessionId principalId of
        None \<Rightarrow> st
      | Some w \<Rightarrow>
          if w_validTo w = None
          then setWindow sessionId principalId
                 (w\<lparr>w_validTo := Some now, w_validToSeq := Some (logLength st sessionId)\<rparr>) st
          else st)"

text \<open>A patch field is absent (\<open>None\<close>) or present; a present title or colour may be null.\<close>

record view_patch =
  vp_title :: "string option option"
  vp_archived :: "bool option"
  vp_pinned :: "bool option"
  vp_color :: "string option option"

definition patchWindow :: "view_patch \<Rightarrow> window \<Rightarrow> window" where
  "patchWindow p w =
     w\<lparr>w_title := (case vp_title p of None \<Rightarrow> w_title w | Some t \<Rightarrow> t),
       w_archived := (case vp_archived p of None \<Rightarrow> w_archived w | Some b \<Rightarrow> b),
       w_pinned := (case vp_pinned p of None \<Rightarrow> w_pinned w | Some b \<Rightarrow> b),
       w_color := (case vp_color p of None \<Rightarrow> w_color w | Some c \<Rightarrow> c)\<rparr>"

definition updateParticipantView :: "string \<Rightarrow> string \<Rightarrow> view_patch \<Rightarrow> session_store \<Rightarrow> session_store" where
  "updateParticipantView sessionId principalId patch st =
     (case windowOf st sessionId principalId of
        None \<Rightarrow> st
      | Some w \<Rightarrow> setWindow sessionId principalId (patchWindow patch w) st)"

definition inWindow :: "window \<Rightarrow> session_entry \<Rightarrow> bool" where
  "inWindow w e = (e_seq e \<ge> w_validFromSeq w \<and> (case w_validToSeq w of None \<Rightarrow> True | Some t \<Rightarrow> e_seq e < t))"


definition participantListing :: "session_store \<Rightarrow> string \<Rightarrow> string \<Rightarrow> session \<Rightarrow> session" where
  "participantListing st principalId i s =
     (let view = windowOf st i principalId;
          all = jm_list (ss_entries st) i;
          log = filter (\<lambda>e. e_type e = EUser) all
      in s\<lparr>s_title := (if Option.bind view w_title \<noteq> None then Option.bind view w_title else s_title s),
           s_archived := (if map_option w_archived view = Some True then True else s_archived s),
           s_pinned := (if map_option w_pinned view = Some True then True else s_pinned s),
           s_color := (if Option.bind view w_color \<noteq> None then Option.bind view w_color else s_color s),
           s_lastActivityAt := Some (foldl max (s_createdAt s) (map e_createdAt log)),
           s_hasEntries := Some (case view of None \<Rightarrow> False | Some w \<Rightarrow> list_ex (inWindow w) all)\<rparr>)"

definition listByParticipant :: "session_store \<Rightarrow> string \<Rightarrow> session list" where
  "listByParticipant st principalId =
     concat (map (\<lambda>i. case jm_get (ss_sessions st) i of
                        None \<Rightarrow> []
                      | Some s \<Rightarrow> [participantListing st principalId i s])
               (jm_list (ss_participants st) principalId))"

definition listParticipants :: "session_store \<Rightarrow> (string \<times> string \<times> millis \<times> millis option) list" where
  "listParticipants st =
     concat (map (\<lambda>(i, byPrincipal). map (\<lambda>(p, w). (i, p, w_validFrom w, w_validTo w)) byPrincipal)
               (ss_windows st))"

definition participantsOf :: "session_store \<Rightarrow> string \<Rightarrow> string list" where
  "participantsOf st sessionId = jm_keys (windowsOf st sessionId)"

subsection \<open>The store as a step system\<close>

text \<open>One constructor per operation that changes the store, with its arguments.\<close>

datatype session_op =
    OpGetOrCreate string millis string conversation_kind scope_id "string option" "string option"
  | OpUpdateTitle string string
  | OpSetRoom string "room_config option"
  | OpDelete string
  | OpAcquire millis millis string string "lease_holder option"
  | OpRelease lease
  | OpForceRelease string
  | OpAppend millis millis lease new_entry
  | OpAppendTape millis millis lease new_tape_record
  | OpRecordLlm millis string string new_llm_request
  | OpAddParticipant millis string string "string option" bool
  | OpRemoveParticipant millis string string
  | OpUpdateView string string view_patch

fun session_apply :: "session_op \<Rightarrow> session_store \<Rightarrow> session_store" where
  "session_apply (OpGetOrCreate fresh wall t ty sc ch su) st = snd (getOrCreateByThread fresh wall t ty sc ch su st)"
| "session_apply (OpUpdateTitle i t) st = updateTitle i t st"
| "session_apply (OpSetRoom i r) st = setRoom i r st"
| "session_apply (OpDelete i) st = deleteSession i st"
| "session_apply (OpAcquire now ttl fresh i h) st = snd (acquireLease now ttl fresh i h st)"
| "session_apply (OpRelease l) st = releaseLease l st"
| "session_apply (OpForceRelease i) st = forceReleaseLease i st"
| "session_apply (OpAppend now ttl l e) st = snd (append_entry now ttl l e st)"
| "session_apply (OpAppendTape now ttl l r) st = snd (appendTape now ttl l r st)"
| "session_apply (OpRecordLlm now fresh i r) st = snd (recordLlmRequest now fresh i r st)"
| "session_apply (OpAddParticipant now i p t h) st = addParticipant now i p t h st"
| "session_apply (OpRemoveParticipant now i p) st = removeParticipant now i p st"
| "session_apply (OpUpdateView i p v) st = updateParticipantView i p v st"

text \<open>A new session gets an identifier that is not empty and names no session yet.\<close>

fun op_ok :: "session_op \<Rightarrow> session_store \<Rightarrow> bool" where
  "op_ok (OpGetOrCreate fresh wall t ty sc ch su) st =
     (fresh \<noteq> [] \<and> jm_get (ss_sessions st) fresh = None \<and> jm_get (ss_entries st) fresh = None)"
| "op_ok _ st = True"

text \<open>Steps by the operations a predicate admits.\<close>

inductive session_step :: "(session_op \<Rightarrow> bool) \<Rightarrow> session_store \<Rightarrow> session_store \<Rightarrow> bool" for allowed where
  session_stepI: "allowed op \<Longrightarrow> op_ok op st \<Longrightarrow> session_step allowed st (session_apply op st)"

subsection \<open>The invariant\<close>

definition threads_ok :: "session_store \<Rightarrow> bool" where
  "threads_ok st =
     ((\<forall>i s. jm_get (ss_sessions st) i = Some s \<longrightarrow>
         s_id s = i \<and> i \<noteq> [] \<and> jm_get (ss_byThread st) (s_threadRef s) = Some i \<and> jm_get (ss_entries st) i \<noteq> None) \<and>
      (\<forall>t i. jm_get (ss_byThread st) t = Some i \<longrightarrow> (\<exists>s. jm_get (ss_sessions st) i = Some s \<and> s_threadRef s = t)))"

definition log_ok :: "string \<Rightarrow> session_entry list \<Rightarrow> bool" where
  "log_ok i log = (\<forall>n < length log. e_seq (log ! n) = int n \<and> e_sessionId (log ! n) = i)"

definition logs_ok :: "session_store \<Rightarrow> bool" where
  "logs_ok st = (\<forall>i. log_ok i (jm_list (ss_entries st) i))"

definition window_ok :: "int \<Rightarrow> window \<Rightarrow> bool" where
  "window_ok len w =
     (0 \<le> w_validFromSeq w \<and> w_validFromSeq w \<le> len \<and> (w_validTo w = None \<longleftrightarrow> w_validToSeq w = None) \<and>
      (case w_validToSeq w of None \<Rightarrow> True | Some t \<Rightarrow> w_validFromSeq w \<le> t \<and> t \<le> len))"

definition windows_ok :: "session_store \<Rightarrow> bool" where
  "windows_ok st = (\<forall>i p w. windowOf st i p = Some w \<longrightarrow> window_ok (logLength st i) w)"

definition store_ok :: "session_store \<Rightarrow> bool" where
  "store_ok st = (threads_ok st \<and> logs_ok st \<and> windows_ok st)"

lemmas store_defs = threads_ok_def logs_ok_def windows_ok_def windowOf_def windowsOf_def logLength_def

lemma log_ok_nil [simp]: "log_ok i []"
  by (simp add: log_ok_def)

lemma log_ok_snoc: "log_ok i log \<Longrightarrow> e_seq e = int (length log) \<Longrightarrow> e_sessionId e = i \<Longrightarrow> log_ok i (log @ [e])"
  by (simp add: log_ok_def nth_append less_Suc_eq)

lemma window_ok_mono: "window_ok len w \<Longrightarrow> len \<le> len' \<Longrightarrow> window_ok len' w"
  by (auto simp: window_ok_def split: option.splits)

lemma getByThread_Some:
  "threads_ok st \<Longrightarrow> getByThread st t = Some s \<longleftrightarrow>
     (\<exists>i. jm_get (ss_byThread st) t = Some i \<and> jm_get (ss_sessions st) i = Some s)"
  by (cases "jm_get (ss_byThread st) t") (auto simp: getByThread_def nonblank_def threads_ok_def)

lemma getByThread_None: "threads_ok st \<Longrightarrow> getByThread st t = None \<longleftrightarrow> jm_get (ss_byThread st) t = None"
  by (cases "jm_get (ss_byThread st) t") (fastforce simp: getByThread_def nonblank_def threads_ok_def)+

text \<open>What an append does to the store: the three outcomes.\<close>

lemma append_entry_cases:
  obtains (refused) "append_entry now ttl l e st = (Inl AppendWithoutLease, st)"
      "map_option hl_token (jm_get (ss_leases st) (ls_sessionId l)) \<noteq> Some (ls_token l)"
  | (unknown) held where "jm_get (ss_entries st) (ls_sessionId l) = None"
      "append_entry now ttl l e st = (Inl (UnknownSession (ls_sessionId l)),
         st\<lparr>ss_leases := jm_set (ls_sessionId l) held (ss_leases st)\<rparr>)" "hl_token held = ls_token l"
      "map_option hl_token (jm_get (ss_leases st) (ls_sessionId l)) = Some (ls_token l)"
  | (appended) held log full where "jm_get (ss_entries st) (ls_sessionId l) = Some log"
      "append_entry now ttl l e st = (Inr full,
         st\<lparr>ss_leases := jm_set (ls_sessionId l) held (ss_leases st),
            ss_entries := jm_set (ls_sessionId l) (log @ [full]) (ss_entries st)\<rparr>)"
      "e_seq full = int (length log)" "e_sessionId full = ls_sessionId l" "hl_token held = ls_token l"
      "map_option hl_token (jm_get (ss_leases st) (ls_sessionId l)) = Some (ls_token l)"
proof (cases "jm_get (ss_leases st) (ls_sessionId l)")
  case None
  then show ?thesis using refused by (simp add: append_entry_def renewLease_def)
next
  case (Some held)
  show ?thesis
  proof (cases "hl_token held = ls_token l")
    case False
    then show ?thesis using refused Some by (simp add: append_entry_def renewLease_def)
  next
    case tok: True
    show ?thesis
    proof (cases "jm_get (ss_entries st) (ls_sessionId l)")
      case None
      then show ?thesis using unknown [of "held\<lparr>hl_expiresAt := now + ttl\<rparr>"] Some tok
        by (simp add: append_entry_def renewLease_def)
    next
      case log: (Some log)
      show ?thesis
        by (rule appended [OF log, where held = "held\<lparr>hl_expiresAt := now + ttl\<rparr>" and full = "newEntry now (ls_sessionId l) (int (length log)) e"])
           (use Some tok log in \<open>simp_all add: append_entry_def renewLease_def Let_def newEntry_def\<close>)
    qed
  qed
qed

lemma appendTape_frame:
  "ss_sessions (snd (appendTape now ttl l r st)) = ss_sessions st"
  "ss_byThread (snd (appendTape now ttl l r st)) = ss_byThread st"
  "ss_entries (snd (appendTape now ttl l r st)) = ss_entries st"
  "ss_windows (snd (appendTape now ttl l r st)) = ss_windows st"
  by (simp_all add: appendTape_def renewLease_def Let_def split: option.splits)

lemma acquireLease_frame:
  "ss_sessions (snd (acquireLease now ttl fresh i h st)) = ss_sessions st"
  "ss_byThread (snd (acquireLease now ttl fresh i h st)) = ss_byThread st"
  "ss_entries (snd (acquireLease now ttl fresh i h st)) = ss_entries st"
  "ss_windows (snd (acquireLease now ttl fresh i h st)) = ss_windows st"
  by (simp_all add: acquireLease_def Let_def split: option.splits)

lemma store_ok_frame:
  assumes "store_ok st" "ss_sessions st' = ss_sessions st" "ss_byThread st' = ss_byThread st"
    "ss_entries st' = ss_entries st" "ss_windows st' = ss_windows st"
  shows "store_ok st'"
  using assms by (simp add: store_ok_def store_defs)

lemma store_ok_session_update:
  assumes "store_ok st" "jm_get (ss_sessions st) i = Some s" "s_id s' = s_id s" "s_threadRef s' = s_threadRef s"
  shows "store_ok (st\<lparr>ss_sessions := jm_set i s' (ss_sessions st)\<rparr>)"
proof -
  have a: "s_id x = j \<and> j \<noteq> [] \<and> jm_get (ss_byThread st) (s_threadRef x) = Some j \<and> jm_get (ss_entries st) j \<noteq> None"
    if "jm_get (ss_sessions st) j = Some x" for j x
    using assms(1) that by (simp add: store_ok_def threads_ok_def)
  have b: "\<exists>x. jm_get (ss_sessions st) j = Some x \<and> s_threadRef x = t" if "jm_get (ss_byThread st) t = Some j" for t j
    using assms(1) that by (simp add: store_ok_def threads_ok_def)
  have "threads_ok (st\<lparr>ss_sessions := jm_set i s' (ss_sessions st)\<rparr>)"
    unfolding threads_ok_def
  proof (intro conjI allI impI)
    fix t j
    assume "jm_get (ss_byThread (st\<lparr>ss_sessions := jm_set i s' (ss_sessions st)\<rparr>)) t = Some j"
    then obtain x where "jm_get (ss_sessions st) j = Some x" "s_threadRef x = t" using b by auto
    then show "\<exists>s. jm_get (ss_sessions (st\<lparr>ss_sessions := jm_set i s' (ss_sessions st)\<rparr>)) j = Some s \<and> s_threadRef s = t"
      using assms(2,4) by (cases "j = i") auto
  qed (use a assms in \<open>auto split: if_splits\<close>)
  then show ?thesis
    using assms(1) by (simp add: store_ok_def logs_ok_def windows_ok_def windowOf_def windowsOf_def logLength_def)
qed

lemma store_ok_create:
  assumes ok: "store_ok st" and fr: "op_ok (OpGetOrCreate fresh wall t ty sc ch su) st"
  shows "store_ok (snd (getOrCreateByThread fresh wall t ty sc ch su st))"
proof (cases "getByThread st t")
  case None
  then have nt: "jm_get (ss_byThread st) t = None" using ok getByThread_None by (auto simp: store_ok_def)
  have len: "jm_list (ss_entries st) fresh = []" using fr by (simp add: jm_list_def)
  have "threads_ok (snd (getOrCreateByThread fresh wall t ty sc ch su st))"
    using ok fr None nt
    by (fastforce simp: store_ok_def threads_ok_def getOrCreateByThread_def Let_def newSession_def)
  moreover have "ss_windows (snd (getOrCreateByThread fresh wall t ty sc ch su st)) = ss_windows st"
    "jm_list (ss_entries (snd (getOrCreateByThread fresh wall t ty sc ch su st))) i = jm_list (ss_entries st) i" for i
    using None len by (simp_all add: getOrCreateByThread_def Let_def)
  ultimately show ?thesis
    using ok by (simp add: store_ok_def logs_ok_def windows_ok_def windowOf_def windowsOf_def logLength_def)
next
  case (Some s)
  then obtain i where i: "jm_get (ss_byThread st) t = Some i" "jm_get (ss_sessions st) i = Some s"
    using ok getByThread_Some by (auto simp: store_ok_def)
  then show ?thesis
    using Some store_ok_session_update [OF ok i(2), of "touchSession ch su s"]
    by (simp add: getOrCreateByThread_def Let_def touchSession_def)
qed

lemma store_ok_delete:
  assumes "store_ok st"
  shows "store_ok (deleteSession i st)"
proof -
  have a: "s_id x = j \<and> j \<noteq> [] \<and> jm_get (ss_byThread st) (s_threadRef x) = Some j \<and> jm_get (ss_entries st) j \<noteq> None"
    if "jm_get (ss_sessions st) j = Some x" for j x
    using assms(1) that by (simp add: store_ok_def threads_ok_def)
  have b: "\<exists>x. jm_get (ss_sessions st) j = Some x \<and> s_threadRef x = t" if "jm_get (ss_byThread st) t = Some j" for t j
    using assms(1) that by (simp add: store_ok_def threads_ok_def)
  have gone: "jm_get (ss_byThread (deleteSession i st)) t = Some j \<longleftrightarrow> jm_get (ss_byThread st) t = Some j \<and> j \<noteq> i" for t j
    using a [of i] b [of t i] by (auto simp: deleteSession_def split: option.splits if_splits)
  have "threads_ok (deleteSession i st)"
    unfolding threads_ok_def gone using a b by (auto simp: deleteSession_def)
  moreover have "windowOf (deleteSession i st) j p = (if j = i then None else windowOf st j p)" for j p
    by (simp add: windowOf_def windowsOf_def deleteSession_def)
  moreover have "logLength (deleteSession i st) j = (if j = i then 0 else logLength st j)" for j
    by (simp add: logLength_def deleteSession_def)
  ultimately show ?thesis
    using assms by (auto simp: store_ok_def logs_ok_def windows_ok_def deleteSession_def split: if_splits)
qed

lemma store_ok_append:
  assumes "store_ok st"
  shows "store_ok (snd (append_entry now ttl l e st))"
proof (cases rule: append_entry_cases [of now ttl l e st])
  case refused
  then show ?thesis using assms by simp
next
  case (unknown held)
  then show ?thesis using assms by (auto intro: store_ok_frame)
next
  case (appended held log full)
  let ?st = "snd (append_entry now ttl l e st)"
  have lg: "jm_list (ss_entries st) (ls_sessionId l) = log" using appended by (simp add: jm_list_def)
  have lok: "logs_ok ?st"
    using assms appended lg by (auto simp: store_ok_def logs_ok_def intro!: log_ok_snoc)
  have "logLength st i \<le> logLength ?st i" for i
    using appended lg by (auto simp: logLength_def)
  moreover have "windowOf ?st i p = windowOf st i p" for i p
    using appended by (simp add: windowOf_def windowsOf_def)
  ultimately have "windows_ok ?st"
    using assms window_ok_mono unfolding store_ok_def windows_ok_def by metis
  moreover have "threads_ok ?st"
    using assms appended by (auto simp: store_ok_def threads_ok_def)
  ultimately show ?thesis using lok by (simp add: store_ok_def)
qed

lemma store_ok_setWindow:
  assumes "store_ok st" "window_ok (logLength st i) w"
  shows "store_ok (setWindow i p w st)"
proof -
  have "windowOf (setWindow i p w st) j q = (if j = i \<and> q = p then Some w else windowOf st j q)" for j q
    by (simp add: windowOf_def windowsOf_def setWindow_def)
  moreover have "logLength (setWindow i p w st) j = logLength st j" for j
    by (simp add: logLength_def setWindow_def)
  ultimately show ?thesis
    using assms by (auto simp: store_ok_def windows_ok_def threads_ok_def logs_ok_def setWindow_def)
qed

lemma windowOf_ok: "store_ok st \<Longrightarrow> windowOf st i p = Some w \<Longrightarrow> window_ok (logLength st i) w"
  by (simp add: store_ok_def windows_ok_def)

lemma addParticipant_setWindow:
  "\<exists>w parts. addParticipant now i p t h st = (setWindow i p w st)\<lparr>ss_participants := parts\<rparr> \<and>
     (store_ok st \<longrightarrow> window_ok (logLength st i) w)"
proof -
  let ?w = "case windowOf st i p of
     Some ex \<Rightarrow> if w_validTo ex \<noteq> None then openWindow now h t (logLength st i) (Some ex) else extendWindow h t ex
   | None \<Rightarrow> openWindow now h t (logLength st i) None"
  have op: "window_ok (logLength st i) (openWindow now h t (logLength st i) ex)" for ex
    by (simp add: window_ok_def openWindow_def logLength_def)
  have ext: "window_ok (logLength st i) ex \<Longrightarrow> window_ok (logLength st i) (extendWindow h t ex)" for ex
    by (auto simp: window_ok_def extendWindow_def split: option.splits)
  have "window_ok (logLength st i) ?w" if "store_ok st"
    using op ext windowOf_ok [OF that] by (auto split: option.splits)
  moreover have "addParticipant now i p t h st = (setWindow i p ?w st)\<lparr>ss_participants :=
      (let ids = jm_list (ss_participants st) p in jm_set p (if i \<in> set ids then ids else ids @ [i]) (ss_participants st))\<rparr>"
    by (simp add: addParticipant_def setWindow_def windowOf_def Let_def)
  ultimately show ?thesis by blast
qed

lemma session_apply_ok:
  assumes ok: "store_ok st" and fr: "op_ok op st"
  shows "store_ok (session_apply op st)"
proof (cases op)
  case (OpGetOrCreate fresh wall t ty sc ch su)
  then show ?thesis using ok fr store_ok_create by simp
next
  case (OpUpdateTitle i t)
  then show ?thesis using ok by (auto simp: updateTitle_def intro: store_ok_session_update split: option.splits)
next
  case (OpSetRoom i r)
  then show ?thesis using ok by (auto simp: setRoom_def intro: store_ok_session_update split: option.splits)
next
  case (OpDelete i)
  then show ?thesis using ok store_ok_delete by simp
next
  case (OpAcquire now ttl fresh i h)
  then show ?thesis using ok acquireLease_frame by (auto intro: store_ok_frame)
next
  case (OpRelease l)
  then show ?thesis using ok by (auto simp: releaseLease_def intro: store_ok_frame)
next
  case (OpForceRelease i)
  then show ?thesis using ok by (auto simp: forceReleaseLease_def intro: store_ok_frame)
next
  case (OpAppend now ttl l e)
  then show ?thesis using ok store_ok_append by simp
next
  case (OpAppendTape now ttl l r)
  then show ?thesis using ok appendTape_frame by (auto intro: store_ok_frame)
next
  case (OpRecordLlm now fresh i r)
  then show ?thesis using ok by (auto simp: recordLlmRequest_def Let_def intro: store_ok_frame)
next
  case (OpAddParticipant now i p t h)
  obtain w parts where w: "addParticipant now i p t h st = (setWindow i p w st)\<lparr>ss_participants := parts\<rparr>"
    "window_ok (logLength st i) w" using addParticipant_setWindow ok by blast
  have "store_ok (setWindow i p w st)" using ok w(2) by (rule store_ok_setWindow)
  then show ?thesis using OpAddParticipant w(1) by (auto intro: store_ok_frame)
next
  case (OpRemoveParticipant now i p)
  have "window_ok (logLength st i) (w\<lparr>w_validTo := Some now, w_validToSeq := Some (logLength st i)\<rparr>)"
    if "windowOf st i p = Some w" for w
    using windowOf_ok [OF ok that] by (auto simp: window_ok_def split: option.splits)
  then show ?thesis
    using OpRemoveParticipant ok by (auto simp: removeParticipant_def intro: store_ok_setWindow split: option.splits)
next
  case (OpUpdateView i p v)
  have "window_ok (logLength st i) (patchWindow v w)" if "windowOf st i p = Some w" for w
    using windowOf_ok [OF ok that] by (auto simp: window_ok_def patchWindow_def split: option.splits)
  then show ?thesis
    using OpUpdateView ok by (auto simp: updateParticipantView_def intro: store_ok_setWindow split: option.splits)
qed

lemma store_ok_initial: "store_ok createMemorySessionStore"
  by (simp add: store_ok_def store_defs createMemorySessionStore_def jm_list_def)

interpretation sessions: step_system "session_step allowed" store_ok for allowed
  by unfold_locales (auto elim!: session_step.cases intro: session_apply_ok)

text \<open>The map of sessions has one row per identifier.\<close>

lemma sessions_distinct_apply:
  assumes "jm_ok (ss_sessions st)"
  shows "jm_ok (ss_sessions (session_apply op st))"
proof (cases op)
  case (OpAppend now ttl l e)
  then show ?thesis using assms by (cases rule: append_entry_cases [of now ttl l e st]) auto
qed (use assms in \<open>simp_all add: updateTitle_def setRoom_def deleteSession_def getOrCreateByThread_def acquireLease_frame
       appendTape_frame releaseLease_def forceReleaseLease_def recordLlmRequest_def Let_def addParticipant_def
       removeParticipant_def updateParticipantView_def setWindow_def split: option.splits\<close>)

interpretation session_rows: step_system "session_step allowed" "\<lambda>st. jm_ok (ss_sessions st)" for allowed
  by unfold_locales (auto elim!: session_step.cases intro: sessions_distinct_apply)

subsection \<open>What steps preserve\<close>

abbreviation logOf :: "session_store \<Rightarrow> string \<Rightarrow> session_entry list" where
  "logOf st i \<equiv> jm_list (ss_entries st) i"

definition log_grows :: "string \<Rightarrow> session_store \<Rightarrow> session_store \<Rightarrow> bool" where
  "log_grows i st st' = (\<exists>more. logOf st' i = logOf st i @ more)"


definition thread_kept :: "string \<Rightarrow> session_store \<Rightarrow> session_store \<Rightarrow> bool" where
  "thread_kept i st st' = (\<forall>t. jm_get (ss_byThread st) t = Some i \<longrightarrow> jm_get (ss_byThread st') t = Some i)"

definition lease_lost :: "string \<Rightarrow> string \<Rightarrow> session_store \<Rightarrow> bool" where
  "lease_lost i tok st = (map_option hl_token (jm_get (ss_leases st) i) \<noteq> Some tok)"

text \<open>The operations these depend on.\<close>

fun deletes :: "string \<Rightarrow> session_op \<Rightarrow> bool" where
  "deletes i (OpDelete j) = (j = i)"
| "deletes i _ = False"


fun draws :: "string \<Rightarrow> session_op \<Rightarrow> bool" where
  "draws tok (OpAcquire now ttl fresh i h) = (fresh = tok)"
| "draws tok _ = False"


lemma append_entry_frame:
  "ss_windows (snd (append_entry now ttl l e st)) = ss_windows st"
  "ss_byThread (snd (append_entry now ttl l e st)) = ss_byThread st"
  by (cases rule: append_entry_cases [of now ttl l e st]; simp)+


lemma log_grows_apply:
  assumes "op_ok op st" "\<not> deletes i op"
  shows "log_grows i st (session_apply op st)"
proof (cases op)
  case (OpGetOrCreate fresh wall t ty sc ch su)
  then show ?thesis using assms
    by (auto simp: log_grows_def getOrCreateByThread_def Let_def jm_list_def split: option.splits)
next
  case (OpAppend now ttl l e)
  then show ?thesis
    by (cases rule: append_entry_cases [of now ttl l e st]) (auto simp: log_grows_def jm_list_def)
qed (use assms in \<open>auto simp: log_grows_def updateTitle_def setRoom_def deleteSession_def acquireLease_frame
       appendTape_frame releaseLease_def forceReleaseLease_def recordLlmRequest_def Let_def addParticipant_def
       removeParticipant_def updateParticipantView_def setWindow_def split: option.splits\<close>)



lemma thread_kept_apply:
  assumes ok: "store_ok st" and "\<not> deletes i op"
  shows "thread_kept i st (session_apply op st)"
proof (cases op)
  case (OpGetOrCreate fresh wall t ty sc ch su)
  have "jm_get (ss_byThread st) t = None" if "getByThread st t = None"
    using ok that getByThread_None by (auto simp: store_ok_def)
  then show ?thesis
    using OpGetOrCreate by (auto simp: thread_kept_def getOrCreateByThread_def Let_def split: option.splits)
next
  case (OpDelete j)
  then have "i \<noteq> j" using assms by simp
  moreover have "jm_get (ss_byThread st) (s_threadRef s) = Some j" if "jm_get (ss_sessions st) j = Some s" for s
    using ok that by (simp add: store_ok_def threads_ok_def)
  ultimately show ?thesis
    using OpDelete by (auto simp: thread_kept_def deleteSession_def split: option.splits)
qed (use assms in \<open>auto simp: thread_kept_def updateTitle_def setRoom_def acquireLease_frame append_entry_frame
       appendTape_frame releaseLease_def forceReleaseLease_def recordLlmRequest_def Let_def addParticipant_def
       removeParticipant_def updateParticipantView_def setWindow_def split: option.splits\<close>)

lemma renewLease_lost: "renewLease now ttl l st = Some st' \<Longrightarrow> lease_lost i tok st \<Longrightarrow> lease_lost i tok st'"
  by (auto simp: renewLease_def lease_lost_def split: option.splits if_splits)

lemma lease_lost_apply:
  assumes "lease_lost i tok st" "\<not> draws tok op"
  shows "lease_lost i tok (session_apply op st)"
proof (cases op)
  case (OpAppend now ttl l e)
  then show ?thesis using assms
    by (cases rule: append_entry_cases [of now ttl l e st]) (auto simp: lease_lost_def)
next
  case (OpAppendTape now ttl l r)
  have "lease_lost i tok (s\<lparr>ss_tape := x\<rparr>) = lease_lost i tok s" for s x by (simp add: lease_lost_def)
  then show ?thesis using OpAppendTape assms renewLease_lost
    by (auto simp: appendTape_def Let_def split: option.splits)
qed (use assms in \<open>auto simp: lease_lost_def updateTitle_def setRoom_def deleteSession_def acquireLease_def
       getOrCreateByThread_def releaseLease_def forceReleaseLease_def recordLlmRequest_def Let_def addParticipant_def
       removeParticipant_def updateParticipantView_def setWindow_def split: option.splits if_splits\<close>)

interpretation session_log: step_preorder "session_step (\<lambda>op. \<not> deletes i op)" store_ok "log_grows i" for i
proof unfold_locales
  show "log_grows i st st" for st by (simp add: log_grows_def)
  show "log_grows i s t \<Longrightarrow> log_grows i t u \<Longrightarrow> log_grows i s u" for s t u by (auto simp: log_grows_def)
  show "log_grows i s t" if "session_step (\<lambda>op. \<not> deletes i op) s t" for s t
    using that by cases (auto intro: log_grows_apply)
qed

interpretation session_thread: step_preorder "session_step (\<lambda>op. \<not> deletes i op)" store_ok "thread_kept i" for i
proof unfold_locales
  show "thread_kept i st st" for st by (simp add: thread_kept_def)
  show "thread_kept i s t \<Longrightarrow> thread_kept i t u \<Longrightarrow> thread_kept i s u" for s t u by (auto simp: thread_kept_def)
  show "thread_kept i s t" if "store_ok s" "session_step (\<lambda>op. \<not> deletes i op) s t" for s t
    using that(2,1) by cases (auto intro: thread_kept_apply)
qed


interpretation session_fence: step_system "session_step (\<lambda>op. \<not> draws tok op)" "lease_lost i tok" for i tok
  by unfold_locales (auto elim!: session_step.cases intro: lease_lost_apply)

subsection \<open>Properties\<close>

abbreviation any_step :: "session_store \<Rightarrow> session_store \<Rightarrow> bool" where
  "any_step \<equiv> session_step (\<lambda>_. True)"

lemma reachable_ok: "any_step\<^sup>*\<^sup>* createMemorySessionStore st \<Longrightarrow> store_ok st"
  using sessions.steps_inv store_ok_initial by blast

lemma reachable_distinct: "any_step\<^sup>*\<^sup>* createMemorySessionStore st \<Longrightarrow> jm_ok (ss_sessions st)"
  using session_rows.steps_inv [of "\<lambda>_. True" createMemorySessionStore st]
  by (simp add: createMemorySessionStore_def)

lemma allowed_weaken: "(session_step a)\<^sup>*\<^sup>* s t \<Longrightarrow> any_step\<^sup>*\<^sup>* s t"
  by (rule rtranclp_mono [THEN predicate2D]) (auto elim!: session_step.cases intro: session_stepI)

text \<open>
  C7. Session logs are append-only: until a session is deleted, no sequence of operations changes,
  drops or reorders an entry of its log, and the number of an entry is always its position.
\<close>

theorem session_log_is_append_only:
  assumes "any_step\<^sup>*\<^sup>* createMemorySessionStore st" "(session_step (\<lambda>op. \<not> deletes i op))\<^sup>*\<^sup>* st st'"
  shows "(\<exists>more. logOf st' i = logOf st i @ more) \<and>
         (\<forall>n < length (logOf st' i). e_seq (logOf st' i ! n) = int n \<and> e_sessionId (logOf st' i ! n) = i)"
proof -
  have ok: "store_ok st" by (rule reachable_ok [OF assms(1)])
  have "log_grows i st st'" by (rule session_log.steps_R [OF assms(2) ok])
  moreover have "store_ok st'" by (rule sessions.steps_inv [OF assms(2) ok])
  ultimately show ?thesis by (simp add: log_grows_def store_ok_def logs_ok_def log_ok_def)
qed

text \<open>
  A lost lease never writes again: once the token of a lease is not the current one of its
  session (released, forced, or taken over after it lapsed), every later append and tape append with
  it is refused and leaves the store alone, whatever happens in between, as long as no later lease
  draws the same token.
\<close>

theorem lost_lease_is_fenced:
  assumes "map_option hl_token (jm_get (ss_leases st) i) \<noteq> Some tok"
    and "(session_step (\<lambda>op. \<not> draws tok op))\<^sup>*\<^sup>* st st'"
  shows "append_entry now ttl \<lparr>ls_sessionId = i, ls_token = tok\<rparr> e st' = (Inl AppendWithoutLease, st') \<and>
         appendTape now ttl \<lparr>ls_sessionId = i, ls_token = tok\<rparr> r st' = (Inl TapeWithoutLease, st')"
proof -
  have "lease_lost i tok st" using assms(1) by (simp add: lease_lost_def)
  from session_fence.steps_inv [OF assms(2) this] have "lease_lost i tok st'" .
  then have "renewLease now ttl \<lparr>ls_sessionId = i, ls_token = tok\<rparr> st' = None"
    by (auto simp: lease_lost_def renewLease_def split: option.splits)
  then show ?thesis by (simp add: append_entry_def appendTape_def)
qed


text \<open>
  One session per thread: whoever asks for the session of a thread again, with whatever
  arguments, gets the same session until it is deleted.
\<close>

theorem thread_has_one_session:
  assumes "any_step\<^sup>*\<^sup>* createMemorySessionStore st" "op_ok (OpGetOrCreate fresh wall t ty sc ch su) st"
    and "getOrCreateByThread fresh wall t ty sc ch su st = (s, st1)"
    and "(session_step (\<lambda>op. \<not> deletes (s_id s) op))\<^sup>*\<^sup>* st1 st2"
  shows "s_id (fst (getOrCreateByThread fresh' wall' t ty' sc' ch' su' st2)) = s_id s \<and> s_threadRef s = t"
proof -
  have ok: "store_ok st" by (rule reachable_ok [OF assms(1)])
  have ok1: "store_ok st1" using session_apply_ok [OF ok assms(2)] assms(3) by simp
  have ok2: "store_ok st2" by (rule sessions.steps_inv [OF assms(4) ok1])
  have by1: "jm_get (ss_byThread st1) t = Some (s_id s)" "s_threadRef s = t"
  proof -
    have "jm_get (ss_sessions st1) (s_id s) = Some s \<and> s_threadRef s = t"
    proof (cases "getByThread st t")
      case None
      then show ?thesis using assms(3) by (auto simp: getOrCreateByThread_def Let_def newSession_def)
    next
      case (Some s0)
      then obtain j where "jm_get (ss_byThread st) t = Some j" "jm_get (ss_sessions st) j = Some s0"
        using ok getByThread_Some by (auto simp: store_ok_def)
      moreover from this have "s_id s0 = j" "s_threadRef s0 = t"
        using ok by (fastforce simp: store_ok_def threads_ok_def)+
      ultimately show ?thesis
        using Some assms(3) by (auto simp: getOrCreateByThread_def Let_def touchSession_def)
    qed
    then show "jm_get (ss_byThread st1) t = Some (s_id s)" "s_threadRef s = t"
      using ok1 by (auto simp: store_ok_def threads_ok_def)
  qed
  have "thread_kept (s_id s) st1 st2" by (rule session_thread.steps_R [OF assms(4) ok1])
  then have "jm_get (ss_byThread st2) t = Some (s_id s)" using by1 by (simp add: thread_kept_def)
  moreover from this obtain s2 where "jm_get (ss_sessions st2) (s_id s) = Some s2" "s_id s2 = s_id s"
    using ok2 by (fastforce simp: store_ok_def threads_ok_def)
  ultimately have "getByThread st2 t = Some s2" using ok2 getByThread_Some by (auto simp: store_ok_def)
  then show ?thesis
    using \<open>s_id s2 = s_id s\<close> by1(2) by (simp add: getOrCreateByThread_def Let_def touchSession_def)
qed

subsection \<open>Witnesses\<close>

definition ex_op_create :: session_op where
  "ex_op_create = OpGetOrCreate ''s1'' 5 ''t1'' CChannel ''channel:c'' None None"

definition ex_op_append :: session_op where
  "ex_op_append = OpAppend 7 100 \<lparr>ls_sessionId = ''s1'', ls_token = ''k1''\<rparr>
     \<lparr>ne_type = EUser, ne_payload = JStr ''hi'', ne_scopeLabel = ''channel:c'', ne_parentSeq = None\<rparr>"

text \<open>One session, a first participant with the history, one entry; then the participant leaves.\<close>

definition ex_ops1 :: "session_op list" where
  "ex_ops1 = [ex_op_create, OpAcquire 6 100 ''k1'' ''s1'' (Some HTurn), OpAddParticipant 6 ''s1'' ''U1'' None False,
              ex_op_append, OpRemoveParticipant 8 ''s1'' ''U1'']"

definition ex_st :: session_store where
  "ex_st = fold session_apply ex_ops1 createMemorySessionStore"

definition ex_st' :: session_store where
  "ex_st' = session_apply ex_op_append ex_st"

fun ops_ok :: "(session_op \<Rightarrow> bool) \<Rightarrow> session_op list \<Rightarrow> session_store \<Rightarrow> bool" where
  "ops_ok allowed [] st = True"
| "ops_ok allowed (op # ops) st = (allowed op \<and> op_ok op st \<and> ops_ok allowed ops (session_apply op st))"

lemma ops_ok_steps: "ops_ok allowed ops st \<Longrightarrow> (session_step allowed)\<^sup>*\<^sup>* st (fold session_apply ops st)"
proof (induction ops arbitrary: st)
  case (Cons op ops)
  then have "session_step allowed st (session_apply op st)" by (simp add: session_stepI)
  with Cons show ?case by (simp add: converse_rtranclp_into_rtranclp)
qed simp

lemma ex_st_reachable: "any_step\<^sup>*\<^sup>* createMemorySessionStore ex_st"
  unfolding ex_st_def by (rule ops_ok_steps) code_simp

lemma ex_st'_step:
  assumes "allowed ex_op_append"
  shows "(session_step allowed)\<^sup>*\<^sup>* ex_st ex_st'"
proof -
  have "op_ok ex_op_append ex_st" by code_simp
  then have "session_step allowed ex_st ex_st'" unfolding ex_st'_def using assms by (intro session_stepI)
  then show ?thesis by blast
qed

theorem session_log_is_append_only_witness:
  "(\<exists>more. logOf ex_st' ''s1'' = logOf ex_st ''s1'' @ more) \<and> length (logOf ex_st' ''s1'') = 2"
proof -
  have "(session_step (\<lambda>op. \<not> deletes ''s1'' op))\<^sup>*\<^sup>* ex_st ex_st'"
    by (rule ex_st'_step) (simp add: ex_op_append_def)
  from session_log_is_append_only [OF ex_st_reachable this]
  have "\<exists>more. logOf ex_st' ''s1'' = logOf ex_st ''s1'' @ more" by blast
  moreover have "length (logOf ex_st' ''s1'') = 2" by code_simp
  ultimately show ?thesis by blast
qed

theorem lost_lease_is_fenced_witness:
  "append_entry 9 100 \<lparr>ls_sessionId = ''s1'', ls_token = ''k0''\<rparr>
     \<lparr>ne_type = EUser, ne_payload = JStr ''hi'', ne_scopeLabel = ''channel:c'', ne_parentSeq = None\<rparr> ex_st' =
     (Inl AppendWithoutLease, ex_st')"
proof -
  have "map_option hl_token (jm_get (ss_leases ex_st) ''s1'') \<noteq> Some ''k0''" by code_simp
  moreover have "(session_step (\<lambda>op. \<not> draws ''k0'' op))\<^sup>*\<^sup>* ex_st ex_st'"
    by (rule ex_st'_step) (simp add: ex_op_append_def)
  ultimately show ?thesis by (rule lost_lease_is_fenced [THEN conjunct1])
qed


theorem thread_has_one_session_witness:
  "s_id (fst (getOrCreateByThread ''s9'' 50 ''t1'' CDm ''personal:U9'' None None
     (snd (getOrCreateByThread ''s1'' 5 ''t1'' CChannel ''channel:c'' None None createMemorySessionStore)))) = ''s1''"
proof -
  have "getOrCreateByThread ''s1'' 5 ''t1'' CChannel ''channel:c'' None None createMemorySessionStore =
      (newSession ''s1'' 5 ''t1'' CChannel ''channel:c'' None None,
       snd (getOrCreateByThread ''s1'' 5 ''t1'' CChannel ''channel:c'' None None createMemorySessionStore))"
    by (simp add: getOrCreateByThread_def getByThread_def createMemorySessionStore_def nonblank_def Let_def)
  moreover have "op_ok (OpGetOrCreate ''s1'' 5 ''t1'' CChannel ''channel:c'' None None) createMemorySessionStore"
    by code_simp
  moreover have "s_id (newSession ''s1'' 5 ''t1'' CChannel ''channel:c'' None None) = ''s1''"
    by (simp add: newSession_def)
  ultimately show ?thesis
    using thread_has_one_session [OF rtranclp.rtrancl_refl _ _ rtranclp.rtrancl_refl] by metis
qed

end
