(* ===== verification/Listings.thy ===== *)
theory Listings
  imports Sessions "HOL-Library.Multiset"
begin

section \<open>Listings of the session store\<close>

text \<open>
  The read side of \<open>src/src/sessions/memory-session-store.ts\<close>: summaries with their filters, order and
  paging, groups by cron, statistics, attributed turns. Nothing here changes the store.
\<close>

subsection \<open>Data\<close>

datatype origin_filter = OfOrigin session_origin | OfOtherBackground

record session_cursor =
  cu_lastActivity :: millis
  cu_id :: string

record session_page =
  sp_limit :: nat
  sp_offset :: nat
  sp_before :: "session_cursor option"
  sp_category :: "session_category option"
  sp_origin :: "origin_filter option"
  sp_cronId :: "string option"

record session_summary =
  sm_id :: string
  sm_type :: conversation_kind
  sm_origin :: session_origin
  sm_scopeId :: scope_id
  sm_threadRef :: string
  sm_turns :: nat
  sm_messages :: nat
  sm_lastActivity :: millis
  sm_createdAt :: millis
  sm_firstMessage :: "string \<times> bool"
  sm_lastMessage :: "string \<times> bool"

record cron_group =
  cg_cronId :: string
  cg_scopeId :: scope_id
  cg_sessions :: nat
  cg_turns :: nat
  cg_messages :: nat
  cg_lastActivity :: millis
  cg_createdAt :: millis

record session_stats =
  st_total :: nat
  st_turns :: nat
  st_byType :: "(string, nat) jsmap"
  st_byTypeAll :: "(string, nat) jsmap"
  st_conversation :: nat
  st_background :: nat
  st_all :: nat
  st_crons :: "string list"

record attributed_turn =
  at_principalId :: string
  at_sessionId :: string
  at_day :: int
  at_turns :: nat
  at_firstAt :: millis
  at_lastAt :: millis

record session_ref =
  sr_id :: string
  sr_threadRef :: string
  sr_scopeId :: scope_id
  sr_type :: conversation_kind
  sr_title :: "string option"

subsection \<open>Operations\<close>

definition listAll :: "session_store \<Rightarrow> session list" where
  "listAll st = jm_values (ss_sessions st)"

definition sessionsByThreadRefs :: "session_store \<Rightarrow> string list \<Rightarrow> session_ref list" where
  "sessionsByThreadRefs st threadRefs =
     map (\<lambda>s. \<lparr>sr_id = s_id s, sr_threadRef = s_threadRef s, sr_scopeId = s_scopeId s, sr_type = s_type s,
                sr_title = s_title s\<rparr>)
       (filter (\<lambda>s. s_threadRef s \<in> set threadRefs) (listAll st))"

definition noteScope :: "session \<Rightarrow> (scope_id, string option) jsmap \<Rightarrow> (scope_id, string option) jsmap" where
  "noteScope s byScope =
     (let channelName = (if s_type s = CDm then None else s_channelName s);
          prev = Option.bind (jm_get byScope (s_scopeId s)) id
      in if jm_get byScope (s_scopeId s) = None \<or> (truthy channelName \<and> \<not> truthy prev)
         then jm_set (s_scopeId s) channelName byScope else byScope)"

definition distinctScopes :: "session_store \<Rightarrow> (scope_id \<times> string option) list" where
  "distinctScopes st = map (\<lambda>(i, c). (i, nonblank c)) (fold noteScope (listAll st) [])"

definition userTurns :: "session_entry list \<Rightarrow> session_entry list" where
  "userTurns log = filter (\<lambda>e. e_type e = EUser \<and> \<not> isOverheardEntry e) log"

definition lastActivityOf :: "session \<Rightarrow> session_entry list \<Rightarrow> millis" where
  "lastActivityOf s log = (if log \<noteq> [] then e_createdAt (last log) else s_createdAt s)"

definition originMatches :: "origin_filter option \<Rightarrow> session_origin \<Rightarrow> bool" where
  "originMatches f og =
     (case f of
        None \<Rightarrow> True
      | Some OfOtherBackground \<Rightarrow> \<not> (og = OConversation \<or> og = OCron)
      | Some (OfOrigin x) \<Rightarrow> og = x)"

definition categoryMatches :: "session_category option \<Rightarrow> session_origin \<Rightarrow> bool" where
  "categoryMatches c og = (case c of None \<Rightarrow> True | Some x \<Rightarrow> sessionCategory og = x)"

definition cronMatches :: "string option \<Rightarrow> string \<Rightarrow> bool" where
  "cronMatches c threadRef = (truthy c \<longrightarrow> cronIdOf (Some threadRef) = c)"

definition listed ::
  "scope_id \<Rightarrow> bool \<Rightarrow> session_category option \<Rightarrow> origin_filter option \<Rightarrow> string option \<Rightarrow> session \<Rightarrow> bool"
where
  "listed scope orgWide category originF cronId s =
     ((orgWide \<or> s_scopeId s = scope) \<and>
      (let og = sessionOrigin (Some (s_threadRef s))
       in categoryMatches category og \<and> originMatches originF og \<and> cronMatches cronId (s_threadRef s)))"

definition summarize :: "session_store \<Rightarrow> bool \<Rightarrow> session \<Rightarrow> session_summary" where
  "summarize st includePreviews s =
     (let log = jm_list (ss_entries st) (s_id s); us = userTurns log
      in \<lparr>sm_id = s_id s, sm_type = s_type s, sm_origin = sessionOrigin (Some (s_threadRef s)),
          sm_scopeId = s_scopeId s, sm_threadRef = s_threadRef s,
          sm_turns = length us, sm_messages = length log,
          sm_lastActivity = lastActivityOf s log, sm_createdAt = s_createdAt s,
          sm_firstMessage = (if includePreviews \<and> us \<noteq> [] then userMessagePreview (e_payload (hd us)) 160 else ([], False)),
          sm_lastMessage = (if includePreviews \<and> us \<noteq> [] then userMessagePreview (e_payload (last us)) 100 else ([], False))\<rparr>)"

text \<open>
  \<open>out.sort((a, b) => b.lastActivity - a.lastActivity || idDesc(a.id, b.id))\<close>: a stable sort,
  greatest key first.
\<close>

definition sort_desc :: "('a \<Rightarrow> 'k::linorder) \<Rightarrow> 'a list \<Rightarrow> 'a list" where
  "sort_desc k xs = rev (sort_key k (rev xs))"

definition summaryKey :: "session_summary \<Rightarrow> millis \<times> string" where
  "summaryKey r = (sm_lastActivity r, sm_id r)"

definition allSummaries ::
  "session_store \<Rightarrow> scope_id \<Rightarrow> bool \<Rightarrow> session_page option \<Rightarrow> bool \<Rightarrow> string list option \<Rightarrow> session_summary list"
where
  "allSummaries st scope orgWide page includePreviews sessionIds =
     sort_desc summaryKey
       (map (summarize st includePreviews)
          (filter (\<lambda>s. (case sessionIds of None \<Rightarrow> True | Some ids \<Rightarrow> s_id s \<in> set ids) \<and>
                       listed scope orgWide (Option.bind page sp_category) (Option.bind page sp_origin)
                         (Option.bind page sp_cronId) s)
             (listAll st)))"

definition scopeSessionSummaries ::
  "session_store \<Rightarrow> scope_id \<Rightarrow> bool \<Rightarrow> session_page option \<Rightarrow> bool \<Rightarrow> string list option \<Rightarrow> session_summary list"
where
  "scopeSessionSummaries st scope orgWide page includePreviews sessionIds =
     (let out = allSummaries st scope orgWide page includePreviews sessionIds
      in case page of
           None \<Rightarrow> out
         | Some pg \<Rightarrow>
             (case sp_before pg of
                Some b \<Rightarrow>
                  take (sp_limit pg)
                    (filter (\<lambda>r. sm_lastActivity r < cu_lastActivity b \<or>
                                 (sm_lastActivity r = cu_lastActivity b \<and> sm_id r < cu_id b)) out)
              | None \<Rightarrow> take (sp_limit pg) (drop (sp_offset pg) out)))"

definition lastUserMessages :: "session_store \<Rightarrow> string list \<Rightarrow> (string, string \<times> bool) jsmap" where
  "lastUserMessages st sessionIds =
     fold (\<lambda>i out. let us = userTurns (jm_list (ss_entries st) i)
                   in if us \<noteq> [] then jm_set i (userMessagePreview (e_payload (last us)) 100) out else out)
       sessionIds []"

definition emptyGroup :: "string \<Rightarrow> session \<Rightarrow> cron_group" where
  "emptyGroup cronId s =
     \<lparr>cg_cronId = cronId, cg_scopeId = s_scopeId s, cg_sessions = 0, cg_turns = 0, cg_messages = 0,
      cg_lastActivity = 0, cg_createdAt = s_createdAt s\<rparr>"

definition groupSession ::
  "session_store \<Rightarrow> scope_id \<Rightarrow> bool \<Rightarrow> session \<Rightarrow> (string, cron_group) jsmap \<Rightarrow> (string, cron_group) jsmap"
where
  "groupSession st scope orgWide s groups =
     (if \<not> orgWide \<and> s_scopeId s \<noteq> scope then groups
      else case nonblank (cronIdOf (Some (s_threadRef s))) of
             None \<Rightarrow> groups
           | Some cronId \<Rightarrow>
               let log = jm_list (ss_entries st) (s_id s);
                   g = (case jm_get groups cronId of Some g \<Rightarrow> g | None \<Rightarrow> emptyGroup cronId s)
               in jm_set cronId
                    (g\<lparr>cg_sessions := cg_sessions g + 1,
                       cg_turns := cg_turns g + length (userTurns log),
                       cg_messages := cg_messages g + length log,
                       cg_lastActivity := max (cg_lastActivity g) (lastActivityOf s log),
                       cg_createdAt := min (cg_createdAt g) (s_createdAt s)\<rparr>)
                    groups)"

definition scopeCronGroups :: "session_store \<Rightarrow> scope_id \<Rightarrow> bool \<Rightarrow> cron_group list" where
  "scopeCronGroups st scope orgWide =
     sort_desc (\<lambda>g. (cg_lastActivity g, cg_cronId g))
       (jm_values (fold (groupSession st scope orgWide) (listAll st) []))"

definition bump :: "string \<Rightarrow> (string, nat) jsmap \<Rightarrow> (string, nat) jsmap" where
  "bump b m = jm_set b ((case jm_get m b of None \<Rightarrow> 0 | Some n \<Rightarrow> n) + 1) m"

definition emptyStats :: session_stats where
  "emptyStats = \<lparr>st_total = 0, st_turns = 0, st_byType = [], st_byTypeAll = [], st_conversation = 0,
                 st_background = 0, st_all = 0, st_crons = []\<rparr>"

definition countSession ::
  "session_store \<Rightarrow> scope_id \<Rightarrow> bool \<Rightarrow> session_category option \<Rightarrow> origin_filter option \<Rightarrow> string option \<Rightarrow>
     session \<Rightarrow> session_stats \<Rightarrow> session_stats"
where
  "countSession st scope orgWide category originF cronId s c =
     (if \<not> orgWide \<and> s_scopeId s \<noteq> scope then c
      else
        let og = sessionOrigin (Some (s_threadRef s)); cat = sessionCategory og;
            bucket = sessionBucket og (s_type s); sc = cronIdOf (Some (s_threadRef s));
            c1 = c\<lparr>st_conversation := st_conversation c + (if cat = CatConversation then 1 else 0),
                   st_background := st_background c + (if cat = CatBackground then 1 else 0),
                   st_all := st_all c + 1,
                   st_byTypeAll := bump bucket (st_byTypeAll c),
                   st_crons := (case sc of
                                  None \<Rightarrow> st_crons c
                                | Some i \<Rightarrow> if i \<in> set (st_crons c) then st_crons c else st_crons c @ [i])\<rparr>
        in if \<not> categoryMatches category og then c1
           else if \<not> originMatches originF og then c1
           else if \<not> cronMatches cronId (s_threadRef s) then c1
           else c1\<lparr>st_total := st_total c1 + 1,
                   st_turns := st_turns c1 + length (userTurns (jm_list (ss_entries st) (s_id s))),
                   st_byType := bump bucket (st_byType c1)\<rparr>)"

text \<open>The last field stands for \<open>crons: cronIds.size\<close>; here it is the set itself.\<close>

definition scopeSessionStats ::
  "session_store \<Rightarrow> scope_id \<Rightarrow> bool \<Rightarrow> session_category option \<Rightarrow> origin_filter option \<Rightarrow> string option \<Rightarrow> session_stats"
where
  "scopeSessionStats st scope orgWide category originF cronId =
     fold (countSession st scope orgWide category originF cronId) (listAll st) emptyStats"

definition dayBucket ::
  "session_entry \<Rightarrow> (int, nat \<times> millis \<times> millis) jsmap \<Rightarrow> (int, nat \<times> millis \<times> millis) jsmap"
where
  "dayBucket e buckets =
     (let t = e_createdAt e; day = t div 86400000
      in jm_set day (case jm_get buckets day of
                       Some (n, f, l) \<Rightarrow> (n + 1, min f t, max l t)
                     | None \<Rightarrow> (1, t, t)) buckets)"

definition attributedTurns :: "session_store \<Rightarrow> attributed_turn list" where
  "attributedTurns st =
     concat (map (\<lambda>(i, byPrincipal).
       let log = userTurns (jm_list (ss_entries st) i)
       in concat (map (\<lambda>(p, w).
            map (\<lambda>(day, n, f, l). \<lparr>at_principalId = p, at_sessionId = i, at_day = day, at_turns = n,
                                    at_firstAt = f, at_lastAt = l\<rparr>)
              (fold dayBucket (filter (inWindow w) log) [])) byPrincipal))
       (ss_windows st))"

subsection \<open>Lemmas: sorting and paging\<close>

lemma set_sort_desc [simp]: "set (sort_desc k xs) = set xs"
  by (simp add: sort_desc_def)

lemma length_sort_desc [simp]: "length (sort_desc k xs) = length xs"
  by (simp add: sort_desc_def)

lemma sort_desc_sorted: "sorted_wrt (\<lambda>a b. k b \<le> k a) (sort_desc k xs)"
proof -
  have "sorted_wrt (\<lambda>a b. k a \<le> k b) (sort_key k (rev xs))"
    using sorted_sort_key [of k "rev xs"] by (simp add: sorted_map)
  then show ?thesis by (simp add: sort_desc_def sorted_wrt_rev)
qed

lemma sort_desc_strict:
  assumes "distinct (map k xs)"
  shows "sorted_wrt (\<lambda>a b. k b < k a) (sort_desc k xs)"
proof -
  have "mset (map k (sort_desc k xs)) = mset (map k xs)" by (simp add: sort_desc_def)
  then have "distinct (map k (sort_desc k xs))" using assms by (metis mset_eq_imp_distinct_iff)
  then show ?thesis
    using sort_desc_sorted [of k xs]
    by (auto simp: sorted_wrt_iff_nth_less distinct_conv_nth order.order_iff_strict)
qed

text \<open>Cutting a strictly descending list at the key of one of its elements drops what precedes it.\<close>

lemma filter_below_key:
  fixes k :: "'a \<Rightarrow> 'k::linorder"
  assumes "sorted_wrt (\<lambda>a b. k b < k a) xs" "j < length xs"
  shows "filter (\<lambda>r. k r < k (xs ! j)) xs = drop (Suc j) xs"
proof -
  have split: "xs = take j xs @ xs ! j # drop (Suc j) xs" by (rule id_take_nth_drop [OF assms(2)])
  then have s: "sorted_wrt (\<lambda>a b. k b < k a) (take j xs @ xs ! j # drop (Suc j) xs)" using assms(1) by simp
  have "filter (\<lambda>r. k r < k (xs ! j)) (take j xs) = []"
  proof (unfold filter_empty_conv, intro ballI)
    fix r
    assume "r \<in> set (take j xs)"
    with s have "k (xs ! j) < k r" by (simp add: sorted_wrt_append)
    then show "\<not> k r < k (xs ! j)" by simp
  qed
  moreover have "filter (\<lambda>r. k r < k (xs ! j)) (drop (Suc j) xs) = drop (Suc j) xs"
    using s by (intro filter_True) (simp add: sorted_wrt_append)
  ultimately show ?thesis by (subst (2) split) simp
qed

lemma summarize_id [simp]: "sm_id (summarize st ip s) = s_id s"
  by (simp add: summarize_def Let_def)

lemma listAll_distinct:
  assumes "store_ok st" "jm_ok (ss_sessions st)"
  shows "distinct (map s_id (listAll st))"
proof -
  have "s_id s = i" if "(i, s) \<in> set (ss_sessions st)" for i s
    using assms map_of_is_SomeI [OF assms(2) that] unfolding store_ok_def threads_ok_def by blast
  then have "map s_id (listAll st) = jm_keys (ss_sessions st)" by (auto simp: listAll_def)
  then show ?thesis using assms(2) by simp
qed

lemma allSummaries_strict:
  assumes "store_ok st" "jm_ok (ss_sessions st)"
  shows "sorted_wrt (\<lambda>a b. summaryKey b < summaryKey a) (allSummaries st scope orgWide page ip ids)"
proof -
  have "distinct (map summaryKey (map (summarize st ip) (filter P (listAll st))))" for P
    using distinct_map_filter [OF listAll_distinct [OF assms], of P]
    by (auto simp: distinct_map summaryKey_def inj_on_def)
  then show ?thesis unfolding allSummaries_def by (rule sort_desc_strict)
qed

lemma summaryKey_less:
  "summaryKey r < (a, i) \<longleftrightarrow> sm_lastActivity r < a \<or> (sm_lastActivity r = a \<and> sm_id r < i)"
  by (auto simp: summaryKey_def less_prod_def)

lemma length_filter_mono: "(\<And>x. P x \<Longrightarrow> Q x) \<Longrightarrow> length (filter P xs) \<le> length (filter Q xs)"
  by (induction xs) auto

text \<open>Counting while walking is filtering and measuring.\<close>

lemma countSession_listed:
  "st_total (countSession st scope orgWide category og cronId s c) =
     st_total c + (if listed scope orgWide category og cronId s then 1 else 0)"
  "st_turns (countSession st scope orgWide category og cronId s c) =
     st_turns c + (if listed scope orgWide category og cronId s
                   then length (userTurns (jm_list (ss_entries st) (s_id s))) else 0)"
  "st_all (countSession st scope orgWide category og cronId s c) =
     st_all c + (if orgWide \<or> s_scopeId s = scope then 1 else 0)"
  "st_conversation (countSession st scope orgWide category og cronId s c) +
   st_background (countSession st scope orgWide category og cronId s c) =
     st_conversation c + st_background c + (if orgWide \<or> s_scopeId s = scope then 1 else 0)"
  by (auto simp: countSession_def listed_def Let_def sessionCategory_def)

lemma fold_countSession:
  "st_total (fold (countSession st scope orgWide category og cronId) ss c) =
     st_total c + length (filter (listed scope orgWide category og cronId) ss) \<and>
   st_turns (fold (countSession st scope orgWide category og cronId) ss c) =
     st_turns c + sum_list (map (\<lambda>s. length (userTurns (jm_list (ss_entries st) (s_id s))))
                             (filter (listed scope orgWide category og cronId) ss)) \<and>
   st_all (fold (countSession st scope orgWide category og cronId) ss c) =
     st_all c + length (filter (\<lambda>s. orgWide \<or> s_scopeId s = scope) ss) \<and>
   st_conversation (fold (countSession st scope orgWide category og cronId) ss c) +
   st_background (fold (countSession st scope orgWide category og cronId) ss c) =
     st_conversation c + st_background c + length (filter (\<lambda>s. orgWide \<or> s_scopeId s = scope) ss)"
  by (induction ss arbitrary: c) (auto simp: countSession_listed)

subsection \<open>Properties\<close>

text \<open>
  Paging by cursor is paging by offset: asking for what comes before the last row of a page
  gives exactly the next page, so that following cursors neither repeats nor skips a session.
\<close>

theorem cursor_paging_is_offset_paging:
  assumes "any_step\<^sup>*\<^sup>* createMemorySessionStore st" "sp_before pg = None"
    and "scopeSessionSummaries st scope orgWide (Some pg) ip ids = rows" "length rows = sp_limit pg" "rows \<noteq> []"
  shows "scopeSessionSummaries st scope orgWide
           (Some (pg\<lparr>sp_before := Some \<lparr>cu_lastActivity = sm_lastActivity (last rows), cu_id = sm_id (last rows)\<rparr>\<rparr>)) ip ids =
         scopeSessionSummaries st scope orgWide (Some (pg\<lparr>sp_offset := sp_offset pg + sp_limit pg\<rparr>)) ip ids"
proof -
  let ?out = "allSummaries st scope orgWide (Some pg) ip ids"
  let ?j = "sp_offset pg + sp_limit pg - 1"
  have strict: "sorted_wrt (\<lambda>a b. summaryKey b < summaryKey a) ?out"
    by (rule allSummaries_strict [OF reachable_ok [OF assms(1)] reachable_distinct [OF assms(1)]])
  have rows: "rows = take (sp_limit pg) (drop (sp_offset pg) ?out)"
    using assms(2,3) by (simp add: scopeSessionSummaries_def Let_def)
  have pos: "0 < sp_limit pg" using assms(4,5) by (metis length_greater_0_conv)
  have j: "?j < length ?out" using rows assms(4) pos by auto
  have "last rows = ?out ! ?j"
    using assms(4,5) rows pos j by (simp add: last_conv_nth)
  then have "filter (\<lambda>r. summaryKey r < summaryKey (last rows)) ?out = drop (sp_offset pg + sp_limit pg) ?out"
    using filter_below_key [OF strict j] pos by simp
  moreover have same: "allSummaries st scope orgWide (Some (pg\<lparr>sp_before := b\<rparr>)) ip ids = ?out"
    "allSummaries st scope orgWide (Some (pg\<lparr>sp_offset := n\<rparr>)) ip ids = ?out" for b n
    by (simp_all add: allSummaries_def)
  ultimately show ?thesis
    using assms(2) by (simp add: scopeSessionSummaries_def Let_def summaryKey_less [symmetric])
      (simp add: summaryKey_def)
qed

lemma ex_summary:
  "scopeSessionSummaries ex_st ''channel:c'' False
     (Some \<lparr>sp_limit = 1, sp_offset = 0, sp_before = None, sp_category = None, sp_origin = None, sp_cronId = None\<rparr>)
     False None =
   [\<lparr>sm_id = ''s1'', sm_type = CChannel, sm_origin = OConversation, sm_scopeId = ''channel:c'', sm_threadRef = ''t1'',
     sm_turns = 1, sm_messages = 1, sm_lastActivity = 7, sm_createdAt = 5, sm_firstMessage = ([], False),
     sm_lastMessage = ([], False)\<rparr>]"
  by code_simp

theorem cursor_paging_is_offset_paging_witness:
  "scopeSessionSummaries ex_st ''channel:c'' False
     (Some \<lparr>sp_limit = 1, sp_offset = 0, sp_before = Some \<lparr>cu_lastActivity = 7, cu_id = ''s1''\<rparr>, sp_category = None,
            sp_origin = None, sp_cronId = None\<rparr>) False None =
   scopeSessionSummaries ex_st ''channel:c'' False
     (Some \<lparr>sp_limit = 1, sp_offset = 0 + 1, sp_before = None, sp_category = None, sp_origin = None, sp_cronId = None\<rparr>)
     False None"
  using cursor_paging_is_offset_paging [OF ex_st_reachable _ ex_summary] by simp

text \<open>
  The statistics agree with the listing: under any filters, the total is the number of sessions
  the unpaged listing shows, the turns are the sum of theirs, and the two categories make up all
  sessions of the scope.
\<close>

theorem stats_agree_with_listing:
  "let stats = scopeSessionStats st scope orgWide category og cronId;
       out = allSummaries st scope orgWide
               (Some \<lparr>sp_limit = l, sp_offset = n, sp_before = b, sp_category = category, sp_origin = og,
                      sp_cronId = cronId\<rparr>) ip None
   in st_total stats = length out \<and> st_turns stats = sum_list (map sm_turns out) \<and>
      st_conversation stats + st_background stats = st_all stats \<and> st_total stats \<le> st_all stats"
proof -
  let ?ss = "filter (listed scope orgWide category og cronId) (listAll st)"
  have "mset (map sm_turns (sort_desc summaryKey xs)) = mset (map sm_turns xs)" for xs
    by (simp add: sort_desc_def)
  then have turns: "sum_list (map sm_turns (sort_desc summaryKey xs)) = sum_list (map sm_turns xs)" for xs
    by (metis sum_mset_sum_list)
  have "sm_turns \<circ> summarize st ip = (\<lambda>s. length (userTurns (jm_list (ss_entries st) (s_id s))))"
    by (auto simp: summarize_def Let_def)
  moreover have "length ?ss \<le> length (filter (\<lambda>s. orgWide \<or> s_scopeId s = scope) (listAll st))"
    by (rule length_filter_mono) (simp add: listed_def)
  ultimately show ?thesis
    using fold_countSession [of st scope orgWide category og cronId "listAll st" emptyStats] turns
    by (simp add: scopeSessionStats_def allSummaries_def emptyStats_def Let_def)
qed

end
