(* ===== verification/DurableMap.thy ===== *)
theory DurableMap
  imports Prelude
begin

section \<open>The durable map, in memory\<close>

text \<open>
  Models \<open>createMemoryMap\<close> of \<open>src/src/persistence/durable-map.ts\<close>, the map behind the trigger, cron and
  idempotency stores. Its contents are an insertion-ordered map; \<open>all\<close> and \<open>entries\<close> sort by key.
  A partial record handed to \<open>merge\<close> is a function on the record: the fields it carries
  overwritten, the ones it carries as undefined removed.
\<close>

type_synonym 'v durable_map = "(string, 'v) jsmap"

definition createMemoryMap :: "'v durable_map" where
  "createMemoryMap = []"

definition dm_entries :: "'v durable_map \<Rightarrow> (string \<times> 'v) list" where
  "dm_entries m = sort_key fst m"

definition dm_all :: "'v durable_map \<Rightarrow> 'v list" where
  "dm_all m = map snd (dm_entries m)"

definition dm_get :: "'v durable_map \<Rightarrow> string \<Rightarrow> 'v option" where
  "dm_get m i = jm_get m i"

definition dm_put :: "string \<Rightarrow> 'v \<Rightarrow> 'v durable_map \<Rightarrow> 'v durable_map" where
  "dm_put i v m = jm_set i v m"

definition dm_putIfAbsent :: "string \<Rightarrow> 'v \<Rightarrow> 'v durable_map \<Rightarrow> 'v \<times> 'v durable_map" where
  "dm_putIfAbsent i v m = (case jm_get m i of Some e \<Rightarrow> (e, m) | None \<Rightarrow> (v, jm_set i v m))"

definition dm_insertIfAbsent :: "string \<Rightarrow> 'v \<Rightarrow> 'v durable_map \<Rightarrow> bool \<times> 'v durable_map" where
  "dm_insertIfAbsent i v m = (if jm_get m i \<noteq> None then (False, m) else (True, jm_set i v m))"

definition dm_update :: "string \<Rightarrow> ('v \<Rightarrow> 'v) \<Rightarrow> 'v durable_map \<Rightarrow> 'v option \<times> 'v durable_map" where
  "dm_update i f m = (case jm_get m i of None \<Rightarrow> (None, m) | Some v \<Rightarrow> (Some (f v), jm_set i (f v) m))"

definition dm_merge :: "string \<Rightarrow> ('v \<Rightarrow> 'v) \<Rightarrow> 'v durable_map \<Rightarrow> 'v option \<times> 'v durable_map" where
  "dm_merge i patch m = (case jm_get m i of None \<Rightarrow> (None, m) | Some v \<Rightarrow> (Some (patch v), jm_set i (patch v) m))"

definition dm_deleteIf :: "string \<Rightarrow> ('v \<Rightarrow> bool) \<Rightarrow> 'v durable_map \<Rightarrow> bool \<times> 'v durable_map" where
  "dm_deleteIf i p m =
     (case jm_get m i of
        None \<Rightarrow> (False, m)
      | Some v \<Rightarrow> if p v then (True, jm_delete i m) else (False, m))"

definition dm_delete :: "string \<Rightarrow> 'v durable_map \<Rightarrow> 'v durable_map" where
  "dm_delete i m = jm_delete i m"

definition dm_take :: "string \<Rightarrow> 'v durable_map \<Rightarrow> 'v option \<times> 'v durable_map" where
  "dm_take i m = (jm_get m i, jm_delete i m)"

subsection \<open>Laws\<close>

text \<open>
  What the stores rely on beyond reading and writing: a conditional insert never overwrites, an
  update touches one row.
\<close>

locale durable_store = keyed_map get put remove ok
  for get :: "'m \<Rightarrow> 'k \<Rightarrow> 'v option" and put remove ok +
  fixes putIfAbsent :: "'k \<Rightarrow> 'v \<Rightarrow> 'm \<Rightarrow> 'v \<times> 'm"
    and update :: "'k \<Rightarrow> ('v \<Rightarrow> 'v) \<Rightarrow> 'm \<Rightarrow> 'v option \<times> 'm"
  assumes putIfAbsent_present: "get m k = Some v \<Longrightarrow> putIfAbsent k w m = (v, m)"
    and putIfAbsent_absent: "get m k = None \<Longrightarrow> putIfAbsent k w m = (w, put k w m)"
    and update_present: "get m k = Some v \<Longrightarrow> update k f m = (Some (f v), put k (f v) m)"
    and update_absent: "get m k = None \<Longrightarrow> update k f m = (None, m)"
begin

lemma putIfAbsent_get: "ok m \<Longrightarrow> get (snd (putIfAbsent k w m)) k = Some (fst (putIfAbsent k w m))"
  by (cases "get m k") (simp_all add: putIfAbsent_present putIfAbsent_absent get_put)

lemma putIfAbsent_twice:
  "ok m \<Longrightarrow> putIfAbsent k w' (snd (putIfAbsent k w m)) = (fst (putIfAbsent k w m), snd (putIfAbsent k w m))"
  using putIfAbsent_get putIfAbsent_present by blast

lemma update_get:
  "ok m \<Longrightarrow> get (snd (update k f m)) k' = (if k' = k then map_option f (get m k) else get m k')"
  by (cases "get m k") (auto simp: update_present update_absent get_put)

lemma ok_update: "ok m \<Longrightarrow> ok (snd (update k f m))"
  by (cases "get m k") (simp_all add: update_present update_absent ok_put)

end

interpretation dm: durable_store dm_get dm_put dm_delete "\<lambda>m. distinct (map fst m)" dm_putIfAbsent dm_update
  by unfold_locales (simp_all add: dm_get_def dm_put_def dm_delete_def dm_putIfAbsent_def dm_update_def)

lemma dm_merge_update: "dm_merge = dm_update"
  by (intro ext) (simp add: dm_merge_def dm_update_def)

lemma dm_update_get [simp]:
  "dm_get (snd (dm_update i f m)) j = (if j = i then map_option f (dm_get m i) else dm_get m j)"
  by (simp add: dm_update_def dm_get_def split: option.splits)

lemma dm_get_put [simp]: "dm_get (dm_put i v m) j = (if j = i then Some v else dm_get m j)"
  by (simp add: dm_get_def dm_put_def)

lemma dm_get_delete [simp]: "dm_get (dm_delete i m) j = (if j = i then None else dm_get m j)"
  by (simp add: dm_get_def dm_delete_def)

lemma set_dm_all: "set (dm_all m) = snd ` set m"
  by (simp add: dm_all_def dm_entries_def)

lemma dm_entries_sorted: "sorted (map fst (dm_entries m))"
  by (simp add: dm_entries_def)

lemma dm_all_iff: "distinct (map fst m) \<Longrightarrow> v \<in> set (dm_all m) \<longleftrightarrow> (\<exists>i. dm_get m i = Some v)"
  using jm_values_iff [of m v] by (simp add: set_dm_all dm_get_def)

end
