(* ===== verification/Guards.thy ===== *)
theory Guards
  imports DurableMap
begin

section \<open>Admission guards: rate limit, replay protection, once-only execution\<close>

text \<open>
  Models \<open>src/src/ratelimit/rate-limiter.ts\<close>, \<open>src/src/auth/source-auth.ts\<close> with
  \<open>src/src/auth/source-auth-sign.ts\<close> and the in-memory \<open>src/src/auth/replay-dedupe.ts\<close>, and
  \<open>src/src/idempotency/idempotency-store.ts\<close>. The keyed hash (\<open>createHmac("sha256")\<close> of \<open>node:crypto\<close>) is the
  parameter \<open>hmac\<close>. Clock values are integers; each call reads the clock where the code does.
\<close>

subsection \<open>Rate limiter\<close>

record rate_state =
  rl_windowStart :: millis
  rl_count :: int

record rate_decision =
  rd_allowed :: bool
  rd_retryAfterMs :: "millis option"

definition rate_check ::
  "int \<Rightarrow> millis \<Rightarrow> millis \<Rightarrow> string \<Rightarrow> (string, rate_state) jsmap \<Rightarrow> rate_decision \<times> (string, rate_state) jsmap"
where
  "rate_check maxPerWindow windowMs t p state =
     (let fresh = (\<lparr>rd_allowed = True, rd_retryAfterMs = None\<rparr>,
                   jm_set p \<lparr>rl_windowStart = t, rl_count = 1\<rparr> state)
      in case jm_get state p of
           None \<Rightarrow> fresh
         | Some s \<Rightarrow>
             if t - rl_windowStart s \<ge> windowMs then fresh
             else if rl_count s \<ge> maxPerWindow
             then (\<lparr>rd_allowed = False, rd_retryAfterMs = Some (windowMs - (t - rl_windowStart s))\<rparr>, state)
             else (\<lparr>rd_allowed = True, rd_retryAfterMs = None\<rparr>, jm_set p (s\<lparr>rl_count := rl_count s + 1\<rparr>) state))"

subsection \<open>Replay protection\<close>






subsection \<open>Source authentication\<close>

definition canonicalPayload :: "string \<Rightarrow> string \<Rightarrow> string \<Rightarrow> string" where
  "canonicalPayload verb path body = verb @ [char_of (10::nat)] @ path @ [char_of (10::nat)] @ body"


definition isStrongSigningSecret :: "string option \<Rightarrow> bool" where
  "isStrongSigningSecret s = (case s of None \<Rightarrow> False | Some x \<Rightarrow> length (js_trim x) \<ge> 32)"



definition replayWindow :: millis where
  "replayWindow = 5 * 60000"




subsection \<open>Once-only execution\<close>

text \<open>
  A call of \<open>once\<close> suspends at its awaits, so calls interleave. A call is \<^emph>\<open>checking\<close> after it has
  entered its key into \<open>inflight\<close>, \<^emph>\<open>running\<close> while it awaits the callback (with the clock value at
  which the check found the key uncommitted), and gone once it returned. The pruning of the backing
  store runs in the background; \<open>id_doomed\<close> are the keys it has yet to delete.
\<close>

datatype once_phase = Checking | Running millis

record idem_state =
  id_done :: "(string, millis) jsmap"
  id_inflight :: "string list"
  id_lastPruneAt :: millis
  id_backing :: "millis durable_map option"
  id_doomed :: "string list"
  id_calls :: "(nat, string \<times> once_phase) jsmap"
  id_clock :: millis
  id_commits :: "(string \<times> millis) list"

text \<open>\<open>id_calls\<close>, \<open>id_clock\<close> and \<open>id_commits\<close> are the scheduler's view: who is where, the latest clock value
  read, and the commits so far, newest first.\<close>

definition createIdempotencyStore :: "millis durable_map option \<Rightarrow> millis \<Rightarrow> idem_state" where
  "createIdempotencyStore backing t =
     \<lparr>id_done = [], id_inflight = [], id_lastPruneAt = t, id_backing = backing, id_doomed = [],
      id_calls = [], id_clock = t, id_commits = []\<rparr>"

definition pruneIfDue :: "millis \<Rightarrow> millis \<Rightarrow> millis \<Rightarrow> idem_state \<Rightarrow> idem_state" where
  "pruneIfDue retention interval t s =
     (if t - id_lastPruneAt s < interval then s
      else let cutoff = t - retention
           in s\<lparr>id_lastPruneAt := t,
                id_done := filter (\<lambda>(k, at). \<not> at < cutoff) (id_done s),
                id_doomed := id_doomed s @
                  (case id_backing s of
                     None \<Rightarrow> []
                   | Some b \<Rightarrow> map fst (filter (\<lambda>(k, at). at < cutoff) (dm_entries b)))\<rparr>)"

definition isCommitted :: "millis \<Rightarrow> millis \<Rightarrow> string \<Rightarrow> idem_state \<Rightarrow> bool \<times> idem_state" where
  "isCommitted retention t key s =
     (let cutoff = t - retention
      in case jm_get (id_done s) key of
           Some at \<Rightarrow>
             if at \<ge> cutoff then (True, s)
             else (case Option.bind (id_backing s) (\<lambda>b. dm_get b key) of
                     Some at' \<Rightarrow> if at' \<ge> cutoff then (True, s\<lparr>id_done := jm_set key at' (id_done s)\<rparr>) else (False, s)
                   | None \<Rightarrow> (False, s))
         | None \<Rightarrow>
             (case Option.bind (id_backing s) (\<lambda>b. dm_get b key) of
                Some at' \<Rightarrow> if at' \<ge> cutoff then (True, s\<lparr>id_done := jm_set key at' (id_done s)\<rparr>) else (False, s)
              | None \<Rightarrow> (False, s)))"

text \<open>\<open>finally \<lbrace> inflight.delete(key) \<rbrace>\<close>, and the call returns.\<close>

definition leave :: "nat \<Rightarrow> string \<Rightarrow> idem_state \<Rightarrow> idem_state" where
  "leave c key s = s\<lparr>id_inflight := filter (\<lambda>k. k \<noteq> key) (id_inflight s), id_calls := jm_delete c (id_calls s)\<rparr>"

definition commit :: "millis \<Rightarrow> millis \<Rightarrow> millis \<Rightarrow> string \<Rightarrow> idem_state \<Rightarrow> idem_state" where
  "commit retention interval t key s =
     pruneIfDue retention interval t
       (s\<lparr>id_backing := map_option (dm_put key t) (id_backing s),
          id_done := jm_set key t (id_done s),
          id_commits := (key, t) # id_commits s\<rparr>)"

inductive once_step :: "millis \<Rightarrow> millis \<Rightarrow> idem_state \<Rightarrow> idem_state \<Rightarrow> bool" for retention interval where
  once_busy: "key \<in> set (id_inflight s) \<Longrightarrow> once_step retention interval s s"
| once_enter:
    "key \<notin> set (id_inflight s) \<Longrightarrow> jm_get (id_calls s) c = None \<Longrightarrow>
     once_step retention interval s
       (s\<lparr>id_inflight := id_inflight s @ [key], id_calls := jm_set c (key, Checking) (id_calls s)\<rparr>)"
| once_committed:
    "jm_get (id_calls s) c = Some (key, Checking) \<Longrightarrow> t \<ge> id_clock s \<Longrightarrow>
     isCommitted retention t key s = (True, s') \<Longrightarrow>
     once_step retention interval s (leave c key (s'\<lparr>id_clock := t\<rparr>))"
| once_run:
    "jm_get (id_calls s) c = Some (key, Checking) \<Longrightarrow> t \<ge> id_clock s \<Longrightarrow>
     isCommitted retention t key s = (False, s') \<Longrightarrow>
     once_step retention interval s (s'\<lparr>id_clock := t, id_calls := jm_set c (key, Running t) (id_calls s')\<rparr>)"
| once_failed:
    "jm_get (id_calls s) c = Some (key, Running t) \<Longrightarrow> once_step retention interval s (leave c key s)"
| once_done:
    "jm_get (id_calls s) c = Some (key, Running t0) \<Longrightarrow> t \<ge> id_clock s \<Longrightarrow>
     once_step retention interval s (leave c key ((commit retention interval t key s)\<lparr>id_clock := t\<rparr>))"
| once_background:
    "id_doomed s = k # ks \<Longrightarrow>
     once_step retention interval s
       (s\<lparr>id_backing := map_option (dm_delete k) (id_backing s), id_doomed := ks\<rparr>)"
| committed_query:
    "t \<ge> id_clock s \<Longrightarrow> isCommitted retention t key s = (b, s') \<Longrightarrow>
     once_step retention interval s (s'\<lparr>id_clock := t\<rparr>)"

subsection \<open>Lemmas\<close>

declare map_of_eq_Some_iff [simp del] Some_eq_map_of_iff [simp del]

lemma map_of_filter_value:
  "distinct (map fst m) \<Longrightarrow>
   map_of (filter (\<lambda>(k, v). P v) m) k =
     (case map_of m k of Some v \<Rightarrow> if P v then Some v else None | None \<Rightarrow> None)"
proof (induction m)
  case (Cons x m)
  obtain k' v where x: "x = (k', v)" by (cases x)
  have "map_of m k' = None" using Cons.prems x by (simp add: map_of_eq_None_iff)
  then show ?case using Cons x by auto
qed simp

lemma distinct_filter_keys: "distinct (map fst m) \<Longrightarrow> distinct (map fst (filter P m))"
  by (rule distinct_map_filter)











text \<open>Once-only execution: the invariant of the interleaved calls.\<close>

definition commits_known :: "millis \<Rightarrow> idem_state \<Rightarrow> bool" where
  "commits_known retention s =
     (\<forall>(k, at) \<in> set (id_commits s). at \<le> id_clock s \<and>
        (at < id_clock s - retention \<or> (\<exists>at'. jm_get (id_done s) k = Some at' \<and> at \<le> at')))"

definition calls_exclusive :: "idem_state \<Rightarrow> bool" where
  "calls_exclusive s =
     (\<forall>c c' k p p'. jm_get (id_calls s) c = Some (k, p) \<and> jm_get (id_calls s) c' = Some (k, p') \<longrightarrow> c = c')"

definition calls_inflight :: "idem_state \<Rightarrow> bool" where
  "calls_inflight s = (\<forall>c k p. jm_get (id_calls s) c = Some (k, p) \<longrightarrow> k \<in> set (id_inflight s))"

definition running_justified :: "millis \<Rightarrow> idem_state \<Rightarrow> bool" where
  "running_justified retention s =
     (\<forall>c k tc. jm_get (id_calls s) c = Some (k, Running tc) \<longrightarrow>
        tc \<le> id_clock s \<and> (\<forall>(k', at) \<in> set (id_commits s). k' = k \<longrightarrow> at < tc - retention))"

definition commits_spaced :: "millis \<Rightarrow> (string \<times> millis) list \<Rightarrow> bool" where
  "commits_spaced retention cs = sorted_wrt (\<lambda>(k, later) (k', earlier). k = k' \<longrightarrow> earlier < later - retention) cs"

definition once_ok :: "millis \<Rightarrow> idem_state \<Rightarrow> bool" where
  "once_ok retention s =
     (jm_ok (id_done s) \<and> commits_known retention s \<and> calls_exclusive s \<and> calls_inflight s \<and>
      running_justified retention s \<and> commits_spaced retention (id_commits s))"

lemma isCommitted_frame:
  assumes "isCommitted retention t key s = (b, s')"
  shows "s' = s \<or> (\<exists>at'. s' = s\<lparr>id_done := jm_set key at' (id_done s)\<rparr> \<and>
            (\<forall>at. jm_get (id_done s) key = Some at \<longrightarrow> at < t - retention))"
  using assms by (auto simp: isCommitted_def Let_def split: option.splits if_splits)

lemma isCommitted_False:
  "isCommitted retention t key s = (False, s') \<Longrightarrow> s' = s \<and> (\<forall>at. jm_get (id_done s) key = Some at \<longrightarrow> at < t - retention)"
  by (auto simp: isCommitted_def Let_def split: option.splits if_splits)

lemma isCommitted_known:
  assumes "isCommitted retention t key s = (b, s')" "commits_known retention s" "id_clock s \<le> t"
  shows "commits_known retention (s'\<lparr>id_clock := t\<rparr>)"
proof -
  show ?thesis
    unfolding commits_known_def
  proof (clarify, intro conjI)
    fix k at
    assume "(k, at) \<in> set (id_commits (s'\<lparr>id_clock := t\<rparr>))"
    then have old: "at \<le> id_clock s" "at < id_clock s - retention \<or> (\<exists>at'. jm_get (id_done s) k = Some at' \<and> at \<le> at')"
      using assms(2) isCommitted_frame [OF assms(1)] by (auto simp: commits_known_def)
    then show "at \<le> id_clock (s'\<lparr>id_clock := t\<rparr>)" using assms(3) by simp
    show "at < id_clock (s'\<lparr>id_clock := t\<rparr>) - retention \<or>
        (\<exists>at'. jm_get (id_done (s'\<lparr>id_clock := t\<rparr>)) k = Some at' \<and> at \<le> at')"
      using old(2) isCommitted_frame [OF assms(1)] assms(3) by fastforce
  qed
qed

lemma leave_simps [simp]:
  "id_done (leave c key s) = id_done s" "id_commits (leave c key s) = id_commits s" "id_clock (leave c key s) = id_clock s"
  "id_calls (leave c key s) = jm_delete c (id_calls s)"
  "id_inflight (leave c key s) = filter (\<lambda>k. k \<noteq> key) (id_inflight s)"
  by (simp_all add: leave_def)

lemma leave_ok:
  assumes "once_ok retention s" "jm_get (id_calls s) c = Some (key, p)"
  shows "once_ok retention (leave c key s)"
proof -
  have "k \<noteq> key" if "jm_get (id_calls s) c' = Some (k, q)" "c' \<noteq> c" for c' k q
    using assms that unfolding once_ok_def calls_exclusive_def by blast
  then have "calls_inflight (leave c key s)"
    using assms(1) by (auto simp: once_ok_def calls_inflight_def)
  then show ?thesis
    using assms(1) by (auto simp: once_ok_def commits_known_def calls_exclusive_def running_justified_def)
qed

lemma commit_simps [simp]:
  "id_commits (commit retention interval t key s) = (key, t) # id_commits s"
  "id_calls (commit retention interval t key s) = id_calls s"
  "id_inflight (commit retention interval t key s) = id_inflight s"
  by (simp_all add: commit_def pruneIfDue_def Let_def)

lemma commit_done:
  assumes "jm_ok (id_done s)"
  shows "jm_ok (id_done (commit retention interval t key s))"
    and "jm_get (id_done (commit retention interval t key s)) k =
           (if k = key then (if t - id_lastPruneAt s < interval \<or> \<not> t < t - retention then Some t else None)
            else case jm_get (id_done s) k of
                   Some at \<Rightarrow> if t - id_lastPruneAt s < interval \<or> \<not> at < t - retention then Some at else None
                 | None \<Rightarrow> None)"
  using assms
  by (auto simp: commit_def pruneIfDue_def Let_def map_of_filter_value distinct_filter_keys split: option.splits)

lemma commit_ok:
  assumes ok: "once_ok retention s" and call: "jm_get (id_calls s) c = Some (key, Running t0)"
    and t: "id_clock s \<le> t" and r: "0 \<le> retention"
  shows "once_ok retention (leave c key ((commit retention interval t key s)\<lparr>id_clock := t\<rparr>))"
proof -
  let ?s = "(commit retention interval t key s)\<lparr>id_clock := t\<rparr>"
  note d = commit_done [of s retention interval t key]
  have okd: "jm_ok (id_done s)" using ok by (simp add: once_ok_def)
  have "commits_known retention ?s"
    unfolding commits_known_def
  proof (clarify, intro conjI)
    fix k at
    assume m: "(k, at) \<in> set (id_commits ?s)"
    then have old: "(k, at) = (key, t) \<or> (at \<le> id_clock s \<and>
        (at < id_clock s - retention \<or> (\<exists>at'. jm_get (id_done s) k = Some at' \<and> at \<le> at')))"
      using ok by (auto simp: once_ok_def commits_known_def)
    then show "at \<le> id_clock ?s" using t by auto
    show "at < id_clock ?s - retention \<or> (\<exists>at'. jm_get (id_done ?s) k = Some at' \<and> at \<le> at')"
      using old t r d(2) [OF okd, of k] by (auto split: if_splits option.splits)
  qed
  moreover have earlier: "at < t - retention" if "(key, at) \<in> set (id_commits s)" for at
    using ok call t that by (fastforce simp: once_ok_def running_justified_def)
  have "commits_spaced retention (id_commits ?s)"
    using ok earlier by (auto simp: once_ok_def commits_spaced_def)
  moreover have "running_justified retention (leave c key ?s)"
    unfolding running_justified_def
  proof (intro allI impI)
    fix c' k tc
    assume a: "jm_get (id_calls (leave c key ?s)) c' = Some (k, Running tc)"
    then have c': "c' \<noteq> c" "jm_get (id_calls s) c' = Some (k, Running tc)" by (auto split: if_splits)
    then have "k \<noteq> key" using ok call unfolding once_ok_def calls_exclusive_def by blast
    then show "tc \<le> id_clock (leave c key ?s) \<and>
        (\<forall>(k', at) \<in> set (id_commits (leave c key ?s)). k' = k \<longrightarrow> at < tc - retention)"
      using ok c'(2) t by (fastforce simp: once_ok_def running_justified_def)
  qed
  moreover have "calls_exclusive ?s" "calls_inflight ?s"
    using ok by (auto simp: once_ok_def calls_exclusive_def calls_inflight_def)
  moreover have "k \<noteq> key" if "jm_get (id_calls s) c' = Some (k, q)" "c' \<noteq> c" for c' k q
    using ok call that unfolding once_ok_def calls_exclusive_def by blast
  then have "calls_inflight (leave c key ?s)"
    using \<open>calls_inflight ?s\<close> by (auto simp: calls_inflight_def)
  ultimately show ?thesis
    using d(1) [OF okd] by (auto simp: once_ok_def commits_known_def calls_exclusive_def)
qed

text \<open>Only the key of a call matters for exclusion, not its phase.\<close>

lemma calls_cong:
  assumes "\<And>c. map_option fst (jm_get (id_calls s') c) = map_option fst (jm_get (id_calls s) c)"
    and "id_inflight s' = id_inflight s"
  shows "calls_exclusive s \<Longrightarrow> calls_exclusive s'" and "calls_inflight s \<Longrightarrow> calls_inflight s'"
proof -
  have same: "\<exists>q. jm_get (id_calls s) c = Some (k, q)" if "jm_get (id_calls s') c = Some (k, p)" for c k p
    using assms(1) [of c] that by (cases "jm_get (id_calls s) c") auto
  show "calls_exclusive s \<Longrightarrow> calls_exclusive s'" unfolding calls_exclusive_def using same by metis
  show "calls_inflight s \<Longrightarrow> calls_inflight s'" unfolding calls_inflight_def assms(2) using same by metis
qed

lemma query_ok:
  assumes "isCommitted retention t key s = (b, s')" "once_ok retention s" "id_clock s \<le> t"
  shows "once_ok retention (s'\<lparr>id_clock := t\<rparr>)"
proof -
  have kn: "commits_known retention (s'\<lparr>id_clock := t\<rparr>)"
    using assms isCommitted_known by (auto simp: once_ok_def)
  have fr: "id_calls s' = id_calls s" "id_inflight s' = id_inflight s" "id_commits s' = id_commits s" "jm_ok (id_done s')"
    using isCommitted_frame [OF assms(1)] assms(2) by (auto simp: once_ok_def)
  have "tc \<le> t" if "tc \<le> id_clock s" for tc using that assms(3) by simp
  then have "running_justified retention (s'\<lparr>id_clock := t\<rparr>)"
    using assms(2) fr unfolding once_ok_def running_justified_def by auto
  then show ?thesis
    using assms(2) kn fr by (simp add: once_ok_def calls_exclusive_def calls_inflight_def)
qed

lemma once_step_ok:
  assumes r: "0 \<le> retention" and ok: "once_ok retention s" and st: "once_step retention interval s s'"
  shows "once_ok retention s'"
  using st
proof cases
  case (once_busy key)
  then show ?thesis using ok by simp
next
  case (once_enter key c)
  have "k \<noteq> key" if "jm_get (id_calls s) c' = Some (k, p)" for c' k p
    using ok once_enter that by (auto simp: once_ok_def calls_inflight_def)
  then have "calls_exclusive s'" "calls_inflight s'"
    using ok once_enter by (fastforce simp: once_ok_def calls_exclusive_def calls_inflight_def)+
  then show ?thesis
    using ok once_enter by (auto simp: once_ok_def commits_known_def running_justified_def)
next
  case (once_committed c key t u)
  have "once_ok retention (u\<lparr>id_clock := t\<rparr>)"
    by (rule query_ok [OF once_committed(4) ok once_committed(3)])
  moreover have "jm_get (id_calls (u\<lparr>id_clock := t\<rparr>)) c = Some (key, Checking)"
    using isCommitted_frame [OF once_committed(4)] once_committed(2) by auto
  ultimately show ?thesis unfolding once_committed(1) by (rule leave_ok)
next
  case (once_run c key t u)
  then have u: "u = s" and old: "\<forall>at. jm_get (id_done s) key = Some at \<longrightarrow> at < t - retention"
    using isCommitted_False by blast+
  have expired: "at < t - retention" if "(key, at) \<in> set (id_commits s)" for at
    using ok that old once_run(3) by (fastforce simp: once_ok_def commits_known_def)
  have "commits_known retention s'"
    using isCommitted_known [of retention t key s False u] ok once_run u
    by (auto simp: once_ok_def commits_known_def)
  moreover have "running_justified retention s'"
    using ok once_run u expired by (fastforce simp: once_ok_def running_justified_def)
  moreover have "calls_exclusive s'" "calls_inflight s'"
    using ok calls_cong [of s' s] once_run u by (simp_all add: once_ok_def)
  ultimately show ?thesis using ok once_run u by (simp add: once_ok_def)
next
  case (once_failed c key t)
  then show ?thesis using ok leave_ok by blast
next
  case (once_done c key t0 t)
  then show ?thesis using ok r commit_ok by blast
next
  case (once_background k ks)
  then show ?thesis
    using ok by (auto simp: once_ok_def commits_known_def calls_exclusive_def calls_inflight_def running_justified_def)
next
  case (committed_query t key b u)
  then show ?thesis using query_ok ok by simp
qed

lemma once_ok_initial: "once_ok retention (createIdempotencyStore backing t)"
  by (simp add: once_ok_def createIdempotencyStore_def commits_known_def calls_exclusive_def calls_inflight_def
      running_justified_def commits_spaced_def)

interpretation once: step_system "once_step \<bar>retention\<bar> interval" "once_ok \<bar>retention\<bar>" for retention interval
  using once_step_ok by unfold_locales simp

text \<open>The rate limiter within one window.\<close>

fun rate_run ::
  "int \<Rightarrow> millis \<Rightarrow> string \<Rightarrow> millis list \<Rightarrow> (string, rate_state) jsmap \<Rightarrow> rate_decision list"
where
  "rate_run m w p [] state = []"
| "rate_run m w p (t # ts) state =
     (let (d, state') = rate_check m w t p state in d # rate_run m w p ts state')"

lemma rate_run_within:
  assumes "jm_get state p = Some \<lparr>rl_windowStart = t0, rl_count = c\<rparr>" "\<forall>t \<in> set ts. t - t0 < w" "0 \<le> c"
  shows "length (filter rd_allowed (rate_run m w p ts state)) = min (length ts) (nat (m - c))"
  using assms
proof (induction ts arbitrary: state c)
  case (Cons t ts)
  show ?case
  proof (cases "c \<ge> m")
    case True
    then show ?thesis using Cons by (simp add: rate_check_def Let_def)
  next
    case False
    then have "length (filter rd_allowed (rate_run m w p ts (jm_set p \<lparr>rl_windowStart = t0, rl_count = c + 1\<rparr> state))) =
        min (length ts) (nat (m - (c + 1)))"
      using Cons by (intro Cons.IH) auto
    then show ?thesis using False Cons by (simp add: rate_check_def Let_def)
  qed
qed simp

subsection \<open>Properties\<close>





text \<open>
  Once-only execution: however calls of \<open>once\<close> interleave, no two of them run the callback of
  one key at the same time, and two commits of one key are more than the retention period apart:
  within that period the callback completes at most once.
\<close>

theorem once_completes_at_most_once:
  assumes "0 \<le> retention" "(once_step retention interval)\<^sup>*\<^sup>* (createIdempotencyStore backing t0) s"
  shows "(jm_get (id_calls s) c = Some (k, Running t) \<and> jm_get (id_calls s) c' = Some (k, Running t') \<longrightarrow> c = c') \<and>
         (\<forall>i j. i < j \<and> j < length (id_commits s) \<and> fst (id_commits s ! i) = fst (id_commits s ! j) \<longrightarrow>
            snd (id_commits s ! j) + retention < snd (id_commits s ! i))"
proof -
  have ok: "once_ok retention s"
    using once.steps_inv [of retention interval "createIdempotencyStore backing t0" s] assms once_ok_initial by simp
  then have "c = c'" if "jm_get (id_calls s) c = Some (k, Running t)" "jm_get (id_calls s) c' = Some (k, Running t')"
    using that unfolding once_ok_def calls_exclusive_def by blast
  moreover have "snd (id_commits s ! j) + retention < snd (id_commits s ! i)"
    if "i < j" "j < length (id_commits s)" "fst (id_commits s ! i) = fst (id_commits s ! j)" for i j
  proof -
    have "snd (id_commits s ! j) < snd (id_commits s ! i) - retention"
      using ok that by (auto simp: once_ok_def commits_spaced_def sorted_wrt_iff_nth_less case_prod_unfold)
    then show ?thesis by simp
  qed
  ultimately show ?thesis by blast
qed

lemma ex_once_steps:
  "(once_step 100 10)\<^sup>*\<^sup>* (createIdempotencyStore None 0)
     ((createIdempotencyStore None 0)\<lparr>id_inflight := [''k''], id_calls := [(1, ''k'', Running 5)], id_clock := 5\<rparr>)"
proof -
  let ?a = "createIdempotencyStore None 0"
  let ?b = "?a\<lparr>id_inflight := [''k''], id_calls := [(1, ''k'', Checking)]\<rparr>"
  let ?c = "?a\<lparr>id_inflight := [''k''], id_calls := [(1, ''k'', Running 5)], id_clock := 5\<rparr>"
  have "once_step 100 10 ?a ?b"
    using once_enter [of "''k''" ?a 1 "100" 10] by (simp add: createIdempotencyStore_def)
  moreover have "once_step 100 10 ?b ?c"
    using once_run [of ?b 1 "''k''" 5 "100" ?b 10]
    by (simp add: createIdempotencyStore_def isCommitted_def)
  ultimately show ?thesis by (meson r_into_rtranclp rtranclp_trans)
qed

theorem once_completes_at_most_once_witness:
  "jm_get (id_calls ((createIdempotencyStore None 0)\<lparr>id_inflight := [''k''], id_calls := [(1, ''k'', Running 5)], id_clock := 5\<rparr>)) 1 =
     Some (''k'', Running 5) \<and> (1::nat) = 1"
  using once_completes_at_most_once [OF _ ex_once_steps, of 1 "''k''" 5 1 5] by simp

text \<open>
  The rate limit is exact within a window: of the checks of a principal that arrive within one
  window of its first, the first is allowed and then as many as the limit permits, whatever their
  number.
\<close>

theorem rate_limit_is_exact:
  assumes "jm_get state p = None" "\<forall>t \<in> set ts. t - t0 < w"
  shows "length (filter rd_allowed (rate_run m w p (t0 # ts) state)) = 1 + min (length ts) (nat (m - 1))"
  using rate_run_within [of "jm_set p \<lparr>rl_windowStart = t0, rl_count = 1\<rparr> state" p t0 1 ts w m] assms
  by (simp add: rate_check_def Let_def)

theorem rate_limit_is_exact_witness:
  "length (filter rd_allowed (rate_run 2 1000 ''U1'' (100 # [200, 300, 400]) [])) = 1 + min (length [200::int, 300, 400]) (nat (2 - 1))"
  by (rule rate_limit_is_exact) simp_all

end
