(* ===== verification/Cron.thy ===== *)
theory Cron
  imports Scopes DurableMap "HOL-Library.Sublist"
begin

section \<open>Triggers, schedules, the cron store and the scheduler\<close>

text \<open>
  Models \<open>src/src/triggers/trigger-store.ts\<close>, \<open>src/src/cron/schedule.ts\<close>, \<open>src/src/cron/cron-store.ts\<close> over the
  in-memory durable map, and the firing loop of \<open>src/src/cron/scheduler.ts\<close>.
  The cron expression library (\<open>croner\<close>), the platform's time zone database and the hash are
  parameters (\<open>cron_env\<close>). A thrown error is \<open>Inl\<close> with its message. Numbers are integers; the check
  for safe integers is explicit. What a fired trigger did is an argument of the scheduler's functions.
\<close>

subsection \<open>Data\<close>

datatype consent_status = ConsentPending | ConsentAccepted | ConsentDeclined

record recipient_consent =
  rcn_recipientId :: string
  rcn_status :: consent_status
  rcn_decidedAt :: "millis option"

text \<open>A destination; the fields no code here reads are kept as JSON.\<close>

record destination =
  d_type :: string
  d_target :: string
  d_audienceScopeId :: "scope_id option"
  d_rest :: "(string \<times> json) list"

record cron_schedule =
  sc_cron :: "string option"
  sc_timezone :: "string option"
  sc_everyMs :: "int option"
  sc_firstFireAt :: "int option"

record fire_log_entry =
  fl_fireKey :: string
  fl_threadRef :: string
  fl_firedAt :: millis
  fl_scheduledAt :: "millis option"
  fl_status :: "string option"
  fl_note :: "string option"
  fl_reply :: "string option"
  fl_sessionId :: "string option"

record cron =
  c_id :: string
  c_ownerScopeId :: scope_id
  c_owner :: string
  c_createdBy :: string
  c_ownerConsentedAt :: "millis option"
  c_destination :: "destination option"
  c_enabled :: bool
  c_createdAt :: millis
  c_lastFiredAt :: "millis option"
  c_recipientConsent :: "recipient_consent option"
  c_schedule :: cron_schedule
  c_nextFireAt :: "millis option"
  c_title :: "string option"
  c_archived :: bool
  c_action :: "string option"
  c_message :: "string option"
  c_runAs :: "string option"
  c_members :: "principal list option"
  c_fireLog :: "fire_log_entry list"

record cron_env =
  ce_nextRun :: "string \<Rightarrow> string \<Rightarrow> millis \<Rightarrow> string + millis option"
  ce_validTimezone :: "string \<Rightarrow> bool"
  ce_sha256 :: "string \<Rightarrow> string"

type_synonym 'a thrown = "string + 'a"

subsection \<open>Triggers\<close>

definition consentRequiredRecipient :: "string \<Rightarrow> bool \<Rightarrow> destination option \<Rightarrow> string option" where
  "consentRequiredRecipient owner standing dest =
     (if \<not> standing then None
      else case dest of
             None \<Rightarrow> None
           | Some d \<Rightarrow>
               if d_type d = ''principal'' \<and> \<not> samePerson (Some (d_target d)) (Some owner)
               then Some (d_target d) else None)"

definition recipientConsentSatisfied :: "recipient_consent option \<Rightarrow> string option \<Rightarrow> bool" where
  "recipientConsentSatisfied consent requiredRecipient =
     (if \<not> truthy requiredRecipient
      then (case consent of None \<Rightarrow> True | Some c \<Rightarrow> rcn_status c = ConsentAccepted)
      else (case consent of
              None \<Rightarrow> False
            | Some c \<Rightarrow> rcn_status c = ConsentAccepted \<and> samePerson (Some (rcn_recipientId c)) requiredRecipient))"

datatype consent_refusal = NoConsent | NotRecipient

definition decideRecipientConsent ::
  "recipient_consent option \<Rightarrow> string \<Rightarrow> bool \<Rightarrow> millis \<Rightarrow> consent_refusal + recipient_consent"
where
  "decideRecipientConsent current actorId accept now =
     (case current of
        None \<Rightarrow> Inl NoConsent
      | Some c \<Rightarrow>
          if \<not> samePerson (Some (rcn_recipientId c)) (Some actorId) then Inl NotRecipient
          else Inr (c\<lparr>rcn_status := (if accept then ConsentAccepted else ConsentDeclined), rcn_decidedAt := Some now\<rparr>))"



definition hashId :: "cron_env \<Rightarrow> string list \<Rightarrow> nat \<Rightarrow> string" where
  "hashId env parts len = take len (ce_sha256 env (join_with [char_of (0::nat)] parts))"




subsection \<open>Schedules\<close>

definition defaultTimezone :: string where
  "defaultTimezone = ''America/Los_Angeles''"


definition minRecurringMs :: int where
  "minRecurringMs = 60000"

definition isCalendarSchedule :: "cron_schedule \<Rightarrow> bool" where
  "isCalendarSchedule s = (sc_cron s \<noteq> None)"

definition safeInteger :: "int \<Rightarrow> bool" where
  "safeInteger n = (\<bar>n\<bar> \<le> 9007199254740991)"

definition finiteEpochMs :: "int option \<Rightarrow> string \<Rightarrow> int option thrown" where
  "finiteEpochMs v name =
     (case v of
        None \<Rightarrow> Inr None
      | Some n \<Rightarrow> if \<not> safeInteger n then Inl (name @ '' must be a finite integer timestamp in ms'') else Inr (Some n))"

definition finitePositiveMs :: "int option \<Rightarrow> string \<Rightarrow> int option thrown" where
  "finitePositiveMs v name =
     (case v of
        None \<Rightarrow> Inr None
      | Some n \<Rightarrow> if \<not> safeInteger n \<or> n \<le> 0 then Inl (name @ '' must be a positive integer number of ms'')
                  else Inr (Some n))"

definition normalizeTimezone :: "cron_env \<Rightarrow> string option \<Rightarrow> string \<Rightarrow> string thrown" where
  "normalizeTimezone env inp fallback =
     (let t = (case inp of None \<Rightarrow> [] | Some x \<Rightarrow> js_trim x);
          tz = js_trim (if t \<noteq> [] then t else fallback)
      in if ce_validTimezone env tz then Inr tz else Inl (''invalid IANA timezone: '' @ tz))"


definition nextCalendarFireAfter :: "cron_env \<Rightarrow> cron_schedule \<Rightarrow> millis \<Rightarrow> millis option thrown" where
  "nextCalendarFireAfter env s after =
     (if \<not> truthy (sc_cron s) then Inl ''schedule.cron is required''
      else case normalizeTimezone env (sc_timezone s) defaultTimezone of
             Inl e \<Rightarrow> Inl e
           | Inr tz \<Rightarrow> ce_nextRun env (the (sc_cron s)) tz after)"



definition validateUserSchedule :: "cron_schedule \<Rightarrow> unit thrown" where
  "validateUserSchedule s =
     (case sc_everyMs s of
        None \<Rightarrow> Inr ()
      | Some e \<Rightarrow> if e < minRecurringMs then Inl ''schedule.everyMs must be at least 60000ms'' else Inr ())"

definition recoverNextFireAt ::
  "cron_env \<Rightarrow> cron_schedule \<Rightarrow> millis \<Rightarrow> millis option \<Rightarrow> millis option \<Rightarrow> millis option thrown"
where
  "recoverNextFireAt env s createdAt lastFiredAt nextFireAt =
     (if nextFireAt \<noteq> None then finiteEpochMs nextFireAt ''nextFireAt''
      else if isCalendarSchedule s
      then nextCalendarFireAfter env s (case lastFiredAt of Some l \<Rightarrow> l | None \<Rightarrow> createdAt)
      else case lastFiredAt of
             None \<Rightarrow>
               (case finiteEpochMs (sc_firstFireAt s) ''schedule.firstFireAt'' of
                  Inl e \<Rightarrow> Inl e
                | Inr None \<Rightarrow> Inr (Some createdAt)
                | Inr (Some f) \<Rightarrow> Inr (Some f))
           | Some l \<Rightarrow>
               (case finitePositiveMs (sc_everyMs s) ''schedule.everyMs'' of
                  Inl e \<Rightarrow> Inl e
                | Inr None \<Rightarrow> Inr None
                | Inr (Some e) \<Rightarrow> Inr (Some (l + e))))"

definition advanceNextFireAt :: "cron_env \<Rightarrow> cron_schedule \<Rightarrow> millis \<Rightarrow> millis option thrown" where
  "advanceNextFireAt env s firedAt =
     (if isCalendarSchedule s then nextCalendarFireAfter env s firedAt
      else case finitePositiveMs (sc_everyMs s) ''schedule.everyMs'' of
             Inl e \<Rightarrow> Inl e
           | Inr None \<Rightarrow> Inr None
           | Inr (Some e) \<Rightarrow> Inr (Some (firedAt + e)))"

subsection \<open>The cron store\<close>










type_synonym cron_map = "cron durable_map"


definition cron_get :: "cron_map \<Rightarrow> string \<Rightarrow> cron option" where
  "cron_get m i = dm_get m i"

definition cron_list :: "cron_map \<Rightarrow> cron list" where
  "cron_list m = dm_all m"




definition setEnabled :: "string \<Rightarrow> bool \<Rightarrow> cron_map \<Rightarrow> cron_map" where
  "setEnabled i enabled m =
     snd (dm_merge i (\<lambda>c. c\<lparr>c_enabled := enabled, c_archived := (if enabled then False else c_archived c)\<rparr>) m)"



text \<open>Spreading a new log entry over the old one: the fields it carries win.\<close>

definition mergeEntry :: "fire_log_entry option \<Rightarrow> fire_log_entry \<Rightarrow> fire_log_entry" where
  "mergeEntry old e =
     (case old of
        None \<Rightarrow> e
      | Some p \<Rightarrow>
          let pick = (\<lambda>f. if f e \<noteq> None then f e else f p)
          in e\<lparr>fl_scheduledAt := (if fl_scheduledAt e \<noteq> None then fl_scheduledAt e else fl_scheduledAt p),
               fl_status := pick fl_status, fl_note := pick fl_note, fl_reply := pick fl_reply,
               fl_sessionId := pick fl_sessionId\<rparr>)"

definition addFireEntry :: "fire_log_entry \<Rightarrow> cron \<Rightarrow> cron" where
  "addFireEntry e c =
     (let byKey = fold (\<lambda>x m. jm_set (fl_fireKey x) x m) (c_fireLog c) [];
          byKey' = jm_set (fl_fireKey e) (mergeEntry (jm_get byKey (fl_fireKey e)) e) byKey
      in c\<lparr>c_fireLog := sort_key fl_firedAt (jm_values byKey')\<rparr>)"

definition recordFire :: "string \<Rightarrow> fire_log_entry \<Rightarrow> cron_map \<Rightarrow> cron_map" where
  "recordFire i e m = snd (dm_update i (addFireEntry e) m)"

definition advanceFrom :: "cron \<Rightarrow> millis \<Rightarrow> millis \<Rightarrow> millis" where
  "advanceFrom c scheduledAt at = (if isCalendarSchedule (c_schedule c) then scheduledAt else at)"

definition markFired :: "cron_env \<Rightarrow> string \<Rightarrow> millis \<Rightarrow> millis option \<Rightarrow> cron_map \<Rightarrow> cron_map thrown" where
  "markFired env i at scheduledAt m =
     (case dm_get m i of
        None \<Rightarrow> Inr m
      | Some c \<Rightarrow>
          (case advanceNextFireAt env (c_schedule c) (advanceFrom c (case scheduledAt of Some s \<Rightarrow> s | None \<Rightarrow> at) at) of
             Inl e \<Rightarrow> Inl e
           | Inr next \<Rightarrow> Inr (snd (dm_merge i (\<lambda>c. c\<lparr>c_lastFiredAt := Some at, c_nextFireAt := next\<rparr>) m))))"

definition slotOf :: "cron_env \<Rightarrow> cron \<Rightarrow> millis option thrown" where
  "slotOf env c = recoverNextFireAt env (c_schedule c) (c_createdAt c) (c_lastFiredAt c) (c_nextFireAt c)"

definition claimTransform :: "cron_env \<Rightarrow> millis \<Rightarrow> millis \<Rightarrow> cron \<Rightarrow> (bool \<times> cron) thrown" where
  "claimTransform env scheduledAt at c =
     (if c_archived c \<or> \<not> c_enabled c then Inr (False, c)
      else case slotOf env c of
             Inl e \<Rightarrow> Inl e
           | Inr slot \<Rightarrow>
               if slot \<noteq> Some scheduledAt then Inr (False, c)
               else
                 (case advanceNextFireAt env (c_schedule c) (advanceFrom c scheduledAt at) of
                    Inl e \<Rightarrow> Inl e
                  | Inr next \<Rightarrow> Inr (True, c\<lparr>c_lastFiredAt := Some at, c_nextFireAt := next\<rparr>)))"

definition claimSlot :: "cron_env \<Rightarrow> string \<Rightarrow> millis \<Rightarrow> millis \<Rightarrow> cron_map \<Rightarrow> (bool \<times> cron_map) thrown" where
  "claimSlot env i scheduledAt at m =
     (case dm_get m i of
        None \<Rightarrow> Inr (False, m)
      | Some c \<Rightarrow>
          (case claimTransform env scheduledAt at c of
             Inl e \<Rightarrow> Inl e
           | Inr (claimed, c') \<Rightarrow> Inr (claimed, snd (dm_update i (\<lambda>_. c') m))))"

definition restoreSlot :: "millis \<Rightarrow> millis \<Rightarrow> millis option \<Rightarrow> cron \<Rightarrow> cron" where
  "restoreSlot scheduledAt at priorLastFiredAt c =
     (if c_lastFiredAt c \<noteq> Some at then c
      else c\<lparr>c_lastFiredAt := priorLastFiredAt, c_nextFireAt := Some scheduledAt\<rparr>)"

definition unclaimSlot :: "string \<Rightarrow> millis \<Rightarrow> millis \<Rightarrow> millis option \<Rightarrow> cron_map \<Rightarrow> cron_map" where
  "unclaimSlot i scheduledAt at prior m = snd (dm_update i (restoreSlot scheduledAt at prior) m)"

fun collectDue :: "cron_env \<Rightarrow> millis \<Rightarrow> cron list \<Rightarrow> (cron \<times> millis) list thrown" where
  "collectDue env now [] = Inr []"
| "collectDue env now (c # cs) =
     (if c_archived c \<or> \<not> c_enabled c then collectDue env now cs
      else case slotOf env c of
             Inl e \<Rightarrow> Inl e
           | Inr slot \<Rightarrow>
               (case collectDue env now cs of
                  Inl e \<Rightarrow> Inl e
                | Inr ds \<Rightarrow>
                    Inr (case slot of
                           Some s \<Rightarrow> if now \<ge> s then (c\<lparr>c_nextFireAt := Some s\<rparr>, s) # ds else ds
                         | None \<Rightarrow> ds)))"

definition due :: "cron_env \<Rightarrow> millis \<Rightarrow> cron_map \<Rightarrow> (cron \<times> millis) list thrown" where
  "due env now m = collectDue env now (dm_all m)"

subsection \<open>The scheduler\<close>

record trigger_outcome =
  to_authzFailed :: bool
  to_ran :: bool
  to_status :: "string option"
  to_note :: "string option"
  to_reply :: "string option"
  to_sessionId :: "string option"

definition truncate :: "string \<Rightarrow> nat \<Rightarrow> string" where
  "truncate s maxChars = (if length s \<le> maxChars then s else take (maxChars - 3) s @ ''...'')"

definition fireReplyMax :: nat where
  "fireReplyMax = 2000"

fun str_includes :: "string \<Rightarrow> string \<Rightarrow> bool" where
  "str_includes needle [] = (needle = [])"
| "str_includes needle (c # s) = (starts_with needle (c # s) \<or> str_includes needle s)"

definition cronFireLogReply :: "string \<Rightarrow> string" where
  "cronFireLogReply s =
     (if str_includes ''[Cron runtime context]'' s \<or> str_includes ''[End cron runtime context]'' s
      then ''[reply echoed cron runtime context; omitted]''
      else truncate s fireReplyMax)"

definition cronFireThreadRef :: "cron_env \<Rightarrow> string \<Rightarrow> string \<Rightarrow> string" where
  "cronFireThreadRef env cronId fireKey = ''cron:'' @ cronId @ '':fire:'' @ hashId env [fireKey] 12"

definition fireEntry ::
  "cron_env \<Rightarrow> cron \<Rightarrow> millis \<Rightarrow> string \<Rightarrow> millis option \<Rightarrow> string + trigger_outcome \<Rightarrow> fire_log_entry"
where
  "fireEntry env c t fireKey scheduledAt outcome =
     \<lparr>fl_fireKey = fireKey, fl_threadRef = cronFireThreadRef env (c_id c) fireKey, fl_firedAt = t,
      fl_scheduledAt = scheduledAt,
      fl_status = (case outcome of Inl _ \<Rightarrow> Some ''failed'' | Inr r \<Rightarrow> to_status r),
      fl_note = (case outcome of
                   Inl e \<Rightarrow> Some (truncate e fireReplyMax)
                 | Inr r \<Rightarrow> if truthy (to_note r) then Some (truncate (the (to_note r)) fireReplyMax) else None),
      fl_reply = (case outcome of Inl _ \<Rightarrow> None | Inr r \<Rightarrow> map_option cronFireLogReply (to_reply r)),
      fl_sessionId = (case outcome of
                        Inl _ \<Rightarrow> None
                      | Inr r \<Rightarrow> if truthy (to_sessionId r) then to_sessionId r else None)\<rparr>"

text \<open>
  What \<open>fire\<close> does with the outcome of its trigger; \<open>Inl\<close> is an error the trigger threw, which is
  logged and thrown on. The flag of the result is \<open>authzFailed\<close>.
\<close>

definition fire ::
  "cron_env \<Rightarrow> string + trigger_outcome \<Rightarrow> cron \<Rightarrow> millis \<Rightarrow> string \<Rightarrow> millis option \<Rightarrow> cron_map \<Rightarrow> bool thrown \<times> cron_map"
where
  "fire env outcome c t fireKey scheduledAt m =
     (case outcome of
        Inl e \<Rightarrow> (Inl e, recordFire (c_id c) (fireEntry env c t fireKey scheduledAt outcome) m)
      | Inr r \<Rightarrow>
          let m1 = (if to_ran r \<or> to_authzFailed r
                    then recordFire (c_id c) (fireEntry env c t fireKey scheduledAt outcome) m else m)
          in if to_authzFailed r then (Inr True, setEnabled (c_id c) False m1)
             else (Inr False,
                   if sc_everyMs (c_schedule c) = None \<and> sc_cron (c_schedule c) = None
                   then setEnabled (c_id c) False m1 else m1))"

definition fireKeyOf :: "cron \<Rightarrow> millis \<Rightarrow> string" where
  "fireKeyOf c slot = ''cron:'' @ c_id c @ '':'' @ show_int slot"

text \<open>The loop over the batch; an error of one cron's trigger ends it.\<close>

fun fireBatch ::
  "cron_env \<Rightarrow> (cron \<Rightarrow> string \<Rightarrow> string + trigger_outcome) \<Rightarrow> millis \<Rightarrow> (cron \<times> millis) list \<Rightarrow> cron_map \<Rightarrow>
     unit thrown \<times> cron_map"
where
  "fireBatch env run t [] m = (Inr (), m)"
| "fireBatch env run t ((c, slot) # batch) m =
     (case fire env (run c (fireKeyOf c slot)) c t (fireKeyOf c slot) (Some slot) m of
        (Inl e, m1) \<Rightarrow> (Inl e, m1)
      | (Inr True, m1) \<Rightarrow> fireBatch env run t batch m1
      | (Inr False, m1) \<Rightarrow>
          (case markFired env (c_id c) t (Some slot) m1 of
             Inl e \<Rightarrow> (Inl e, m1)
           | Inr m2 \<Rightarrow> fireBatch env run t batch m2))"

definition fireDue ::
  "cron_env \<Rightarrow> (cron \<Rightarrow> string \<Rightarrow> string + trigger_outcome) \<Rightarrow> nat \<Rightarrow> millis \<Rightarrow> cron_map \<Rightarrow> unit thrown \<times> cron_map"
where
  "fireDue env run maxFires t m =
     (case due env t m of
        Inl e \<Rightarrow> (Inl e, m)
      | Inr ds \<Rightarrow> fireBatch env run t (take maxFires ds) m)"

record fire_job =
  fj_cronId :: string
  fj_scheduledAt :: millis

definition inactive :: "cron \<Rightarrow> bool" where
  "inactive c = (c_archived c \<or> \<not> c_enabled c)"

text \<open>The job queue is the list of jobs enqueued so far.\<close>

definition enqueueNext :: "cron_env \<Rightarrow> string \<Rightarrow> cron_map \<Rightarrow> fire_job list \<Rightarrow> fire_job list thrown" where
  "enqueueNext env i m q =
     (case dm_get m i of
        None \<Rightarrow> Inr q
      | Some c \<Rightarrow>
          if inactive c then Inr q
          else case slotOf env c of
                 Inl e \<Rightarrow> Inl e
               | Inr None \<Rightarrow> Inr q
               | Inr (Some s) \<Rightarrow> Inr (q @ [\<lparr>fj_cronId = i, fj_scheduledAt = s\<rparr>]))"

definition fireJob ::
  "cron_env \<Rightarrow> (cron \<Rightarrow> string \<Rightarrow> string + trigger_outcome) \<Rightarrow> millis \<Rightarrow> fire_job \<Rightarrow> cron_map \<Rightarrow> fire_job list \<Rightarrow>
     unit thrown \<times> cron_map \<times> fire_job list"
where
  "fireJob env run t job m q =
     (case dm_get m (fj_cronId job) of
        None \<Rightarrow> (Inr (), m, q)
      | Some c \<Rightarrow>
          if inactive c then (Inr (), m, q)
          else case slotOf env c of
                 Inl e \<Rightarrow> (Inl e, m, q)
               | Inr slot \<Rightarrow>
                   if slot \<noteq> Some (fj_scheduledAt job) then (Inr (), m, q)
                   else if t < fj_scheduledAt job then (Inr (), m, q @ [job])
                   else
                     (case claimSlot env (fj_cronId job) (fj_scheduledAt job) t m of
                        Inl e \<Rightarrow> (Inl e, m, q)
                      | Inr (False, m1) \<Rightarrow> (Inr (), m1, q)
                      | Inr (True, m1) \<Rightarrow>
                          (case fire env (run c (fireKeyOf c (fj_scheduledAt job))) c t
                                  (fireKeyOf c (fj_scheduledAt job)) (Some (fj_scheduledAt job)) m1 of
                             (Inr False, m2) \<Rightarrow>
                               (case enqueueNext env (fj_cronId job) m2 q of
                                  Inl e \<Rightarrow> (Inl e, m2, q)
                                | Inr q' \<Rightarrow> (Inr (), m2, q'))
                           | (_, m2) \<Rightarrow>
                               (Inr (), unclaimSlot (fj_cronId job) (fj_scheduledAt job) t (c_lastFiredAt c) m2, q))))"

fun reconcile :: "cron_env \<Rightarrow> cron list \<Rightarrow> fire_job list \<Rightarrow> fire_job list" where
  "reconcile env [] q = q"
| "reconcile env (c # cs) q =
     (if inactive c then reconcile env cs q
      else case slotOf env c of
             Inl e \<Rightarrow> q
           | Inr None \<Rightarrow> reconcile env cs q
           | Inr (Some s) \<Rightarrow> reconcile env cs (q @ [\<lparr>fj_cronId = c_id c, fj_scheduledAt = s\<rparr>]))"

definition runNow ::
  "cron_env \<Rightarrow> (cron \<Rightarrow> string \<Rightarrow> string + trigger_outcome) \<Rightarrow> string \<Rightarrow> millis \<Rightarrow> string \<Rightarrow> cron_map \<Rightarrow> bool thrown \<times> cron_map"
where
  "runNow env run fresh t i m =
     (case dm_get m i of
        None \<Rightarrow> (Inr False, m)
      | Some c \<Rightarrow>
          if inactive c then (Inr False, m)
          else let key = ''cron:'' @ c_id c @ '':manual:'' @ fresh in fire env (run c key) c t key None m)"

subsection \<open>Lemmas\<close>






text \<open>Fields a slot does not depend on.\<close>

lemma slotOf_cong:
  "c_schedule c' = c_schedule c \<Longrightarrow> c_createdAt c' = c_createdAt c \<Longrightarrow> c_lastFiredAt c' = c_lastFiredAt c \<Longrightarrow>
   c_nextFireAt c' = c_nextFireAt c \<Longrightarrow> slotOf env c' = slotOf env c"
  by (simp add: slotOf_def)








lemma collectDue_iff:
  "collectDue env now cs = Inr ds \<Longrightarrow>
   (x, s) \<in> set ds \<longleftrightarrow> (\<exists>c \<in> set cs. \<not> inactive c \<and> slotOf env c = Inr (Some s) \<and> s \<le> now \<and> x = c\<lparr>c_nextFireAt := Some s\<rparr>)"
proof (induction cs arbitrary: ds)
  case (Cons c cs)
  show ?case
  proof (cases "inactive c")
    case True
    then show ?thesis using Cons by (auto simp: inactive_def)
  next
    case False
    then obtain slot ds' where d: "slotOf env c = Inr slot" "collectDue env now cs = Inr ds'"
      "ds = (case slot of Some s \<Rightarrow> if now \<ge> s then (c\<lparr>c_nextFireAt := Some s\<rparr>, s) # ds' else ds' | None \<Rightarrow> ds')"
      using Cons.prems by (auto simp: inactive_def split: sum.splits)
    then show ?thesis using Cons.IH [OF d(2)] False by (auto split: option.splits if_splits)
  qed
qed simp

lemma collectDue_ids: "collectDue env now cs = Inr ds \<Longrightarrow> \<exists>cs'. map (c_id \<circ> fst) ds = map c_id cs' \<and> subseq cs' cs"
proof (induction cs arbitrary: ds)
  case (Cons c cs)
  show ?case
  proof (cases "inactive c")
    case True
    then show ?thesis using Cons by (auto simp: inactive_def intro: subseq_Cons')
  next
    case False
    then obtain slot ds' where d: "slotOf env c = Inr slot" "collectDue env now cs = Inr ds'"
      "ds = (case slot of Some s \<Rightarrow> if now \<ge> s then (c\<lparr>c_nextFireAt := Some s\<rparr>, s) # ds' else ds' | None \<Rightarrow> ds')"
      using Cons.prems by (auto simp: inactive_def split: sum.splits)
    obtain cs' where cs': "map (c_id \<circ> fst) ds' = map c_id cs'" "subseq cs' cs" using Cons.IH [OF d(2)] by blast
    show ?thesis
    proof (cases "\<exists>s. slot = Some s \<and> s \<le> now")
      case True
      then have "map (c_id \<circ> fst) ds = map c_id (c # cs')" using d(3) cs'(1) by auto
      moreover have "subseq (c # cs') (c # cs)" using cs'(2) by simp
      ultimately show ?thesis by blast
    next
      case False
      then have "ds = ds'" using d(3) by (auto split: option.splits)
      then show ?thesis using cs' subseq_Cons' by fastforce
    qed
  qed
qed simp

lemma claimSlot_True:
  assumes "claimSlot env i slot at m = Inr (True, m1)"
  shows "\<exists>c nxt. dm_get m i = Some c \<and> slotOf env c = Inr (Some slot) \<and>
     dm_get m1 i = Some (c\<lparr>c_lastFiredAt := Some at, c_nextFireAt := nxt\<rparr>) \<and>
     (\<forall>j. j \<noteq> i \<longrightarrow> dm_get m1 j = dm_get m j)"
  using assms
  by (auto simp: claimSlot_def claimTransform_def split: option.splits sum.splits prod.splits if_splits)

lemma recordFire_get:
  "dm_get (recordFire j e m) k = (if k = j then map_option (addFireEntry e) (dm_get m j) else dm_get m k)"
  by (simp add: recordFire_def)

subsection \<open>Properties\<close>


definition ex_cron_env :: cron_env where
  "ex_cron_env = \<lparr>ce_nextRun = (\<lambda>p tz after. Inr (Some (after + 60000))), ce_validTimezone = (\<lambda>_. True),
                  ce_sha256 = id\<rparr>"

definition ex_cron :: "string \<Rightarrow> cron" where
  "ex_cron i =
     \<lparr>c_id = i, c_ownerScopeId = ''personal:U1'', c_owner = ''U1'', c_createdBy = ''U1'', c_ownerConsentedAt = None,
      c_destination = None, c_enabled = True, c_createdAt = 1000, c_lastFiredAt = None, c_recipientConsent = None,
      c_schedule = \<lparr>sc_cron = None, sc_timezone = None, sc_everyMs = Some 60000, sc_firstFireAt = Some 5000\<rparr>,
      c_nextFireAt = Some 5000, c_title = None, c_archived = False, c_action = Some ''go'', c_message = None,
      c_runAs = None, c_members = None, c_fireLog = []\<rparr>"


lemma ex_claim:
  "claimSlot ex_cron_env ''c1'' 5000 6000 [(''c1'', ex_cron ''c1'')] =
     Inr (True, [(''c1'', (ex_cron ''c1'')\<lparr>c_lastFiredAt := Some 6000, c_nextFireAt := Some 66000\<rparr>)])"
  by (simp add: claimSlot_def claimTransform_def dm_get_def dm_update_def slotOf_def recoverNextFireAt_def
      finiteEpochMs_def finitePositiveMs_def safeInteger_def advanceNextFireAt_def advanceFrom_def
      isCalendarSchedule_def ex_cron_def)


text \<open>
  The due crons are exactly the active ones whose slot has come, each with its slot, in the order
  of the store's keys.
\<close>

theorem due_is_exact:
  assumes "due env now m = Inr ds"
  shows "((x, s) \<in> set ds \<longleftrightarrow>
      (\<exists>c \<in> set (cron_list m). \<not> c_archived c \<and> c_enabled c \<and> slotOf env c = Inr (Some s) \<and> s \<le> now \<and>
         x = c\<lparr>c_nextFireAt := Some s\<rparr>)) \<and>
    (\<exists>cs. map (c_id \<circ> fst) ds = map c_id cs \<and> subseq cs (cron_list m))"
  using assms collectDue_iff [of env now "dm_all m" ds x s] collectDue_ids [of env now "dm_all m" ds]
  by (auto simp: due_def cron_list_def inactive_def)

theorem due_is_exact_witness:
  "((ex_cron ''c1'', 5000::int) \<in> set [(ex_cron ''c1'', 5000)] \<longleftrightarrow>
      (\<exists>c \<in> set (cron_list [(''c1'', ex_cron ''c1'')]). \<not> c_archived c \<and> c_enabled c \<and>
         slotOf ex_cron_env c = Inr (Some 5000) \<and> (5000::int) \<le> 9000 \<and> ex_cron ''c1'' = c\<lparr>c_nextFireAt := Some 5000\<rparr>)) \<and>
    (\<exists>cs. map (c_id \<circ> fst) [(ex_cron ''c1'', 5000::int)] = map c_id cs \<and> subseq cs (cron_list [(''c1'', ex_cron ''c1'')]))"
proof (rule due_is_exact)
  show "due ex_cron_env 9000 [(''c1'', ex_cron ''c1'')] = Inr [(ex_cron ''c1'', 5000)]"
    by (simp add: due_def dm_all_def dm_entries_def slotOf_def recoverNextFireAt_def finiteEpochMs_def safeInteger_def
        ex_cron_def)
qed

text \<open>
  A fire that fails gives its slot back: when a job's trigger throws, the cron is as it was
  before the job, with the same last fire and the same slot to be claimed again, save for the
  failure in its fire log; no other cron changes and nothing is enqueued.
\<close>

theorem failed_fire_hands_slot_back:
  assumes "dm_get m i = Some c" "c_id c = i" "\<not> inactive c" "slotOf env c = Inr (Some slot)" "slot \<le> t"
    and "run c (fireKeyOf c slot) = Inl err"
    and "claimSlot env i slot t m = Inr (True, m1)"
    and "fireJob env run t \<lparr>fj_cronId = i, fj_scheduledAt = slot\<rparr> m q = (res, m', q')"
  shows "res = Inr () \<and> q' = q \<and> (\<forall>j. j \<noteq> i \<longrightarrow> dm_get m' j = dm_get m j) \<and>
    dm_get m' i = Some ((addFireEntry (fireEntry env c t (fireKeyOf c slot) (Some slot) (Inl err)) c)
                          \<lparr>c_nextFireAt := Some slot\<rparr>)"
proof -
  obtain nxt where m1: "dm_get m1 i = Some (c\<lparr>c_lastFiredAt := Some t, c_nextFireAt := nxt\<rparr>)"
    "\<And>j. j \<noteq> i \<Longrightarrow> dm_get m1 j = dm_get m j"
    using claimSlot_True [OF assms(7)] assms(1) by auto
  let ?e = "fireEntry env c t (fireKeyOf c slot) (Some slot) (Inl err)"
  have m': "m' = unclaimSlot i slot t (c_lastFiredAt c) (recordFire i ?e m1)" "res = Inr ()" "q' = q"
    using assms by (auto simp: fireJob_def fire_def)
  have "restoreSlot slot t (c_lastFiredAt c) (addFireEntry ?e (c\<lparr>c_lastFiredAt := Some t, c_nextFireAt := nxt\<rparr>)) =
      (addFireEntry ?e c)\<lparr>c_nextFireAt := Some slot\<rparr>"
    by (simp add: restoreSlot_def addFireEntry_def Let_def)
  then have "dm_get m' i = Some ((addFireEntry ?e c)\<lparr>c_nextFireAt := Some slot\<rparr>)"
    using m1(1) by (simp add: m'(1) unclaimSlot_def recordFire_get)
  moreover have "dm_get m' j = dm_get m j" if "j \<noteq> i" for j
    using m1(2) that by (simp add: m'(1) unclaimSlot_def recordFire_get)
  ultimately show ?thesis using m' by blast
qed

theorem failed_fire_hands_slot_back_witness:
  "fst (fireJob ex_cron_env (\<lambda>_ _. Inl ''boom'') 6000 \<lparr>fj_cronId = ''c1'', fj_scheduledAt = 5000\<rparr>
          [(''c1'', ex_cron ''c1'')] []) = Inr () \<and>
   map_option c_lastFiredAt (dm_get (fst (snd (fireJob ex_cron_env (\<lambda>_ _. Inl ''boom'') 6000
          \<lparr>fj_cronId = ''c1'', fj_scheduledAt = 5000\<rparr> [(''c1'', ex_cron ''c1'')] []))) ''c1'') = Some None"
proof -
  let ?m = "[(''c1'', ex_cron ''c1'')]"
  let ?r = "fireJob ex_cron_env (\<lambda>_ _. Inl ''boom'') 6000 \<lparr>fj_cronId = ''c1'', fj_scheduledAt = 5000\<rparr> ?m []"
  have c: "dm_get ?m ''c1'' = Some (ex_cron ''c1'')" "c_id (ex_cron ''c1'') = ''c1''" "\<not> inactive (ex_cron ''c1'')"
    by (simp_all add: dm_get_def ex_cron_def inactive_def)
  have s: "slotOf ex_cron_env (ex_cron ''c1'') = Inr (Some 5000)"
    by (simp add: slotOf_def recoverNextFireAt_def finiteEpochMs_def safeInteger_def ex_cron_def)
  have "fst ?r = Inr () \<and> snd (snd ?r) = [] \<and> (\<forall>j. j \<noteq> ''c1'' \<longrightarrow> dm_get (fst (snd ?r)) j = dm_get ?m j) \<and>
    dm_get (fst (snd ?r)) ''c1'' = Some ((addFireEntry (fireEntry ex_cron_env (ex_cron ''c1'') 6000
        (fireKeyOf (ex_cron ''c1'') 5000) (Some 5000) (Inl ''boom'')) (ex_cron ''c1''))\<lparr>c_nextFireAt := Some 5000\<rparr>)"
    by (rule failed_fire_hands_slot_back [OF c s _ _ ex_claim]) simp_all
  then show ?thesis by (simp add: addFireEntry_def Let_def) (simp add: ex_cron_def)
qed

text \<open>
  In interval mode one failing cron stops the tick: when the trigger of the first due cron throws,
  the tick ends with that error and no other cron is touched, however many are due; the failing
  one keeps its slot, so that it is due again on the next tick.
\<close>

theorem failing_cron_ends_the_tick:
  assumes "due env t m = Inr ((c, slot) # ds)" "0 < maxFires" "run c (fireKeyOf c slot) = Inl err"
  shows "fst (fireDue env run maxFires t m) = Inl err \<and>
    (\<forall>j. j \<noteq> c_id c \<longrightarrow> dm_get (snd (fireDue env run maxFires t m)) j = dm_get m j) \<and>
    (\<forall>c'. dm_get m (c_id c) = Some c' \<longrightarrow>
       (\<exists>c''. dm_get (snd (fireDue env run maxFires t m)) (c_id c) = Some c'' \<and> slotOf env c'' = slotOf env c' \<and>
              inactive c'' = inactive c'))"
proof -
  let ?e = "fireEntry env c t (fireKeyOf c slot) (Some slot) (Inl err)"
  have r: "fireDue env run maxFires t m = (Inl err, recordFire (c_id c) ?e m)"
    using assms by (cases maxFires) (simp_all add: fireDue_def fire_def)
  have "slotOf env (addFireEntry ?e c') = slotOf env c'" "inactive (addFireEntry ?e c') = inactive c'" for c'
    by (simp_all add: addFireEntry_def Let_def slotOf_def inactive_def)
  then show ?thesis by (simp add: r recordFire_get)
qed

theorem failing_cron_ends_the_tick_witness:
  "fst (fireDue ex_cron_env (\<lambda>c _. if c_id c = ''c1'' then Inl ''boom'' else Inr \<lparr>to_authzFailed = False, to_ran = True,
       to_status = Some ''ok'', to_note = None, to_reply = None, to_sessionId = None\<rparr>) 100 9000
     [(''c1'', ex_cron ''c1''), (''c2'', ex_cron ''c2'')]) = Inl ''boom''"
proof -
  have "due ex_cron_env 9000 [(''c1'', ex_cron ''c1''), (''c2'', ex_cron ''c2'')] =
      Inr [(ex_cron ''c1'', 5000), (ex_cron ''c2'', 5000)]"
  proof -
    have "dm_all [(''c1'', ex_cron ''c1''), (''c2'', ex_cron ''c2'')] = [ex_cron ''c1'', ex_cron ''c2'']" by code_simp
    then show ?thesis
      by (simp add: due_def slotOf_def recoverNextFireAt_def finiteEpochMs_def safeInteger_def ex_cron_def)
  qed
  from failing_cron_ends_the_tick [OF this, of 100 "\<lambda>c _. if c_id c = ''c1'' then Inl ''boom'' else Inr \<lparr>to_authzFailed = False,
      to_ran = True, to_status = Some ''ok'', to_note = None, to_reply = None, to_sessionId = None\<rparr>" "''boom''"]
  show ?thesis by (simp add: ex_cron_def)
qed

end
