(* ===== verification/Shell.thy ===== *)
theory Shell
  imports Prelude
begin

section \<open>Reading shell text\<close>

text \<open>
  Models the scanner of \<open>src/src/policy/command-policy.ts\<close>: ANSI-C escapes, the tokenizer \<open>scanShell\<close>, and
  the functions that find out which texts a command line hands to a shell for execution. A position
  in the input is the list of what is left from there.
  \<open>String.fromCodePoint\<close> throws on a number above 0x10FFFF; a function that may throw this way
  returns \<open>None\<close> then. Characters are the code units below 256; a decoded one above is represented
  by the character 0xFF, which like all of those but the Unicode spaces is neither a word character
  nor white space.
\<close>

subsection \<open>Characters\<close>

abbreviation BSL :: char where "BSL \<equiv> CHR 0x5C"
abbreviation NL :: char where "NL \<equiv> CHR 0x0A"
abbreviation DQ :: char where "DQ \<equiv> CHR 0x22"
abbreviation SQ :: char where "SQ \<equiv> CHR 0x27"
abbreviation BT :: char where "BT \<equiv> CHR 0x60"

definition alpha_char :: "char \<Rightarrow> bool" where
  "alpha_char c = (let n = (of_char c :: nat) in (65 \<le> n \<and> n \<le> 90) \<or> (97 \<le> n \<and> n \<le> 122) \<or> n = 95)"

text \<open>\<open>\w\<close>\<close>

definition word_char :: "char \<Rightarrow> bool" where
  "word_char c = (alpha_char c \<or> digit c)"

text \<open>\<open>[\w@%+=:,./-]\<close>\<close>

definition bare_char :: "char \<Rightarrow> bool" where
  "bare_char c = (word_char c \<or> c \<in> set ''@%+=:,./-'')"

definition op_char :: "char \<Rightarrow> bool" where
  "op_char c = (c \<in> set '';|&(){}'')"

definition is_hex :: "char \<Rightarrow> bool" where
  "is_hex c = (let n = (of_char c :: nat) in digit c \<or> (65 \<le> n \<and> n \<le> 70) \<or> (97 \<le> n \<and> n \<le> 102))"

definition hex_value :: "char \<Rightarrow> nat" where
  "hex_value c = (let n = of_char c in if n \<le> 57 then n - 48 else if n \<le> 70 then n - 55 else n - 87)"

definition parseInt :: "nat \<Rightarrow> string \<Rightarrow> nat" where
  "parseInt base s = foldl (\<lambda>a c. base * a + hex_value c) 0 s"

definition fromCodePoint :: "nat \<Rightarrow> string option" where
  "fromCodePoint n =
     (if n > 0x10FFFF then None
      else Some (if n < 256 then [char_of n] else if n < 0x10000 then [CHR 0xFF] else [CHR 0xFF, CHR 0xFF]))"

subsection \<open>ANSI-C escapes\<close>

text \<open>
  One pass of \<open>replace(/\\.../g, ...)\<close>: a matcher reads what follows a backslash and answers the
  replacement and how much of it the match covers.
\<close>

fun escPass :: "(string \<Rightarrow> (string option \<times> nat) option) \<Rightarrow> string \<Rightarrow> string option" where
  "escPass m [] = Some []"
| "escPass m (c # s) =
     (if c = BSL
      then (case m s of
              Some (r, n) \<Rightarrow>
                (case r of None \<Rightarrow> None | Some t \<Rightarrow> map_option (\<lambda>u. t @ u) (escPass m (drop n s)))
            | None \<Rightarrow> map_option (Cons c) (escPass m s))
      else map_option (Cons c) (escPass m s))"

text \<open>\<open>\xH\<close> and \<open>\xHH\<close>\<close>

definition escX :: "string \<Rightarrow> (string option \<times> nat) option" where
  "escX s =
     (let h = takeWhile is_hex (take 2 (drop 1 s))
      in if starts_with ''x'' s \<and> h \<noteq> [] then Some (fromCodePoint (parseInt 16 h), 1 + length h) else None)"

text \<open>\<open>\uHHHH\<close>, \<open>\UHHHHHHHH\<close>\<close>

definition escU :: "char \<Rightarrow> nat \<Rightarrow> string \<Rightarrow> (string option \<times> nat) option" where
  "escU c n s =
     (let h = takeWhile is_hex (take n (drop 1 s))
      in if starts_with [c] s \<and> length h = n then Some (fromCodePoint (parseInt 16 h), 1 + n) else None)"

definition octal_digit :: "char \<Rightarrow> bool" where
  "octal_digit c = (48 \<le> (of_char c :: nat) \<and> (of_char c :: nat) \<le> 55)"

definition escOctal :: "string \<Rightarrow> (string option \<times> nat) option" where
  "escOctal s =
     (let h = takeWhile octal_digit (take 3 s)
      in if h \<noteq> [] then Some (fromCodePoint (parseInt 8 h), length h) else None)"

definition escapeChar :: "char \<Rightarrow> char" where
  "escapeChar c =
     (if c = CHR ''a'' then CHR 0x07 else if c = CHR ''b'' then CHR 0x08 else if c = CHR ''e'' then CHR 0x1B
      else if c = CHR ''f'' then CHR 0x0C else if c = CHR ''n'' then NL else if c = CHR ''r'' then CHR 0x0D
      else if c = CHR ''t'' then CHR 0x09 else if c = CHR ''v'' then CHR 0x0B else c)"

definition escSimple :: "string \<Rightarrow> (string option \<times> nat) option" where
  "escSimple s =
     (case s of
        c # _ \<Rightarrow> if c \<in> {BSL, SQ, DQ} \<or> c \<in> set ''abefnrtv'' then Some (Some [escapeChar c], 1) else None
      | [] \<Rightarrow> None)"

definition decodeAnsiC :: "string \<Rightarrow> string option" where
  "decodeAnsiC v =
     Option.bind (escPass escX v) (\<lambda>v1.
     Option.bind (escPass (escU (CHR ''u'') 4) v1) (\<lambda>v2.
     Option.bind (escPass (escU (CHR ''U'') 8) v2) (\<lambda>v3.
     Option.bind (escPass escOctal v3) (\<lambda>v4.
     escPass escSimple v4))))"

text \<open>Decoding never makes a text longer.\<close>

definition shrinking :: "(string \<Rightarrow> (string option \<times> nat) option) \<Rightarrow> bool" where
  "shrinking m = (\<forall>s r n. m s = Some (Some r, n) \<longrightarrow> length r \<le> Suc n \<and> n \<le> length s)"

lemma escPass_length: "shrinking m \<Longrightarrow> escPass m s = Some t \<Longrightarrow> length t \<le> length s"
proof (induction m s arbitrary: t rule: escPass.induct)
  case (2 m c s)
  show ?case
  proof (cases "c = BSL \<and> m s \<noteq> None")
    case True
    then obtain r n where m: "m s = Some (r, n)" by auto
    then obtain x u where x: "r = Some x" "escPass m (drop n s) = Some u" "t = x @ u"
      using True 2(5) by (auto split: option.splits)
    have "length x \<le> Suc n" "n \<le> length s" using 2(4) m x(1) by (auto simp: shrinking_def)
    moreover have "length u \<le> length (drop n s)" using 2(2) [OF _ m refl x(1) 2(4) x(2)] True by simp
    ultimately show ?thesis using x(3) by simp
  next
    case False
    then obtain z where z: "escPass m s = Some z" "t = c # z" using 2(5) by (auto split: option.splits if_splits)
    then have "length z \<le> length s" using 2(1) [OF _ _ 2(4) z(1)] 2(3) [OF _ 2(4) z(1)] False by blast
    then show ?thesis using z by simp
  qed
qed simp

lemma fromCodePoint_length: "fromCodePoint n = Some r \<Longrightarrow> length r \<le> 2"
  by (auto simp: fromCodePoint_def split: if_splits)

lemma length_takeWhile_take: "length (takeWhile P (take k s)) \<le> length s"
  by (metis length_takeWhile_le le_trans length_take min.cobounded1)

lemma shrinking_esc:
  "shrinking escX" "0 < n \<Longrightarrow> shrinking (escU c n)" "shrinking escOctal" "shrinking escSimple"
proof -
  show "shrinking escX"
    unfolding shrinking_def
  proof (intro allI impI)
    fix s r n
    assume a: "escX s = Some (Some r, n)"
    let ?h = "takeWhile is_hex (take 2 (drop 1 s))"
    have "s \<noteq> []" "?h \<noteq> []" "n = 1 + length ?h" "length r \<le> 2"
      using a fromCodePoint_length by (auto simp: escX_def Let_def starts_with_def split: if_splits)
    moreover have "length ?h \<le> length (drop 1 s)" by (rule length_takeWhile_take)
    ultimately show "length r \<le> Suc n \<and> n \<le> length s" by (cases s) auto
  qed
  show "shrinking (escU c n)" if "0 < n"
    unfolding shrinking_def
  proof (intro allI impI)
    fix s r k
    assume a: "escU c n s = Some (Some r, k)"
    let ?h = "takeWhile is_hex (take n (drop 1 s))"
    have "s \<noteq> []" "length ?h = n" "k = 1 + n" "length r \<le> 2"
      using a fromCodePoint_length by (auto simp: escU_def Let_def starts_with_def split: if_splits)
    moreover have "length ?h \<le> length (drop 1 s)" by (rule length_takeWhile_take)
    ultimately show "length r \<le> Suc k \<and> k \<le> length s" using that by (cases s) auto
  qed
  show "shrinking escOctal"
    unfolding shrinking_def
  proof (intro allI impI)
    fix s r n
    assume a: "escOctal s = Some (Some r, n)"
    let ?h = "takeWhile octal_digit (take 3 s)"
    have "?h \<noteq> []" "n = length ?h" "length r \<le> 2"
      using a fromCodePoint_length by (auto simp: escOctal_def Let_def split: if_splits)
    moreover have "length ?h \<le> length s" by (rule length_takeWhile_take)
    ultimately show "length r \<le> Suc n \<and> n \<le> length s" by (cases ?h) auto
  qed
  show "shrinking escSimple"
    by (auto simp: shrinking_def escSimple_def split: list.splits if_splits)
qed

lemma decodeAnsiC_length:
  assumes "decodeAnsiC v = Some t"
  shows "length t \<le> length v"
proof -
  obtain v1 v2 v3 v4 where "escPass escX v = Some v1" "escPass (escU (CHR ''u'') 4) v1 = Some v2"
    "escPass (escU (CHR ''U'') 8) v2 = Some v3" "escPass escOctal v3 = Some v4" "escPass escSimple v4 = Some t"
    using assms by (auto simp: decodeAnsiC_def bind_eq_Some_conv)
  then have "length v1 \<le> length v" "length v2 \<le> length v1" "length v3 \<le> length v2" "length v4 \<le> length v3" "length t \<le> length v4"
    using escPass_length shrinking_esc by (auto intro: escPass_length [rotated])
  then show ?thesis by linarith
qed

subsection \<open>The tokenizer\<close>

text \<open>
  \<open>commandSubstitution\<close>, from behind the opening \<open>$(\<close>: the body up to the matching parenthesis and what
  follows it.
\<close>

fun subScan :: "nat \<Rightarrow> char option \<Rightarrow> string \<Rightarrow> string \<Rightarrow> (string \<times> string) option" where
  "subScan depth quote acc [] = None"
| "subScan depth quote acc (c # s) =
     (if c = BSL then (case s of [] \<Rightarrow> None | x # s' \<Rightarrow> subScan depth quote (acc @ [c, x]) s')
      else if quote \<noteq> None then subScan depth (if quote = Some c then None else quote) (acc @ [c]) s
      else if c = SQ \<or> c = DQ then subScan depth (Some c) (acc @ [c]) s
      else if c = CHR ''$'' \<and> starts_with ''('' s then subScan (depth + 1) quote (acc @ [c, CHR ''('']) (tl s)
      else if c = CHR '')'' then (if depth = 1 then Some (acc, s) else subScan (depth - 1) quote (acc @ [c]) s)
      else subScan depth quote (acc @ [c]) s)"

lemma subScan_length: "subScan depth quote acc s = Some (body, rest) \<Longrightarrow> length rest < length s"
proof (induction depth quote acc s rule: subScan.induct)
  case (2 depth quote acc c s)
  show ?case
  proof (cases "c = BSL")
    case True
    then show ?thesis using 2 by (cases s) auto
  next
    case nb: False
    show ?thesis
    proof (cases "quote = None \<and> c = CHR ''$'' \<and> starts_with ''('' s")
      case True
      then have "length rest < length (tl s)" using nb 2 by auto
      then show ?thesis by simp
    next
      case False
      then show ?thesis using nb 2 by (auto split: if_splits simp: less_SucI)
    qed
  qed
qed simp

text \<open>Inside double quotes, from behind the opening one.\<close>

function dqScan :: "string \<Rightarrow> string list \<Rightarrow> string \<Rightarrow> string \<times> string list \<times> string" where
  "dqScan word nested [] = (word, nested, [])"
| "dqScan word nested (c # s) =
     (if c = DQ then (word, nested, s)
      else if c = BSL \<and> s \<noteq> [] then dqScan (word @ [hd s]) nested (tl s)
      else if c = CHR ''$'' \<and> starts_with ''('' s
      then (case subScan 1 None [] (tl s) of
              None \<Rightarrow> dqScan (word @ [c]) nested s
            | Some (body, rest) \<Rightarrow> dqScan word (nested @ [body]) rest)
      else if c = BT
      then (case index_of BT s of
              None \<Rightarrow> dqScan word nested s
            | Some k \<Rightarrow> dqScan word (nested @ [take k s]) (drop (Suc k) s))
      else dqScan (word @ [c]) nested s)"
  by pat_completeness auto

termination dqScan
  by (relation "measure (\<lambda>(w, n, s). length s)") (auto dest: subScan_length)

declare dqScan.simps(2) [simp del]

lemma dqScan_length:
  "dqScan word nested s = (w, n, r) \<Longrightarrow> length w + length r \<le> length word + length s \<and> length word \<le> length w"
proof (induction word nested s arbitrary: w n r rule: dqScan.induct)
  case (2 word nested c s)
  note IH = 2(1-6) and run = 2(7)
  consider "c = DQ" | "c \<noteq> DQ" "c = BSL" "s \<noteq> []"
    | "c \<noteq> DQ" "\<not> (c = BSL \<and> s \<noteq> [])" "c = CHR ''$''" "starts_with ''('' s"
    | "c \<noteq> DQ" "\<not> (c = BSL \<and> s \<noteq> [])" "\<not> (c = CHR ''$'' \<and> starts_with ''('' s)" "c = BT"
    | "c \<noteq> DQ" "\<not> (c = BSL \<and> s \<noteq> [])" "\<not> (c = CHR ''$'' \<and> starts_with ''('' s)" "c \<noteq> BT" by blast
  then show ?case
  proof cases
    case 1
    then show ?thesis using run by (simp add: dqScan.simps(2))
  next
    case 2
    then have "dqScan (word @ [hd s]) nested (tl s) = (w, n, r)" using run by (simp add: dqScan.simps(2))
    from IH(1) [OF 2(1) _ this] show ?thesis using 2 by (cases s) auto
  next
    case 3
    show ?thesis
    proof (cases "subScan 1 None [] (tl s)")
      case None
      then have "dqScan (word @ [c]) nested s = (w, n, r)" using run 3 by (simp add: dqScan.simps(2))
      from IH(2) [OF 3(1,2) _ None this] show ?thesis using 3 by simp
    next
      case (Some p)
      obtain body rest where p: "p = (body, rest)" by (cases p)
      have "dqScan word (nested @ [body]) rest = (w, n, r)" using run 3 Some p by (simp add: dqScan.simps(2))
      moreover have "length rest < length (tl s)" using subScan_length Some p by blast
      ultimately show ?thesis using IH(3) [OF 3(1,2) _ Some p [symmetric]] 3 by fastforce
    qed
  next
    case 4
    show ?thesis
    proof (cases "index_of BT s")
      case None
      then have "dqScan word nested s = (w, n, r)" using run 4 by (simp add: dqScan.simps(2))
      from IH(4) [OF 4(1,2,3,4) None this] show ?thesis by simp
    next
      case (Some k)
      then have "dqScan word (nested @ [take k s]) (drop (Suc k) s) = (w, n, r)" using run 4 by (simp add: dqScan.simps(2))
      from IH(5) [OF 4(1,2,3,4) Some this] show ?thesis by auto
    qed
  next
    case 5
    then have "dqScan (word @ [c]) nested s = (w, n, r)" using run unfolding dqScan.simps(2) by (simp only: if_False simp_thms)
    from IH(6) [OF 5(1,2,3,4) this] show ?thesis by simp
  qed
qed simp

text \<open>A word ends at white space or an operator, unless it is the \<open>&\<close> of a redirection.\<close>

definition stop_char :: "char \<Rightarrow> bool" where
  "stop_char c = (is_space c \<or> op_char c)"

definition ends_word :: "string \<Rightarrow> char \<Rightarrow> bool" where
  "ends_word word c =
     (is_space c \<or> (op_char c \<and> \<not> (c = CHR ''&'' \<and> word \<noteq> [] \<and> (last word = CHR ''<'' \<or> last word = CHR ''>''))))"

text \<open>
  One round of the word loop at a character that does not end the word: the new word, the pieces to
  be scanned on their own, whether the word has begun, and what is left.
\<close>

definition wordRound :: "string \<Rightarrow> char \<Rightarrow> string \<Rightarrow> (string \<times> bool \<times> string list \<times> string) option" where
  "wordRound word c s =
     (if c = BSL
      then (if starts_with [NL] s then Some (word, False, [], tl s)
            else if s \<noteq> [] then Some (word @ [hd s], True, [], tl s)
            else Some (word, False, [], s))
      else if c = SQ
      then (case index_of SQ s of
              None \<Rightarrow> Some (word @ s, True, [], [])
            | Some k \<Rightarrow> Some (word @ take k s, True, [], drop (Suc k) s))
      else if c = CHR ''$'' \<and> starts_with [SQ] s
      then (case index_of SQ (tl s) of
              None \<Rightarrow> Some (word @ tl s, True, [], [])
            | Some k \<Rightarrow>
                (case decodeAnsiC (take k (tl s)) of
                   None \<Rightarrow> None
                 | Some d \<Rightarrow> Some (word @ d, True, [], drop (Suc k) (tl s))))
      else if c = DQ
      then (case dqScan word [] s of (w, n, r) \<Rightarrow> Some (w, True, n, r))
      else if c = CHR ''$'' \<and> starts_with ''('' s
      then (case subScan 1 None [] (tl s) of
              None \<Rightarrow> Some (word @ [c], True, [], s)
            | Some (body, rest) \<Rightarrow> Some (word, True, [body], rest))
      else if c = BT
      then (case index_of BT s of
              None \<Rightarrow> Some (word, True, [], s)
            | Some k \<Rightarrow> Some (word, True, [take k s], drop (Suc k) s))
      else Some (word @ [c], True, [], s))"

lemma wordRound_length:
  assumes "wordRound word c s = Some (w, b, n, r)"
  shows "length w + length r \<le> length word + Suc (length s) \<and> length r \<le> length s"
proof (cases "c = DQ")
  case True
  obtain w' n' r' where d: "dqScan word [] s = (w', n', r')" by (metis prod_cases3)
  then show ?thesis using assms True dqScan_length [OF d] by (auto simp: wordRound_def split: if_splits)
next
  case False
  have dec: "length d \<le> k" if "decodeAnsiC (take k t) = Some d" for k t d
    using decodeAnsiC_length [OF that] by simp
  have idx: "k < length t" if "index_of q t = Some k" for q t k
    using index_of_Some [OF that] by simp
  have sub: "length rest \<le> length s" if "subScan 1 None [] (tl s) = Some (body, rest)" for body rest
    using subScan_length [OF that] by simp
  show ?thesis
    using assms False dec idx sub
    by (fastforce simp: wordRound_def split: if_splits option.splits prod.splits)
qed

function wordScan ::
  "string \<Rightarrow> bool \<Rightarrow> string list \<Rightarrow> string \<Rightarrow> (string \<times> bool \<times> string list \<times> string) option"
where
  "wordScan word started nested [] = Some (word, started, nested, [])"
| "wordScan word started nested (c # s) =
     (if ends_word word c then Some (word, started, nested, c # s)
      else case wordRound word c s of
             None \<Rightarrow> None
           | Some (w, b, n, r) \<Rightarrow> wordScan w (started \<or> b) (nested @ n) r)"
  by pat_completeness auto

termination wordScan
  by (relation "measure (\<lambda>(w, b, n, s). length s)") (auto dest!: wordRound_length)

declare wordScan.simps(2) [simp del]

lemma wordScan_spec:
  "wordScan word started nested s = Some (w, b, n, r) \<Longrightarrow>
     length w + length r \<le> length word + length s \<and> length r \<le> length s \<and> (r = [] \<or> stop_char (hd r))"
proof (induction word started nested s arbitrary: w b n r rule: wordScan.induct)
  case (2 word started nested c s)
  show ?case
  proof (cases "ends_word word c")
    case True
    then show ?thesis using 2(2) by (auto simp: wordScan.simps(2) ends_word_def stop_char_def)
  next
    case False
    then obtain w1 b1 n1 r1 where r1: "wordRound word c s = Some (w1, b1, n1, r1)"
      using 2(2) by (auto simp: wordScan.simps(2) split: option.splits)
    then have "wordScan w1 (started \<or> b1) (nested @ n1) r1 = Some (w, b, n, r)"
      using 2(2) False by (simp add: wordScan.simps(2))
    from 2(1) [OF False r1 refl refl refl this] wordRound_length [OF r1] show ?thesis by auto
  qed
qed simp

lemma wordScan_progress:
  assumes "wordScan [] started nested (c # s) = Some (w, b, n, r)" "\<not> stop_char c"
  shows "length r \<le> length s"
proof -
  have "\<not> ends_word [] c" using assms(2) by (auto simp: ends_word_def stop_char_def)
  then obtain w1 b1 n1 r1 where r1: "wordRound [] c s = Some (w1, b1, n1, r1)"
      "wordScan w1 (started \<or> b1) (nested @ n1) r1 = Some (w, b, n, r)"
    using assms(1) by (auto simp: wordScan.simps(2) split: option.splits)
  then show ?thesis using wordRound_length [OF r1(1)] wordScan_spec [OF r1(2)] by simp
qed

definition flush :: "string list \<Rightarrow> string list list \<Rightarrow> string list list" where
  "flush words commands = (if words \<noteq> [] then commands @ [words] else commands)"

function scanLoop ::
  "string list \<Rightarrow> string list list \<Rightarrow> string list \<Rightarrow> string \<Rightarrow> (string list list \<times> string list) option"
where
  "scanLoop words commands nested [] = Some (flush words commands, nested)"
| "scanLoop words commands nested (c # s) =
     (if is_space c
      then (if c = NL then scanLoop [] (flush words commands) nested s else scanLoop words commands nested s)
      else if c = CHR ''#'' \<and> words = [] then scanLoop words commands nested (dropWhile (\<lambda>x. x \<noteq> NL) s)
      else if op_char c then scanLoop [] (flush words commands) nested (dropWhile op_char s)
      else case wordScan [] False nested (c # s) of
             None \<Rightarrow> None
           | Some (w, started, n, r) \<Rightarrow> scanLoop (if started then words @ [w] else words) commands n r)"
  by pat_completeness auto

termination scanLoop
proof (relation "measure (\<lambda>(w, c, n, s). length s)")
  fix words :: "string list" and commands nested c s x2 w y started ya n r
  assume a: "\<not> is_space c" "\<not> op_char c" "wordScan [] False nested (c # s) = Some x2" "(w, y) = x2"
    "(started, ya) = y" "(n, r) = ya"
  then show "((if started then words @ [w] else words, commands, n, r), words, commands, nested, c # s)
      \<in> measure (\<lambda>(w, c, n, s). length s)"
    using wordScan_progress [of False nested c s w started n r] by (auto simp: stop_char_def le_imp_less_Suc)
qed (auto simp: le_imp_less_Suc length_dropWhile_le)

declare scanLoop.simps(2) [simp del]

text \<open>The commands of a text as lists of words, and the texts of its command substitutions.\<close>

definition scanShell :: "string \<Rightarrow> (string list list \<times> string list) option" where
  "scanShell inp = scanLoop [] [] [] inp"

text \<open>
  The words of a scan are no larger than the text: every word takes its characters and the one
  that ends it.
\<close>

definition words_size :: "string list \<Rightarrow> nat" where
  "words_size ws = sum_list (map (\<lambda>w. Suc (length w)) ws)"

definition commands_size :: "string list list \<Rightarrow> nat" where
  "commands_size cs = sum_list (map words_size cs)"

definition room :: "string \<Rightarrow> nat" where
  "room s = (case s of [] \<Rightarrow> 0 | c # t \<Rightarrow> if stop_char c then length s else Suc (length s))"

lemma room_le: "room s \<le> Suc (length s)"
  by (simp add: room_def split: list.splits)

lemma room_ge: "length s \<le> room s"
  by (simp add: room_def split: list.splits)

lemma commands_size_flush: "commands_size (flush words commands) = commands_size commands + words_size words"
  by (simp add: flush_def commands_size_def words_size_def)

lemma words_size_append [simp]: "words_size (xs @ ys) = words_size xs + words_size ys"
  by (simp add: words_size_def)

lemma words_size_Nil [simp]: "words_size [] = 0"
  by (simp add: words_size_def)

lemma words_size_Cons [simp]: "words_size (x # xs) = Suc (length x) + words_size xs"
  by (simp add: words_size_def)

lemma scanLoop_size:
  "scanLoop words commands nested s = Some (cs, ns) \<Longrightarrow>
     commands_size cs \<le> commands_size commands + words_size words + room s"
proof (induction words commands nested s arbitrary: cs ns rule: scanLoop.induct)
  case (1 words commands nested)
  then show ?case by (auto simp: commands_size_flush room_def)
next
  case (2 words commands nested c s)
  note IH = 2(1-5) and run = 2(6)
  consider "is_space c" | "\<not> is_space c" "c = CHR ''#'' \<and> words = []"
    | "\<not> is_space c" "\<not> (c = CHR ''#'' \<and> words = [])" "op_char c"
    | "\<not> is_space c" "\<not> (c = CHR ''#'' \<and> words = [])" "\<not> op_char c" by blast
  then show ?case
  proof cases
    case 1
    then have r: "room (c # s) = Suc (length s)" by (simp add: room_def stop_char_def)
    show ?thesis
    proof (cases "c = NL")
      case True
      then have "scanLoop [] (flush words commands) nested s = Some (cs, ns)" using run 1 by (simp add: scanLoop.simps(2))
      from IH(1) [OF 1 True this] show ?thesis using r room_le [of s] by (simp add: commands_size_flush)
    next
      case False
      then have "scanLoop words commands nested s = Some (cs, ns)" using run 1 by (simp add: scanLoop.simps(2))
      from IH(2) [OF 1 False this] show ?thesis using r room_le [of s] by simp
    qed
  next
    case 2
    let ?t = "dropWhile (\<lambda>x. x \<noteq> NL) s"
    have "scanLoop words commands nested ?t = Some (cs, ns)" using run 2 by (simp add: scanLoop.simps(2))
    moreover have "room ?t \<le> room (c # s)"
      using room_le [of ?t] length_dropWhile_le [of "\<lambda>x. x \<noteq> NL" s] room_ge [of "c # s"] by simp
    ultimately show ?thesis using IH(3) [OF 2] by fastforce
  next
    case 3
    let ?t = "dropWhile op_char s"
    have "scanLoop [] (flush words commands) nested ?t = Some (cs, ns)" using run 3 by (simp add: scanLoop.simps(2))
    moreover have "room ?t \<le> room (c # s)"
      using room_le [of ?t] length_dropWhile_le [of op_char s] room_ge [of "c # s"] by simp
    ultimately show ?thesis using IH(4) [OF 3] by (fastforce simp: commands_size_flush)
  next
    case 4
    then obtain w b n r where w: "wordScan [] False nested (c # s) = Some (w, b, n, r)"
      using run by (auto simp: scanLoop.simps(2) split: option.splits)
    have "scanLoop (if b then words @ [w] else words) commands n r = Some (cs, ns)"
      using run 4 w by (simp add: scanLoop.simps(2))
    from IH(5) [OF 4 w refl refl refl this]
    have "commands_size cs \<le> commands_size commands + words_size (if b then words @ [w] else words) + room r" .
    moreover have "length w + length r \<le> Suc (length s)" "r = [] \<or> stop_char (hd r)"
      using wordScan_spec [OF w] by auto
    moreover from this(2) have "room r = length r" by (cases r) (simp_all add: room_def)
    moreover have "room (c # s) = Suc (Suc (length s))" using 4 by (simp add: room_def stop_char_def)
    ultimately show ?thesis by (auto split: if_splits)
  qed
qed

lemma scanShell_size: "scanShell inp = Some (cs, ns) \<Longrightarrow> commands_size cs \<le> Suc (length inp)"
  using scanLoop_size [of "[]" "[]" "[]" inp cs ns] room_le [of inp]
  by (auto simp: scanShell_def commands_size_def)

subsection \<open>Quoted words are read back\<close>

definition quoted :: "string \<Rightarrow> string" where
  "quoted w = SQ # w @ [SQ]"

definition plain_char :: "char \<Rightarrow> bool" where
  "plain_char c = (\<not> stop_char c \<and> c \<notin> {BSL, SQ, DQ, BT, CHR ''$''})"

lemma plain_not_end: "plain_char c \<Longrightarrow> \<not> ends_word w c"
  by (auto simp: plain_char_def ends_word_def stop_char_def)

lemma wordScan_plain:
  "list_all plain_char w \<Longrightarrow> wordScan acc b n (w @ r) = wordScan (acc @ w) (b \<or> w \<noteq> []) n r"
proof (induction w arbitrary: acc b)
  case (Cons c w)
  then have c: "plain_char c" "list_all plain_char w" by auto
  then have "wordRound acc c (w @ r) = Some (acc @ [c], True, [], w @ r)"
    unfolding wordRound_def plain_char_def by simp
  then show ?case using Cons.IH [OF c(2)] c(1) by (simp add: wordScan.simps(2) plain_not_end)
qed simp

lemma wordScan_stop: "r = [] \<or> is_space (hd r) \<Longrightarrow> wordScan acc b n r = Some (acc, b, n, r)"
  by (cases r) (auto simp: wordScan.simps(2) ends_word_def)

lemma SQ_not_stop: "\<not> stop_char SQ" "\<not> is_space SQ" "\<not> op_char SQ" "\<not> ends_word w SQ"
  by (auto simp: stop_char_def is_space_def op_char_def ends_word_def Let_def)

lemma wordScan_quoted:
  assumes "SQ \<notin> set w" "r = [] \<or> is_space (hd r)"
  shows "wordScan [] False n (quoted w @ r) = Some (w, True, n, r)"
proof -
  have "wordRound [] SQ (w @ SQ # r) = Some (w, True, [], r)"
    using index_of_append [OF assms(1), of r] by (simp add: wordRound_def)
  then show ?thesis using wordScan_stop [OF assms(2)] by (simp add: quoted_def wordScan.simps(2) SQ_not_stop)
qed

lemma scanLoop_word:
  assumes "s = c # t" "\<not> stop_char c" "c \<noteq> CHR ''#''" "wordScan [] False nested s = Some (w, True, nested', r)"
  shows "scanLoop words commands nested s = scanLoop (words @ [w]) commands nested' r"
  using assms by (simp add: scanLoop.simps(2) stop_char_def)

lemma scanLoop_space: "scanLoop words commands nested (CHR '' '' # s) = scanLoop words commands nested s"
  by (simp add: scanLoop.simps(2) is_space_def)

lemma scanLoop_plain:
  assumes "list_all plain_char w" "w \<noteq> []" "hd w \<noteq> CHR ''#''"
  shows "scanLoop words commands nested (w @ CHR '' '' # s) = scanLoop (words @ [w]) commands nested s"
proof -
  obtain c t where w: "w = c # t" using assms(2) by (cases w) auto
  have "wordScan [] False nested (w @ CHR '' '' # s) = Some (w, True, nested, CHR '' '' # s)"
    using assms(2) wordScan_stop [of "CHR '' '' # s"] by (simp add: wordScan_plain [OF assms(1)] is_space_def)
  then show ?thesis
    using scanLoop_word [of "w @ CHR '' '' # s" c "t @ CHR '' '' # s"] assms w
    by (simp add: plain_char_def scanLoop_space)
qed

lemma scanLoop_quoted:
  assumes "SQ \<notin> set w" "r = [] \<or> is_space (hd r)"
  shows "scanLoop words commands nested (quoted w @ r) = scanLoop (words @ [w]) commands nested r"
  using scanLoop_word [OF _ _ _ wordScan_quoted [OF assms], of SQ "w @ SQ # r"] SQ_not_stop
  by (simp add: quoted_def)

lemma scanLoop_quoted_words:
  "\<forall>w \<in> set ws. SQ \<notin> set w \<Longrightarrow>
     scanLoop acc commands nested (join_with '' '' (map quoted ws)) = Some (flush (acc @ ws) commands, nested)"
proof (induction ws arbitrary: acc)
  case (Cons w ws)
  then have w: "SQ \<notin> set w" by simp
  show ?case
  proof (cases ws)
    case Nil
    then show ?thesis using scanLoop_quoted [OF w, of "[]" acc commands nested] by simp
  next
    case (Cons v vs)
    then show ?thesis
      using Cons.IH [of "acc @ [w]"] Cons.prems scanLoop_quoted [OF w, of "CHR '' '' # join_with '' '' (map quoted ws)" acc commands nested]
      by (simp add: scanLoop_space is_space_def)
  qed
qed simp

text \<open>
  A command line of words in single quotes is read back as exactly those words: nothing inside
  the quotes is taken for white space, an operator, a comment, an escape or a substitution.\<close>

theorem quoted_words_roundtrip:
  assumes "ws \<noteq> []" "\<forall>w \<in> set ws. CHR 0x27 \<notin> set w"
  shows "scanShell (join_with '' '' (map quoted ws)) = Some ([ws], [])"
  using scanLoop_quoted_words [OF assms(2), of "[]" "[]" "[]"] assms(1) by (simp add: scanShell_def flush_def)

theorem quoted_words_roundtrip_witness:
  "scanShell (join_with '' '' (map quoted [''rm'', ''-rf'', ''a;b $(c) # d''])) = Some ([[''rm'', ''-rf'', ''a;b $(c) # d'']], [])"
  using quoted_words_roundtrip [of "[''rm'', ''-rf'', ''a;b $(c) # d'']"] by simp

end
