(* ===== verification/ShellPayloads.thy ===== *)
theory ShellPayloads
  imports Shell
begin

section \<open>What a command line makes a shell execute\<close>

text \<open>
  Models the second half of \<open>src/src/policy/command-policy.ts\<close>: finding the executable of a scanned command behind
  assignments, redirections and wrappers, the scripts given to a shell by \<open>-c\<close>, by a pipe, by a here
  string or through a variable. \<open>None\<close> of a computation that decodes escapes is the RangeError of
  \<open>String.fromCodePoint\<close>.
\<close>

subsection \<open>Finding the executable\<close>

text \<open>\<open>/^[A-Za-z_]\w*=/\<close>\<close>

definition assignWord :: "string \<Rightarrow> bool" where
  "assignWord w = (case w of [] \<Rightarrow> False | c # s \<Rightarrow> alpha_char c \<and> starts_with ''='' (dropWhile word_char s))"

definition keywordWord :: "string \<Rightarrow> bool" where
  "keywordWord w = (w \<in> set [''if'', ''then'', ''elif'', ''else'', ''while'', ''until'', ''do'', ''!''])"

definition redirectOps :: "string list" where
  "redirectOps = [''>'', ''>>'', ''<'', ''<<'', ''<>'', ''>&'', ''<&'']"

text \<open>\<open>/^\d*(?:>>?|<<?|<>|>&|<&)$/\<close> and \<open>/^\d*(?:>>?|<<?|<>|>&|<&).+/\<close>\<close>

definition bareRedirect :: "string \<Rightarrow> bool" where
  "bareRedirect w = (dropWhile digit w \<in> set redirectOps)"

definition redirectWithTarget :: "string \<Rightarrow> bool" where
  "redirectWithTarget w =
     (let r = dropWhile digit w
      in list_ex (\<lambda>p. starts_with p r \<and> (case drop (length p) r of [] \<Rightarrow> False | c # _ \<Rightarrow> \<not> is_newline c)) redirectOps)"

fun commandStart :: "string list \<Rightarrow> nat" where
  "commandStart [] = 0"
| "commandStart (w # ws) =
     (if assignWord w \<or> keywordWord w then 1 + commandStart ws
      else if bareRedirect w then 2 + commandStart (drop 1 ws)
      else if redirectWithTarget w then 1 + commandStart ws
      else 0)"

text \<open>\<open>word.replace(/=.*/, "")\<close>\<close>

definition optionName :: "string \<Rightarrow> string" where
  "optionName w =
     takeWhile (\<lambda>c. c \<noteq> CHR ''='') w @ dropWhile (\<lambda>c. \<not> is_newline c) (dropWhile (\<lambda>c. c \<noteq> CHR ''='') w)"

fun optionScan :: "string list \<Rightarrow> string list \<Rightarrow> nat" where
  "optionScan valueOptions [] = 0"
| "optionScan valueOptions (w # ws) =
     (if w = ''--'' then 1
      else if \<not> starts_with ''-'' w \<or> w = ''-'' then 0
      else if optionName w \<in> set valueOptions \<and> CHR ''='' \<notin> set w then 2 + optionScan valueOptions (drop 1 ws)
      else 1 + optionScan valueOptions ws)"

definition optionCommand :: "string list \<Rightarrow> nat \<Rightarrow> string list \<Rightarrow> nat" where
  "optionCommand words start valueOptions = start + optionScan valueOptions (drop start words)"

text \<open>\<open>word.split("/").pop()\<close>\<close>

definition executableName :: "string \<Rightarrow> string" where
  "executableName w = last (split_on (CHR ''/'') w)"

definition splitStringPayload :: "string list \<Rightarrow> nat \<Rightarrow> string option \<times> string list" where
  "splitStringPayload args split =
     (let arg = args ! split;
          compact = starts_with ''-S'' arg \<and> length arg > 2;
          eq = CHR ''='' \<in> set arg;
          value = (if eq then Some (drop 1 (dropWhile (\<lambda>c. c \<noteq> CHR ''='') arg))
                   else if compact then Some (drop 2 arg)
                   else if split + 1 < length args then Some (args ! (split + 1)) else None)
      in (value, drop (split + (if eq \<or> compact then 1 else 2)) args))"

definition splitOption :: "string \<Rightarrow> bool" where
  "splitOption arg =
     (arg = ''-S'' \<or> starts_with ''-S'' arg \<or> arg = ''--split-string'' \<or> starts_with ''--split-string='' arg)"

text \<open>\<open>commands[0] ?? []\<close>\<close>

definition headCommand :: "string list list \<Rightarrow> string list" where
  "headCommand commands = (case commands of [] \<Rightarrow> [] | c # _ \<Rightarrow> c)"

text \<open>The inner option is the source's \<open>undefined\<close>.\<close>

definition envSplitWords :: "string list \<Rightarrow> string list option option" where
  "envSplitWords args =
     (case find_index splitOption args of
        None \<Rightarrow> Some None
      | Some split \<Rightarrow>
          (case splitStringPayload args split of
             (None, rest) \<Rightarrow> Some (Some [])
           | (Some value, rest) \<Rightarrow>
               map_option (\<lambda>(commands, nested). Some (headCommand commands))
                 (scanShell (join_with '' '' (value # rest)))))"

definition shells :: "string list" where
  "shells = [''bash'', ''sh'', ''dash'', ''zsh'', ''ksh'']"

definition sudoOptions :: "string list" where
  "sudoOptions = [''-u'', ''--user'', ''-g'', ''--group'', ''-h'', ''--host'', ''-p'', ''--prompt'', ''-C'', ''--chdir'',
     ''-T'', ''--command-timeout'', ''-R'', ''--chroot'', ''-t'', ''--type'']"

definition envOptions :: "string list" where
  "envOptions = [''-u'', ''--unset'', ''-C'', ''--chdir'', ''-S'', ''--split-string'']"

text \<open>
  The wrappers every reader of a command knows: the position, among the arguments, of the command a
  wrapper runs.
\<close>

definition wrapperNext :: "string \<Rightarrow> string list \<Rightarrow> nat option" where
  "wrapperNext executable args =
     (if executable = ''exec'' then Some (optionCommand args 0 [''-a''])
      else if executable = ''sudo'' then Some (optionCommand args 0 sudoOptions)
      else if executable = ''nice'' then Some (optionCommand args 0 [''-n'', ''--adjustment''])
      else if executable = ''timeout''
      then Some (optionCommand args 0 [''-s'', ''--signal'', ''-k'', ''--kill-after''] + 1)
      else if executable = ''time'' then Some (optionCommand args 0 [''-o'', ''--output'', ''-f'', ''--format''])
      else if executable = ''nohup'' then Some (optionCommand args 0 [])
      else None)"

definition stdbufOptions :: "string list" where
  "stdbufOptions = [''-i'', ''--input'', ''-o'', ''--output'', ''-e'', ''--error'']"

text \<open>\<open>while (next < args.length && /^[A-Za-z_]\w*=/.test(args[next])) next++\<close>\<close>

definition skipAssignments :: "string list \<Rightarrow> nat \<Rightarrow> nat" where
  "skipAssignments args nxt = nxt + length (takeWhile assignWord (drop nxt args))"

lemma words_size_drop: "words_size (drop n ws) \<le> words_size ws"
  by (metis append_take_drop_id le_add2 words_size_append)

lemma words_size_drop_less: "n < length ws \<Longrightarrow> words_size (drop (Suc n) ws) < words_size ws"
  using words_size_drop [of n ws] by (simp add: Cons_nth_drop_Suc [symmetric])

lemma words_size_behind: "commandStart ws < length ws \<Longrightarrow> words_size (drop n (drop (Suc (commandStart ws)) ws)) < words_size ws"
  using words_size_drop words_size_drop_less le_less_trans by blast

lemma length_join_space: "xs \<noteq> [] \<Longrightarrow> Suc (length (join_with '' '' xs)) = words_size xs"
  by (induction "'' ''" xs rule: join_with.induct) auto

text \<open>Splitting the string of \<open>env -S\<close> makes the command smaller, so that unwrapping ends.\<close>

lemma splitStringPayload_size:
  assumes "splitStringPayload args split = (Some v, rest)" "split < length args"
  shows "words_size (v # rest) \<le> words_size args"
proof -
  let ?arg = "args ! split"
  have d: "words_size (drop split args) = Suc (length ?arg) + words_size (drop (Suc split) args)"
    using assms(2) by (metis Cons_nth_drop_Suc words_size_Cons)
  have le: "words_size (drop split args) \<le> words_size args" by (rule words_size_drop)
  show ?thesis
  proof (cases "CHR ''='' \<in> set ?arg \<or> (starts_with ''-S'' ?arg \<and> length ?arg > 2)")
    case True
    have "length (drop 1 (dropWhile (\<lambda>c. c \<noteq> CHR ''='') ?arg)) \<le> length ?arg"
      using length_dropWhile_le [of "\<lambda>c. c \<noteq> CHR ''=''" ?arg] by simp
    then have "length v \<le> length ?arg" "rest = drop (Suc split) args"
      using assms(1) True by (auto simp: splitStringPayload_def Let_def split: if_splits)
    then show ?thesis using d le by simp
  next
    case False
    then have v: "Suc split < length args" "v = args ! Suc split" "rest = drop (Suc (Suc split)) args"
      using assms(1) by (auto simp: splitStringPayload_def Let_def split: if_splits)
    then have "words_size (drop (Suc split) args) = words_size (v # rest)" by (metis Cons_nth_drop_Suc)
    then show ?thesis using d le by simp
  qed
qed

lemma headCommand_size: "words_size (headCommand cs) \<le> commands_size cs"
  by (simp add: headCommand_def commands_size_def split: list.splits)

lemma envSplitWords_size:
  assumes "envSplitWords args = Some (Some ws)"
  shows "words_size ws \<le> words_size args"
proof (cases "ws = []")
  case False
  then obtain k v rest cs ns where k: "find_index splitOption args = Some k" "splitStringPayload args k = (Some v, rest)"
    "scanShell (join_with '' '' (v # rest)) = Some (cs, ns)" "ws = headCommand cs"
    using assms by (auto simp: envSplitWords_def split: option.splits prod.splits)
  have "words_size ws \<le> commands_size cs" using k(4) headCommand_size by simp
  also have "\<dots> \<le> Suc (length (join_with '' '' (v # rest)))" by (rule scanShell_size [OF k(3)])
  also have "\<dots> = words_size (v # rest)" by (rule length_join_space) simp
  also have "\<dots> \<le> words_size args"
    using splitStringPayload_size [OF k(2)] find_index_Some [OF k(1)] by blast
  finally show ?thesis .
qed simp

subsection \<open>Shells that read their script from standard input\<close>

definition stdinScripts :: "string list" where
  "stdinScripts = [''-'', ''/dev/stdin'', ''/dev/fd/0'', ''/proc/self/fd/0'']"

text \<open>\<open>/^-[^-]*c/\<close>\<close>

definition scriptOption :: "string \<Rightarrow> bool" where
  "scriptOption a =
     (case a of [] \<Rightarrow> False | d # s \<Rightarrow> d = CHR ''-'' \<and> CHR ''c'' \<in> set (takeWhile (\<lambda>x. x \<noteq> CHR ''-'') s))"

definition shellValueOption :: "string \<Rightarrow> bool" where
  "shellValueOption a = (a \<in> set [''-O'', ''-o'', ''--rcfile'', ''--init-file''])"

fun shellReadsStdin :: "string list \<Rightarrow> bool" where
  "shellReadsStdin [] = True"
| "shellReadsStdin (a # args) =
     (if scriptOption a then False
      else if a = ''-s'' then True
      else if shellValueOption a then shellReadsStdin (drop 1 args)
      else if a = ''--'' then (args = [] \<or> hd args \<in> set stdinScripts)
      else if \<not> starts_with ''-'' a \<or> a = ''-'' then a \<in> set stdinScripts
      else shellReadsStdin args)"

text \<open>The arguments behind the position \<open>next\<close>.\<close>

definition stdinWrapper :: "string \<Rightarrow> string list \<Rightarrow> nat option" where
  "stdinWrapper executable args =
     (if executable = ''command'' then Some (optionCommand args 0 [])
      else if executable = ''stdbuf'' then Some (optionCommand args 0 stdbufOptions)
      else wrapperNext executable args)"

function segmentConsumesShellStdin :: "string list \<Rightarrow> bool option" where
  "segmentConsumesShellStdin words =
     (if commandStart words \<ge> length words then Some False
      else
        (let executable = executableName (words ! commandStart words);
             args = drop (Suc (commandStart words)) words
         in if executable \<in> set shells then Some (shellReadsStdin args)
            else if executable = ''env''
            then (case envSplitWords args of
                    None \<Rightarrow> None
                  | Some (Some split) \<Rightarrow> segmentConsumesShellStdin split
                  | Some None \<Rightarrow>
                      segmentConsumesShellStdin (drop (skipAssignments args (optionCommand args 0 envOptions)) args))
            else (case stdinWrapper executable args of
                    Some n \<Rightarrow> segmentConsumesShellStdin (drop n args)
                  | None \<Rightarrow> Some False)))"
  by pat_completeness auto

lemma envSplitWords_smaller:
  assumes "envSplitWords (drop (Suc (commandStart ws)) ws) = Some (Some split)" "\<not> length ws \<le> commandStart ws"
  shows "words_size split < words_size ws"
  using envSplitWords_size [OF assms(1)] words_size_drop_less [of "commandStart ws" ws] assms(2) by linarith

termination segmentConsumesShellStdin
  by (relation "measure words_size") (auto intro: words_size_behind envSplitWords_smaller simp del: drop_drop)

declare segmentConsumesShellStdin.simps [simp del]

subsection \<open>Commands that print a literal text\<close>

text \<open>The options of \<open>command\<close>; \<open>None\<close> for \<open>-v\<close> and \<open>-V\<close>, which run nothing.\<close>

fun commandArgs :: "string list \<Rightarrow> string list option" where
  "commandArgs [] = Some []"
| "commandArgs (a # args) =
     (if a = ''--'' then Some args
      else if a = ''-v'' \<or> a = ''-V'' then None
      else if a \<noteq> ''-p'' then Some (a # args)
      else commandArgs args)"

text \<open>\<open>/^-[neE]+$/\<close>\<close>

definition echoOption :: "string \<Rightarrow> bool" where
  "echoOption a = (case a of [] \<Rightarrow> False | d # s \<Rightarrow> d = CHR ''-'' \<and> s \<noteq> [] \<and> set s \<subseteq> set ''neE'')"

definition echoFlag :: "bool \<Rightarrow> char \<Rightarrow> bool" where
  "echoFlag decode c = (if c = CHR ''e'' then True else if c = CHR ''E'' then False else decode)"

fun echoArgs :: "bool \<Rightarrow> string list \<Rightarrow> bool \<times> string list" where
  "echoArgs decode [] = (decode, [])"
| "echoArgs decode (a # args) =
     (if echoOption a then echoArgs (foldl echoFlag decode (drop 1 a)) args else (decode, a # args))"

text \<open>\<open>replace(/%([%sb])/g, ...)\<close> on the decoded format; the second result is the values left.\<close>

fun renderFormat :: "string \<Rightarrow> string list \<Rightarrow> (string \<times> string list) option" where
  "renderFormat [] values = Some ([], values)"
| "renderFormat [c] values = Some ([c], values)"
| "renderFormat (c # x # s) values =
     (if c = CHR ''%'' \<and> x = CHR ''%''
      then map_option (\<lambda>(t, vs). (CHR ''%'' # t, vs)) (renderFormat s values)
      else if c = CHR ''%'' \<and> (x = CHR ''s'' \<or> x = CHR ''b'')
      then (let v = (case values of [] \<Rightarrow> [] | v # _ \<Rightarrow> v)
            in case (if x = CHR ''b'' then decodeAnsiC v else Some v) of
                 None \<Rightarrow> None
               | Some r \<Rightarrow> map_option (\<lambda>(t, vs). (r @ t, vs)) (renderFormat s (drop 1 values)))
      else map_option (\<lambda>(t, vs). (c # t, vs)) (renderFormat (x # s) values))"

definition printfPayload :: "string list \<Rightarrow> string option" where
  "printfPayload args =
     (case args of
        [] \<Rightarrow> None
      | format # values \<Rightarrow>
          Option.bind (decodeAnsiC format) (\<lambda>f.
            map_option (\<lambda>(rendered, left). join_with [NL] (rendered # left @ [join_with '' '' args]))
              (renderFormat f values)))"

definition producedText :: "string \<Rightarrow> string list \<Rightarrow> string option option" where
  "producedText executable args0 =
     (let args = (if args0 \<noteq> [] \<and> hd args0 = ''--'' then tl args0 else args0)
      in if executable = ''echo''
         then (case echoArgs False args of
                 (decode, rest) \<Rightarrow>
                   (if decode then map_option Some (decodeAnsiC (join_with '' '' rest)) else Some (Some (join_with '' '' rest))))
         else if executable \<noteq> ''printf'' \<or> args = [] then Some None
         else map_option Some (printfPayload args))"

text \<open>The command a wrapper runs, \<open>None\<close> where the source answers \<open>undefined\<close>.\<close>

definition producerWrapper :: "string \<Rightarrow> string list \<Rightarrow> string list option option" where
  "producerWrapper executable args =
     (if executable = ''command'' then Some (commandArgs args)
      else if executable = ''builtin''
      then Some (case args of
                   [] \<Rightarrow> Some []
                 | a # rest \<Rightarrow> if starts_with ''-'' a \<and> a \<noteq> ''--'' then None else Some (if a = ''--'' then rest else args))
      else if executable = ''stdbuf'' then Some (Some (drop (optionCommand args 0 stdbufOptions) args))
      else map_option (\<lambda>n. Some (drop n args)) (wrapperNext executable args))"

lemma commandArgs_size: "commandArgs args = Some r \<Longrightarrow> words_size r \<le> words_size args"
  by (induction args) (fastforce split: if_splits)+

lemma producerWrapper_size: "producerWrapper executable args = Some (Some r) \<Longrightarrow> words_size r \<le> words_size args"
  by (auto simp: producerWrapper_def commandArgs_size words_size_drop split: if_splits list.splits)

lemma producerWrapper_smaller:
  assumes "producerWrapper e (drop (Suc (commandStart ws)) ws) = Some (Some r)" "\<not> length ws \<le> commandStart ws"
  shows "words_size r < words_size ws"
  using producerWrapper_size [OF assms(1)] words_size_drop_less [of "commandStart ws" ws] assms(2) by linarith

function literalProducerPayload :: "string list \<Rightarrow> string option option" where
  "literalProducerPayload words =
     (if commandStart words \<ge> length words then Some None
      else
        (let executable = executableName (words ! commandStart words);
             args = drop (Suc (commandStart words)) words
         in if executable = ''env''
            then (case envSplitWords args of
                    None \<Rightarrow> None
                  | Some (Some split) \<Rightarrow> literalProducerPayload split
                  | Some None \<Rightarrow>
                      literalProducerPayload
                        (drop (skipAssignments args (optionCommand args 0 [''-u'', ''--unset'', ''-C'', ''--chdir''])) args))
            else (case producerWrapper executable args of
                    Some (Some rest) \<Rightarrow> literalProducerPayload rest
                  | Some None \<Rightarrow> Some None
                  | None \<Rightarrow> producedText executable args)))"
  by pat_completeness auto

termination literalProducerPayload
  by (relation "measure words_size")
    (auto intro: words_size_behind envSplitWords_smaller producerWrapper_smaller simp del: drop_drop)

declare literalProducerPayload.simps [simp del]

subsection \<open>Pipelines\<close>

text \<open>
  The state of \<open>shellPipelines\<close>: the pipelines found, the segments of the current one, the open
  quote, and the text since \<open>start\<close>.
\<close>

definition finishSegment :: "string list \<Rightarrow> string \<Rightarrow> string list" where
  "finishSegment pipeline seg = (if js_trim seg \<noteq> [] then pipeline @ [js_trim seg] else pipeline)"

definition finishPipeline :: "string list list \<Rightarrow> string list \<Rightarrow> string \<Rightarrow> string list list" where
  "finishPipeline pipelines pipeline seg =
     (let p = finishSegment pipeline seg in if length p > 1 then pipelines @ [p] else pipelines)"

definition quote_char :: "char \<Rightarrow> bool" where
  "quote_char c = (c = SQ \<or> c = DQ \<or> c = BT)"

fun pipeScan :: "string list list \<Rightarrow> string list \<Rightarrow> char option \<Rightarrow> string \<Rightarrow> string \<Rightarrow> string list list" where
  "pipeScan pipelines pipeline quote seg [] = finishPipeline pipelines pipeline seg"
| "pipeScan pipelines pipeline quote seg (c # s) =
     (if c = BSL
      then (case s of
              [] \<Rightarrow> finishPipeline pipelines pipeline (seg @ [c])
            | x # s' \<Rightarrow> pipeScan pipelines pipeline quote (seg @ [c, x]) s')
      else if quote \<noteq> None then pipeScan pipelines pipeline (if quote = Some c then None else quote) (seg @ [c]) s
      else if quote_char c then pipeScan pipelines pipeline (Some c) (seg @ [c]) s
      else if (c = CHR ''|'' \<or> c = CHR ''&'') \<and> starts_with [c] s
      then pipeScan (finishPipeline pipelines pipeline seg) [] quote [] (drop 1 s)
      else if c = CHR ''|''
      then pipeScan pipelines (finishSegment pipeline seg) quote [] (if starts_with ''&'' s then drop 1 s else s)
      else if c = CHR '';'' \<or> c = NL \<or> c = CHR ''&''
      then pipeScan (finishPipeline pipelines pipeline seg) [] quote [] s
      else pipeScan pipelines pipeline quote (seg @ [c]) s)"

definition shellPipelines :: "string \<Rightarrow> string list list" where
  "shellPipelines inp = pipeScan [] [] None [] inp"

text \<open>One step of the inner loop of \<open>pipedShellPayloads\<close>, at a producer and its consumer.\<close>

definition pipedPayload :: "string \<Rightarrow> string \<Rightarrow> string list option" where
  "pipedPayload producerText consumerText =
     (case scanShell consumerText of
        None \<Rightarrow> None
      | Some ([], _) \<Rightarrow> Some []
      | Some (consumer # _, _) \<Rightarrow>
          (case segmentConsumesShellStdin consumer of
             None \<Rightarrow> None
           | Some False \<Rightarrow> Some []
           | Some True \<Rightarrow>
               (case scanShell producerText of
                  None \<Rightarrow> None
                | Some (producerCommands, _) \<Rightarrow>
                    (if producerCommands = [] then Some []
                     else map_option (\<lambda>payload. if truthy payload then [the payload] else [])
                            (literalProducerPayload (last producerCommands))))))"

definition pipedShellPayloads :: "string \<Rightarrow> string list option" where
  "pipedShellPayloads inp =
     map_option concat
       (those (concat (map (\<lambda>pipeline. map2 pipedPayload pipeline (drop 1 pipeline)) (shellPipelines inp))))"

subsection \<open>Here strings\<close>

fun spaceHereStrings :: "char option \<Rightarrow> string \<Rightarrow> string" where
  "spaceHereStrings quote [] = []"
| "spaceHereStrings quote (c # s) =
     (if c = BSL then (case s of [] \<Rightarrow> [c] | x # s' \<Rightarrow> c # x # spaceHereStrings quote s')
      else if quote \<noteq> None then c # spaceHereStrings (if quote = Some c then None else quote) s
      else if quote_char c then c # spaceHereStrings (Some c) s
      else if starts_with ''<<<'' (c # s) then '' <<< '' @ spaceHereStrings quote (drop 2 s)
      else c # spaceHereStrings quote s)"

definition hereStringPayload :: "string list \<Rightarrow> string list option" where
  "hereStringPayload words =
     (case find_index (\<lambda>w. w = ''<<<'') words of
        None \<Rightarrow> Some []
      | Some redirect \<Rightarrow>
          (if redirect = 0 then Some []
           else case segmentConsumesShellStdin (take redirect words) of
                  None \<Rightarrow> None
                | Some False \<Rightarrow> Some []
                | Some True \<Rightarrow>
                    Some (if redirect + 1 < length words \<and> words ! (redirect + 1) \<noteq> [] then [words ! (redirect + 1)] else [])))"

definition hereStringShellPayloads :: "string \<Rightarrow> string list option" where
  "hereStringShellPayloads inp =
     Option.bind (scanShell (spaceHereStrings None inp)) (\<lambda>(commands, nested).
       map_option concat (those (map hereStringPayload commands)))"

subsection \<open>Commands named by a variable\<close>

definition variableWrapper :: "string \<Rightarrow> string list \<Rightarrow> nat option" where
  "variableWrapper executable args =
     (if executable = ''command'' then Some (optionCommand args 0 [])
      else if executable = ''env'' then Some (skipAssignments args (optionCommand args 0 envOptions))
      else if executable = ''stdbuf'' then Some (optionCommand args 0 stdbufOptions)
      else wrapperNext executable args)"

function executableIndex :: "string list \<Rightarrow> nat \<Rightarrow> nat option" where
  "executableIndex words offset =
     (let start = commandStart words
      in if start \<ge> length words then None
         else
           (let args = drop (Suc start) words
            in case variableWrapper (executableName (words ! start)) args of
                 None \<Rightarrow> Some (offset + start)
               | Some n \<Rightarrow> executableIndex (drop n args) (offset + start + 1 + n)))"
  by pat_completeness auto

termination executableIndex
  by (relation "measure (\<lambda>(words, offset). length words)") auto

declare executableIndex.simps [simp del]

text \<open>\<open>/^([A-Za-z_]\w*)=([\w./-]+)$/\<close>\<close>

definition simpleAssignment :: "string \<Rightarrow> (string \<times> string) option" where
  "simpleAssignment w =
     (let name = takeWhile word_char w; rest = dropWhile word_char w; val = drop 1 rest
      in if name \<noteq> [] \<and> alpha_char (hd name) \<and> starts_with ''='' rest \<and> val \<noteq> []
             \<and> list_all (\<lambda>c. word_char c \<or> c \<in> set ''./-'') val
         then Some (name, val) else None)"

definition identName :: "string \<Rightarrow> bool" where
  "identName n = (n \<noteq> [] \<and> alpha_char (hd n) \<and> list_all word_char n)"

text \<open>\<open>/^\$(?:\{([A-Za-z_]\w*)\}|([A-Za-z_]\w*))$/\<close>\<close>

definition variableName :: "string \<Rightarrow> string option" where
  "variableName w =
     (if starts_with ''${'' w \<and> length w > 2 \<and> last w = CHR ''}'' \<and> identName (butlast (drop 2 w))
      then Some (butlast (drop 2 w))
      else if starts_with ''$'' w \<and> identName (drop 1 w) then Some (drop 1 w)
      else None)"

fun assignValues :: "(string, string) jsmap \<Rightarrow> string list \<Rightarrow> (string, string) jsmap" where
  "assignValues values [] = values"
| "assignValues values (w # ws) =
     assignValues (case simpleAssignment w of None \<Rightarrow> values | Some (n, v) \<Rightarrow> jm_set n v values) ws"

definition variablePayload :: "(string, string) jsmap \<Rightarrow> string list \<Rightarrow> string list" where
  "variablePayload values words =
     (case executableIndex words 0 of
        None \<Rightarrow> []
      | Some index \<Rightarrow>
          (case jm_get values (case variableName (words ! index) of None \<Rightarrow> [] | Some n \<Rightarrow> n) of
             None \<Rightarrow> []
           | Some value \<Rightarrow>
               (if value \<noteq> [] then [join_with '' '' (take index words @ [value] @ drop (index + 1) words)] else [])))"

fun variableLoop :: "(string, string) jsmap \<Rightarrow> string list list \<Rightarrow> string list" where
  "variableLoop values [] = []"
| "variableLoop values (words # commands) =
     (if commandStart words \<ge> length words then variableLoop (assignValues values words) commands
      else variablePayload values words @ variableLoop values commands)"

definition simpleVariablePayloads :: "string \<Rightarrow> string list option" where
  "simpleVariablePayloads inp = map_option (\<lambda>(commands, nested). variableLoop [] commands) (scanShell inp)"

text \<open>The index found is one of the words.\<close>

lemma executableIndex_bound:
  "executableIndex words offset = Some i \<Longrightarrow> offset \<le> i \<and> i - offset < length words"
proof (induction words offset rule: executableIndex.induct)
  case (1 words offset)
  let ?st = "commandStart words"
  have st: "?st < length words"
    using 1(2) by (subst (asm) executableIndex.simps) (auto simp: Let_def split: if_splits)
  show ?case
  proof (cases "variableWrapper (executableName (words ! ?st)) (drop (Suc ?st) words)")
    case None
    then show ?thesis using 1(2) st by (subst (asm) executableIndex.simps) (auto simp: Let_def)
  next
    case (Some n)
    then have r: "executableIndex (drop n (drop (Suc ?st) words)) (offset + ?st + 1 + n) = Some i"
      using 1(2) st by (subst (asm) executableIndex.simps) (simp add: Let_def)
    from 1(1) [OF refl _ refl Some r] st show ?thesis by auto
  qed
qed

subsection \<open>Scripts given to a shell\<close>

fun shellScript :: "string list \<Rightarrow> string list" where
  "shellScript [] = []"
| "shellScript (a # args) =
     (if a = ''--'' \<or> \<not> starts_with ''-'' a then []
      else if shellValueOption a then shellScript (drop 1 args)
      else if scriptOption a then (case args of [] \<Rightarrow> [] | b # _ \<Rightarrow> [b])
      else shellScript args)"

definition xargsOptions :: "string list" where
  "xargsOptions = [''-a'', ''--arg-file'', ''-d'', ''--delimiter'', ''-E'', ''--eof'', ''-I'', ''--replace'', ''-L'',
     ''--max-lines'', ''-n'', ''--max-args'', ''-P'', ''--max-procs'', ''-s'', ''--max-chars'']"

text \<open>The command a wrapper runs; \<open>None\<close> where the source answers \<open>[]\<close>.\<close>

definition payloadWrapper :: "string \<Rightarrow> string list \<Rightarrow> string list option" where
  "payloadWrapper executable args =
     (if executable = ''command'' then commandArgs args
      else if executable = ''coproc'' then Some args
      else if executable = ''xargs'' then Some (drop (optionCommand args 0 xargsOptions) args)
      else map_option (\<lambda>n. drop n args) (wrapperNext executable args))"

lemma payloadWrapper_size: "payloadWrapper executable args = Some r \<Longrightarrow> words_size r \<le> words_size args"
  by (auto simp: payloadWrapper_def commandArgs_size words_size_drop split: if_splits)

lemma payloadWrapper_smaller:
  assumes "payloadWrapper e (drop (Suc (commandStart ws)) ws) = Some r" "\<not> length ws \<le> commandStart ws"
  shows "words_size r < words_size ws"
  using payloadWrapper_size [OF assms(1)] words_size_drop_less [of "commandStart ws" ws] assms(2) by linarith

function segmentShellPayloads :: "string list \<Rightarrow> string list" where
  "segmentShellPayloads words =
     (if commandStart words \<ge> length words then []
      else
        (let executable = executableName (words ! commandStart words);
             args = drop (Suc (commandStart words)) words
         in if executable \<in> set shells then shellScript args
            else if executable = ''eval'' then (if args \<noteq> [] then [join_with '' '' args] else [])
            else if executable = ''env''
            then (case find_index splitOption args of
                    Some split \<Rightarrow>
                      (case splitStringPayload args split of
                         (None, rest) \<Rightarrow> []
                       | (Some value, rest) \<Rightarrow> [join_with '' '' (value # rest)])
                  | None \<Rightarrow>
                      segmentShellPayloads (drop (skipAssignments args (optionCommand args 0 envOptions)) args))
            else (case payloadWrapper executable args of
                    Some rest \<Rightarrow> segmentShellPayloads rest
                  | None \<Rightarrow> [])))"
  by pat_completeness auto

termination segmentShellPayloads
  by (relation "measure words_size") (auto intro: words_size_behind payloadWrapper_smaller simp del: drop_drop)

declare segmentShellPayloads.simps [simp del]

definition executedShellPayloads :: "string \<Rightarrow> string list option" where
  "executedShellPayloads inp =
     Option.bind (scanShell inp) (\<lambda>(commands, nested).
     Option.bind (pipedShellPayloads inp) (\<lambda>piped.
     Option.bind (hereStringShellPayloads inp) (\<lambda>hereStrings.
     Option.bind (simpleVariablePayloads inp) (\<lambda>variables.
       Some (nested @ concat (map segmentShellPayloads commands) @ piped @ hereStrings @ variables)))))"

subsection \<open>A script in single quotes is found\<close>

lemma pipeScan_quoted:
  "SQ \<notin> set p \<Longrightarrow> pipeScan ps pl (Some SQ) seg (p @ [SQ]) = finishPipeline ps pl (seg @ p @ [SQ])"
proof (induction p arbitrary: seg rule: length_induct)
  case (1 p)
  show ?case
  proof (cases p)
    case (Cons c t)
    show ?thesis
    proof (cases "c = BSL")
      case True
      then show ?thesis using 1 Cons by (cases t) auto
    next
      case False
      then show ?thesis using 1 Cons by auto
    qed
  qed simp
qed

lemma spaceHereStrings_quoted: "SQ \<notin> set p \<Longrightarrow> spaceHereStrings (Some SQ) (p @ [SQ]) = p @ [SQ]"
proof (induction p rule: length_induct)
  case (1 p)
  show ?case
  proof (cases p)
    case (Cons c t)
    show ?thesis
    proof (cases "c = BSL")
      case True
      then show ?thesis using 1 Cons by (cases t) auto
    next
      case False
      then show ?thesis using 1 Cons by auto
    qed
  qed simp
qed

definition calm_char :: "char \<Rightarrow> bool" where
  "calm_char c = (plain_char c \<and> c \<noteq> CHR ''<'' \<or> c = CHR '' '')"

lemma not_calm: "list_all (\<lambda>c. \<not> calm_char c) [BSL, SQ, DQ, BT, CHR ''|'', CHR ''&'', CHR '';'', NL, CHR ''<'']"
  by code_simp

lemma calm_char_no_op:
  assumes "calm_char c"
  shows "c \<noteq> BSL" "\<not> quote_char c" "c \<noteq> CHR ''|''" "c \<noteq> CHR ''&''" "c \<noteq> CHR '';''" "c \<noteq> NL" "c \<noteq> CHR ''<''"
  using assms not_calm by (auto simp: quote_char_def)

lemma pipeScan_calm:
  "list_all calm_char w \<Longrightarrow> pipeScan ps pl None seg (w @ r) = pipeScan ps pl None (seg @ w) r"
proof (induction w arbitrary: seg)
  case (Cons c w)
  then have "list_all calm_char w" and c: "calm_char c" by simp_all
  then show ?case using Cons.IH calm_char_no_op [OF c] by simp
qed simp

lemma spaceHereStrings_calm: "list_all calm_char w \<Longrightarrow> spaceHereStrings None (w @ r) = w @ spaceHereStrings None r"
proof (induction w)
  case (Cons c w)
  then have "list_all calm_char w" and c: "calm_char c" by simp_all
  then show ?case using Cons.IH calm_char_no_op [OF c] by (simp add: starts_with_def)
qed simp

lemma shellPipelines_calm_quoted:
  assumes "list_all calm_char w" "SQ \<notin> set p"
  shows "shellPipelines (w @ quoted p) = []"
  using assms
  by (simp add: shellPipelines_def pipeScan_calm quoted_def quote_char_def pipeScan_quoted finishPipeline_def
      finishSegment_def)

lemma spaceHereStrings_calm_quoted:
  assumes "list_all calm_char w" "SQ \<notin> set p"
  shows "spaceHereStrings None (w @ quoted p) = w @ quoted p"
  using assms by (simp add: spaceHereStrings_calm quoted_def quote_char_def spaceHereStrings_quoted)

definition scriptCommand :: "string \<Rightarrow> string \<Rightarrow> string" where
  "scriptCommand sh p = sh @ '' -c '' @ quoted p"

lemmas shell_chars = plain_char_def stop_char_def is_space_def op_char_def calm_char_def

lemma plain_shell:
  assumes "sh \<in> set shells"
  shows "list_all plain_char sh" "sh \<noteq> []" "hd sh \<noteq> CHR ''#''" "list_all calm_char (sh @ '' -c '')"
  using assms by (auto simp: shells_def shell_chars)

lemma scanShell_script:
  assumes "sh \<in> set shells" "SQ \<notin> set p"
  shows "scanShell (scriptCommand sh p) = Some ([[sh, ''-c'', p]], [])"
proof -
  have "scanShell (scriptCommand sh p) = scanLoop [sh] [] [] (''-c'' @ CHR '' '' # quoted p)"
    using scanLoop_plain [OF plain_shell(1-3) [OF assms(1)], of "[]" "[]" "[]" "''-c '' @ quoted p"]
    by (simp add: scanShell_def scriptCommand_def)
  also have "\<dots> = scanLoop [sh, ''-c''] [] [] (quoted p)"
    using scanLoop_plain [of "''-c''" "[sh]" "[]" "[]" "quoted p"] by (simp add: shell_chars)
  also have "\<dots> = Some ([[sh, ''-c'', p]], [])"
    using scanLoop_quoted [OF assms(2), of "[]" "[sh, ''-c'']" "[]" "[]"] by (simp add: flush_def)
  finally show ?thesis .
qed

lemma shell_words:
  "list_all (\<lambda>sh. \<not> assignWord sh \<and> \<not> keywordWord sh \<and> \<not> bareRedirect sh \<and> \<not> redirectWithTarget sh \<and>
     executableName sh = sh \<and> variableName sh = None \<and> variableWrapper sh [] = None) shells"
  by code_simp

lemma variableWrapper_None: "variableWrapper e [] = None \<Longrightarrow> variableWrapper e args = None"
  by (auto simp: variableWrapper_def wrapperNext_def split: if_splits)

lemma shell_command:
  assumes "sh \<in> set shells"
  shows "commandStart (sh # ws) = 0" "executableName sh = sh" "variableName sh = None"
    "variableWrapper sh args = None"
  using assms shell_words variableWrapper_None by (auto simp: list_all_iff)

lemma segment_script:
  assumes "sh \<in> set shells"
  shows "segmentShellPayloads [sh, ''-c'', p] = [p]" "segmentConsumesShellStdin [sh, ''-c''] = Some False"
    "executableIndex [sh, ''-c'', p] 0 = Some 0"
  using assms shell_command [OF assms]
  by (simp_all add: segmentShellPayloads.simps [of "[sh, ''-c'', p]"] segmentConsumesShellStdin.simps [of "[sh, ''-c'']"]
      executableIndex.simps [of "[sh, ''-c'', p]"] shellValueOption_def scriptOption_def starts_with_def Let_def)

lemma hereString_script:
  assumes "sh \<in> set shells"
  shows "hereStringPayload [sh, ''-c'', p] = Some []"
proof -
  have "sh \<noteq> ''<<<''" using assms by (auto simp: shells_def)
  then show ?thesis using segment_script(2) [OF assms] by (simp add: hereStringPayload_def)
qed

text \<open>
  A script given to any of the known shells by \<open>-c\<close> in single quotes is found, whatever its text
  is: the payload the policy scans again is exactly the script, and nothing else is reported.\<close>

theorem quoted_script_is_found:
  assumes "sh \<in> set shells" "CHR 0x27 \<notin> set script"
  shows "executedShellPayloads (sh @ '' -c '' @ quoted script) = Some [script]"
proof -
  note sc = scanShell_script [OF assms, unfolded scriptCommand_def]
  have calm: "list_all calm_char (sh @ '' -c '')" by (rule plain_shell(4) [OF assms(1)])
  have "pipedShellPayloads (sh @ '' -c '' @ quoted script) = Some []"
    using shellPipelines_calm_quoted [OF calm assms(2)] by (simp add: pipedShellPayloads_def)
  moreover have "hereStringShellPayloads (sh @ '' -c '' @ quoted script) = Some []"
    using spaceHereStrings_calm_quoted [OF calm assms(2)] sc hereString_script [OF assms(1)]
    by (simp add: hereStringShellPayloads_def)
  moreover have "simpleVariablePayloads (sh @ '' -c '' @ quoted script) = Some []"
    using sc shell_command [OF assms(1)] segment_script(3) [OF assms(1)]
    by (simp add: simpleVariablePayloads_def variablePayload_def)
  ultimately show ?thesis using sc segment_script(1) [OF assms(1)] by (simp add: executedShellPayloads_def)
qed

theorem quoted_script_is_found_witness:
  "executedShellPayloads (''bash'' @ '' -c '' @ quoted ''rm -rf / | sh'') = Some [''rm -rf / | sh'']"
  using quoted_script_is_found [of "''bash''" "''rm -rf / | sh''"] by (simp add: shells_def)

end
