(* ===== verification/CommandPolicy.thy ===== *)
theory CommandPolicy
  imports ShellPayloads
begin

section \<open>The command policy\<close>

text \<open>
  Models the rules of \<open>src/src/policy/command-policy.ts\<close> and the pattern check of \<open>src/src/util/safe-regex.ts\<close>: the
  text a command is judged by (\<open>scannableCommand\<close>), the organisation floor and its composition with
  a scope's policy, parsing a policy, and the evaluation of a command. The engine behind \<open>RegExp\<close> is
  a parameter.
\<close>

subsection \<open>Written here documents\<close>

text \<open>
  The expression \<open>/^([^\n]*)<<-?\s*(["']?)([A-Za-z_]\w*)\2([^\n]*)\n([\s\S]*?)^\s*\3\s*$/gm\<close> is searched in the
  order a backtracking engine tries its alternatives. Where only one choice can lead to a match (the dash,
  the white space, the quote) no other is tried; the operator is looked for from the end of the line,
  the delimiter from its longest form.
\<close>

text \<open>\<open>\s*$\<close>, and \<open>^\s*\3\s*$\<close> at the start of a line: what is left behind the match.\<close>

definition closeTail :: "string \<Rightarrow> string option" where
  "closeTail u =
     (let ws = takeWhile is_space u; n = length (takeWhile (\<lambda>c. \<not> is_newline c) (rev ws))
      in if dropWhile is_space u = [] then Some []
         else if n = length ws then None
         else Some (drop (length ws - Suc n) u))"

definition closeAt :: "string \<Rightarrow> string \<Rightarrow> string option" where
  "closeAt delim s =
     (let t = dropWhile is_space s
      in if starts_with delim t then closeTail (drop (length delim) t) else None)"

fun findClose :: "bool \<Rightarrow> string \<Rightarrow> string \<Rightarrow> string option" where
  "findClose lineStart delim s =
     (case (if lineStart then closeAt delim s else None) of
        Some r \<Rightarrow> Some r
      | None \<Rightarrow> (case s of [] \<Rightarrow> None | c # t \<Rightarrow> findClose (is_newline c) delim t))"

declare findClose.simps [simp del]

text \<open>The delimiters that may be read and what follows them, the quote included.\<close>

definition identRead :: "string \<Rightarrow> string \<Rightarrow> (string \<times> string) list" where
  "identRead q u =
     (case u of
        [] \<Rightarrow> []
      | c # v \<Rightarrow>
          (let n = length (takeWhile word_char v)
           in if \<not> alpha_char c then []
              else if q \<noteq> [] then (if starts_with q (drop n v) then [(c # take n v, drop (Suc n) v)] else [])
              else map (\<lambda>k. (c # take k v, drop k v)) (rev [0..<Suc n])))"

definition delimiters :: "string \<Rightarrow> (string \<times> string) list" where
  "delimiters s =
     (let t = dropWhile is_space (if starts_with ''-'' s then tl s else s);
          q = (if t \<noteq> [] \<and> (hd t = DQ \<or> hd t = SQ) then [hd t] else [])
      in identRead q (drop (length q) t))"

text \<open>The rest of the operator's line and what is left behind the closing delimiter.\<close>

definition heredocBody :: "string \<times> string \<Rightarrow> (string \<times> string) option" where
  "heredocBody d =
     (case dropWhile (\<lambda>c. c \<noteq> NL) (snd d) of
        [] \<Rightarrow> None
      | _ # body \<Rightarrow> map_option (\<lambda>r. (takeWhile (\<lambda>c. c \<noteq> NL) (snd d), r)) (findClose True (fst d) body))"

fun firstSome :: "('a \<Rightarrow> 'b option) \<Rightarrow> 'a list \<Rightarrow> 'b option" where
  "firstSome f [] = None"
| "firstSome f (x # xs) = (case f x of None \<Rightarrow> firstSome f xs | Some y \<Rightarrow> Some y)"

definition heredocFrom :: "string \<Rightarrow> nat \<Rightarrow> (string \<times> string) option" where
  "heredocFrom s k =
     (if starts_with ''<<'' (drop k s)
      then map_option (\<lambda>(post, r). (take k s @ post, r)) (firstSome heredocBody (delimiters (drop (k + 2) s)))
      else None)"

text \<open>A match at the start of a line: \<open>pre + post\<close> and what is left.\<close>

definition heredocAt :: "string \<Rightarrow> (string \<times> string) option" where
  "heredocAt s = firstSome (heredocFrom s) (rev [0..<Suc (length (takeWhile (\<lambda>c. c \<noteq> NL) s))])"

text \<open>
  \<open>/(?:^|[|;&]\s*)(?:\S*\/)?(?:ba|da|k|z)?sh((?:\s+[^|;&]*)?)/g\<close>: the arguments of a shell named at this point,
  and what is left.
\<close>

definition shellNamed :: "string \<Rightarrow> string \<Rightarrow> (string \<times> string) option" where
  "shellNamed s p =
     (let t = drop (length p) s;
          a = (if t \<noteq> [] \<and> is_space (hd t) then takeWhile (\<lambda>c. c \<notin> set ''|;&'') t else [])
      in if starts_with p s then Some (a, drop (length a) t) else None)"

definition shellHere :: "string \<Rightarrow> (string \<times> string) option" where
  "shellHere s = firstSome (shellNamed s) [''bash'', ''dash'', ''ksh'', ''zsh'', ''sh'']"

text \<open>\<open>(?:\S*\/)?\<close>: behind the last slash of the word first.\<close>

definition shellPath :: "string \<Rightarrow> (string \<times> string) option" where
  "shellPath s =
     (let w = takeWhile (\<lambda>c. \<not> is_space c) s
      in firstSome (\<lambda>k. shellHere (drop k s)) (filter (\<lambda>k. w ! (k - 1) = CHR ''/'') (rev [1..<Suc (length w)]) @ [0]))"

definition shellMatch :: "bool \<Rightarrow> string \<Rightarrow> (string \<times> string) option" where
  "shellMatch atStart s =
     (case (if atStart then shellPath s else None) of
        Some m \<Rightarrow> Some m
      | None \<Rightarrow>
          (if s \<noteq> [] \<and> hd s \<in> set ''|;&'' then shellPath (dropWhile is_space (tl s)) else None))"

text \<open>\<open>/(?:^|\s)-[^-\s]*c(?:\s|$)/\<close>\<close>

definition dashC :: "string \<Rightarrow> bool" where
  "dashC s =
     (case s of
        [] \<Rightarrow> False
      | d # t \<Rightarrow>
          (let r = takeWhile (\<lambda>c. c \<noteq> CHR ''-'' \<and> \<not> is_space c) t; u = drop (length r) t
           in d = CHR ''-'' \<and> r \<noteq> [] \<and> last r = CHR ''c'' \<and> (u = [] \<or> is_space (hd u))))"

fun hasDashC :: "bool \<Rightarrow> string \<Rightarrow> bool" where
  "hasDashC here [] = False"
| "hasDashC here (c # s) = ((here \<and> dashC (c # s)) \<or> hasDashC (is_space c) s)"

lemma firstSome_Some: "firstSome f xs = Some y \<Longrightarrow> \<exists>x \<in> set xs. f x = Some y"
  by (induction xs) (auto split: option.splits)

lemma shellNamed_shorter: "shellNamed s p = Some (a, r) \<Longrightarrow> p \<noteq> [] \<Longrightarrow> length r < length s"
  by (cases s) (auto simp: shellNamed_def Let_def starts_with_def split: if_splits)

lemma shellHere_shorter:
  assumes "shellHere s = Some (a, r)"
  shows "length r < length s"
proof -
  obtain p where "p \<in> set [''bash'', ''dash'', ''ksh'', ''zsh'', ''sh'']" "shellNamed s p = Some (a, r)"
    using firstSome_Some [OF assms [unfolded shellHere_def]] by blast
  then show ?thesis using shellNamed_shorter by auto
qed

lemma shellPath_shorter:
  assumes "shellPath s = Some (a, r)"
  shows "length r < length s"
proof -
  obtain k where "shellHere (drop k s) = Some (a, r)"
    using firstSome_Some [OF assms [unfolded shellPath_def Let_def]] by blast
  then have "length r < length (drop k s)" by (rule shellHere_shorter)
  then show ?thesis by simp
qed

lemma shellMatch_shorter:
  assumes "shellMatch atStart s = Some (a, r)"
  shows "length r < length s"
proof -
  consider "shellPath s = Some (a, r)" | "s \<noteq> []" "shellPath (dropWhile is_space (tl s)) = Some (a, r)"
    using assms by (auto simp: shellMatch_def split: option.splits if_splits)
  then show ?thesis
  proof cases
    case 2
    then show ?thesis
      using shellPath_shorter [OF 2(2)] length_dropWhile_le [of is_space "tl s"] by (cases s) auto
  qed (rule shellPath_shorter)
qed

text \<open>\<open>[...commandLine.matchAll(shells)].some(...)\<close>, and the whole of \<open>heredocRunsShell\<close>.\<close>

function shellMatches :: "bool \<Rightarrow> string \<Rightarrow> string list" where
  "shellMatches atStart s =
     (case shellMatch atStart s of
        Some (a, r) \<Rightarrow> a # shellMatches False r
      | None \<Rightarrow> (case s of [] \<Rightarrow> [] | _ # t \<Rightarrow> shellMatches False t))"
  by pat_completeness auto

termination shellMatches
  by (relation "measure (\<lambda>(b, s). length s)") (auto dest: shellMatch_shorter)

declare shellMatches.simps [simp del]

definition heredocRunsShell :: "string \<Rightarrow> bool" where
  "heredocRunsShell commandLine = list_ex (\<lambda>a. \<not> hasDashC True a) (shellMatches True commandLine)"

lemma closeTail_shorter:
  assumes "closeTail u = Some r"
  shows "length r \<le> length u"
proof -
  obtain k where "r = [] \<or> r = drop k u" using assms unfolding closeTail_def Let_def by (metis option.distinct(1) option.sel)
  then show ?thesis by auto
qed

lemma closeAt_shorter:
  assumes "closeAt delim s = Some r"
  shows "length r \<le> length s"
proof -
  have "length r \<le> length (drop (length delim) (dropWhile is_space s))"
    using assms closeTail_shorter unfolding closeAt_def Let_def by (metis option.distinct(1))
  then show ?thesis using length_dropWhile_le [of is_space s] by simp
qed

lemma findClose_shorter: "findClose b delim s = Some r \<Longrightarrow> length r \<le> length s"
proof (induction s arbitrary: b)
  case Nil
  then show ?case using closeAt_shorter [of delim "[]" r] by (auto simp: findClose.simps [of b delim "[]"] split: option.splits if_splits)
next
  case (Cons c s)
  show ?case
  proof (cases "if b then closeAt delim (c # s) else None")
    case None
    then have "findClose (is_newline c) delim s = Some r" using Cons.prems by (simp add: findClose.simps [of b delim "c # s"])
    then show ?thesis using Cons.IH by fastforce
  next
    case (Some r')
    then have "closeAt delim (c # s) = Some r" using Cons.prems by (simp add: findClose.simps [of b delim "c # s"] split: if_splits)
    then show ?thesis by (rule closeAt_shorter)
  qed
qed

lemma heredocBody_shorter: "heredocBody (d, s) = Some (post, r) \<Longrightarrow> length r \<le> length s"
proof -
  assume a: "heredocBody (d, s) = Some (post, r)"
  have l: "length (dropWhile (\<lambda>c. c \<noteq> NL) s) \<le> length s" by (rule length_dropWhile_le)
  from a obtain x body where b: "dropWhile (\<lambda>c. c \<noteq> NL) s = x # body" "findClose True d body = Some r"
    by (auto simp: heredocBody_def split: list.splits)
  from findClose_shorter [OF b(2)] l b(1) show ?thesis by simp
qed

lemma identRead_shorter: "(d, t) \<in> set (identRead q u) \<Longrightarrow> length t \<le> length u"
  by (cases u) (auto simp: identRead_def Let_def split: if_splits)

lemma delimiters_shorter:
  assumes "(d, t) \<in> set (delimiters s)"
  shows "length t \<le> length s"
proof -
  let ?t = "dropWhile is_space (if starts_with ''-'' s then tl s else s)"
  obtain q k where "(d, t) \<in> set (identRead q (drop k ?t))" using assms unfolding delimiters_def Let_def by blast
  then have "length t \<le> length (drop k ?t)" by (rule identRead_shorter)
  moreover have "length ?t \<le> length s"
    using length_dropWhile_le [of is_space "tl s"] length_dropWhile_le [of is_space s] by auto
  ultimately show ?thesis by simp
qed

lemma heredocAt_shorter:
  assumes "heredocAt s = Some (line, r)"
  shows "length r < length s"
proof -
  obtain k where "heredocFrom s k = Some (line, r)" using firstSome_Some [OF assms [unfolded heredocAt_def]] by blast
  then obtain post where k: "starts_with ''<<'' (drop k s)" "firstSome heredocBody (delimiters (drop (k + 2) s)) = Some (post, r)"
    by (auto simp: heredocFrom_def split: if_splits)
  obtain d t where d: "(d, t) \<in> set (delimiters (drop (k + 2) s))" "heredocBody (d, t) = Some (post, r)"
    using firstSome_Some [OF k(2)] by auto
  have "length r \<le> length (drop (k + 2) s)" using delimiters_shorter [OF d(1)] heredocBody_shorter [OF d(2)] by simp
  moreover have "k < length s" using k(1) by (cases "k < length s") (auto simp: starts_with_def)
  ultimately show ?thesis by simp
qed

text \<open>The replacement: a here document that is written to a file and not fed to a shell is removed.\<close>

definition heredocKept :: "string \<Rightarrow> string \<Rightarrow> string" where
  "heredocKept line full = (if CHR ''>'' \<in> set line \<and> \<not> heredocRunsShell line then [] else full)"

function stripFrom :: "bool \<Rightarrow> string \<Rightarrow> string" where
  "stripFrom lineStart s =
     (case (if lineStart then heredocAt s else None) of
        Some (line, r) \<Rightarrow>
          (let full = take (length s - length r) s
           in heredocKept line full @ stripFrom (is_newline (last full)) r)
      | None \<Rightarrow> (case s of [] \<Rightarrow> [] | c # t \<Rightarrow> c # stripFrom (is_newline c) t))"
  by pat_completeness auto

termination stripFrom
  by (relation "measure (\<lambda>(b, s). length s)") (auto dest: heredocAt_shorter split: if_splits)

declare stripFrom.simps [simp del]

definition stripWrittenHeredocs :: "string \<Rightarrow> string" where
  "stripWrittenHeredocs command = stripFrom True command"

subsection \<open>The text a command is judged by\<close>

definition unquoteBareWord :: "string \<Rightarrow> string option" where
  "unquoteBareWord inner = (if list_all bare_char inner then Some inner else None)"

text \<open>
  \<open>(?:[^q\\]|\\.)*q\<close> behind an opening quote \<open>q\<close>: the text up to the closing quote and what follows it.
  The dot matches no line terminator.
\<close>

fun quotedBody :: "char \<Rightarrow> string \<Rightarrow> string \<Rightarrow> (string \<times> string) option" where
  "quotedBody q acc [] = None"
| "quotedBody q acc (c # s) =
     (if c = q then Some (acc, s)
      else if c = BSL
      then (case s of [] \<Rightarrow> None | x # t \<Rightarrow> if is_newline x then None else quotedBody q (acc @ [c, x]) t)
      else quotedBody q (acc @ [c]) s)"

lemma quotedBody_shorter: "quotedBody q acc s = Some (b, r) \<Longrightarrow> length r < length s"
  by (induction q acc s rule: quotedBody.induct) (auto split: if_splits list.splits)

text \<open>\<open>m.match(/\$\([^)]*\)|`[^`]*`/g)\<close>\<close>

function substitutions :: "string \<Rightarrow> string list" where
  "substitutions [] = []"
| "substitutions (c # s) =
     (if c = CHR ''$'' \<and> starts_with ''('' s
      then (case index_of (CHR '')'') (tl s) of
              Some k \<Rightarrow> (''$('' @ take (Suc k) (tl s)) # substitutions (drop (Suc k) (tl s))
            | None \<Rightarrow> substitutions s)
      else if c = BT
      then (case index_of BT s of
              Some k \<Rightarrow> (BT # take (Suc k) s) # substitutions (drop (Suc k) s)
            | None \<Rightarrow> substitutions s)
      else substitutions s)"
  by pat_completeness auto

termination substitutions
  by (relation "measure length") auto

declare substitutions.simps(2) [simp del]

definition doubleQuoted :: "string \<Rightarrow> string" where
  "doubleQuoted body =
     (let subs = substitutions (DQ # body @ [DQ])
      in if subs \<noteq> [] then join_with '' '' subs
         else case unquoteBareWord body of Some w \<Rightarrow> w | None \<Rightarrow> [DQ, DQ])"

function doublePass :: "string \<Rightarrow> string" where
  "doublePass [] = []"
| "doublePass (c # s) =
     (case (if c = DQ then quotedBody DQ [] s else None) of
        Some (body, r) \<Rightarrow> doubleQuoted body @ doublePass r
      | None \<Rightarrow> c # doublePass s)"
  by pat_completeness auto

termination doublePass
  by (relation "measure length") (auto dest: quotedBody_shorter split: if_splits)

declare doublePass.simps(2) [simp del]

definition emptyQuotes :: "string option \<Rightarrow> string" where
  "emptyQuotes w = (case w of Some v \<Rightarrow> v | None \<Rightarrow> [SQ, SQ])"

function ansiPass :: "string \<Rightarrow> string option" where
  "ansiPass [] = Some []"
| "ansiPass (c # s) =
     (case (if c = CHR ''$'' \<and> starts_with [SQ] s then quotedBody SQ [] (tl s) else None) of
        Some (body, r) \<Rightarrow>
          (case decodeAnsiC body of
             None \<Rightarrow> None
           | Some d \<Rightarrow> map_option (\<lambda>t. emptyQuotes (unquoteBareWord d) @ t) (ansiPass r))
      | None \<Rightarrow> map_option (Cons c) (ansiPass s))"
  by pat_completeness auto

termination ansiPass
  by (relation "measure length") (auto dest!: quotedBody_shorter split: if_splits)

declare ansiPass.simps(2) [simp del]

function singlePass :: "string \<Rightarrow> string" where
  "singlePass [] = []"
| "singlePass (c # s) =
     (case (if c = SQ then index_of SQ s else None) of
        Some k \<Rightarrow> emptyQuotes (unquoteBareWord (take k s)) @ singlePass (drop (Suc k) s)
      | None \<Rightarrow> c # singlePass s)"
  by pat_completeness auto

termination singlePass
  by (relation "measure length") auto

declare singlePass.simps(2) [simp del]

fun escapePass :: "string \<Rightarrow> string" where
  "escapePass [] = []"
| "escapePass [c] = [c]"
| "escapePass (c # x # s) = (if c = BSL \<and> bare_char x then x # escapePass s else c # escapePass (x # s))"

definition scanBase :: "string \<Rightarrow> string option" where
  "scanBase stripped = map_option (\<lambda>t. escapePass (singlePass t)) (ansiPass (doublePass stripped))"

function scannableCommandAtDepth :: "string \<Rightarrow> nat \<Rightarrow> string option" where
  "scannableCommandAtDepth command depth =
     (let stripped = stripWrittenHeredocs command
      in case scanBase stripped of
           None \<Rightarrow> None
         | Some base \<Rightarrow>
             (if depth \<ge> 8 then Some base
              else case executedShellPayloads stripped of
                     None \<Rightarrow> None
                   | Some executed \<Rightarrow>
                       (if executed = [] then Some base
                        else map_option (\<lambda>ts. join_with [NL] (base # ts))
                               (those (map (\<lambda>payload. scannableCommandAtDepth payload (depth + 1)) executed)))))"
  by pat_completeness auto

termination scannableCommandAtDepth
  by (relation "measure (\<lambda>(c, d). 8 - d)") auto

declare scannableCommandAtDepth.simps [simp del]

definition scannableCommand :: "string \<Rightarrow> string option" where
  "scannableCommand command = scannableCommandAtDepth command 0"

subsection \<open>Patterns that are safe to run\<close>

text \<open>
  What \<open>new RegExp(pattern, "i")\<close> does: the error it throws, if any, and the text of the first match of
  \<open>exec\<close>.
\<close>

record regex_engine =
  reError :: "string \<Rightarrow> string option"
  reExec :: "string \<Rightarrow> string \<Rightarrow> string option"

record group_info =
  quantified :: bool
  alternation :: bool

record safe_state =
  sgroups :: "group_info list"
  sescaped :: bool
  sinClass :: bool
  spreviousQuantifier :: bool
  sclosed :: "group_info option"

definition noGroup :: group_info where
  "noGroup = \<lparr>quantified = False, alternation = False\<rparr>"

definition safeStart :: safe_state where
  "safeStart = \<lparr>sgroups = [], sescaped = False, sinClass = False, spreviousQuantifier = False, sclosed = None\<rparr>"

text \<open>\<open>groups[groups.length - 1]\<close> is changed in place; the stack is kept with its top first.\<close>

definition onTop :: "(group_info \<Rightarrow> group_info) \<Rightarrow> group_info list \<Rightarrow> group_info list" where
  "onTop f gs = (case gs of [] \<Rightarrow> [] | g # r \<Rightarrow> f g # r)"

definition maxPatternChars :: nat where "maxPatternChars = 256"

definition nestedError :: string where
  "nestedError = ''nested or ambiguous repetition is not supported''"

text \<open>\<open>ch === "*" || ch === "+" || (ch === "?" && pattern[i - 1] !== "(") || ch === "{"\<close>\<close>

definition quantifierChar :: "char option \<Rightarrow> char \<Rightarrow> bool" where
  "quantifierChar prev ch =
     (ch = CHR ''*'' \<or> ch = CHR ''+'' \<or> (ch = CHR ''?'' \<and> prev \<noteq> Some (CHR ''('')) \<or> ch = CHR 0x7B)"

definition safeStep :: "safe_state \<Rightarrow> char option \<Rightarrow> char \<Rightarrow> safe_state option" where
  "safeStep st prev ch =
     (if sescaped st then Some (st\<lparr>sescaped := False, spreviousQuantifier := False, sclosed := None\<rparr>)
      else if ch = BSL then Some (st\<lparr>sescaped := True\<rparr>)
      else if ch = CHR ''['' then Some (st\<lparr>sinClass := True, spreviousQuantifier := False, sclosed := None\<rparr>)
      else if ch = CHR '']'' \<and> sinClass st then Some (st\<lparr>sinClass := False\<rparr>)
      else if sinClass st then Some st
      else if ch = CHR ''('' then Some (st\<lparr>sgroups := noGroup # sgroups st, spreviousQuantifier := False, sclosed := None\<rparr>)
      else if ch = CHR ''|''
      then Some (st\<lparr>sgroups := onTop (\<lambda>g. g\<lparr>alternation := True\<rparr>) (sgroups st), spreviousQuantifier := False, sclosed := None\<rparr>)
      else if ch = CHR '')''
      then Some (st\<lparr>sclosed := Some (case sgroups st of [] \<Rightarrow> noGroup | g # _ \<Rightarrow> g), sgroups := tl (sgroups st),
                   spreviousQuantifier := False\<rparr>)
      else if quantifierChar prev ch
      then (if spreviousQuantifier st \<or> (case sclosed st of None \<Rightarrow> False | Some g \<Rightarrow> quantified g \<or> alternation g)
            then None
            else Some (st\<lparr>sgroups := onTop (\<lambda>g. g\<lparr>quantified := True\<rparr>) (sgroups st), spreviousQuantifier := True, sclosed := None\<rparr>))
      else Some (st\<lparr>spreviousQuantifier := False, sclosed := None\<rparr>))"

fun safeLoop :: "safe_state \<Rightarrow> char option \<Rightarrow> string \<Rightarrow> bool" where
  "safeLoop st prev [] = True"
| "safeLoop st prev (ch # s) = (case safeStep st prev ch of None \<Rightarrow> False | Some st' \<Rightarrow> safeLoop st' (Some ch) s)"

text \<open>\<open>/\\[1-9]|\\k<|\(\?[=!<]/\<close>\<close>

definition unsupportedHere :: "string \<Rightarrow> bool" where
  "unsupportedHere s =
     (case s of
        c # d # t \<Rightarrow>
          (c = BSL \<and> digit d \<and> d \<noteq> CHR ''0'') \<or> (c = BSL \<and> d = CHR ''k'' \<and> starts_with ''<'' t) \<or>
          (c = CHR ''('' \<and> d = CHR ''?'' \<and> t \<noteq> [] \<and> hd t \<in> set ''=!<'')
      | _ \<Rightarrow> False)"

fun unsupported :: "string \<Rightarrow> bool" where
  "unsupported [] = False"
| "unsupported (c # s) = (unsupportedHere (c # s) \<or> unsupported s)"

definition compileSafeRegex :: "regex_engine \<Rightarrow> string \<Rightarrow> string + unit" where
  "compileSafeRegex E pattern =
     (if pattern = [] \<or> length pattern > maxPatternChars then Inl ''pattern must be 1-256 characters''
      else if unsupported pattern then Inl ''backreferences and lookarounds are not supported''
      else if \<not> safeLoop safeStart None pattern then Inl nestedError
      else case reError E pattern of Some e \<Rightarrow> Inl e | None \<Rightarrow> Inr ())"

subsection \<open>Rules and policies\<close>

datatype command_decision = Allow | Deny | RequireApproval

record command_rule =
  rulePattern :: string
  ruleDecision :: command_decision
  ruleReason :: "string option"

datatype policy_mode = Denylist | Allowlist

record command_policy =
  policyMode :: policy_mode
  policyRules :: "command_rule list"

text \<open>The backslashes of the source's string literals, as the strings they denote.\<close>

definition ORG_FLOOR_RULES :: "command_rule list" where
  "ORG_FLOOR_RULES =
     [\<lparr>rulePattern = [BSL] @ ''brm'' @ [BSL] @ ''b[^'' @ [BSL] @ ''n]*(?:-[a-zA-Z]*r|--recursive)'',
       ruleDecision = RequireApproval, ruleReason = Some ''recursive delete''\<rparr>,
      \<lparr>rulePattern = [BSL] @ ''bgit'' @ [BSL] @ ''s+push'' @ [BSL] @ ''b.*(?:--force'' @ [BSL] @ ''b|(?:^|'' @ [BSL] @
         ''s)-[a-zA-Z]*f'' @ [BSL] @ ''b)'',
       ruleDecision = RequireApproval, ruleReason = Some ''force push''\<rparr>,
      \<lparr>rulePattern = [BSL] @ ''b(drop|truncate)'' @ [BSL] @ ''s+table'' @ [BSL] @ ''b'',
       ruleDecision = RequireApproval, ruleReason = Some ''destructive SQL''\<rparr>,
      \<lparr>rulePattern = [BSL] @ ''bmkfs'' @ [BSL] @ ''b|:'' @ [BSL] @ ''('' @ [BSL] @ '')'' @ [BSL] @ ''s*'' @ [BSL, CHR 0x7B],
       ruleDecision = Deny, ruleReason = Some ''destructive / fork bomb''\<rparr>,
      \<lparr>rulePattern = [BSL] @ ''bcurl'' @ [BSL] @ ''b.*'' @ [BSL] @ ''|'' @ [BSL] @ ''s*(sh|bash)'' @ [BSL] @ ''b'',
       ruleDecision = RequireApproval, ruleReason = Some ''pipe-to-shell''\<rparr>]"

definition defaultOrgPolicy :: command_policy where
  "defaultOrgPolicy = \<lparr>policyMode = Denylist, policyRules = ORG_FLOOR_RULES\<rparr>"

definition composePolicy :: "command_policy \<Rightarrow> command_policy option \<Rightarrow> command_policy" where
  "composePolicy orgFloor scope =
     (case scope of
        None \<Rightarrow> orgFloor
      | Some sc \<Rightarrow>
          \<lparr>policyMode = (if policyMode orgFloor = Allowlist then Allowlist else policyMode sc),
           policyRules = policyRules orgFloor @ policyRules sc\<rparr>)"

subsection \<open>Parsing a policy\<close>

definition parseMode :: "json option \<Rightarrow> policy_mode option" where
  "parseMode j =
     (if j = Some (JStr ''denylist'') then Some Denylist
      else if j = Some (JStr ''allowlist'') then Some Allowlist else None)"

definition parseDecision :: "json option \<Rightarrow> command_decision option" where
  "parseDecision j =
     (if j = Some (JStr ''allow'') then Some Allow
      else if j = Some (JStr ''deny'') then Some Deny
      else if j = Some (JStr ''require_approval'') then Some RequireApproval else None)"

definition ruleAt :: "nat \<Rightarrow> string" where
  "ruleAt i = ''rules['' @ show_nat i @ '']''"

text \<open>An absent reason is \<open>undefined\<close>; any other value must be a string.\<close>

definition parseReason :: "json option \<Rightarrow> string option option" where
  "parseReason j = (case j of None \<Rightarrow> Some None | Some (JStr r) \<Rightarrow> Some (Some r) | _ \<Rightarrow> None)"

definition parseRule :: "regex_engine \<Rightarrow> nat \<Rightarrow> json \<Rightarrow> string + command_rule" where
  "parseRule E i raw =
     (case raw of
        JObj _ \<Rightarrow>
          (case jfield raw ''pattern'' of
             Some (JStr pattern) \<Rightarrow>
               (if pattern = [] then Inl (ruleAt i @ ''.pattern must be a non-empty string'')
                else case compileSafeRegex E pattern of
                       Inl e \<Rightarrow> Inl (ruleAt i @ ''.pattern is not a valid regex: '' @ e)
                     | Inr _ \<Rightarrow>
                         (case parseDecision (jfield raw ''decision'') of
                            None \<Rightarrow>
                              Inl (ruleAt i @ ''.decision must be '' @ [DQ] @ ''allow'' @ [DQ] @ '', '' @ [DQ] @ ''deny'' @ [DQ]
                                   @ '', or '' @ [DQ] @ ''require_approval'' @ [DQ])
                          | Some d \<Rightarrow>
                              (case parseReason (jfield raw ''reason'') of
                                 None \<Rightarrow> Inl (ruleAt i @ ''.reason must be a string'')
                               | Some r \<Rightarrow> Inr \<lparr>rulePattern = pattern, ruleDecision = d, ruleReason = r\<rparr>)))
           | _ \<Rightarrow> Inl (ruleAt i @ ''.pattern must be a non-empty string''))
      | JArr _ \<Rightarrow> Inl (ruleAt i @ ''.pattern must be a non-empty string'')
      | _ \<Rightarrow> Inl (ruleAt i @ '' must be an object''))"

fun parseRules :: "regex_engine \<Rightarrow> nat \<Rightarrow> json list \<Rightarrow> string + command_rule list" where
  "parseRules E i [] = Inr []"
| "parseRules E i (raw # rest) =
     (case parseRule E i raw of
        Inl e \<Rightarrow> Inl e
      | Inr r \<Rightarrow> (case parseRules E (Suc i) rest of Inl e \<Rightarrow> Inl e | Inr rs \<Rightarrow> Inr (r # rs)))"

definition parseCommandPolicy :: "regex_engine \<Rightarrow> json \<Rightarrow> string + command_policy" where
  "parseCommandPolicy E input =
     (case input of
        JObj _ \<Rightarrow>
          (case parseMode (jfield input ''mode'') of
             None \<Rightarrow> Inl (''mode must be '' @ [DQ] @ ''denylist'' @ [DQ] @ '' or '' @ [DQ] @ ''allowlist'' @ [DQ])
           | Some m \<Rightarrow>
               (case jfield input ''rules'' of
                  Some (JArr raws) \<Rightarrow>
                    (case parseRules E 0 raws of
                       Inl e \<Rightarrow> Inl e
                     | Inr rules \<Rightarrow> Inr \<lparr>policyMode = m, policyRules = rules\<rparr>)
                | _ \<Rightarrow> Inl ''rules must be an array''))
      | _ \<Rightarrow> Inl ''command policy must be an object'')"

subsection \<open>Judging a command\<close>

record command_evaluation =
  evalDecision :: command_decision
  evalReason :: "string option"
  evalMatched :: "string option"
  evalApprovalKey :: "string option"

definition ruleHit :: "command_rule \<Rightarrow> string \<Rightarrow> command_evaluation" where
  "ruleHit rule hit =
     \<lparr>evalDecision = ruleDecision rule,
      evalReason = (if truthy (ruleReason rule) then ruleReason rule else None),
      evalMatched = Some hit, evalApprovalKey = Some (rulePattern rule)\<rparr>"

fun firstMatch :: "regex_engine \<Rightarrow> string \<Rightarrow> command_rule list \<Rightarrow> command_evaluation option" where
  "firstMatch E scannable [] = None"
| "firstMatch E scannable (rule # rules) =
     (case compileSafeRegex E (rulePattern rule) of
        Inl _ \<Rightarrow> firstMatch E scannable rules
      | Inr _ \<Rightarrow>
          (case reExec E (rulePattern rule) scannable of
             Some hit \<Rightarrow> Some (ruleHit rule hit)
           | None \<Rightarrow> firstMatch E scannable rules))"

definition notInAllowlist :: command_evaluation where
  "notInAllowlist =
     \<lparr>evalDecision = Deny, evalReason = Some ''not in allowlist'', evalMatched = None, evalApprovalKey = None\<rparr>"

definition allowed :: command_evaluation where
  "allowed = \<lparr>evalDecision = Allow, evalReason = None, evalMatched = None, evalApprovalKey = None\<rparr>"

definition evaluateCommand :: "regex_engine \<Rightarrow> string \<Rightarrow> command_policy \<Rightarrow> command_evaluation option" where
  "evaluateCommand E command policy =
     map_option
       (\<lambda>scannable.
          case firstMatch E scannable (policyRules policy) of
            Some matched \<Rightarrow> matched
          | None \<Rightarrow> if policyMode policy = Allowlist then notInAllowlist else allowed)
       (scannableCommand command)"

definition evaluateCommandWithLayer ::
  "regex_engine \<Rightarrow> string \<Rightarrow> command_policy \<Rightarrow> command_rule list \<Rightarrow> command_evaluation option"
where
  "evaluateCommandWithLayer E command policy layerRules =
     map_option
       (\<lambda>scannable.
          case firstMatch E scannable (policyRules policy) of
            Some scopeMatch \<Rightarrow> scopeMatch
          | None \<Rightarrow>
              (if policyMode policy = Allowlist then notInAllowlist
               else case firstMatch E scannable layerRules of
                      Some layerMatch \<Rightarrow> layerMatch
                    | None \<Rightarrow> allowed))
       (scannableCommand command)"

subsection \<open>What the policy guarantees\<close>

lemma firstMatch_append:
  "firstMatch E text (xs @ ys) = (case firstMatch E text xs of Some m \<Rightarrow> Some m | None \<Rightarrow> firstMatch E text ys)"
  by (induction xs) (auto split: sum.splits option.splits)

lemma firstMatch_None:
  "firstMatch E text rules = None \<longleftrightarrow>
     (\<forall>r \<in> set rules. compileSafeRegex E (rulePattern r) = Inr () \<longrightarrow> reExec E (rulePattern r) text = None)"
  by (induction rules) (auto split: sum.splits option.splits)

lemma firstMatch_Some:
  "firstMatch E text rules = Some m \<Longrightarrow> \<exists>r \<in> set rules. \<exists>hit. m = ruleHit r hit"
  by (induction rules) (auto split: sum.splits option.splits)

lemma composePolicy_rules: "\<exists>more. policyRules (composePolicy f sc) = policyRules f @ more"
  by (auto simp: composePolicy_def split: option.splits)

text \<open>No rule of the organisation floor is refused by the pattern check, so none is skipped.\<close>

lemma floor_patterns_safe:
  "list_all (\<lambda>r. rulePattern r \<noteq> [] \<and> length (rulePattern r) \<le> maxPatternChars \<and> \<not> unsupported (rulePattern r) \<and>
     safeLoop safeStart None (rulePattern r)) ORG_FLOOR_RULES"
  by code_simp

lemma floor_compiles:
  assumes "r \<in> set ORG_FLOOR_RULES" "reError E (rulePattern r) = None"
  shows "compileSafeRegex E (rulePattern r) = Inr ()"
  using assms floor_patterns_safe by (auto simp: list_all_iff compileSafeRegex_def)

lemma floor_never_allows: "r \<in> set ORG_FLOOR_RULES \<Longrightarrow> ruleDecision r \<noteq> Allow"
  by (auto simp: ORG_FLOOR_RULES_def)

lemma floor_hit:
  assumes "r \<in> set ORG_FLOOR_RULES" "reError E (rulePattern r) = None" "reExec E (rulePattern r) text = Some hit"
  obtains m where "firstMatch E text ORG_FLOOR_RULES = Some m" "evalDecision m \<noteq> Allow"
proof (cases "firstMatch E text ORG_FLOOR_RULES")
  case None
  then show ?thesis using assms floor_compiles [OF assms(1,2)] by (auto simp: firstMatch_None)
next
  case (Some m)
  then obtain r' h where "r' \<in> set ORG_FLOOR_RULES" "m = ruleHit r' h" using firstMatch_Some by blast
  then show ?thesis using that Some floor_never_allows by (simp add: ruleHit_def)
qed

text \<open>
  C11. The organisation floor cannot be loosened: once a rule of the default floor matches the scanned
  text of a command, no scope policy and no layer of further rules changes the verdict, which is the floor's own and never
  allows the command. No floor rule is lost to the pattern check that skips unsafe patterns.\<close>

theorem org_floor_cannot_be_loosened:
  assumes "scannableCommand command = Some text"
    and "r \<in> set ORG_FLOOR_RULES"
    and "reError E (rulePattern r) = None"
    and "reExec E (rulePattern r) text = Some hit"
  shows "\<exists>e. evaluateCommandWithLayer E command (composePolicy defaultOrgPolicy scope) layer = Some e \<and>
      evaluateCommand E command (composePolicy defaultOrgPolicy scope) = Some e \<and>
      evaluateCommand E command defaultOrgPolicy = Some e \<and> evalDecision e \<noteq> Allow"
proof -
  obtain m where m: "firstMatch E text ORG_FLOOR_RULES = Some m" "evalDecision m \<noteq> Allow"
    using floor_hit assms(2-4) by blast
  obtain more where "policyRules (composePolicy defaultOrgPolicy scope) = ORG_FLOOR_RULES @ more"
    using composePolicy_rules [of defaultOrgPolicy scope] by (auto simp: defaultOrgPolicy_def)
  then show ?thesis
    using assms(1) m
    by (simp add: evaluateCommandWithLayer_def evaluateCommand_def firstMatch_append defaultOrgPolicy_def)
qed

definition demoEngine :: regex_engine where
  "demoEngine = \<lparr>reError = (\<lambda>_. None), reExec = (\<lambda>p t. if p = rulePattern (ORG_FLOOR_RULES ! 3) \<and> t = ''mkfs'' then Some t else None)\<rparr>"

lemma mkfs_scan: "scannableCommand ''mkfs'' = Some ''mkfs''"
  by code_simp

theorem org_floor_cannot_be_loosened_witness:
  "\<exists>e. evaluateCommandWithLayer demoEngine ''mkfs''
        (composePolicy defaultOrgPolicy (Some \<lparr>policyMode = Denylist, policyRules = [\<lparr>rulePattern = ''mkfs'', ruleDecision = Allow, ruleReason = None\<rparr>]\<rparr>)) []
      = Some e \<and> evalDecision e \<noteq> Allow"
  using org_floor_cannot_be_loosened [of "''mkfs''" "''mkfs''" "ORG_FLOOR_RULES ! 3" demoEngine "''mkfs''"
      "Some \<lparr>policyMode = Denylist, policyRules = [\<lparr>rulePattern = ''mkfs'', ruleDecision = Allow, ruleReason = None\<rparr>]\<rparr>" "[]"] mkfs_scan
  by (auto simp: demoEngine_def ORG_FLOOR_RULES_def)

text \<open>
  Judging with a layer is judging one policy: in denylist mode the layer's rules count after those
  of the policy, in allowlist mode they do not count at all.\<close>

theorem layer_is_appended_rules:
  "evaluateCommandWithLayer E command policy layer =
     evaluateCommand E command
       (policy\<lparr>policyRules := policyRules policy @ (if policyMode policy = Allowlist then [] else layer)\<rparr>)"
  by (cases "policyMode policy")
    (auto simp: evaluateCommandWithLayer_def evaluateCommand_def firstMatch_append intro!: option.map_cong split: option.splits)

lemma parseRule_live: "parseRule E i raw = Inr r \<Longrightarrow> compileSafeRegex E (rulePattern r) = Inr ()"
  by (auto simp: parseRule_def split: json.splits option.splits sum.splits if_splits)

lemma parseRules_live: "parseRules E i raws = Inr rs \<Longrightarrow> r \<in> set rs \<Longrightarrow> compileSafeRegex E (rulePattern r) = Inr ()"
  by (induction raws arbitrary: i rs) (auto split: sum.splits dest: parseRule_live)

lemma parseCommandPolicy_rules:
  "parseCommandPolicy E j = Inr p \<Longrightarrow> \<exists>raws. parseRules E 0 raws = Inr (policyRules p)"
  by (auto simp: parseCommandPolicy_def split: json.splits option.splits sum.splits)

lemma firstMatch_live:
  "\<forall>r \<in> set rules. compileSafeRegex E (rulePattern r) = Inr () \<Longrightarrow>
     firstMatch E text rules =
       map_option (\<lambda>r. ruleHit r (the (reExec E (rulePattern r) text)))
         (find (\<lambda>r. reExec E (rulePattern r) text \<noteq> None) rules)"
  by (induction rules) (auto split: option.splits)

text \<open>
  Every rule of a policy that was accepted is enforced: the verdict is that of the first rule, in the order of
  the policy, whose expression matches; no rule is skipped as invalid.\<close>

theorem accepted_rules_are_enforced:
  assumes "parseCommandPolicy E j = Inr p" "scannableCommand command = Some text"
  shows "evaluateCommand E command p =
     Some (case find (\<lambda>r. reExec E (rulePattern r) text \<noteq> None) (policyRules p) of
             Some r \<Rightarrow> ruleHit r (the (reExec E (rulePattern r) text))
           | None \<Rightarrow> if policyMode p = Allowlist then notInAllowlist else allowed)"
proof -
  obtain raws where "parseRules E 0 raws = Inr (policyRules p)" using parseCommandPolicy_rules [OF assms(1)] by blast
  then have "\<forall>r \<in> set (policyRules p). compileSafeRegex E (rulePattern r) = Inr ()" using parseRules_live by blast
  from firstMatch_live [OF this, of "text"] show ?thesis
    using assms(2) by (simp add: evaluateCommand_def option.case_eq_if map_option_case)
qed

definition demoPolicy :: json where
  "demoPolicy = JObj [(''mode'', JStr ''allowlist''),
     (''rules'', JArr [JObj [(''pattern'', JStr ''^ls''), (''decision'', JStr ''allow'')]])]"

lemma demoPolicy_parsed:
  "parseCommandPolicy demoEngine demoPolicy =
     Inr \<lparr>policyMode = Allowlist, policyRules = [\<lparr>rulePattern = ''^ls'', ruleDecision = Allow, ruleReason = None\<rparr>]\<rparr>"
  by code_simp

theorem accepted_rules_are_enforced_witness:
  "evaluateCommand demoEngine ''mkfs''
     \<lparr>policyMode = Allowlist, policyRules = [\<lparr>rulePattern = ''^ls'', ruleDecision = Allow, ruleReason = None\<rparr>]\<rparr> = Some notInAllowlist"
  using accepted_rules_are_enforced [OF demoPolicy_parsed mkfs_scan] by (simp add: demoEngine_def ORG_FLOOR_RULES_def)

text \<open>An escape of a code point above the last one makes the scan of a command throw.\<close>

definition wildEscape :: string where
  "wildEscape = [BSL] @ ''U00110000''"

lemma decode_can_throw: "decodeAnsiC wildEscape = None"
  by (simp add: wildEscape_def decodeAnsiC_def escX_def escU_def starts_with_def is_hex_def digit_def parseInt_def
      hex_value_def fromCodePoint_def)

lemma ansiPass_throws:
  "decodeAnsiC body = None \<Longrightarrow> quotedBody SQ [] (t @ [SQ]) = Some (body, []) \<Longrightarrow>
     CHR ''$'' \<notin> set pre \<Longrightarrow> ansiPass (pre @ CHR ''$'' # SQ # t @ [SQ]) = None"
  by (induction pre) (auto simp: ansiPass.simps(2) starts_with_def)

definition wildCommand :: string where
  "wildCommand = ''echo $'' @ quoted wildEscape"

lemma wild_passes:
  "stripWrittenHeredocs wildCommand = wildCommand" "doublePass wildCommand = wildCommand"
  "quotedBody SQ [] (wildEscape @ [SQ]) = Some (wildEscape, [])"
  by code_simp+

lemma scan_can_throw: "scannableCommand wildCommand = None"
proof -
  have "ansiPass wildCommand = None"
    using ansiPass_throws [OF decode_can_throw wild_passes(3), of "''echo ''"] by (simp add: quoted_def wildCommand_def)
  then have "scanBase (stripWrittenHeredocs wildCommand) = None" by (simp add: scanBase_def wild_passes(1,2))
  then show ?thesis
    unfolding scannableCommand_def by (subst scannableCommandAtDepth.simps) (simp only: Let_def option.case)
qed

end
