(* ===== verification/RunSpec.thy ===== *)
theory RunSpec
  imports Runs
begin

section \<open>What the run queue promises\<close>

text \<open>
  The contract of the run queue as a small transition system: a run is absent, waiting, leased under a token or over, it belongs
  to one session, and a session has at most one leased run by the guard of the only transition that leases. The memory run store
  refines it: every operation is matched by a sequence of these transitions.
\<close>

datatype life = Waiting | Leased string | Over bool

type_synonym queue_life = "string \<Rightarrow> (string \<times> life) option"

definition idle :: "queue_life \<Rightarrow> string \<Rightarrow> bool" where
  "idle q sid \<longleftrightarrow> (\<forall>i tok. q i \<noteq> Some (sid, Leased tok))"

inductive life_step :: "queue_life \<Rightarrow> queue_life \<Rightarrow> bool" where
  life_arrive: "q i = None \<Longrightarrow> life_step q (q(i \<mapsto> (sid, Waiting)))"
| life_lease: "q i = Some (sid, Waiting) \<Longrightarrow> idle q sid \<Longrightarrow> life_step q (q(i \<mapsto> (sid, Leased tok)))"
| life_handback: "q i = Some (sid, Leased tok) \<Longrightarrow> life_step q (q(i \<mapsto> (sid, Waiting)))"
| life_finish: "q i = Some (sid, Leased tok) \<Longrightarrow> life_step q (q(i \<mapsto> (sid, Over ok)))"

text \<open>The life of a run as the store has it.\<close>

definition life_of :: "'q run \<Rightarrow> string \<times> life" where
  "life_of r =
     (r_sessionId r,
      case r_status r of
        Pending \<Rightarrow> Waiting
      | Running \<Rightarrow> Leased (case r_leaseToken r of Some tok \<Rightarrow> tok | None \<Rightarrow> [])
      | Done \<Rightarrow> Over True
      | Failed \<Rightarrow> Over False)"

definition queue_of :: "'q run_store \<Rightarrow> queue_life" where
  "queue_of s = (\<lambda>i. map_option life_of (get_run s i))"

lemma queue_of_put: "queue_of (put_run r s) = (queue_of s)(r_id r \<mapsto> life_of r)"
  by (auto simp: queue_of_def)

lemma queue_of_settle [simp]: "queue_of (settle r s) = queue_of s"
  by (simp add: queue_of_def)

lemma queue_of_same: "get_run s (r_id r') = Some r \<Longrightarrow> life_of r' = life_of r \<Longrightarrow> queue_of (put_run r' s) = queue_of s"
  by (auto simp: queue_of_put queue_of_def)

lemma idle_iff: "run_inv s \<Longrightarrow> idle (queue_of s) sid \<longleftrightarrow> \<not> sessionHasRunning s sid None"
  by (auto simp: idle_def queue_of_def life_of_def sessionHasRunning_iff split: run_status.splits)

lemma lease_sim:
  assumes "run_inv s" "get_run s (r_id r) = Some r" "claimable s r"
  shows "life_step\<^sup>*\<^sup>* (queue_of s) (queue_of (put_run (lease_run uuid now w ttl r) s))"
proof -
  have q: "queue_of s (r_id r) = Some (r_sessionId r, Waiting)"
    using assms(2,3) by (simp add: queue_of_def life_of_def claimable_def)
  have "idle (queue_of s) (r_sessionId r)"
    using assms(1,3) by (simp add: claimable_def idle_iff)
  from life_lease [of "queue_of s" "r_id r", OF q this, of uuid] show ?thesis by (auto simp: queue_of_put life_of_def)
qed

lemma leave_sim:
  assumes "get_run s (r_id r) = Some r" "r_status r = Running" "r_id r' = r_id r" "r_sessionId r' = r_sessionId r"
    "r_status r' \<noteq> Running"
  shows "life_step\<^sup>*\<^sup>* (queue_of s) (queue_of (put_run r' s))"
proof -
  obtain tok where q: "queue_of s (r_id r) = Some (r_sessionId r, Leased tok)"
    using assms(1,2) by (auto simp: queue_of_def life_of_def)
  show ?thesis
    using life_handback [of "queue_of s" "r_id r", OF q] life_finish [of "queue_of s" "r_id r", OF q] assms(3-5)
    by (cases "r_status r'") (auto simp: queue_of_put life_of_def)
qed

lemma retire_sim:
  assumes "run_inv s" "get_run s (r_id r) = Some r"
  shows "life_step\<^sup>*\<^sup>* (queue_of s) (queue_of (snd (retire now r err retry ife cae s)))"
  using assms
proof (cases rule: retire_cases [where now = now and err = err and retry = retry and ife = ife and cae = cae])
  case (requeue r')
  then show ?thesis using leave_sim [OF assms(2), of r'] by simp
next
  case (park r')
  then show ?thesis using leave_sim [OF assms(2), of r'] by simp
qed simp

lemma reapOne_sim:
  assumes "run_inv (rp_store st)"
  shows "life_step\<^sup>*\<^sup>* (queue_of (rp_store st)) (queue_of (rp_store (reapOne now maxAge i st)))"
  using assms retire_sim [OF assms] run_invD(1) [OF assms]
  by (auto simp: reapOne_def Let_def case_prod_unfold split: option.split)

lemma reap_fold_sim:
  "run_inv (rp_store st) \<Longrightarrow>
     life_step\<^sup>*\<^sup>* (queue_of (rp_store st)) (queue_of (rp_store (fold (reapOne now maxAge) is st)))"
proof (induction "is" arbitrary: st)
  case (Cons i "is")
  then show ?case
    using reapOne_sim [of st now maxAge i] run_inv_reapOne [of st now maxAge i] by (auto intro: rtranclp_trans)
qed simp

lemma reap_sim: "run_inv s \<Longrightarrow> life_step\<^sup>*\<^sup>* (queue_of s) (queue_of (rp_store (reapExpired now maxAge s)))"
  using reap_fold_sim [of "\<lparr>rp_store = s, rp_requeued = 0, rp_parked = 0, rp_sessions = [], rp_events = []\<rparr>"]
  by (simp add: reapExpired_def)

lemma enqueue_sim:
  assumes "get_run s uuid = None"
  shows "life_step\<^sup>*\<^sup>* (queue_of s) (queue_of (snd (enqueue uuid now inp s)))"
proof (cases "findByDedupKey s (ei_dedupKey inp)")
  case None
  then have "queue_of (snd (enqueue uuid now inp s)) = (queue_of s)(uuid \<mapsto> life_of (newRun uuid now inp))"
    by (auto simp: enqueue_def Let_def queue_of_def get_run_def put_run_def newRun_def)
  moreover have "queue_of s uuid = None" using assms by (simp add: queue_of_def)
  ultimately show ?thesis
    using life_arrive [of "queue_of s" uuid "ei_sessionId inp"] by (auto simp: life_of_def newRun_def)
qed (simp add: enqueue_def)

lemma token_ops_sim:
  assumes inv: "run_inv s"
  shows "life_step\<^sup>*\<^sup>* (queue_of s) (queue_of (snd (heartbeat now i tok ttl s)))"
    "life_step\<^sup>*\<^sup>* (queue_of s) (queue_of (snd (releaseRunLease i tok s)))"
    "life_step\<^sup>*\<^sup>* (queue_of s) (queue_of (snd (complete now i tok res s)))"
    "life_step\<^sup>*\<^sup>* (queue_of s) (queue_of (snd (fail now i tok err retry s)))"
    "life_step\<^sup>*\<^sup>* (queue_of s) (queue_of (snd (setDeliveryState i otok st s)))"
proof -
  note d = run_invD [OF inv]
  have run: "r_status r = Running" if "get_run s i = Some r" "r_leaseToken r = Some tok" for r
    using d(3) [OF that(1)] that(2) by (simp add: run_wf_def)
  show "life_step\<^sup>*\<^sup>* (queue_of s) (queue_of (snd (heartbeat now i tok ttl s)))"
    using d(1) by (auto simp: heartbeat_def queue_of_same life_of_def split: option.split)
  show "life_step\<^sup>*\<^sup>* (queue_of s) (queue_of (snd (releaseRunLease i tok s)))"
    using d(1) by (auto simp: releaseRunLease_def intro!: leave_sim split: option.split)
  show "life_step\<^sup>*\<^sup>* (queue_of s) (queue_of (snd (complete now i tok res s)))"
    using d(1) run by (auto simp: complete_def Let_def intro!: leave_sim split: option.split)
  show "life_step\<^sup>*\<^sup>* (queue_of s) (queue_of (snd (fail now i tok err retry s)))"
    using d(1) retire_sim [OF inv] by (auto simp: fail_def case_prod_unfold split: option.split)
  show "life_step\<^sup>*\<^sup>* (queue_of s) (queue_of (snd (setDeliveryState i otok st s)))"
    using d(1) by (auto simp: setDeliveryState_def queue_of_same life_of_def split: option.split)
qed

lemma claims_sim:
  assumes inv: "run_inv s"
  shows "life_step\<^sup>*\<^sup>* (queue_of s) (queue_of (snd (claim uuid now w ttl s)))"
    "life_step\<^sup>*\<^sup>* (queue_of s) (queue_of (snd (claimById uuid now i w ttl s)))"
proof -
  show "life_step\<^sup>*\<^sup>* (queue_of s) (queue_of (snd (claim uuid now w ttl s)))"
    by (rule claim_cases [OF inv, of uuid now w ttl]) (auto intro: lease_sim [OF inv])
  show "life_step\<^sup>*\<^sup>* (queue_of s) (queue_of (snd (claimById uuid now i w ttl s)))"
    using lease_sim [OF inv] run_invD(1) [OF inv]
    by (auto simp: claimById_def claimable_def Let_def split: option.split)
qed

interpretation run_queue: simulation run_step run_inv queue_of life_step
proof unfold_locales
  fix s t :: "'a run_store"
  assume "run_inv s" "run_step s t"
  from this(2,1) show "life_step\<^sup>*\<^sup>* (queue_of s) (queue_of t)"
    by (induction rule: run_step.induct) (auto intro: enqueue_sim claims_sim token_ops_sim reap_sim)
qed

text \<open>
  C12. The run store refines its contract: whatever operations run, in whatever order, the lives of the runs go from
  the empty queue by arrivals, leases of idle sessions, hand-backs and finishes only.\<close>

theorem run_store_refines_queue:
  fixes s :: "'q run_store"
  assumes "run_step\<^sup>*\<^sup>* (createMemoryRunStore m) s"
  shows "life_step\<^sup>*\<^sup>* Map.empty (queue_of s)"
proof -
  have "queue_of (createMemoryRunStore m :: 'q run_store) = Map.empty"
    by (simp add: queue_of_def createMemoryRunStore_def get_run_def fun_eq_iff)
  then show ?thesis using run_queue.steps_sim [OF assms run_inv_init] by simp
qed

theorem run_store_refines_queue_witness:
  "life_step\<^sup>*\<^sup>* Map.empty (queue_of ex_claimed) \<and> queue_of ex_claimed ''r'' = Some (''s'', Leased ''t'')"
proof -
  have "queue_of ex_claimed ''r'' = Some (''s'', Leased ''t'')" by code_simp
  then show ?thesis using run_store_refines_queue [OF ex_claimed_reachable] by simp
qed

end
