(* ===== verification/Worker.thy ===== *)
theory Worker
  imports Runs Sessions
begin

section \<open>Workers, the reaper and draining\<close>

text \<open>
  Models \<open>src/src/runs/worker.ts\<close>, \<open>src/src/runs/reaper.ts\<close> and \<open>src/src/runs/drain.ts\<close> over the run
  store and the session store: processing a claimed run, the heartbeat that gives a lost turn up, the
  worker's loop and its release at shutdown, the reaper's sweep and the drain controller. What a turn
  of the orchestrator does is an argument (\<open>turn_outcome\<close>), as are the clock and the fresh tokens.
\<close>

subsection \<open>Processing a run\<close>

datatype turn_outcome = Returned turn_result | Threw string bool

record turn_input =
  ti_runId :: string
  ti_attempt :: int
  ti_finalAttempt :: bool
  ti_background :: bool
  ti_queueMs :: "int option"

definition turnInput :: "bool \<Rightarrow> int option \<Rightarrow> 'q run \<Rightarrow> turn_input" where
  "turnInput background maxClaims r =
     \<lparr>ti_runId = r_id r, ti_attempt = r_attempts r, ti_finalAttempt = errorParks r maxClaims,
      ti_background = background,
      ti_queueMs = map_option (\<lambda>t. max 0 (t - r_createdAt r)) (r_startedAt r)\<rparr>"

definition heartbeatInterval :: "int option \<Rightarrow> int \<Rightarrow> int" where
  "heartbeatInterval configured leaseTtlMs =
     (case configured of Some ms \<Rightarrow> ms | None \<Rightarrow> max 1000 (leaseTtlMs div 3))"

definition unleasedError :: "'q run \<Rightarrow> string" where
  "unleasedError r = ''processRun called with an unleased run '' @ r_id r"

text \<open>A thrown error is recorded as a failure and thrown again (\<open>Inl\<close>).\<close>

definition processRun :: "millis \<Rightarrow> 'q run \<Rightarrow> turn_outcome \<Rightarrow> 'q run_store \<Rightarrow> (string + turn_result) \<times> 'q run_store" where
  "processRun now r out s =
     (case r_leaseToken r of
        None \<Rightarrow> (Inl (unleasedError r), s)
      | Some token \<Rightarrow>
          (case out of
             Returned res \<Rightarrow> (Inr res, snd (complete now (r_id r) token res s))
           | Threw msg nonRetryable \<Rightarrow> (Inl msg, snd (fail now (r_id r) token msg (\<not> nonRetryable) s))))"

subsection \<open>The heartbeat\<close>

datatype beat_reply = Alive | Lost | BeatFailed

record beat_state =
  bs_consecutiveLost :: nat
  bs_leaseLost :: bool

definition LEASE_LOST_CONSECUTIVE :: nat where "LEASE_LOST_CONSECUTIVE = 3"

definition beatStart :: beat_state where
  "beatStart = \<lparr>bs_consecutiveLost = 0, bs_leaseLost = False\<rparr>"

text \<open>\<open>bs_leaseLost\<close> is set together with the abort of the turn.\<close>

definition onBeat :: "beat_reply \<Rightarrow> beat_state \<Rightarrow> beat_state" where
  "onBeat b st =
     (case b of
        Alive \<Rightarrow> st\<lparr>bs_consecutiveLost := 0\<rparr>
      | BeatFailed \<Rightarrow> st\<lparr>bs_consecutiveLost := 0\<rparr>
      | Lost \<Rightarrow>
          (let n = bs_consecutiveLost st + 1
           in st\<lparr>bs_consecutiveLost := n,
                 bs_leaseLost := bs_leaseLost st \<or> n \<ge> LEASE_LOST_CONSECUTIVE\<rparr>))"

subsection \<open>The worker's loop\<close>

record in_flight =
  if_runId :: string
  if_leaseToken :: string
  if_threadRef :: string

datatype 'q loop_point = LTop | LClaimed "'q run option" | LClaimThrew | LHandling "'q run" | LEnded | LCrashed

datatype release_point = RIdle | RLooking in_flight | RForcing in_flight "string option" | RReleasing in_flight

record 'q worker_sys =
  wk_stopped :: bool
  wk_inFlight :: "in_flight option"
  wk_released :: "string option"
  wk_claimFailures :: nat
  wk_loop :: "'q loop_point"
  wk_release :: release_point
  wk_runs :: "'q run_store"
  wk_sessions :: session_store

definition CLAIM_FAIL_CRASH_CONSECUTIVE :: nat where "CLAIM_FAIL_CRASH_CONSECUTIVE = 20"

definition createWorker :: "'q run_store \<Rightarrow> session_store \<Rightarrow> 'q worker_sys" where
  "createWorker rs ss =
     \<lparr>wk_stopped = False, wk_inFlight = None, wk_released = None, wk_claimFailures = 0, wk_loop = LTop,
      wk_release = RIdle, wk_runs = rs, wk_sessions = ss\<rparr>"

text \<open>The loop up to its \<open>await deps.runs.claim\<close>; while \<open>canClaim\<close> is false it only waits.\<close>

definition loopClaim :: "bool \<Rightarrow> string \<Rightarrow> millis \<Rightarrow> string \<Rightarrow> int \<Rightarrow> 'q worker_sys \<Rightarrow> 'q worker_sys" where
  "loopClaim canClaim uuid now workerId ttl w =
     (if wk_stopped w then w\<lparr>wk_loop := LEnded\<rparr>
      else if \<not> canClaim then w
      else (case claim uuid now workerId ttl (wk_runs w) of
              (r, s') \<Rightarrow> w\<lparr>wk_loop := LClaimed r, wk_runs := s'\<rparr>))"

definition loopClaimThrows :: "'q worker_sys \<Rightarrow> 'q worker_sys" where
  "loopClaimThrows w =
     (if wk_stopped w then w\<lparr>wk_loop := LEnded\<rparr>
      else
        (let n = wk_claimFailures w + 1
         in w\<lparr>wk_claimFailures := n, wk_loop := (if n \<ge> CLAIM_FAIL_CRASH_CONSECUTIVE then LCrashed else LTop)\<rparr>))"

definition inFlightOf :: "'q run \<Rightarrow> in_flight option" where
  "inFlightOf r =
     map_option (\<lambda>tok. \<lparr>if_runId = r_id r, if_leaseToken = tok, if_threadRef = r_sessionId r\<rparr>) (r_leaseToken r)"

text \<open>After the claim resolved: \<open>stopped\<close> may have been set meanwhile.\<close>

definition loopResume :: "'q run option \<Rightarrow> 'q worker_sys \<Rightarrow> 'q worker_sys" where
  "loopResume claimed w =
     (let w0 = w\<lparr>wk_claimFailures := 0\<rparr>
      in case claimed of
           None \<Rightarrow> w0\<lparr>wk_loop := LTop\<rparr>
         | Some r \<Rightarrow>
             (if wk_stopped w
              then w0\<lparr>wk_loop := LEnded,
                      wk_runs := (case r_leaseToken r of
                                    Some tok \<Rightarrow> snd (releaseRunLease (r_id r) tok (wk_runs w))
                                  | None \<Rightarrow> wk_runs w)\<rparr>
              else w0\<lparr>wk_inFlight := inFlightOf r, wk_loop := LHandling r\<rparr>))"

definition loopSettle :: "millis \<Rightarrow> 'q run \<Rightarrow> turn_outcome \<Rightarrow> 'q worker_sys \<Rightarrow> 'q worker_sys" where
  "loopSettle now r out w =
     w\<lparr>wk_runs := snd (processRun now r out (wk_runs w)), wk_inFlight := None, wk_loop := LTop\<rparr>"

definition busy :: "'q worker_sys \<Rightarrow> bool" where
  "busy w = (wk_inFlight w \<noteq> None)"

definition workerStop :: "'q worker_sys \<Rightarrow> 'q worker_sys" where
  "workerStop w = w\<lparr>wk_stopped := True\<rparr>"

text \<open>\<open>releaseInFlight\<close>: the heartbeat first, then one step per await.\<close>

definition releaseBegin :: "millis \<Rightarrow> int \<Rightarrow> 'q worker_sys \<Rightarrow> 'q worker_sys" where
  "releaseBegin now ttl w =
     (case wk_inFlight w of
        None \<Rightarrow> w
      | Some held \<Rightarrow>
          (if wk_released w = Some (if_leaseToken held) \<or> wk_release w \<noteq> RIdle then w
           else
             (case heartbeat now (if_runId held) (if_leaseToken held) ttl (wk_runs w) of
                (alive, s') \<Rightarrow>
                  (if alive then w\<lparr>wk_runs := s', wk_release := RLooking held\<rparr>
                   else w\<lparr>wk_runs := s', wk_released := Some (if_leaseToken held)\<rparr>))))"

definition releaseLook :: "in_flight \<Rightarrow> 'q worker_sys \<Rightarrow> 'q worker_sys" where
  "releaseLook held w =
     w\<lparr>wk_release := RForcing held (map_option s_id (getByThread (wk_sessions w) (if_threadRef held)))\<rparr>"

definition releaseForce :: "in_flight \<Rightarrow> string option \<Rightarrow> 'q worker_sys \<Rightarrow> 'q worker_sys" where
  "releaseForce held sid w =
     w\<lparr>wk_release := RReleasing held,
       wk_sessions := (case sid of Some i \<Rightarrow> forceReleaseLease i (wk_sessions w) | None \<Rightarrow> wk_sessions w)\<rparr>"

definition releaseDone :: "in_flight \<Rightarrow> 'q worker_sys \<Rightarrow> 'q worker_sys" where
  "releaseDone held w =
     w\<lparr>wk_release := RIdle, wk_released := Some (if_leaseToken held),
       wk_runs := snd (releaseRunLease (if_runId held) (if_leaseToken held) (wk_runs w))\<rparr>"

inductive worker_step :: "'q worker_sys \<Rightarrow> 'q worker_sys \<Rightarrow> bool" where
  w_claim: "wk_loop w = LTop \<Longrightarrow> worker_step w (loopClaim canClaim uuid now workerId ttl w)"
| w_claimThrows: "wk_loop w = LTop \<Longrightarrow> worker_step w (loopClaimThrows w)"
| w_resume: "wk_loop w = LClaimed r \<Longrightarrow> worker_step w (loopResume r w)"
| w_settle: "wk_loop w = LHandling r \<Longrightarrow> worker_step w (loopSettle now r out w)"
| w_stop: "worker_step w (workerStop w)"
| w_release: "worker_step w (releaseBegin now ttl w)"
| w_look: "wk_release w = RLooking held \<Longrightarrow> worker_step w (releaseLook held w)"
| w_force: "wk_release w = RForcing held sid \<Longrightarrow> worker_step w (releaseForce held sid w)"
| w_done: "wk_release w = RReleasing held \<Longrightarrow> worker_step w (releaseDone held w)"
| w_others: "run_step (wk_runs w) s' \<Longrightarrow> worker_step w (w\<lparr>wk_runs := s'\<rparr>)"

subsection \<open>The reaper\<close>

definition releaseStrandedSessionLeases :: "string list \<Rightarrow> session_store \<Rightarrow> session_store" where
  "releaseStrandedSessionLeases threadRefs ss =
     fold (\<lambda>ref st. case getByThread st ref of None \<Rightarrow> st | Some s \<Rightarrow> forceReleaseLease (s_id s) st) (js_uniq threadRefs) ss"

record reap_error =
  rr_code :: string
  rr_message :: string
  rr_sessionId :: string

definition outcomeName :: "reap_outcome \<Rightarrow> string" where
  "outcomeName x = (case x of Parked \<Rightarrow> ''parked'' | Requeued \<Rightarrow> ''requeued'')"

definition recordReapEvent :: "reap_event \<Rightarrow> reap_error" where
  "recordReapEvent e =
     \<lparr>rr_code = (if re_outcome e = Parked then ''run_reap_parked'' else ''run_reap_requeued''),
      rr_message = ''run '' @ re_runId e @ '' '' @ outcomeName (re_outcome e) @ '' (worker='' @
        (case re_workerId e of Some w \<Rightarrow> w | None \<Rightarrow> ''none'') @ '', attempts='' @ show_int (re_attempts e) @
        '', error_attempts='' @ show_int (re_errorAttempts e) @ '')'',
      rr_sessionId = re_sessionId e\<rparr>"

text \<open>One sweep: what was requeued and parked, both stores afterwards, and the errors recorded.\<close>

definition reaperSweep ::
  "millis \<Rightarrow> millis option \<Rightarrow> 'q run_store \<Rightarrow> session_store \<Rightarrow> (int \<times> int) \<times> 'q run_store \<times> session_store \<times> reap_error list"
where
  "reaperSweep now maxAgeMs rs ss =
     (let rp = reapExpired now maxAgeMs rs
      in ((rp_requeued rp, rp_parked rp), rp_store rp,
          releaseStrandedSessionLeases (rp_sessions rp) ss, map recordReapEvent (rp_events rp)))"

subsection \<open>Draining for a newer build\<close>

text \<open>\<open>dr_calls\<close> records the arguments of \<open>protection.set\<close>, in order.\<close>

record drain_state =
  dr_superseded :: bool
  dr_protectionOn :: bool
  dr_calls :: "bool list"

definition createDrainController :: drain_state where
  "createDrainController = \<lparr>dr_superseded = False, dr_protectionOn = False, dr_calls = []\<rparr>"

definition setProtection :: "bool \<Rightarrow> drain_state \<Rightarrow> drain_state" where
  "setProtection b d = d\<lparr>dr_protectionOn := b, dr_calls := dr_calls d @ [b]\<rparr>"

definition drainSweep :: "bool \<Rightarrow> bool \<Rightarrow> bool \<Rightarrow> drain_state \<Rightarrow> drain_state" where
  "drainSweep protection beat isBusy d0 =
     (let d = d0\<lparr>dr_superseded := beat\<rparr>
      in if \<not> protection then d
         else if isBusy then setProtection True d
         else if dr_protectionOn d then setProtection False d
         else d)"

definition drainStop :: "bool \<Rightarrow> drain_state \<Rightarrow> drain_state" where
  "drainStop protection d = (if dr_protectionOn d \<and> protection then setProtection False d else d)"

definition drainCanClaim :: "drain_state \<Rightarrow> bool" where
  "drainCanClaim d = (\<not> dr_superseded d)"

definition noteBusy :: "bool \<Rightarrow> drain_state \<Rightarrow> drain_state" where
  "noteBusy protection d = (if \<not> protection \<or> dr_protectionOn d then d else setProtection True d)"

datatype drain_op = DSweep bool bool | DStop | DNoteBusy

fun drain_apply :: "bool \<Rightarrow> drain_op \<Rightarrow> drain_state \<Rightarrow> drain_state" where
  "drain_apply p (DSweep beat b) d = drainSweep p beat b d"
| "drain_apply p DStop d = drainStop p d"
| "drain_apply p DNoteBusy d = noteBusy p d"

subsection \<open>A round of the loop\<close>

definition workerRound :: "string \<Rightarrow> int \<Rightarrow> string \<times> millis \<times> turn_outcome \<Rightarrow> 'q worker_sys \<Rightarrow> 'q worker_sys" where
  "workerRound workerId ttl rd w =
     (case rd of (uuid, now, out) \<Rightarrow>
        (let w1 = loopClaim True uuid now workerId ttl w
         in case wk_loop w1 of
              LClaimed c \<Rightarrow>
                (let w2 = loopResume c w1
                 in case wk_loop w2 of LHandling r \<Rightarrow> loopSettle now r out w2 | _ \<Rightarrow> w2)
            | _ \<Rightarrow> w1))"

definition serve :: "string \<Rightarrow> int \<Rightarrow> (string \<times> millis \<times> turn_outcome) list \<Rightarrow> 'q worker_sys \<Rightarrow> 'q worker_sys" where
  "serve workerId ttl rounds w = fold (workerRound workerId ttl) rounds w"

text \<open>How many more rounds a run can take, and the whole queue.\<close>

definition run_budget :: "'q run \<Rightarrow> nat" where
  "run_budget r = (if isTerminal (r_status r) then 0 else max 1 (nat (r_maxAttempts r - r_errorAttempts r)))"

definition queue_budget :: "'q run_store \<Rightarrow> nat" where
  "queue_budget s = sum_list (map run_budget (jm_values (rs_runs s)))"

lemma sum_values_update:
  assumes "jm_get m k = Some v" "jm_ok m"
  shows "sum_list (map f (jm_values (jm_set k v' m))) + f v = sum_list (map f (jm_values m)) + (f v' :: nat)"
  using assms by (induction m) (auto simp: map_of_eq_None_iff [symmetric] AList.update_conv' split: if_splits)

text \<open>An idle worker over a queue in which nothing is running.\<close>

definition quiet :: "'q worker_sys \<Rightarrow> bool" where
  "quiet w \<longleftrightarrow> \<not> wk_stopped w \<and> wk_loop w = LTop \<and> run_inv (wk_runs w) \<and>
     (\<forall>i r. get_run (wk_runs w) i = Some r \<longrightarrow> r_status r \<noteq> Running)"

lemma queue_budget_put:
  assumes "run_inv s" "get_run s (r_id r') = Some r"
  shows "queue_budget (put_run r' s) + run_budget r = queue_budget s + run_budget r'"
  using sum_values_update [of "rs_runs s" "r_id r'" r run_budget r'] assms
  by (simp add: queue_budget_def put_run_def get_run_def run_inv_def)

lemma queue_budget_settle [simp]: "queue_budget (settle r s) = queue_budget s"
  by (simp add: queue_budget_def)

lemma retire_error:
  assumes "r_status r = Running"
  obtains r' where "rs_runs (snd (retire now r err retry None True s)) = rs_runs (put_run r' s)" "r_id r' = r_id r"
    "r_status r' \<noteq> Running"
    "isTerminal (r_status r') \<or>
       (r_maxAttempts r' = r_maxAttempts r \<and> r_errorAttempts r' = r_errorAttempts r + 1 \<and> r_errorAttempts r' < r_maxAttempts r')"
proof -
  let ?r1 = "r\<lparr>r_leaseToken := None, r_leaseExpiresAt := None, r_workerId := None, r_errorAttempts := r_errorAttempts r + 1\<rparr>"
  let ?retry = "retry \<and> r_errorAttempts r + 1 < r_maxAttempts r \<and> \<not> overClaimed s ?r1"
  show thesis
  proof (cases ?retry)
    case True
    let ?r2 = "?r1\<lparr>r_status := Pending\<rparr>"
    have "retire now r err retry None True s = ((True, True), put_run ?r2 s)" using assms True by (simp add: retire_def)
    then show thesis using True by (intro that [of ?r2]) auto
  next
    case False
    let ?r2 = "?r1\<lparr>r_status := Failed,
       r_result := Some \<lparr>tr_status = TFailed, turn_result.tr_sessionId = Some (r_sessionId r), tr_reply = None, tr_reason = Some err, tr_refusalKind = None, tr_attachments = None\<rparr>,
       r_finishedAt := Some now\<rparr>"
    have "retire now r err retry None True s = ((False, True), settle ?r2 (put_run ?r2 s))"
      using assms False by (auto simp: retire_def Let_def)
    then show thesis by (intro that [of ?r2]) (auto simp: isTerminal_def)
  qed
qed

text \<open>What processing a freshly claimed run leaves behind.\<close>

lemma processRun_progress:
  assumes inv: "run_inv s" and r: "get_run s (r_id r) = Some r" "r_status r = Pending"
  obtains r' where "rs_runs (snd (processRun now (lease_run uuid now w ttl r) out (put_run (lease_run uuid now w ttl r) s))) =
        rs_runs (put_run r' (put_run (lease_run uuid now w ttl r) s))"
    "r_id r' = r_id r" "r_status r' \<noteq> Running" "run_budget r' < run_budget r"
proof -
  let ?l = "lease_run uuid now w ttl r"
  let ?s = "put_run ?l s"
  have g: "get_run ?s (r_id r) = Some ?l" by simp
  show thesis
  proof (cases out)
    case (Returned res)
    let ?d = "?l\<lparr>r_status := Done, r_result := Some res, r_leaseToken := None, r_leaseExpiresAt := None, r_finishedAt := Some now\<rparr>"
    have "rs_runs (snd (processRun now ?l out ?s)) = rs_runs (put_run ?d ?s)"
      using Returned by (simp add: processRun_def complete_def g Let_def)
    moreover have "run_budget ?d < run_budget r" using r(2) by (simp add: run_budget_def isTerminal_def)
    ultimately show thesis using that [of ?d] by simp
  next
    case (Threw msg nr)
    obtain r' where r': "rs_runs (snd (retire now ?l msg (\<not> nr) None True ?s)) = rs_runs (put_run r' ?s)" "r_id r' = r_id ?l"
      "r_status r' \<noteq> Running"
      "isTerminal (r_status r') \<or>
         (r_maxAttempts r' = r_maxAttempts ?l \<and> r_errorAttempts r' = r_errorAttempts ?l + 1 \<and> r_errorAttempts r' < r_maxAttempts r')"
      using retire_error [of ?l now msg "\<not> nr" ?s] by (metis lease_run_simps(4))
    have "rs_runs (snd (processRun now ?l out ?s)) = rs_runs (put_run r' ?s)"
      using Threw r'(1) by (simp add: processRun_def fail_def g case_prod_unfold)
    moreover have "run_budget r' < run_budget r" using r'(4) r(2) by (auto simp: run_budget_def isTerminal_def)
    ultimately show thesis using that [of r'] r'(2,3) by simp
  qed
qed

lemma run_inv_processRun: "run_inv s \<Longrightarrow> run_inv (snd (processRun now r out s))"
  by (auto simp: processRun_def run_inv_complete run_inv_fail split: option.split turn_outcome.split)

lemma quiet_claimable: "quiet w \<Longrightarrow> claimable (wk_runs w) r \<longleftrightarrow> r_status r = Pending"
  by (auto simp: quiet_def claimable_def sessionHasRunning_iff)

lemma round_progress:
  assumes q: "quiet w"
  shows "quiet (workerRound wid ttl rd w) \<and>
    queue_budget (wk_runs (workerRound wid ttl rd w)) \<le> queue_budget (wk_runs w) - 1"
proof -
  obtain uuid now out where rd: "rd = (uuid, now, out)" by (cases rd)
  let ?s = "wk_runs w"
  have inv: "run_inv ?s" and top: "\<not> wk_stopped w" "wk_loop w = LTop"
    and nr: "\<And>i r. get_run ?s i = Some r \<Longrightarrow> r_status r \<noteq> Running" using q by (auto simp: quiet_def)
  show ?thesis
  proof (rule claim_cases [OF inv, of uuid now wid ttl])
    assume c: "claim uuid now wid ttl ?s = (None, ?s)" and none: "filter (claimable ?s) (jm_values (rs_runs ?s)) = []"
    have "run_budget r = 0" if "r \<in> set (jm_values (rs_runs ?s))" for r
    proof -
      have "r_status r \<noteq> Pending" using none that quiet_claimable [OF q] by (auto simp: filter_empty_conv)
      moreover have "r_status r \<noteq> Running" using that nr run_values_iff [OF inv] by blast
      ultimately show ?thesis by (cases "r_status r") (auto simp: run_budget_def isTerminal_def)
    qed
    then have "queue_budget ?s = 0" by (simp add: queue_budget_def)
    moreover have "workerRound wid ttl rd w = w\<lparr>wk_claimFailures := 0\<rparr>"
      using c top by (simp add: workerRound_def rd loopClaim_def loopResume_def)
    ultimately show ?thesis using q by (simp add: quiet_def)
  next
    fix r
    assume r: "get_run ?s (r_id r) = Some r" "claimable ?s r"
      and c: "claim uuid now wid ttl ?s = (Some (lease_run uuid now wid ttl r), put_run (lease_run uuid now wid ttl r) ?s)"
    let ?l = "lease_run uuid now wid ttl r"
    let ?s1 = "put_run ?l ?s"
    have p: "r_status r = Pending" using r(2) by (simp add: claimable_def)
    have inv1: "run_inv ?s1" by (rule run_inv_lease [OF inv r])
    let ?w = "workerRound wid ttl rd w"
    have w: "wk_runs ?w = snd (processRun now ?l out ?s1)" "\<not> wk_stopped ?w" "wk_loop ?w = LTop"
      using c top by (simp_all add: workerRound_def rd loopClaim_def loopResume_def loopSettle_def)
    obtain r' where r': "rs_runs (wk_runs ?w) = rs_runs (put_run r' ?s1)" "r_id r' = r_id r" "r_status r' \<noteq> Running"
      "run_budget r' < run_budget r"
      using processRun_progress [OF inv r(1) p] w(1) by metis
    have "queue_budget (wk_runs ?w) = queue_budget (put_run r' ?s1)" using r'(1) by (simp add: queue_budget_def)
    moreover have "queue_budget (put_run r' ?s1) + run_budget ?l = queue_budget ?s1 + run_budget r'"
      using queue_budget_put [OF inv1, of r' ?l] r'(2) by simp
    moreover have "queue_budget ?s1 + run_budget r = queue_budget ?s + run_budget ?l"
      using queue_budget_put [OF inv, of ?l r] r(1) by simp
    moreover have "get_run (wk_runs ?w) i = (if i = r_id r then Some r' else get_run ?s i)" for i
      using r'(1,2) by (simp add: get_run_def put_run_def)
    ultimately show ?thesis
      using w run_inv_processRun [OF inv1] nr r'(3,4) by (auto simp: quiet_def)
  qed
qed

lemma serve_progress:
  "quiet w \<Longrightarrow> quiet (serve wid ttl rds w) \<and> queue_budget (wk_runs (serve wid ttl rds w)) \<le> queue_budget (wk_runs w) - length rds"
proof (induction rds arbitrary: w)
  case (Cons rd rds)
  note p = round_progress [OF Cons.prems, of wid ttl rd]
  from Cons.IH [of "workerRound wid ttl rd w"] p show ?case by (auto simp: serve_def)
qed (simp add: serve_def)

lemma budget_zero_terminal:
  assumes "quiet w" "queue_budget (wk_runs w) = 0" "get_run (wk_runs w) i = Some r"
  shows "isTerminal (r_status r)"
proof (rule ccontr)
  assume "\<not> isTerminal (r_status r)"
  then have "0 < run_budget r" by (simp add: run_budget_def)
  moreover have "r \<in> set (jm_values (rs_runs (wk_runs w)))"
    using assms(3) jm_get_in_values unfolding get_run_def by fast
  ultimately show False using assms(2) by (auto simp: queue_budget_def)
qed

text \<open>
  C13. The queue is worked off: an idle worker over a queue in which nothing is running brings every run to an end, done or failed,
  within a number of rounds known in advance, whatever its turns return or throw.\<close>

theorem worker_drains_queue:
  assumes "quiet w" "queue_budget (wk_runs w) \<le> length rounds" "get_run (wk_runs (serve workerId ttl rounds w)) i = Some r"
  shows "isTerminal (r_status r)"
proof (rule budget_zero_terminal)
  note p = serve_progress [OF assms(1), of workerId ttl rounds]
  show "quiet (serve workerId ttl rounds w)" using p by blast
  show "queue_budget (wk_runs (serve workerId ttl rounds w)) = 0" using p assms(2) by auto
qed (rule assms(3))

definition ex_worker :: "unit worker_sys" where
  "ex_worker = createWorker ex_queued createMemorySessionStore"

definition ex_rounds :: "(string \<times> millis \<times> turn_outcome) list" where
  "ex_rounds = [(''t1'', 10, Threw ''boom'' False), (''t2'', 20, Threw ''boom'' False), (''t3'', 30, Threw ''boom'' False)]"

lemma ex_worker_quiet: "quiet ex_worker"
proof -
  have "list_all (\<lambda>r. r_status r \<noteq> Running) (jm_values (rs_runs ex_queued))" by code_simp
  then have "\<forall>i r. get_run ex_queued i = Some r \<longrightarrow> r_status r \<noteq> Running"
    using jm_get_in_values unfolding get_run_def list_all_iff by fast
  then show ?thesis using reachable_run_inv [OF ex_queued_reachable] by (simp add: quiet_def ex_worker_def createWorker_def)
qed

theorem worker_drains_queue_witness:
  "\<exists>r. get_run (wk_runs (serve ''w'' 100 ex_rounds ex_worker)) ''r'' = Some r \<and> isTerminal (r_status r) \<and> r_status r = Failed"
proof -
  have b: "queue_budget (wk_runs ex_worker) \<le> length ex_rounds" by code_simp
  have "map_option r_status (get_run (wk_runs (serve ''w'' 100 ex_rounds ex_worker)) ''r'') = Some Failed" by code_simp
  then obtain r where r: "get_run (wk_runs (serve ''w'' 100 ex_rounds ex_worker)) ''r'' = Some r" "r_status r = Failed" by auto
  from worker_drains_queue [OF ex_worker_quiet b r(1)] r show ?thesis by blast
qed

subsection \<open>Giving a lost turn up\<close>

definition gaveUp :: "beat_reply list \<Rightarrow> bool" where
  "gaveUp bs \<longleftrightarrow> (\<exists>pre post. bs = pre @ [Lost, Lost, Lost] @ post)"

lemma two_lost: "(\<exists>pre. bs = pre @ [Lost, Lost]) \<longleftrightarrow> 2 \<le> length (takeWhile (\<lambda>b. b = Lost) (rev bs))"
proof -
  have "(\<exists>pre. bs = pre @ [Lost, Lost]) \<longleftrightarrow> (\<exists>t. rev bs = Lost # Lost # t)"
    by (metis append.simps append_assoc rev.simps(2) rev_rev_ident rev_append)
  also have "\<dots> \<longleftrightarrow> 2 \<le> length (takeWhile (\<lambda>b. b = Lost) (rev bs))"
    by (cases "rev bs" rule: list.exhaust; cases "tl (rev bs)") auto
  finally show ?thesis .
qed

lemma gaveUp_snoc: "gaveUp (bs @ [b]) \<longleftrightarrow> gaveUp bs \<or> (b = Lost \<and> (\<exists>pre. bs = pre @ [Lost, Lost]))"
proof
  assume "gaveUp (bs @ [b])"
  then obtain pre post where e: "bs @ [b] = pre @ [Lost, Lost, Lost] @ post" by (auto simp: gaveUp_def)
  show "gaveUp bs \<or> (b = Lost \<and> (\<exists>pre. bs = pre @ [Lost, Lost]))"
  proof (cases post rule: rev_cases)
    case Nil
    then have "bs @ [b] = (pre @ [Lost, Lost]) @ [Lost]" using e by simp
    then show ?thesis by blast
  next
    case (snoc p x)
    then have "bs @ [b] = (pre @ [Lost, Lost, Lost] @ p) @ [x]" using e by simp
    then have "bs = pre @ [Lost, Lost, Lost] @ p" by (simp only: append1_eq_conv)
    then show ?thesis unfolding gaveUp_def by blast
  qed
next
  assume "gaveUp bs \<or> (b = Lost \<and> (\<exists>pre. bs = pre @ [Lost, Lost]))"
  then show "gaveUp (bs @ [b])" unfolding gaveUp_def by (metis append.assoc append_Cons append_Nil append_Nil2)
qed

lemma beat_run:
  "bs_consecutiveLost (fold onBeat bs beatStart) = length (takeWhile (\<lambda>b. b = Lost) (rev bs)) \<and>
   (bs_leaseLost (fold onBeat bs beatStart) \<longleftrightarrow> gaveUp bs)"
proof (induction bs rule: rev_induct)
  case Nil
  then show ?case by (simp add: beatStart_def gaveUp_def)
next
  case (snoc b bs)
  then show ?case
    by (cases b) (auto simp: onBeat_def gaveUp_snoc two_lost LEASE_LOST_CONSECUTIVE_def Let_def)
qed

text \<open>
  A worker cancels its turn exactly when three heartbeats in a row found the lease lost: a heartbeat that succeeds, or that
  fails to be answered, in between starts the count again.\<close>

theorem turn_is_cancelled_after_three_lost_beats:
  "bs_leaseLost (fold onBeat beats beatStart) \<longleftrightarrow> (\<exists>pre post. beats = pre @ [Lost, Lost, Lost] @ post)"
  using beat_run [of beats] by (simp add: gaveUp_def)

subsection \<open>The worker as a state machine\<close>

text \<open>What the loop holds: a claimed run is leased, and the run in flight is the one being handled.\<close>

definition worker_inv :: "'q worker_sys \<Rightarrow> bool" where
  "worker_inv w \<longleftrightarrow> run_inv (wk_runs w) \<and>
     (case wk_loop w of
        LClaimed (Some r) \<Rightarrow> r_leaseToken r \<noteq> None \<and> wk_inFlight w = None
      | LHandling r \<Rightarrow> r_leaseToken r \<noteq> None \<and> wk_inFlight w = inFlightOf r
      | _ \<Rightarrow> wk_inFlight w = None)"

lemma worker_inv_claim:
  assumes "worker_inv w" "wk_loop w = LTop"
  shows "worker_inv (loopClaim canClaim uuid now wid ttl w)"
proof -
  have inv: "run_inv (wk_runs w)" and n: "wk_inFlight w = None" using assms by (auto simp: worker_inv_def)
  show ?thesis
    by (rule claim_cases [OF inv, of uuid now wid ttl])
      (use inv n run_inv_lease [OF inv] assms(2) in \<open>auto simp: loopClaim_def worker_inv_def\<close>)
qed

lemma releaseBegin_frame:
  "wk_loop (releaseBegin now ttl w) = wk_loop w" "wk_inFlight (releaseBegin now ttl w) = wk_inFlight w"
  by (simp_all add: releaseBegin_def case_prod_unfold split: option.split)

lemma run_inv_releaseBegin: "run_inv (wk_runs w) \<Longrightarrow> run_inv (wk_runs (releaseBegin now ttl w))"
  by (simp add: releaseBegin_def case_prod_unfold run_inv_heartbeat split: option.split)

lemma worker_step_inv: "worker_step w w' \<Longrightarrow> worker_inv w \<Longrightarrow> worker_inv w'"
proof (induction rule: worker_step.induct)
  case (w_claim w)
  then show ?case by (simp add: worker_inv_claim)
next
  case (w_resume w r)
  then show ?case
    by (auto simp: worker_inv_def loopResume_def Let_def run_inv_release split: option.splits)
next
  case (w_release w now ttl)
  then show ?case
    using run_inv_releaseBegin unfolding worker_inv_def releaseBegin_frame by blast
next
  case (w_others w s')
  then show ?case
    using run_step_inv [of "wk_runs w" s'] by (auto simp: worker_inv_def split: loop_point.splits option.splits)
qed (auto simp: worker_inv_def loopClaimThrows_def loopSettle_def workerStop_def releaseLook_def releaseForce_def
    releaseDone_def run_inv_processRun run_inv_release Let_def split: loop_point.splits option.splits)

interpretation worker: step_system worker_step worker_inv
  by unfold_locales (rule worker_step_inv)

text \<open>
  Whatever else happens to the queue and whenever the worker is stopped or asked to release its run, it counts as busy
  exactly while a turn is being handled, and what it would release is then the run, token and thread of that turn.\<close>

theorem busy_while_handling:
  assumes "worker_step\<^sup>*\<^sup>* (createWorker (createMemoryRunStore m) ss) w"
  shows "(busy w \<longleftrightarrow> (\<exists>r. wk_loop w = LHandling r)) \<and>
    (case wk_loop w of
       LHandling r \<Rightarrow> (case wk_inFlight w of
          Some h \<Rightarrow> if_runId h = r_id r \<and> Some (if_leaseToken h) = r_leaseToken r \<and> if_threadRef h = r_sessionId r
        | None \<Rightarrow> False)
     | _ \<Rightarrow> True)"
proof -
  have "worker_inv (createWorker (createMemoryRunStore m) ss)"
    by (simp add: worker_inv_def createWorker_def run_inv_init)
  then have "worker_inv w" using worker.steps_inv assms by blast
  then show ?thesis
    by (auto simp: worker_inv_def busy_def inFlightOf_def split: loop_point.splits option.splits)
qed

definition ex_handling :: "unit worker_sys" where
  "ex_handling =
     (let w = (createWorker (createMemoryRunStore None) createMemorySessionStore)\<lparr>wk_runs := ex_queued\<rparr>;
          w1 = loopClaim True ''t'' 10 ''w'' 100 w
      in loopResume (case wk_loop w1 of LClaimed c \<Rightarrow> c | _ \<Rightarrow> None) w1)"

lemma ex_handling_reachable: "worker_step\<^sup>*\<^sup>* (createWorker (createMemoryRunStore None) createMemorySessionStore) ex_handling"
proof -
  let ?init = "createWorker (createMemoryRunStore None) createMemorySessionStore :: unit worker_sys"
  let ?w = "?init\<lparr>wk_runs := ex_queued\<rparr>"
  let ?claimed = "loopClaim True ''t'' 10 ''w'' 100 ?w"
  let ?c = "case wk_loop ?claimed of LClaimed c \<Rightarrow> c | _ \<Rightarrow> None"
  have "run_step (createMemoryRunStore None) ex_queued"
    unfolding ex_queued_def by (rule step_enqueue) (simp_all add: get_run_def createMemoryRunStore_def)
  then have "run_step (wk_runs ?init) ex_queued" by (simp add: createWorker_def)
  then have "worker_step ?init ?w" by (rule w_others)
  moreover have "worker_step ?w ?claimed" by (rule w_claim) (simp add: createWorker_def)
  moreover have "worker_step ?claimed (loopResume ?c ?claimed)"
  proof (rule w_resume)
    show "wk_loop ?claimed = LClaimed ?c"
      by (simp add: loopClaim_def createWorker_def split: prod.split)
  qed
  ultimately show ?thesis
    unfolding ex_handling_def Let_def by (meson r_into_rtranclp rtranclp_trans)
qed

theorem busy_while_handling_witness: "busy ex_handling \<and> (\<exists>r. wk_loop ex_handling = LHandling r \<and> r_id r = ''r'')"
proof -
  have "case wk_loop ex_handling of LHandling r \<Rightarrow> r_id r = ''r'' | _ \<Rightarrow> False" by code_simp
  then have "\<exists>r. wk_loop ex_handling = LHandling r \<and> r_id r = ''r''" by (auto split: loop_point.splits)
  then show ?thesis using busy_while_handling [OF ex_handling_reachable] by blast
qed

subsection \<open>The reaper frees the sessions it retires runs of\<close>

lemma getByThread_forceRelease [simp]: "getByThread (forceReleaseLease i ss) ref = getByThread ss ref"
  by (simp add: getByThread_def forceReleaseLease_def split: option.split)

lemma leases_forceRelease [simp]: "ss_leases (forceReleaseLease i ss) = jm_delete i (ss_leases ss)"
  by (simp add: forceReleaseLease_def)

lemma releaseStranded_fold:
  "jm_get (ss_leases (fold (\<lambda>ref st. case getByThread st ref of None \<Rightarrow> st | Some s \<Rightarrow> forceReleaseLease (s_id s) st) refs ss)) i =
     (if \<exists>ref \<in> set refs. map_option s_id (getByThread ss ref) = Some i then None else jm_get (ss_leases ss) i)"
proof (induction refs arbitrary: ss)
  case (Cons ref refs)
  then show ?case by (auto split: option.split)
qed simp

lemma reapOne_sessions:
  "rp_sessions st = map re_sessionId (rp_events st) \<Longrightarrow>
     rp_sessions (reapOne now maxAge i st) = map re_sessionId (rp_events (reapOne now maxAge i st))"
  by (simp add: reapOne_def Let_def case_prod_unfold split: option.split)

lemma reap_sessions: "rp_sessions (reapExpired now maxAge rs) = map re_sessionId (rp_events (reapExpired now maxAge rs))"
proof -
  have "rp_sessions (fold (reapOne now maxAge) is st) = map re_sessionId (rp_events (fold (reapOne now maxAge) is st))"
    if "rp_sessions st = map re_sessionId (rp_events st)" for "is" and st :: "'a reap_state"
    using that by (induction "is" arbitrary: st) (auto simp: reapOne_sessions)
  then show ?thesis by (simp add: reapExpired_def)
qed

text \<open>
  A sweep of the reaper frees exactly the sessions whose runs it retired: the lease of the session behind the thread of a
  retired run is gone, so the retry can take it at once, and every other session keeps its lease.\<close>

theorem sweep_frees_retired_sessions:
  "case reaperSweep now maxAge rs ss of
     (counts, rs', ss', errors) \<Rightarrow>
       jm_get (ss_leases ss') i =
         (if \<exists>e \<in> set (rp_events (reapExpired now maxAge rs)). map_option s_id (getByThread ss (re_sessionId e)) = Some i
          then None else jm_get (ss_leases ss) i)"
  by (auto simp: reaperSweep_def Let_def releaseStrandedSessionLeases_def releaseStranded_fold reap_sessions)

subsection \<open>Draining\<close>

text \<open>
  The drain controller never loses track of the protection it asked for: after any sequence of sweeps, claims
  noted and stops, what it believes is what it asked for last; once stopped it is off; and it lets the worker claim exactly while the last sweep saw no newer build.\<close>

theorem drain_tracks_protection:
  "dr_protectionOn (fold (drain_apply p) ops createDrainController) =
     (dr_calls (fold (drain_apply p) ops createDrainController) \<noteq> [] \<and> last (dr_calls (fold (drain_apply p) ops createDrainController))) \<and>
   \<not> dr_protectionOn (fold (drain_apply p) (ops @ [DStop]) createDrainController) \<and>
   drainCanClaim (fold (drain_apply p) (ops @ [DSweep beat b, DNoteBusy]) createDrainController) = (\<not> beat)"
proof -
  have "dr_protectionOn d = (dr_calls d \<noteq> [] \<and> last (dr_calls d)) \<and> (dr_protectionOn d \<longrightarrow> p)"
    if "d = fold (drain_apply p) ops createDrainController" for d
    using that
  proof (induction ops arbitrary: d rule: rev_induct)
    case Nil
    then show ?case by (simp add: createDrainController_def)
  next
    case (snoc x xs)
    then show ?case
      by (cases x) (auto simp: drainSweep_def drainStop_def noteBusy_def setProtection_def Let_def)
  qed
  from this [OF refl] show ?thesis
    by (auto simp: drainStop_def setProtection_def drainCanClaim_def drainSweep_def noteBusy_def Let_def)
qed

end
