(* ===== verification/Signals.thy ===== *)
theory Signals
  imports Prelude "HOL-Library.Sublist"
begin

section \<open>Signals to a running turn\<close>

text \<open>
  Models \<open>src/src/runs/run-signal-store.ts\<close>: the memory signal store and \<open>startSignalPoll\<close>, which a harness runs beside a
  turn to hand it aborts and steering messages. The poll is a state machine over its await points: a signal is sent, the timer
  fires, one signal of the batch is handled, a handler throws, a drain finishes, the poll is stopped.
\<close>

subsection \<open>The memory store\<close>

record run_signal =
  sg_kind :: string
  sg_text :: "string option"
  sg_ts :: "string option"

record signal_store =
  sg_pending :: "(string, run_signal list) jsmap"
  sg_listeners :: "(string, nat list) jsmap"

definition createMemoryRunSignalStore :: signal_store where
  "createMemoryRunSignalStore = \<lparr>sg_pending = [], sg_listeners = []\<rparr>"

text \<open>\<open>send\<close> returns the listeners it calls, in order.\<close>

definition send :: "string \<Rightarrow> run_signal \<Rightarrow> signal_store \<Rightarrow> nat list \<times> signal_store" where
  "send runId signal st =
     (jm_list (sg_listeners st) runId,
      st\<lparr>sg_pending := jm_set runId (jm_list (sg_pending st) runId @ [signal]) (sg_pending st)\<rparr>)"

definition takePending :: "string \<Rightarrow> signal_store \<Rightarrow> run_signal list \<times> signal_store" where
  "takePending runId st =
     (jm_list (sg_pending st) runId, st\<lparr>sg_pending := jm_delete runId (sg_pending st)\<rparr>)"

definition pendingRunIds :: "signal_store \<Rightarrow> string list" where
  "pendingRunIds st = jm_keys (sg_pending st)"

definition onSignal :: "string \<Rightarrow> nat \<Rightarrow> signal_store \<Rightarrow> signal_store" where
  "onSignal runId cb st =
     (let cbs = jm_list (sg_listeners st) runId
      in st\<lparr>sg_listeners := jm_set runId (if cb \<in> set cbs then cbs else cbs @ [cb]) (sg_listeners st)\<rparr>)"

text \<open>The function \<open>onSignal\<close> returns: the last listener of a run takes the entry with it.\<close>

definition unsubscribe :: "string \<Rightarrow> nat \<Rightarrow> signal_store \<Rightarrow> signal_store" where
  "unsubscribe runId cb st =
     (let cbs = filter (\<lambda>c. c \<noteq> cb) (jm_list (sg_listeners st) runId)
      in st\<lparr>sg_listeners := (if cbs = [] then jm_delete runId (sg_listeners st) else jm_set runId cbs (sg_listeners st))\<rparr>)"

subsection \<open>The poll\<close>

datatype handled = HAbort | HSteer string "string option"

definition dispatch :: "run_signal \<Rightarrow> handled list" where
  "dispatch s =
     (if sg_kind s = ''abort'' then [HAbort]
      else if (sg_kind s = ''steer'' \<or> sg_kind s = ''followUp'') \<and> truthy (sg_text s)
      then [HSteer (the (sg_text s)) (sg_ts s)]
      else [])"

text \<open>
  The state of one poll beside its store; \<open>po_batch\<close> is what is left of the list being handled, \<open>po_seen\<close> the signals whose turn
  has come and \<open>po_out\<close> the handler calls made. \<open>po_listening\<close> covers the listener and the timer.
\<close>

record poll_state =
  po_store :: signal_store
  po_draining :: bool
  po_redrain :: bool
  po_accepting :: bool
  po_listening :: bool
  po_batch :: "run_signal list"
  po_seen :: "run_signal list"
  po_out :: "handled list"

definition startSignalPoll :: "string \<Rightarrow> signal_store \<Rightarrow> poll_state" where
  "startSignalPoll runId st =
     \<lparr>po_store = onSignal runId 0 st, po_draining = False, po_redrain = False, po_accepting = True, po_listening = True,
      po_batch = [], po_seen = [], po_out = []\<rparr>"

definition drain :: "string \<Rightarrow> bool \<Rightarrow> poll_state \<Rightarrow> poll_state" where
  "drain runId forced p =
     (if \<not> po_accepting p \<and> \<not> forced then p
      else if po_draining p then p\<lparr>po_redrain := True\<rparr>
      else (case takePending runId (po_store p) of
              (batch, st) \<Rightarrow> p\<lparr>po_store := st, po_draining := True, po_batch := batch\<rparr>))"

definition pollSend :: "string \<Rightarrow> run_signal \<Rightarrow> poll_state \<Rightarrow> poll_state" where
  "pollSend runId signal p =
     (case send runId signal (po_store p) of
        (cbs, st) \<Rightarrow> fold (\<lambda>cb q. if cb = 0 then drain runId False q else q) cbs (p\<lparr>po_store := st\<rparr>))"

definition pollTick :: "string \<Rightarrow> poll_state \<Rightarrow> poll_state" where
  "pollTick runId p = (if po_listening p then drain runId False p else p)"

definition pollHandle :: "poll_state \<Rightarrow> poll_state" where
  "pollHandle p =
     (case po_batch p of
        [] \<Rightarrow> p
      | s # rest \<Rightarrow> p\<lparr>po_batch := rest, po_seen := po_seen p @ [s], po_out := po_out p @ dispatch s\<rparr>)"

text \<open>A handler that throws ends the loop over the batch: what is left of it is gone.\<close>

definition pollThrow :: "poll_state \<Rightarrow> poll_state" where
  "pollThrow p = (case po_batch p of [] \<Rightarrow> p | s # rest \<Rightarrow> if dispatch s = [] then p else p\<lparr>po_batch := []\<rparr>)"

definition pollFinish :: "string \<Rightarrow> poll_state \<Rightarrow> poll_state" where
  "pollFinish runId p =
     (if po_draining p \<and> po_batch p = []
      then (let q = p\<lparr>po_draining := False\<rparr>
            in if po_redrain q then drain runId False (q\<lparr>po_redrain := False\<rparr>) else q)
      else p)"

definition pollStop :: "string \<Rightarrow> bool \<Rightarrow> poll_state \<Rightarrow> poll_state" where
  "pollStop runId drainOnStop p =
     (let q = p\<lparr>po_accepting := False, po_listening := False, po_store := unsubscribe runId 0 (po_store p)\<rparr>
      in if drainOnStop then drain runId True q else q)"

text \<open>The promise of the stop function resolves when nothing is being drained any more.\<close>

definition pollStopped :: "poll_state \<Rightarrow> bool" where
  "pollStopped p = (\<not> po_accepting p \<and> \<not> po_draining p)"

datatype poll_op = PSend run_signal | PTick | PHandle | PThrow | PFinish | PStop bool

fun poll_apply :: "string \<Rightarrow> poll_op \<Rightarrow> poll_state \<Rightarrow> poll_state" where
  "poll_apply i (PSend s) p = pollSend i s p"
| "poll_apply i PTick p = pollTick i p"
| "poll_apply i PHandle p = pollHandle p"
| "poll_apply i PThrow p = pollThrow p"
| "poll_apply i PFinish p = pollFinish i p"
| "poll_apply i (PStop d) p = pollStop i d p"



subsection \<open>Nothing is lost, repeated or reordered\<close>

definition waiting :: "string \<Rightarrow> poll_state \<Rightarrow> run_signal list" where
  "waiting i p = jm_list (sg_pending (po_store p)) i"

definition account :: "string \<Rightarrow> poll_state \<Rightarrow> run_signal list" where
  "account i p = po_seen p @ po_batch p @ waiting i p"

lemmas poll_defs = drain_def pollSend_def pollTick_def pollHandle_def pollFinish_def pollStop_def send_def
  takePending_def unsubscribe_def waiting_def account_def













definition ex_abort :: run_signal where
  "ex_abort = \<lparr>sg_kind = ''abort'', sg_text = None, sg_ts = None\<rparr>"

definition ex_steer :: run_signal where
  "ex_steer = \<lparr>sg_kind = ''steer'', sg_text = Some ''left'', sg_ts = None\<rparr>"


text \<open>
  Stopping with \<open>drainOnStop\<close> can leave signals behind: when a drain is under way, the forced drain only asks for another
  one, which is then refused because the poll no longer accepts. The stop completes and the abort sent before it is never handled.\<close>

theorem drain_on_stop_can_be_lost:
  "let p = fold (poll_apply ''r'') [PSend ex_steer, PSend ex_abort, PStop True, PHandle, PFinish]
             (startSignalPoll ''r'' createMemoryRunSignalStore)
   in pollStopped p \<and> po_out p = [HSteer ''left'' None] \<and> jm_list (sg_pending (po_store p)) ''r'' = [ex_abort]"
  by code_simp

text \<open>A stop that finds no drain under way does take everything that waits.\<close>

lemma drain_on_stop_when_idle:
  assumes "\<not> po_draining p"
  shows "po_batch (pollStop i True p) = waiting i p" "waiting i (pollStop i True p) = []"
  using assms by (auto simp: poll_defs Let_def jm_list_def)

subsection \<open>The stop returns\<close>

text \<open>What is left to do before the promise of the stop resolves: the signals in hand and the drain itself.\<close>

definition drainWork :: "poll_state \<Rightarrow> nat" where
  "drainWork p = length (po_batch p) + (if po_draining p then 1 else 0)"

definition stopping :: "poll_state \<Rightarrow> bool" where
  "stopping p = (\<not> po_accepting p \<and> \<not> po_listening p \<and> (po_draining p \<or> po_batch p = []))"

lemma drain_refused: "\<not> po_accepting p \<Longrightarrow> drain i False p = p"
  by (simp add: drain_def)

lemma pollSend_stopping:
  assumes "\<not> po_accepting p"
  shows "pollSend i s p = p\<lparr>po_store := snd (send i s (po_store p))\<rparr>"
proof -
  have "fold (\<lambda>cb q. if cb = 0 then drain i False q else q) cbs q = q" if "\<not> po_accepting q" for cbs :: "nat list" and q
    using that by (induction cbs) (simp_all add: drain_refused)
  then show ?thesis using assms by (simp add: pollSend_def case_prod_unfold)
qed

lemma stopping_apply:
  assumes "stopping p" "\<forall>d. op \<noteq> PStop d"
  shows "stopping (poll_apply i op p) \<and> drainWork (poll_apply i op p) \<le> drainWork p"
  using assms
  by (cases op)
     (auto simp: stopping_def drainWork_def pollSend_stopping pollTick_def pollHandle_def pollThrow_def pollFinish_def
       drain_refused Let_def split: list.splits)

lemma stopping_run:
  assumes "stopping p" "\<forall>d. PStop d \<notin> set ops"
  shows "stopping (fold (poll_apply i) ops p) \<and> drainWork (fold (poll_apply i) ops p) \<le> drainWork p"
  using assms
proof (induction ops arbitrary: p)
  case (Cons op ops)
  then have "stopping (poll_apply i op p) \<and> drainWork (poll_apply i op p) \<le> drainWork p"
    by (intro stopping_apply) auto
  with Cons.IH [of "poll_apply i op p"] Cons.prems(2) show ?case by fastforce
qed simp

text \<open>One handler that settles and one end of a drain, with anything in between, leave less to do.\<close>

lemma poll_round_progress:
  assumes "stopping p" "\<forall>d. PStop d \<notin> set b" "drainWork p > 0"
  shows "drainWork (pollFinish i (fold (poll_apply i) b (pollHandle p))) < drainWork p"
proof -
  have h: "stopping (pollHandle p) \<and> drainWork (pollHandle p) \<le> drainWork p"
    using stopping_apply [OF assms(1), of PHandle i] by simp
  let ?q = "fold (poll_apply i) b (pollHandle p)"
  have q: "stopping ?q" "drainWork ?q \<le> drainWork (pollHandle p)" using stopping_run [OF _ assms(2)] h by auto
  have f: "drainWork (pollFinish i ?q) \<le> drainWork ?q" using stopping_apply [OF q(1), of PFinish i] by simp
  show ?thesis
  proof (cases "po_batch p")
    case (Cons s rest)
    then have "drainWork (pollHandle p) < drainWork p" by (simp add: pollHandle_def drainWork_def)
    with q(2) f show ?thesis by simp
  next
    case Nil
    then have w: "drainWork p = 1" using assms(3) by (simp add: drainWork_def split: if_splits)
    show ?thesis
    proof (cases "drainWork ?q = 0")
      case False
      then have "po_draining ?q" "po_batch ?q = []"
        using q h w by (auto simp: drainWork_def stopping_def split: if_splits)
      then have "drainWork (pollFinish i ?q) = 0"
        using q(1) by (simp add: pollFinish_def drain_refused drainWork_def stopping_def Let_def)
      with w show ?thesis by simp
    qed (use f w in simp)
  qed
qed

lemma rounds_finish:
  assumes "stopping p" "\<forall>d. PStop d \<notin> set ops" "subseq (concat (replicate n [PHandle, PFinish])) ops" "drainWork p \<le> n"
  shows "drainWork (fold (poll_apply i) ops p) = 0"
  using assms
proof (induction n arbitrary: p ops)
  case 0
  then show ?case using stopping_run [OF "0.prems"(1,2), of i] by simp
next
  case (Suc n)
  from Suc.prems(3) have "subseq (PHandle # PFinish # concat (replicate n [PHandle, PFinish])) ops" by simp
  then obtain a r1 where ops1: "ops = a @ PHandle # r1" "subseq (PFinish # concat (replicate n [PHandle, PFinish])) r1"
    by (auto simp: list_emb_ConsD dest!: list_emb_ConsD)
  then obtain b c where ops2: "r1 = b @ PFinish # c" "subseq (concat (replicate n [PHandle, PFinish])) c"
    by (auto dest!: list_emb_ConsD)
  have no: "\<forall>d. PStop d \<notin> set a" "\<forall>d. PStop d \<notin> set b" "\<forall>d. PStop d \<notin> set c"
    using Suc.prems(2) ops1 ops2 by auto
  let ?p1 = "fold (poll_apply i) a p"
  let ?p2 = "pollFinish i (fold (poll_apply i) b (pollHandle ?p1))"
  have p1: "stopping ?p1" "drainWork ?p1 \<le> drainWork p" using stopping_run [OF Suc.prems(1) no(1), of i] by auto
  have s2: "stopping ?p2" "drainWork ?p2 \<le> drainWork ?p1"
    using stopping_run [OF p1(1), of "PHandle # b @ [PFinish]" i] no(2) by auto
  have "drainWork ?p2 \<le> n"
    using poll_round_progress [OF p1(1) no(2), of i] s2(2) p1(2) Suc.prems(4) by (cases "drainWork ?p1 = 0") auto
  from Suc.IH [OF s2(1) no(3) ops2(2) this] show ?case by (simp add: ops1 ops2)
qed

lemma stop_stopping: "po_draining p \<or> po_batch p = [] \<Longrightarrow> stopping (pollStop i d p)"
  by (auto simp: pollStop_def stopping_def drain_def takePending_def Let_def)

definition drains_apart :: "poll_state \<Rightarrow> bool" where
  "drains_apart p = (po_draining p \<or> po_batch p = [])"

lemma drains_apart_drain: "drains_apart p \<Longrightarrow> drains_apart (drain i f p)"
  by (auto simp: drains_apart_def drain_def takePending_def)

lemma drains_apart_send: "drains_apart p \<Longrightarrow> drains_apart (pollSend i s p)"
proof -
  assume "drains_apart p"
  then have "drains_apart (p\<lparr>po_store := st\<rparr>)" for st by (simp add: drains_apart_def)
  moreover have "drains_apart q \<Longrightarrow> drains_apart (fold (\<lambda>cb q. if cb = 0 then drain i False q else q) cbs q)"
    for cbs :: "nat list" and q by (induction cbs arbitrary: q) (simp_all add: drains_apart_drain)
  ultimately show ?thesis by (simp add: pollSend_def case_prod_unfold)
qed

lemma drains_apart_finish: "drains_apart p \<Longrightarrow> drains_apart (pollFinish i p)"
  by (auto simp: pollFinish_def Let_def drain_def takePending_def drains_apart_def)

lemma drains_apart_apply:
  assumes "drains_apart p" "\<forall>d. op \<noteq> PStop d"
  shows "drains_apart (poll_apply i op p)"
  using assms
  by (cases op)
     (simp_all add: drains_apart_send drains_apart_finish drains_apart_drain pollTick_def,
      auto simp: pollHandle_def pollThrow_def drains_apart_def split: list.splits)

lemma drains_apart_run:
  "drains_apart p \<Longrightarrow> \<forall>d. PStop d \<notin> set ops \<Longrightarrow> drains_apart (fold (poll_apply i) ops p)"
proof (induction ops arbitrary: p)
  case (Cons op ops)
  then have "drains_apart (poll_apply i op p)" by (intro drains_apart_apply) auto
  with Cons show ?case by simp
qed simp

text \<open>
  Stopping a poll returns. After the stop no drain starts any more, so that whatever is sent and
  whenever the timer fires, the promise has resolved once as many handlers have settled and drains
  have ended as there were signals in hand, and one more.
\<close>

theorem stop_of_poll_returns:
  assumes "\<forall>x. PStop x \<notin> set ops" "\<forall>x. PStop x \<notin> set later"
    and "subseq (concat (replicate (Suc (length (po_batch (fold (poll_apply i) (ops @ [PStop d]) (startSignalPoll i st)))))
           [PHandle, PFinish])) later"
  shows "pollStopped (fold (poll_apply i) (ops @ [PStop d] @ later) (startSignalPoll i st))"
proof -
  have "drains_apart (startSignalPoll i st)" by (simp add: drains_apart_def startSignalPoll_def)
  then have "drains_apart (fold (poll_apply i) ops (startSignalPoll i st))" using assms(1) by (rule drains_apart_run)
  then have "stopping (fold (poll_apply i) (ops @ [PStop d]) (startSignalPoll i st))" (is "stopping ?p")
    by (simp add: drains_apart_def stop_stopping)
  moreover have "drainWork ?p \<le> Suc (length (po_batch ?p))" by (simp add: drainWork_def)
  ultimately have "drainWork (fold (poll_apply i) later ?p) = 0" "stopping (fold (poll_apply i) later ?p)"
    using rounds_finish [OF _ assms(2,3), where i = i] stopping_run [OF _ assms(2)] by blast+
  then show ?thesis by (simp add: pollStopped_def drainWork_def stopping_def split: if_splits)
qed

lemma stop_of_poll_returns_witness:
  "pollStopped (fold (poll_apply ''r'') ([PSend ex_steer] @ [PStop False] @ [PTick, PHandle, PSend ex_steer, PFinish, PHandle, PFinish])
     (startSignalPoll ''r'' createMemoryRunSignalStore))"
proof (rule stop_of_poll_returns)
  have "length (po_batch (fold (poll_apply ''r'') ([PSend ex_steer] @ [PStop False]) (startSignalPoll ''r'' createMemoryRunSignalStore))) = 1"
    by code_simp
  then show "subseq (concat (replicate (Suc (length (po_batch (fold (poll_apply ''r'') ([PSend ex_steer] @ [PStop False])
      (startSignalPoll ''r'' createMemoryRunSignalStore))))) [PHandle, PFinish]))
      [PTick, PHandle, PSend ex_steer, PFinish, PHandle, PFinish]" by simp
qed simp_all

end
