(* ===== verification/Tasks.thy ===== *)
theory Tasks
  imports Prelude
begin

section \<open>Tasks\<close>

text \<open>
  Models \<open>src/src/tasks/task-store.ts\<close> and \<open>src/src/tasks/memory-task-store.ts\<close>: the tasks of a session and the log of their
  status changes. The clock and \<open>randomUUID\<close> are arguments; so is the order of \<open>localeCompare\<close>.
\<close>

datatype task_status = TaskPending | TaskInProgress | TaskCompleted | TaskSkipped | TaskFailed

datatype task_event_type = TaskCreated | TaskStatusChanged

record task =
  tk_id :: string
  tk_sessionId :: string
  tk_originRunId :: string
  tk_title :: string
  tk_status :: task_status
  tk_createdAt :: millis
  tk_updatedAt :: millis

record task_event =
  tv_id :: string
  tv_taskId :: string
  tv_runId :: string
  tv_type :: task_event_type
  tv_fromStatus :: "task_status option"
  tv_toStatus :: task_status
  tv_createdAt :: millis

record create_task_input =
  ct_id :: "string option"
  ct_sessionId :: string
  ct_originRunId :: string
  ct_title :: string
  ct_status :: "task_status option"

record task_filter =
  tf_sessionId :: "string option"
  tf_originRunId :: "string option"
  tf_statuses :: "task_status list option"

record task_store =
  ts_tasks :: "(string, task) jsmap"
  ts_events :: "(string, task_event list) jsmap"
  ts_nextEventId :: nat

definition isOpenTask :: "task_status \<Rightarrow> bool" where
  "isOpenTask st = (st = TaskPending \<or> st = TaskInProgress)"

definition createMemoryTaskStore :: task_store where
  "createMemoryTaskStore = \<lparr>ts_tasks = [], ts_events = [], ts_nextEventId = 1\<rparr>"

definition appendEvent ::
  "string \<Rightarrow> string \<Rightarrow> task_status option \<Rightarrow> task_status \<Rightarrow> millis \<Rightarrow> task_store \<Rightarrow> task_store"
where
  "appendEvent taskId runId fromStatus toStatus at st =
     st\<lparr>ts_events := jm_set taskId (jm_list (ts_events st) taskId @
          [\<lparr>tv_id = show_nat (ts_nextEventId st), tv_taskId = taskId, tv_runId = runId,
            tv_type = (if fromStatus = None then TaskCreated else TaskStatusChanged),
            tv_fromStatus = fromStatus, tv_toStatus = toStatus, tv_createdAt = at\<rparr>]) (ts_events st),
        ts_nextEventId := ts_nextEventId st + 1\<rparr>"

definition taskMatches :: "task_filter \<Rightarrow> task \<Rightarrow> bool" where
  "taskMatches f t =
     ((case tf_sessionId f of None \<Rightarrow> True | Some s \<Rightarrow> tk_sessionId t = s) \<and>
      (case tf_originRunId f of None \<Rightarrow> True | Some r \<Rightarrow> tk_originRunId t = r))"

text \<open>\<open>sort\<close> with a comparison: a stable sort; \<open>before a b\<close> when \<open>a\<close> does not come after \<open>b\<close>.\<close>

fun insert_by :: "('a \<Rightarrow> 'a \<Rightarrow> bool) \<Rightarrow> 'a \<Rightarrow> 'a list \<Rightarrow> 'a list" where
  "insert_by before x [] = [x]"
| "insert_by before x (y # ys) = (if before x y then x # y # ys else y # insert_by before x ys)"

definition sort_by :: "('a \<Rightarrow> 'a \<Rightarrow> bool) \<Rightarrow> 'a list \<Rightarrow> 'a list" where
  "sort_by before xs = foldr (insert_by before) xs []"

definition taskBefore :: "(string \<Rightarrow> string \<Rightarrow> bool) \<Rightarrow> task \<Rightarrow> task \<Rightarrow> bool" where
  "taskBefore collate a b =
     (tk_createdAt a < tk_createdAt b \<or> (tk_createdAt a = tk_createdAt b \<and> collate (tk_id a) (tk_id b)))"

definition ordered :: "(string \<Rightarrow> string \<Rightarrow> bool) \<Rightarrow> task list \<Rightarrow> task list" where
  "ordered collate ts = sort_by (taskBefore collate) ts"

definition newTask :: "string \<Rightarrow> millis \<Rightarrow> create_task_input \<Rightarrow> task" where
  "newTask i at inp =
     \<lparr>tk_id = i, tk_sessionId = ct_sessionId inp, tk_originRunId = ct_originRunId inp, tk_title = ct_title inp,
      tk_status = (case ct_status inp of Some s \<Rightarrow> s | None \<Rightarrow> TaskPending), tk_createdAt = at, tk_updatedAt = at\<rparr>"

definition task_create :: "string \<Rightarrow> millis \<Rightarrow> create_task_input \<Rightarrow> task_store \<Rightarrow> (string + task) \<times> task_store" where
  "task_create uuid at inp st =
     (let i = (case ct_id inp of Some x \<Rightarrow> x | None \<Rightarrow> uuid)
      in if jm_get (ts_tasks st) i \<noteq> None then (Inl (''task '' @ i @ '' already exists''), st)
         else
           (let t = newTask i at inp
            in (Inr t, appendEvent i (ct_originRunId inp) None (tk_status t) at (st\<lparr>ts_tasks := jm_set i t (ts_tasks st)\<rparr>))))"

definition task_get :: "string \<Rightarrow> task_store \<Rightarrow> task option" where
  "task_get i st = jm_get (ts_tasks st) i"

definition task_list :: "(string \<Rightarrow> string \<Rightarrow> bool) \<Rightarrow> task_filter \<Rightarrow> task_store \<Rightarrow> task list" where
  "task_list collate f st =
     ordered collate
       (filter (\<lambda>t. taskMatches f t \<and> (case tf_statuses f of None \<Rightarrow> True | Some ss \<Rightarrow> tk_status t \<in> set ss))
          (jm_values (ts_tasks st)))"

definition listOpen :: "(string \<Rightarrow> string \<Rightarrow> bool) \<Rightarrow> task_filter \<Rightarrow> task_store \<Rightarrow> task list" where
  "listOpen collate f st =
     ordered collate (filter (\<lambda>t. taskMatches f t \<and> isOpenTask (tk_status t)) (jm_values (ts_tasks st)))"

definition transitionStatus ::
  "millis \<Rightarrow> string \<Rightarrow> task_status \<Rightarrow> task_status \<Rightarrow> string \<Rightarrow> task_store \<Rightarrow> task option \<times> task_store"
where
  "transitionStatus at i expectedStatus nextStatus runId st =
     (case jm_get (ts_tasks st) i of
        None \<Rightarrow> (None, st)
      | Some t \<Rightarrow>
          (if tk_status t \<noteq> expectedStatus then (None, st)
           else
             (let t' = t\<lparr>tk_status := nextStatus, tk_updatedAt := at\<rparr>
              in (Some t', appendEvent i runId (Some expectedStatus) nextStatus at (st\<lparr>ts_tasks := jm_set i t' (ts_tasks st)\<rparr>)))))"

definition listEvents :: "string \<Rightarrow> task_store \<Rightarrow> task_event list" where
  "listEvents i st = jm_list (ts_events st) i"

inductive task_step :: "task_store \<Rightarrow> task_store \<Rightarrow> bool" where
  step_create: "task_step st (snd (task_create uuid at inp st))"
| step_transition: "task_step st (snd (transitionStatus at i expected nxt runId st))"

text \<open>
  A log tells the story of a status: it begins with the creation, each change starts from where the one before
  ended, and the last one ends in the status.
\<close>

fun chain :: "task_status option \<Rightarrow> task_event list \<Rightarrow> task_status option" where
  "chain s [] = s"
| "chain s (e # es) = (if tv_fromStatus e = s then chain (Some (tv_toStatus e)) es else None)"

lemma chain_append: "chain s xs = Some y \<Longrightarrow> chain s (xs @ es) = chain (Some y) es"
  by (induction s xs rule: chain.induct) (auto split: if_splits)

definition story :: "task option \<Rightarrow> task_event list \<Rightarrow> bool" where
  "story t es \<longleftrightarrow> (case t of None \<Rightarrow> es = [] | Some x \<Rightarrow> es \<noteq> [] \<and> chain None es = Some (tk_status x))"

definition task_ok :: "task_store \<Rightarrow> bool" where
  "task_ok st \<longleftrightarrow> (\<forall>i. story (jm_get (ts_tasks st) i) (jm_list (ts_events st) i))"

lemma task_ok_append:
  assumes "task_ok st" "tk_status t = to" "story (jm_get (ts_tasks st) i) es" "es = jm_list (ts_events st) i"
    "from = map_option tk_status (jm_get (ts_tasks st) i)"
  shows "task_ok (appendEvent i runId from to at (st\<lparr>ts_tasks := jm_set i t (ts_tasks st)\<rparr>))"
proof -
  let ?e = "\<lparr>tv_id = show_nat (ts_nextEventId st), tv_taskId = i, tv_runId = runId,
     tv_type = (if from = None then TaskCreated else TaskStatusChanged), tv_fromStatus = from, tv_toStatus = to, tv_createdAt = at\<rparr>"
  have "story (Some t) (es @ [?e])"
    using assms(2,3,5) by (cases "jm_get (ts_tasks st) i") (simp_all add: story_def chain_append)
  then show ?thesis using assms(1,4) by (auto simp: task_ok_def appendEvent_def)
qed

lemma task_ok_create:
  assumes "task_ok st"
  shows "task_ok (snd (task_create uuid at inp st))"
proof -
  let ?i = "case ct_id inp of Some x \<Rightarrow> x | None \<Rightarrow> uuid"
  have "story (jm_get (ts_tasks st) ?i) (jm_list (ts_events st) ?i)" using assms by (simp add: task_ok_def)
  from task_ok_append [OF assms refl this refl refl] show ?thesis
    using assms by (cases "jm_get (ts_tasks st) ?i") (simp_all add: task_create_def Let_def)
qed

lemma task_ok_transition:
  assumes "task_ok st"
  shows "task_ok (snd (transitionStatus at i expected nxt runId st))"
proof -
  have "story (jm_get (ts_tasks st) i) (jm_list (ts_events st) i)" using assms by (simp add: task_ok_def)
  then show ?thesis
    using assms task_ok_append [OF assms, of _ nxt i] by (auto simp: transitionStatus_def Let_def split: option.split)
qed

interpretation task_sys: step_system task_step task_ok
  by unfold_locales (auto elim!: task_step.cases intro: task_ok_create task_ok_transition)

lemma task_ok_start: "task_ok createMemoryTaskStore"
  by (simp add: task_ok_def createMemoryTaskStore_def jm_list_def story_def)

text \<open>
  C15. The status of a task is the end of its recorded history: in every reachable store the events of a task form a chain from its
  creation, each starting from the status the one before reached, to the current status, and a task that does not exist has none.\<close>

theorem task_status_is_its_history:
  assumes "task_step\<^sup>*\<^sup>* createMemoryTaskStore st"
  shows "case task_get i st of
       None \<Rightarrow> listEvents i st = []
     | Some t \<Rightarrow> listEvents i st \<noteq> [] \<and> chain None (listEvents i st) = Some (tk_status t)"
proof -
  have "story (task_get i st) (listEvents i st)"
    using task_sys.steps_inv [OF assms task_ok_start] by (simp add: task_ok_def task_get_def listEvents_def)
  then show ?thesis by (simp add: story_def)
qed

definition ex_task_input :: create_task_input where
  "ex_task_input = \<lparr>ct_id = Some ''a'', ct_sessionId = ''s'', ct_originRunId = ''r'', ct_title = ''do'', ct_status = None\<rparr>"

definition ex_tasks :: task_store where
  "ex_tasks =
     snd (transitionStatus 9 ''a'' TaskPending TaskCompleted ''r'' (snd (task_create ''u'' 5 ex_task_input createMemoryTaskStore)))"

theorem task_status_is_its_history_witness:
  "chain None (listEvents ''a'' ex_tasks) = Some TaskCompleted \<and> length (listEvents ''a'' ex_tasks) = 2"
proof -
  have "task_step\<^sup>*\<^sup>* createMemoryTaskStore ex_tasks"
    unfolding ex_tasks_def by (meson step_create step_transition r_into_rtranclp rtranclp_trans)
  moreover have "map_option tk_status (task_get ''a'' ex_tasks) = Some TaskCompleted" "length (listEvents ''a'' ex_tasks) = 2"
    by code_simp+
  ultimately show ?thesis using task_status_is_its_history [of ex_tasks "''a''"] by (auto split: option.splits)
qed

end
