(* ===== verification/Delivery.thy ===== *)
theory Delivery
  imports Cron Transcript
begin

section \<open>Outgoing deliveries\<close>

text \<open>
  Models \<open>src/src/delivery/delivery-store.ts\<close> (the memory store): messages to a surface, enqueued under an idempotency key, claimed by
  a poller for some time and acknowledged. The clock and \<open>randomUUID\<close> are arguments. Attachments are kept as JSON.
\<close>

record provenance =
  pv_fireKey :: string
  pv_sourceThreadRef :: string
  pv_sourceSessionId :: "string option"

record delivery =
  dv_id :: string
  dv_destination :: destination
  dv_text :: string
  dv_attachments :: "json list option"
  dv_provenance :: "provenance option"
  dv_idempotencyKey :: string
  dv_createdAt :: millis
  dv_deliveredAt :: "millis option"
  dv_shadow :: bool
  dv_recipientThreadRef :: "string option"
  dv_deliverLatencyMs :: "int option"
  dv_slackApiMs :: "int option"

record delivery_input =
  di_destination :: destination
  di_text :: string
  di_attachments :: "json list option"
  di_provenance :: "provenance option"
  di_idempotencyKey :: string
  di_shadow :: bool

record delivery_store =
  ds_deliveries :: "(string, delivery) jsmap"
  ds_byKey :: "(string, string) jsmap"
  ds_claimedUntil :: "(string, millis) jsmap"

definition createDeliveryStore :: delivery_store where
  "createDeliveryStore = \<lparr>ds_deliveries = [], ds_byKey = [], ds_claimedUntil = []\<rparr>"

definition newDelivery :: "string \<Rightarrow> millis \<Rightarrow> delivery_input \<Rightarrow> delivery" where
  "newDelivery uuid now inp =
     \<lparr>dv_id = uuid, dv_destination = di_destination inp, dv_text = di_text inp,
      dv_attachments = (case di_attachments inp of Some (a # as) \<Rightarrow> Some (a # as) | _ \<Rightarrow> None),
      dv_provenance = di_provenance inp, dv_idempotencyKey = di_idempotencyKey inp, dv_createdAt = now,
      dv_deliveredAt = None, dv_shadow = di_shadow inp, dv_recipientThreadRef = None, dv_deliverLatencyMs = None,
      dv_slackApiMs = None\<rparr>"

definition existingFor :: "string \<Rightarrow> delivery_store \<Rightarrow> string option" where
  "existingFor key st = (case jm_get (ds_byKey st) key of Some i \<Rightarrow> if i = [] then None else Some i | None \<Rightarrow> None)"

definition putDelivery :: "delivery \<Rightarrow> delivery_store \<Rightarrow> delivery_store" where
  "putDelivery d st = st\<lparr>ds_deliveries := jm_set (dv_id d) d (ds_deliveries st)\<rparr>"

definition getDelivery :: "string \<Rightarrow> delivery_store \<Rightarrow> delivery option" where
  "getDelivery i st = jm_get (ds_deliveries st) i"

text \<open>The second result tells whether the listeners of \<open>onEnqueue\<close> are called.\<close>

definition delivery_enqueue ::
  "string \<Rightarrow> millis \<Rightarrow> delivery_input \<Rightarrow> delivery_store \<Rightarrow> (delivery option \<times> bool) \<times> delivery_store"
where
  "delivery_enqueue uuid now inp st =
     (case existingFor (di_idempotencyKey inp) st of
        Some i \<Rightarrow> ((getDelivery i st, False), st)
      | None \<Rightarrow>
          (let d = newDelivery uuid now inp; st1 = putDelivery d st
           in ((Some d, \<not> dv_shadow d),
               st1\<lparr>ds_byKey := jm_set (dv_idempotencyKey d) (dv_id d) (ds_byKey st1)\<rparr>)))"

definition isPending :: "string \<Rightarrow> delivery \<Rightarrow> bool" where
  "isPending ty d = (dv_deliveredAt d = None \<and> \<not> dv_shadow d \<and> d_type (dv_destination d) = ty)"

definition pending :: "string \<Rightarrow> delivery_store \<Rightarrow> delivery list" where
  "pending ty st = filter (isPending ty) (jm_values (ds_deliveries st))"

definition claimUntilOf :: "delivery_store \<Rightarrow> string \<Rightarrow> millis" where
  "claimUntilOf st i = (case jm_get (ds_claimedUntil st) i of Some t \<Rightarrow> t | None \<Rightarrow> 0)"

definition claimPending :: "millis \<Rightarrow> string \<Rightarrow> int \<Rightarrow> delivery_store \<Rightarrow> delivery list \<times> delivery_store" where
  "claimPending now ty ttlMs st =
     (let rows = filter (\<lambda>d. isPending ty d \<and> claimUntilOf st (dv_id d) \<le> now) (jm_values (ds_deliveries st))
      in (rows, st\<lparr>ds_claimedUntil := fold (\<lambda>d. jm_set (dv_id d) (now + ttlMs)) rows (ds_claimedUntil st)\<rparr>))"

definition limitOr :: "int \<Rightarrow> int option \<Rightarrow> nat" where
  "limitOr dflt limit = nat (max 1 (case limit of Some n \<Rightarrow> n | None \<Rightarrow> dflt))"

definition listShadow :: "int option \<Rightarrow> delivery_store \<Rightarrow> delivery list" where
  "listShadow limit st =
     take (limitOr 100 limit)
       (sort_key (\<lambda>d. - dv_createdAt d) (filter (\<lambda>d. dv_shadow d \<and> dv_deliveredAt d = None) (jm_values (ds_deliveries st))))"

definition ack :: "string \<Rightarrow> millis \<Rightarrow> int option \<Rightarrow> delivery_store \<Rightarrow> delivery_store" where
  "ack i at slackApiMs st =
     (case getDelivery i st of
        None \<Rightarrow> st
      | Some d \<Rightarrow>
          (if dv_deliveredAt d = None
           then putDelivery (d\<lparr>dv_deliveredAt := Some at, dv_deliverLatencyMs := Some (max 0 (at - dv_createdAt d)),
                              dv_slackApiMs := (case slackApiMs of Some n \<Rightarrow> Some n | None \<Rightarrow> dv_slackApiMs d)\<rparr>) st
           else st))"

definition tombstone :: "string \<Rightarrow> string \<Rightarrow> millis \<Rightarrow> delivery" where
  "tombstone uuid key at =
     \<lparr>dv_id = uuid, dv_destination = \<lparr>d_type = ''ack-tombstone'', d_target = [], d_audienceScopeId = None, d_rest = []\<rparr>,
      dv_text = [], dv_attachments = None, dv_provenance = None, dv_idempotencyKey = key, dv_createdAt = at,
      dv_deliveredAt = Some at, dv_shadow = False, dv_recipientThreadRef = None, dv_deliverLatencyMs = None,
      dv_slackApiMs = None\<rparr>"

definition ackByKey :: "string \<Rightarrow> string \<Rightarrow> millis \<Rightarrow> delivery_store \<Rightarrow> delivery_store" where
  "ackByKey uuid key at st =
     (case existingFor key st of
        Some i \<Rightarrow>
          (case getDelivery i st of
             None \<Rightarrow> st
           | Some d \<Rightarrow> if dv_deliveredAt d = None then putDelivery (d\<lparr>dv_deliveredAt := Some at\<rparr>) st else st)
      | None \<Rightarrow>
          (let st1 = putDelivery (tombstone uuid key at) st in st1\<lparr>ds_byKey := jm_set key uuid (ds_byKey st1)\<rparr>))"

definition setEditRefByKey :: "string \<Rightarrow> string \<Rightarrow> delivery_store \<Rightarrow> delivery_store" where
  "setEditRefByKey key editRef st =
     (case Option.bind (existingFor key st) (\<lambda>i. getDelivery i st) of
        None \<Rightarrow> st
      | Some d \<Rightarrow>
          (if dv_deliveredAt d = None
           then putDelivery (d\<lparr>dv_destination := (dv_destination d)\<lparr>d_rest := AList.update ''editRef'' (JStr editRef) (d_rest (dv_destination d))\<rparr>\<rparr>) st
           else st))"

definition recordRecipientThread :: "string \<Rightarrow> string \<Rightarrow> millis \<Rightarrow> delivery_store \<Rightarrow> delivery_store" where
  "recordRecipientThread i ref at st =
     (case getDelivery i st of
        None \<Rightarrow> st
      | Some d \<Rightarrow>
          (if d_type (dv_destination d) \<noteq> ''principal'' then st
           else putDelivery (d\<lparr>dv_recipientThreadRef := Some ref,
                              dv_deliveredAt := (case dv_deliveredAt d of None \<Rightarrow> Some at | Some t \<Rightarrow> Some t)\<rparr>) st))"

definition listByRecipientThread :: "string \<Rightarrow> int option \<Rightarrow> delivery_store \<Rightarrow> delivery list" where
  "listByRecipientThread ref limit st =
     slice_neg (int (limitOr 20 limit))
       (sort_key dv_createdAt
          (filter (\<lambda>d. dv_recipientThreadRef d = Some ref \<and> d_type (dv_destination d) = ''principal'') (jm_values (ds_deliveries st))))"

definition listBySourceSession :: "string \<Rightarrow> string \<Rightarrow> int option \<Rightarrow> delivery_store \<Rightarrow> delivery list" where
  "listBySourceSession sid ref limit st =
     slice_neg (int (limitOr 20 limit))
       (sort_key dv_createdAt
          (filter (\<lambda>d. case dv_provenance d of
                         None \<Rightarrow> False
                       | Some p \<Rightarrow> pv_sourceSessionId p = Some sid \<or> pv_sourceThreadRef p = ref)
             (jm_values (ds_deliveries st))))"

definition countOne :: "string option \<Rightarrow> (string, nat) jsmap \<Rightarrow> (string, nat) jsmap" where
  "countOne i counts =
     (if truthy i
      then jm_set (the i) ((case jm_get counts (the i) of Some n \<Rightarrow> n | None \<Rightarrow> 0) + 1) counts
      else counts)"

text \<open>The session a delivery counts for: by identifier, or by thread where it names no session.\<close>

definition sourceOf :: "(string \<times> string) list \<Rightarrow> delivery \<Rightarrow> string option" where
  "sourceOf sources d =
     (case dv_provenance d of
        None \<Rightarrow> None
      | Some p \<Rightarrow>
          (if dv_shadow d then None
           else if truthy (pv_sourceSessionId p)
           then (if the (pv_sourceSessionId p) \<in> fst ` set sources then pv_sourceSessionId p else None)
           else if pv_sourceThreadRef p \<noteq> []
           then map_of (rev (map (\<lambda>(sid, ref). (ref, sid)) sources)) (pv_sourceThreadRef p)
           else None))"

definition sentCountsBySourceSessions :: "(string \<times> string) list \<Rightarrow> delivery_store \<Rightarrow> (string, nat) jsmap" where
  "sentCountsBySourceSessions sources st = fold (\<lambda>d. countOne (sourceOf sources d)) (jm_values (ds_deliveries st)) []"

definition cronRunOf :: "string list \<Rightarrow> delivery \<Rightarrow> (string \<times> string) option" where
  "cronRunOf wanted d =
     (case dv_provenance d of
        None \<Rightarrow> None
      | Some p \<Rightarrow>
          (if dv_shadow d \<or> pv_sourceThreadRef p = [] then None
           else
             (let cronId = cronIdOf (Some (pv_sourceThreadRef p))
              in if \<not> truthy cronId \<or> the cronId \<notin> set wanted then None
                 else Some (the cronId, case pv_sourceSessionId p of Some x \<Rightarrow> x | None \<Rightarrow> pv_sourceThreadRef p))))"

definition addRun :: "(string \<times> string) option \<Rightarrow> (string, string list) jsmap \<Rightarrow> (string, string list) jsmap" where
  "addRun cr runs =
     (case cr of
        None \<Rightarrow> runs
      | Some (c, r) \<Rightarrow> (let rs = jm_list runs c in jm_set c (if r \<in> set rs then rs else rs @ [r]) runs))"

definition sentRunCountsByCron :: "string list \<Rightarrow> delivery_store \<Rightarrow> (string, nat) jsmap" where
  "sentRunCountsByCron cronIds st =
     map (\<lambda>(c, rs). (c, length rs)) (fold (\<lambda>d. addRun (cronRunOf cronIds d)) (jm_values (ds_deliveries st)) [])"

subsection \<open>The store as a state machine\<close>

datatype delivery_op =
    DEnqueue string millis delivery_input
  | DClaim millis string int
  | DAck string millis "int option"
  | DAckByKey string string millis
  | DSetEditRef string string
  | DRecordThread string string millis

fun delivery_apply :: "delivery_op \<Rightarrow> delivery_store \<Rightarrow> delivery_store" where
  "delivery_apply (DEnqueue uuid now inp) st = snd (delivery_enqueue uuid now inp st)"
| "delivery_apply (DClaim now ty ttl) st = snd (claimPending now ty ttl st)"
| "delivery_apply (DAck i at ms) st = ack i at ms st"
| "delivery_apply (DAckByKey uuid key at) st = ackByKey uuid key at st"
| "delivery_apply (DSetEditRef key ref) st = setEditRefByKey key ref st"
| "delivery_apply (DRecordThread i ref at) st = recordRecipientThread i ref at st"

text \<open>A new delivery gets an identifier that is not in use.\<close>

fun delivery_fresh :: "delivery_op \<Rightarrow> delivery_store \<Rightarrow> bool" where
  "delivery_fresh (DEnqueue uuid now inp) st = (uuid \<noteq> [] \<and> getDelivery uuid st = None)"
| "delivery_fresh (DAckByKey uuid key at) st = (uuid \<noteq> [] \<and> getDelivery uuid st = None)"
| "delivery_fresh _ st = True"

inductive delivery_step :: "delivery_store \<Rightarrow> delivery_store \<Rightarrow> bool" where
  delivery_do: "delivery_fresh op st \<Longrightarrow> delivery_step st (delivery_apply op st)"

text \<open>Every delivery is filed under its identifier and its key, and every key names a delivery.\<close>

definition delivery_ok :: "delivery_store \<Rightarrow> bool" where
  "delivery_ok st \<longleftrightarrow>
     jm_ok (ds_deliveries st) \<and>
     (\<forall>i d. getDelivery i st = Some d \<longrightarrow> dv_id d = i \<and> i \<noteq> [] \<and> jm_get (ds_byKey st) (dv_idempotencyKey d) = Some i) \<and>
     (\<forall>k i. jm_get (ds_byKey st) k = Some i \<longrightarrow> (\<exists>d. getDelivery i st = Some d \<and> dv_idempotencyKey d = k))"

text \<open>What later stores keep of a delivery.\<close>

definition delivery_le :: "delivery_store \<Rightarrow> delivery_store \<Rightarrow> bool" where
  "delivery_le st st' \<longleftrightarrow>
     (\<forall>i d. getDelivery i st = Some d \<longrightarrow>
        (\<exists>d'. getDelivery i st' = Some d' \<and> dv_idempotencyKey d' = dv_idempotencyKey d \<and>
           (dv_deliveredAt d \<noteq> None \<longrightarrow> dv_deliveredAt d' = dv_deliveredAt d)))"

lemma get_putDelivery [simp]: "getDelivery i (putDelivery d st) = (if i = dv_id d then Some d else getDelivery i st)"
  by (simp add: getDelivery_def putDelivery_def)

lemma byKey_putDelivery [simp]: "ds_byKey (putDelivery d st) = ds_byKey st"
  by (simp add: putDelivery_def)

lemma get_byKey_update [simp]: "getDelivery i (st\<lparr>ds_byKey := m\<rparr>) = getDelivery i st" "getDelivery i (st\<lparr>ds_claimedUntil := c\<rparr>) = getDelivery i st"
  by (simp_all add: getDelivery_def)

lemma jm_ok_putDelivery [simp]: "jm_ok (ds_deliveries st) \<Longrightarrow> jm_ok (ds_deliveries (putDelivery d st))"
  by (simp add: putDelivery_def)

lemma delivery_okD:
  assumes "delivery_ok st" "getDelivery i st = Some d"
  shows "dv_id d = i" "i \<noteq> []" "jm_get (ds_byKey st) (dv_idempotencyKey d) = Some i"
  using assms by (auto simp: delivery_ok_def)

lemma existingFor_ok:
  assumes "delivery_ok st"
  shows "existingFor key st = jm_get (ds_byKey st) key"
    "existingFor key st = Some i \<Longrightarrow> \<exists>d. getDelivery i st = Some d \<and> dv_idempotencyKey d = key"
proof -
  show e: "existingFor key st = jm_get (ds_byKey st) key"
  proof (cases "jm_get (ds_byKey st) key")
    case (Some i)
    then obtain d where "getDelivery i st = Some d" using assms unfolding delivery_ok_def by blast
    then show ?thesis using Some delivery_okD(2) [OF assms] by (simp add: existingFor_def)
  qed (simp add: existingFor_def)
  show "\<exists>d. getDelivery i st = Some d \<and> dv_idempotencyKey d = key" if "existingFor key st = Some i"
    using assms that e unfolding delivery_ok_def by metis
qed

text \<open>Writing a delivery back, and filing a new one: all operations are one of these.\<close>

lemma rewrite_ok:
  assumes "delivery_ok st" "getDelivery (dv_id d') st = Some d" "dv_idempotencyKey d' = dv_idempotencyKey d"
    "dv_deliveredAt d \<noteq> None \<Longrightarrow> dv_deliveredAt d' = dv_deliveredAt d"
  shows "delivery_ok (putDelivery d' st)" "delivery_le st (putDelivery d' st)"
proof -
  show "delivery_ok (putDelivery d' st)"
    using assms(1-3) unfolding delivery_ok_def by (auto simp: split: if_splits) (metis option.inject)+
  show "delivery_le st (putDelivery d' st)" using assms(2-4) by (auto simp: delivery_le_def)
qed

lemma file_ok:
  assumes "delivery_ok st" "getDelivery (dv_id d) st = None" "dv_id d \<noteq> []" "jm_get (ds_byKey st) (dv_idempotencyKey d) = None"
  shows "delivery_ok ((putDelivery d st)\<lparr>ds_byKey := jm_set (dv_idempotencyKey d) (dv_id d) (ds_byKey st)\<rparr>)"
    "delivery_le st ((putDelivery d st)\<lparr>ds_byKey := jm_set (dv_idempotencyKey d) (dv_id d) (ds_byKey st)\<rparr>)"
  using assms by (auto simp: delivery_ok_def delivery_le_def split: if_splits) force+

lemma rewrite_keeps:
  "delivery_ok st \<Longrightarrow> getDelivery i st = Some d \<Longrightarrow> dv_id d' = dv_id d \<Longrightarrow> dv_idempotencyKey d' = dv_idempotencyKey d \<Longrightarrow>
     (dv_deliveredAt d = None \<or> dv_deliveredAt d' = dv_deliveredAt d) \<Longrightarrow>
     delivery_ok (putDelivery d' st) \<and> delivery_le st (putDelivery d' st)"
  using rewrite_ok [of st d' d] delivery_okD(1) [of st i d] by auto

lemmas rewritten = rewrite_keeps [THEN conjunct1] rewrite_keeps [THEN conjunct2]

lemma delivery_le_refl: "delivery_le st st"
  by (simp add: delivery_le_def)

lemma delivery_le_trans: "delivery_le a b \<Longrightarrow> delivery_le b c \<Longrightarrow> delivery_le a c"
  unfolding delivery_le_def by metis

lemma enqueue_ok:
  assumes ok: "delivery_ok st" and fresh: "uuid \<noteq> []" "getDelivery uuid st = None"
  shows "delivery_ok (snd (delivery_enqueue uuid now inp st))" "delivery_le st (snd (delivery_enqueue uuid now inp st))"
proof -
  let ?d = "newDelivery uuid now inp"
  have d: "dv_id ?d = uuid" "dv_idempotencyKey ?d = di_idempotencyKey inp" by (simp_all add: newDelivery_def)
  have "existingFor (di_idempotencyKey inp) st = None \<Longrightarrow> jm_get (ds_byKey st) (dv_idempotencyKey ?d) = None"
    using existingFor_ok(1) [OF ok] d(2) by simp
  then show "delivery_ok (snd (delivery_enqueue uuid now inp st))" "delivery_le st (snd (delivery_enqueue uuid now inp st))"
    using file_ok [OF ok, of ?d] d fresh ok
    by (auto simp: delivery_enqueue_def Let_def delivery_le_refl split: option.split)
qed

lemma ackByKey_ok:
  assumes ok: "delivery_ok st" and fresh: "uuid \<noteq> []" "getDelivery uuid st = None"
  shows "delivery_ok (ackByKey uuid key at st) \<and> delivery_le st (ackByKey uuid key at st)"
proof (cases "existingFor key st")
  case None
  let ?d = "tombstone uuid key at"
  have "dv_id ?d = uuid" "dv_idempotencyKey ?d = key" by (simp_all add: tombstone_def)
  then show ?thesis
    using file_ok [OF ok, of ?d] fresh None existingFor_ok(1) [OF ok, of key] by (simp add: ackByKey_def Let_def)
next
  case (Some i)
  then obtain d where "getDelivery i st = Some d" using existingFor_ok(2) [OF ok] by blast
  then show ?thesis
    using rewrite_keeps [OF ok, of i d "d\<lparr>dv_deliveredAt := Some at\<rparr>"] Some ok
    by (simp add: ackByKey_def delivery_le_refl)
qed

lemma delivery_apply_ok:
  assumes ok: "delivery_ok st" and "delivery_fresh op st"
  shows "delivery_ok (delivery_apply op st) \<and> delivery_le st (delivery_apply op st)"
proof (cases op)
  case (DEnqueue uuid now inp)
  then show ?thesis using enqueue_ok [OF ok] assms(2) by simp
next
  case (DClaim now ty ttl)
  then show ?thesis using ok by (simp add: claimPending_def Let_def delivery_ok_def delivery_le_def)
next
  case (DAck i at ms)
  then show ?thesis
    using ok by (cases "getDelivery i st") (auto simp: ack_def delivery_le_refl intro!: rewritten)
next
  case (DAckByKey uuid key at)
  then show ?thesis using ackByKey_ok [OF ok] assms(2) by simp
next
  case (DSetEditRef key ref)
  show ?thesis
  proof (cases "Option.bind (existingFor key st) (\<lambda>i. getDelivery i st)")
    case (Some d)
    then obtain i where "getDelivery i st = Some d" by (auto simp: bind_eq_Some_conv)
    then show ?thesis
      using ok DSetEditRef Some by (auto simp: setEditRefByKey_def delivery_le_refl intro!: rewritten)
  qed (use ok DSetEditRef in \<open>simp add: setEditRefByKey_def delivery_le_refl\<close>)
next
  case (DRecordThread i ref at)
  then show ?thesis
    using ok
    by (cases "getDelivery i st") (auto simp: recordRecipientThread_def delivery_le_refl split: option.splits intro!: rewritten)
qed

interpretation deliveries: step_preorder delivery_step delivery_ok delivery_le
  by unfold_locales (auto elim!: delivery_step.cases dest: delivery_apply_ok intro: delivery_le_refl delivery_le_trans)

lemma delivery_ok_start: "delivery_ok createDeliveryStore"
  by (simp add: delivery_ok_def createDeliveryStore_def getDelivery_def)

text \<open>
  A message goes out at most once per idempotency key: once a delivery is marked delivered, then whatever operations follow it stays
  so with the same time, enqueueing its key again gives back that delivery and changes nothing, and no claim returns a delivery of that key.\<close>

theorem delivered_key_is_never_sent_again:
  assumes "delivery_step\<^sup>*\<^sup>* createDeliveryStore st" "delivery_step\<^sup>*\<^sup>* st st'"
    and "getDelivery i st = Some d" "dv_deliveredAt d = Some at"
  shows "\<exists>d'. getDelivery i st' = Some d' \<and> dv_deliveredAt d' = Some at \<and>
      (di_idempotencyKey inp = dv_idempotencyKey d \<longrightarrow> delivery_enqueue uuid now inp st' = ((Some d', False), st')) \<and>
      (\<forall>x \<in> set (fst (claimPending now ty ttl st')). dv_idempotencyKey x \<noteq> dv_idempotencyKey d)"
proof -
  have ok: "delivery_ok st" using deliveries.steps_inv [OF assms(1) delivery_ok_start] .
  have ok': "delivery_ok st'" using deliveries.steps_inv [OF assms(2) ok] .
  obtain d' where d': "getDelivery i st' = Some d'" "dv_idempotencyKey d' = dv_idempotencyKey d" "dv_deliveredAt d' = Some at"
    using deliveries.steps_R [OF assms(2) ok] assms(3,4) by (fastforce simp: delivery_le_def)
  have key: "existingFor (dv_idempotencyKey d) st' = Some i"
    using existingFor_ok(1) [OF ok'] delivery_okD(3) [OF ok' d'(1)] d'(2) by simp
  have "dv_idempotencyKey x \<noteq> dv_idempotencyKey d" if "x \<in> set (fst (claimPending now ty ttl st'))" for x
  proof
    assume k: "dv_idempotencyKey x = dv_idempotencyKey d"
    from that have x: "x \<in> set (jm_values (ds_deliveries st'))" "dv_deliveredAt x = None"
      by (auto simp: claimPending_def Let_def isPending_def)
    then have "getDelivery (dv_id x) st' = Some x"
      using ok' by (auto simp: delivery_ok_def getDelivery_def jm_values_iff)
    then have "dv_id x = i" using delivery_okD(3) [OF ok'] delivery_okD(3) [OF ok' d'(1)] k d'(2) by fastforce
    then show False using \<open>getDelivery (dv_id x) st' = Some x\<close> d'(1,3) x(2) by simp
  qed
  then show ?thesis using d' key by (auto simp: delivery_enqueue_def)
qed

definition ex_delivery :: delivery_input where
  "ex_delivery =
     \<lparr>di_destination = \<lparr>d_type = ''slack'', d_target = ''C1'', d_audienceScopeId = None, d_rest = []\<rparr>, di_text = ''hi'',
      di_attachments = None, di_provenance = None, di_idempotencyKey = ''run:1'', di_shadow = False\<rparr>"

definition ex_enqueued :: delivery_store where
  "ex_enqueued = snd (delivery_enqueue ''d1'' 5 ex_delivery createDeliveryStore)"

definition ex_acked :: delivery_store where
  "ex_acked = ack ''d1'' 9 None ex_enqueued"

lemma ex_acked_reachable: "delivery_step\<^sup>*\<^sup>* createDeliveryStore ex_acked"
proof -
  have "delivery_step createDeliveryStore ex_enqueued"
    using delivery_do [of "DEnqueue ''d1'' 5 ex_delivery" createDeliveryStore]
    by (simp add: ex_enqueued_def getDelivery_def createDeliveryStore_def)
  moreover have "delivery_step ex_enqueued ex_acked"
    using delivery_do [of "DAck ''d1'' 9 None" ex_enqueued] by (simp add: ex_acked_def)
  ultimately show ?thesis by (meson r_into_rtranclp rtranclp_trans)
qed

theorem delivered_key_is_never_sent_again_witness:
  "snd (delivery_enqueue ''d2'' 20 ex_delivery ex_acked) = ex_acked"
proof -
  have "map_option dv_deliveredAt (getDelivery ''d1'' ex_acked) = Some (Some 9)"
    "map_option dv_idempotencyKey (getDelivery ''d1'' ex_acked) = Some ''run:1''" by code_simp+
  then obtain d where d: "getDelivery ''d1'' ex_acked = Some d" "dv_deliveredAt d = Some 9" "dv_idempotencyKey d = ''run:1''" by auto
  have "di_idempotencyKey ex_delivery = dv_idempotencyKey d" using d(3) by (simp add: ex_delivery_def)
  then show ?thesis
    using delivered_key_is_never_sent_again [OF ex_acked_reachable rtranclp.rtrancl_refl d(1,2), of ex_delivery "''d2''" 20 "''slack''" 10]
    by auto
qed

subsection \<open>Claims do not overlap\<close>

text \<open>Every claim among the operations is made before the given time.\<close>

fun claims_before :: "millis \<Rightarrow> delivery_op \<Rightarrow> bool" where
  "claims_before t (DClaim now ty ttl) = (now < t)"
| "claims_before t _ = True"

lemma claimed_fold:
  "jm_get (fold (\<lambda>d. jm_set (dv_id d) t) rows m) i = (if i \<in> dv_id ` set rows then Some t else jm_get m i)"
  by (induction rows arbitrary: m) auto

lemma claimUntil_claim:
  "claimUntilOf (snd (claimPending now ty ttl st)) i =
     (if i \<in> dv_id ` set (fst (claimPending now ty ttl st)) then now + ttl else claimUntilOf st i)"
  by (simp add: claimPending_def Let_def claimUntilOf_def claimed_fold)

lemma claimed_at_most: "d \<in> set (fst (claimPending now ty ttl st)) \<Longrightarrow> claimUntilOf st (dv_id d) \<le> now"
  by (simp add: claimPending_def Let_def)

lemma claimUntil_apply:
  assumes "t \<le> claimUntilOf st i" "claims_before t op"
  shows "t \<le> claimUntilOf (delivery_apply op st) i"
proof (cases op)
  case (DClaim now ty ttl)
  then have "i \<notin> dv_id ` set (fst (claimPending now ty ttl st))" using assms claimed_at_most by fastforce
  then show ?thesis using assms(1) DClaim by (simp add: claimUntil_claim)
qed (use assms(1) in \<open>auto simp: delivery_enqueue_def ack_def ackByKey_def setEditRefByKey_def recordRecipientThread_def
    putDelivery_def claimUntilOf_def Let_def split: option.split\<close>)

text \<open>
  A claimed message belongs to one poller until the claim runs out: whatever happens in between, no claim made before that time
  returns it again.\<close>

theorem claimed_delivery_is_exclusive:
  assumes "d \<in> set (fst (claimPending now ty ttl st))"
    and "\<forall>op \<in> set ops. claims_before (now + ttl) op" "now' < now + ttl"
  shows "dv_id d \<notin> dv_id ` set (fst (claimPending now' ty' ttl' (fold delivery_apply ops (snd (claimPending now ty ttl st)))))"
proof -
  have "now + ttl \<le> claimUntilOf (snd (claimPending now ty ttl st)) (dv_id d)"
    using assms(1) by (simp add: claimUntil_claim)
  then have "now + ttl \<le> claimUntilOf (fold delivery_apply ops (snd (claimPending now ty ttl st))) (dv_id d)"
    using assms(2)
  proof (induction ops arbitrary: st rule: rev_induct)
    case (snoc op ops)
    then show ?case using claimUntil_apply by simp
  qed simp
  then show ?thesis using assms(3) claimed_at_most by fastforce
qed

theorem claimed_delivery_is_exclusive_witness:
  "''d1'' \<notin> dv_id ` set (fst (claimPending 50 ''slack'' 100 (fold delivery_apply [DClaim 20 ''slack'' 100] (snd (claimPending 10 ''slack'' 100 ex_enqueued)))))"
proof -
  have "map dv_id (fst (claimPending 10 ''slack'' 100 ex_enqueued)) = [''d1'']" by code_simp
  then obtain d where d: "d \<in> set (fst (claimPending 10 ''slack'' 100 ex_enqueued))" "dv_id d = ''d1''" by (auto simp: map_eq_Cons_conv)
  show ?thesis using claimed_delivery_is_exclusive [OF d(1), of "[DClaim 20 ''slack'' 100]" 50 "''slack''" 100] d(2) by simp
qed

end
