(* ===== verification/Payload.thy ===== *)
theory Payload
  imports Transcript
begin

section \<open>Reading payloads\<close>

text \<open>
  How the source reads a payload of type \<open>unknown\<close>: a field that must be a string, a flag that must be
  \<open>true\<close>, an integer, \<open>String(x)\<close>. A payload that is no object has no fields. Numbers inside a
  payload are read when they are integers, as the program itself writes them. The few characters
  above code unit 255 in literals of the source (an ellipsis, a dash) are written with their
  Windows-1252 code, so that one unit stays one unit.
\<close>

named_theorems payload "unfolding of the payload readers"

abbreviation ellipsis_char :: char where "ellipsis_char \<equiv> CHR 0x85"
abbreviation dash_char :: char where "dash_char \<equiv> CHR 0x97"
abbreviation newline_char :: char where "newline_char \<equiv> CHR 0x0A"

definition strField :: "json \<Rightarrow> string \<Rightarrow> string option" where
  "strField p k = (case jfield p k of Some (JStr s) \<Rightarrow> Some s | _ \<Rightarrow> None)"

text \<open>\<open>typeof x === "string" && x\<close>\<close>

definition nonemptyField :: "json \<Rightarrow> string \<Rightarrow> string option" where
  "nonemptyField p k = (case strField p k of Some s \<Rightarrow> if s = [] then None else Some s | None \<Rightarrow> None)"

definition flagField :: "json \<Rightarrow> string \<Rightarrow> bool" where
  "flagField p k = (jfield p k = Some (JBool True))"

definition listField :: "json \<Rightarrow> string \<Rightarrow> json list option" where
  "listField p k = (case jfield p k of Some (JArr xs) \<Rightarrow> Some xs | _ \<Rightarrow> None)"

definition read_int :: "string \<Rightarrow> int option" where
  "read_int s =
     (case s of
        [] \<Rightarrow> None
      | c # ds \<Rightarrow>
          (if c = CHR ''-'' then (if ds \<noteq> [] \<and> list_all digit ds then Some (- int (read_digits ds)) else None)
           else if list_all digit s then Some (int (read_digits s)) else None))"

definition intField :: "json \<Rightarrow> string \<Rightarrow> int option" where
  "intField p k = (case jfield p k of Some (JNum s) \<Rightarrow> read_int s | _ \<Rightarrow> None)"

text \<open>\<open>String(x)\<close> of a JSON value; inside an array null prints as nothing.\<close>

fun js_String :: "json \<Rightarrow> string" where
  "js_String JNull = ''null''"
| "js_String (JBool b) = (if b then ''true'' else ''false'')"
| "js_String (JNum s) = s"
| "js_String (JStr s) = s"
| "js_String (JArr xs) = join_with '','' (map (\<lambda>x. if x = JNull then [] else js_String x) xs)"
| "js_String (JObj fs) = ''[object Object]''"

text \<open>\<open>String(p?.text ?? "")\<close>\<close>

definition textOf :: "json \<Rightarrow> string" where
  "textOf p = (case jfield p ''text'' of None \<Rightarrow> [] | Some JNull \<Rightarrow> [] | Some j \<Rightarrow> js_String j)"

definition payloadOr :: "json \<Rightarrow> json" where
  "payloadOr p = (case p of JNull \<Rightarrow> JObj [] | _ \<Rightarrow> p)"

definition jint :: "int \<Rightarrow> json" where
  "jint i = JNum (show_int i)"

lemmas payload_defs [payload] = strField_def nonemptyField_def flagField_def listField_def intField_def

lemma digits_list_all: "list_all digit (show_nat n)"
  using show_nat_digits by (simp add: list_all_iff)

lemma show_nat_nonempty [simp]: "show_nat n \<noteq> []"
  by (subst show_nat.simps) simp

lemma show_nat_hd: "show_nat n = c # ds \<Longrightarrow> c \<noteq> CHR ''-''"
  using show_nat_digits [of n] by (auto simp: digit_def)

lemma read_show_int [simp]: "read_int (show_int i) = Some i"
proof (cases "i < 0")
  case True
  then show ?thesis
    by (simp add: show_int_def read_int_def digits_list_all read_show_nat)
next
  case False
  obtain c ds where "show_nat (nat i) = c # ds" by (meson neq_Nil_conv show_nat_nonempty)
  with show_nat_hd [OF this] False digits_list_all [of "nat i"] read_show_nat [of "nat i"] show ?thesis
    by (simp add: show_int_def read_int_def)
qed

end
