(* ===== verification/Compaction.thy ===== *)
theory Compaction
  imports Payload Sessions
begin

section \<open>Compacting the history of a session\<close>

text \<open>
  Models \<open>src/src/harness/context-compaction.ts\<close> (what of a log reaches the model, the plan of a
  compaction, the transcript that is summarised and the scope of the summary) and
  \<open>src/src/core/orchestrator/compaction.ts\<close> (writing a summary into the session store and its tape,
  in a turn and in the background). The token counter and the text of a summary, which a model
  writes, are arguments; so are products with a fraction, which are floating point in the source.
\<close>

subsection \<open>Summaries\<close>

record context_summary =
  cs_throughSeq :: int
  cs_text :: string

definition CONTEXT_SUMMARY_KIND :: string where
  "CONTEXT_SUMMARY_KIND = ''context_summary''"

definition MAX_COMPACT_ENTRY_CHARS :: int where
  "MAX_COMPACT_ENTRY_CHARS = 16000"

definition COMPACT_ENTRY_TAIL_CHARS :: int where
  "COMPACT_ENTRY_TAIL_CHARS = 2000"

definition headSlice :: "string \<Rightarrow> int \<Rightarrow> string" where
  "headSlice s n = (if n \<le> 0 then [] else take (nat n) s)"

definition tailSlice :: "string \<Rightarrow> int \<Rightarrow> string" where
  "tailSlice s n = (if n \<le> 0 then [] else drop (length s - nat n) s)"

definition capCompactLine :: "string \<Rightarrow> string" where
  "capCompactLine s =
     (if int (length s) \<le> MAX_COMPACT_ENTRY_CHARS then s
      else
        (let notice = [ellipsis_char] @ ''[truncated '' @ [dash_char] @ '' '' @ show_nat (length s) @ '' chars]'' @ [ellipsis_char]
         in headSlice s (MAX_COMPACT_ENTRY_CHARS - COMPACT_ENTRY_TAIL_CHARS - int (length notice)) @ notice @
            tailSlice s COMPACT_ENTRY_TAIL_CHARS))"

definition INTERRUPTED_TOOL_RESULT :: string where
  "INTERRUPTED_TOOL_RESULT =
     ''[interrupted '' @ [dash_char] @
     '' the platform restarted while this tool call was running and its outcome was not recorded. Check what actually happened before redoing anything with side effects.]''"

definition contextSummaryPayload :: "session_entry \<Rightarrow> context_summary option" where
  "contextSummaryPayload e =
     (if e_type e = ESystem \<and> strField (e_payload e) ''kind'' = Some CONTEXT_SUMMARY_KIND
      then (case intField (e_payload e) ''throughSeq'' of
              None \<Rightarrow> None
            | Some n \<Rightarrow>
                (case strField (e_payload e) ''text'' of
                   None \<Rightarrow> None
                 | Some t \<Rightarrow> Some \<lparr>cs_throughSeq = n, cs_text = t\<rparr>))
      else None)"

definition createContextSummaryPayload :: "int \<Rightarrow> string \<Rightarrow> (string \<times> json) list" where
  "createContextSummaryPayload throughSeq txt =
     [(''kind'', JStr CONTEXT_SUMMARY_KIND), (''throughSeq'', jint throughSeq), (''text'', JStr txt)]"

abbreviation isSummary :: "session_entry \<Rightarrow> bool" where
  "isSummary e \<equiv> contextSummaryPayload e \<noteq> None"

definition only :: "'a list \<Rightarrow> 'a option" where
  "only xs = (case xs of [x] \<Rightarrow> Some x | _ \<Rightarrow> None)"

definition compactedScopeLabel :: "session_entry list \<Rightarrow> scope_id \<Rightarrow> scope_id \<Rightarrow> scope_id option" where
  "compactedScopeLabel entries sessionScopeId orgScopeId =
     (let labels = js_uniq (map e_scopeLabel entries);
          byKind = (\<lambda>k. filter (\<lambda>l. fst (parseScopeId l) = Some k) labels);
          nonFloor = filter (\<lambda>l. l \<noteq> orgScopeId \<and> l \<noteq> sessionScopeId) labels
      in if byKind Personal \<noteq> [] then only (byKind Personal)
         else if byKind Team \<noteq> [] then only (byKind Team)
         else if nonFloor \<noteq> [] then only nonFloor
         else if sessionScopeId \<in> set labels then Some sessionScopeId
         else Some orgScopeId)"

subsection \<open>What of a log reaches the model\<close>

definition replayable :: "session_entry \<Rightarrow> bool" where
  "replayable e =
     (e_type e \<noteq> EThinking \<and> e_type e \<noteq> EText \<and> e_type e \<noteq> ESoul \<and>
      jfield (e_payload e) ''kind'' \<noteq> Some (JStr ''turn_failure''))"

definition securityTainted :: "session_entry \<Rightarrow> bool" where
  "securityTainted e = flagField (e_payload e) ''securityTainted''"

definition forModelContext :: "bool \<Rightarrow> session_entry list \<Rightarrow> session_entry list" where
  "forModelContext includeSecurityTainted entries =
     (let rp = filter replayable entries;
          visible = filter (\<lambda>e. includeSecurityTainted \<or> \<not> securityTainted e) rp
      in case find isSummary (rev rp) of
           None \<Rightarrow> visible
         | Some latest \<Rightarrow>
             (let throughSeq = cs_throughSeq (the (contextSummaryPayload latest))
              in (if latest \<in> set visible then [latest] else []) @
                 filter (\<lambda>e. \<not> isSummary e \<and> e_seq e > throughSeq) visible))"

subsection \<open>Budgets\<close>

definition entryTokenText :: "session_entry \<Rightarrow> string" where
  "entryTokenText e =
     (case strField (e_payload e) ''text'' of Some t \<Rightarrow> t | None \<Rightarrow> stringify (payloadOr (e_payload e)))"

definition estimateEntryTokens :: "(string \<Rightarrow> int) \<Rightarrow> session_entry \<Rightarrow> int" where
  "estimateEntryTokens countTokens e = countTokens (entryTokenText e)"

definition estimateHistoryTokens :: "(string \<Rightarrow> int) \<Rightarrow> session_entry list \<Rightarrow> int" where
  "estimateHistoryTokens countTokens history = foldl (\<lambda>n e. n + estimateEntryTokens countTokens e) 0 history"

text \<open>The loop runs from the last entry backwards: its list argument is the reversed history.\<close>

fun recentLoop :: "(string \<Rightarrow> int) \<Rightarrow> int \<Rightarrow> int \<Rightarrow> session_entry list \<Rightarrow> nat \<Rightarrow> int \<Rightarrow> nat" where
  "recentLoop countTokens maxCount maxTokens [] n tokens = n"
| "recentLoop countTokens maxCount maxTokens (e # es) n tokens =
     (if int n \<ge> maxCount then n
      else (let t = tokens + estimateEntryTokens countTokens e
            in if n \<ge> 1 \<and> t > maxTokens then n
               else recentLoop countTokens maxCount maxTokens es (n + 1) t))"

definition recentEntryCountWithinBudget :: "(string \<Rightarrow> int) \<Rightarrow> session_entry list \<Rightarrow> int \<Rightarrow> int \<Rightarrow> nat" where
  "recentEntryCountWithinBudget countTokens history maxCount maxTokens =
     recentLoop countTokens maxCount maxTokens (rev history) 0 0"

definition overBudgetFraction :: "(string \<Rightarrow> int) \<Rightarrow> session_entry list \<Rightarrow> int \<Rightarrow> int \<Rightarrow> bool" where
  "overBudgetFraction countTokens history entryLimit tokenLimit =
     (int (length history) > entryLimit \<or> estimateHistoryTokens countTokens history > tokenLimit)"

subsection \<open>The transcript that is summarised\<close>

definition callIdOf :: "session_entry \<Rightarrow> string option" where
  "callIdOf e = nonemptyField (e_payload e) ''callId''"

definition answeredCalls :: "session_entry list \<Rightarrow> string list" where
  "answeredCalls history = List.map_filter callIdOf (filter (\<lambda>e. e_type e = EToolResult) history)"

fun entry_type_name :: "entry_type \<Rightarrow> string" where
  "entry_type_name EUser = ''user''"
| "entry_type_name EAssistant = ''assistant''"
| "entry_type_name EThinking = ''thinking''"
| "entry_type_name EText = ''text''"
| "entry_type_name EToolCall = ''tool_call''"
| "entry_type_name EToolResult = ''tool_result''"
| "entry_type_name ESoul = ''soul''"
| "entry_type_name ESystem = ''system''"
| "entry_type_name EDelivery = ''delivery''"
| "entry_type_name EApprovalRequest = ''approval_request''"
| "entry_type_name EApprovalResolved = ''approval_resolved''"

definition entryLabel :: "session_entry \<Rightarrow> bool \<Rightarrow> string" where
  "entryLabel e ov =
     (if ov
      then ''overheard#'' @ show_int (e_seq e) @ '' ('' @
           (case nonemptyField (e_payload e) ''name'' of Some n \<Rightarrow> n | None \<Rightarrow> ''someone'') @ '')''
      else entry_type_name (e_type e) @ ''#'' @ show_int (e_seq e))"

definition fileNote :: "string list \<Rightarrow> string" where
  "fileNote files = (if files = [] then [] else '' (files: '' @ join_with '', '' files @ '')'')"

definition compactLines :: "string list \<Rightarrow> session_entry \<Rightarrow> string list" where
  "compactLines answered e =
     (case contextSummaryPayload e of
        Some s \<Rightarrow> [capCompactLine (''Prior summary through seq '' @ show_int (cs_throughSeq s) @ '': '' @ cs_text s)]
      | None \<Rightarrow>
          (let p = e_payload e; ov = (e_type e = EUser \<and> flagField p ''overheard'');
               txt = js_trim (textOf p);
               files = (if ov then (case listField p ''files'' of
                                      Some xs \<Rightarrow> filter (\<lambda>s. s \<noteq> []) (map js_String xs)
                                    | None \<Rightarrow> [])
                        else []);
               label = entryLabel e ov
           in (if txt \<noteq> [] then [capCompactLine (label @ '': '' @ txt @ fileNote files)]
               else if ov \<and> files \<noteq> [] then [capCompactLine (label @ '': (shared file)'' @ fileNote files)]
               else if \<not> ov
               then [capCompactLine (label @ '':'' @ (if flagField p ''isError'' then '' [isError]'' else []) @ '' '' @
                       stringify (payloadOr p))]
               else []) @
              (if e_type e = EToolCall
               then (case callIdOf e of
                       Some cid \<Rightarrow>
                         (if cid \<in> set answered then []
                          else [''tool_result#'' @ show_int (e_seq e) @ '': '' @ INTERRUPTED_TOOL_RESULT])
                     | None \<Rightarrow> [])
               else [])))"

definition compactTranscript :: "session_entry list \<Rightarrow> string" where
  "compactTranscript history =
     join_with [newline_char] (concat (map (compactLines (answeredCalls history)) history))"

subsection \<open>The plan\<close>

record compaction_plan =
  cp_toSummarize :: "session_entry list"
  cp_kept :: "session_entry list"
  cp_reuse :: "session_entry option"

text \<open>
  The loop that keeps an open tool call at the cut with its result: the number of entries that
  are summarised.
\<close>

fun trimOverflow :: "session_entry list \<Rightarrow> nat \<Rightarrow> nat" where
  "trimOverflow es 0 = 0"
| "trimOverflow es (Suc n) =
     (let lastEntry = es ! n
      in if e_type lastEntry \<noteq> EToolCall then Suc n
         else (case callIdOf lastEntry of
                 None \<Rightarrow> Suc n
               | Some cid \<Rightarrow>
                   (if list_ex (\<lambda>e. e_type e = EToolResult \<and> strField (e_payload e) ''callId'' = Some cid)
                         (take (Suc n) es)
                    then Suc n else trimOverflow es n)))"

definition latestSummaryOf :: "session_entry list \<Rightarrow> session_entry option" where
  "latestSummaryOf history = find isSummary (rev history)"

definition afterSummaryOf :: "session_entry list \<Rightarrow> session_entry list" where
  "afterSummaryOf history =
     filter (\<lambda>e. \<not> isSummary e \<and>
         (case latestSummaryOf history of
            None \<Rightarrow> True
          | Some l \<Rightarrow> e_seq e > cs_throughSeq (the (contextSummaryPayload l))))
       history"

definition planCompaction ::
  "(string \<Rightarrow> int) \<Rightarrow> session_entry list \<Rightarrow> int \<Rightarrow> int \<Rightarrow> int \<times> int \<Rightarrow> compaction_plan option"
where
  "planCompaction countTokens history keepRecentTokens keepRecentEntries reuseBudget =
     (let latest = latestSummaryOf history;
          after = afterSummaryOf history;
          keepRecent = max 1 keepRecentEntries;
          prefix = (case latest of None \<Rightarrow> [] | Some l \<Rightarrow> [l])
      in if latest \<noteq> None \<and> int (length after) + 1 \<le> fst reuseBudget \<and>
            estimateHistoryTokens countTokens (prefix @ after) \<le> snd reuseBudget
         then Some \<lparr>cp_toSummarize = [], cp_kept = prefix @ after, cp_reuse = latest\<rparr>
         else
           (let keptCount = recentEntryCountWithinBudget countTokens after keepRecent keepRecentTokens;
                overflowCount = trimOverflow after (length after - keptCount);
                overflow = take overflowCount after
            in if overflow = [] then None
               else Some \<lparr>cp_toSummarize = prefix @ overflow, cp_kept = drop overflowCount after, cp_reuse = None\<rparr>))"

definition compactionThroughSeq :: "session_entry list \<Rightarrow> int" where
  "compactionThroughSeq entries =
     foldl (\<lambda>m e. max m (case contextSummaryPayload e of Some s \<Rightarrow> cs_throughSeq s | None \<Rightarrow> e_seq e)) (- 1) entries"

definition deterministicCompactSummary :: "session_entry list \<Rightarrow> string" where
  "deterministicCompactSummary history =
     ''Compacted '' @ show_nat (length history) @ '' prior entr'' @ (if length history = 1 then ''y'' else ''ies'') @
     '' through seq '' @ show_int (compactionThroughSeq history) @ ''.'' @ [newline_char] @
     headSlice (compactTranscript history) 8000"

subsection \<open>Writing a compaction\<close>

record summarized =
  sm_text :: string
  sm_label :: scope_id
  sm_throughSeq :: int
  sm_tainted :: bool

text \<open>
  \<open>softEntries\<close> and \<open>softTokens\<close> are the entry and token limits times their fractions. \<open>managed\<close> tells
  whether the scope belongs to a managed group, \<open>canCompact\<close> whether the harness can summarise.
\<close>

definition keepRecentEntries :: "int \<Rightarrow> int" where
  "keepRecentEntries softEntries = max 1 (softEntries - 1)"

definition compactionPlanFor :: "(string \<Rightarrow> int) \<Rightarrow> int \<Rightarrow> int \<Rightarrow> session_entry list \<Rightarrow> compaction_plan option" where
  "compactionPlanFor countTokens softEntries softTokens history =
     planCompaction countTokens history softTokens (keepRecentEntries softEntries)
       (keepRecentEntries softEntries + 1, softTokens)"

definition summarizeForCompaction ::
  "bool \<Rightarrow> bool \<Rightarrow> (string \<Rightarrow> int) \<Rightarrow> int \<Rightarrow> int \<Rightarrow> (session_entry list \<Rightarrow> string) \<Rightarrow> scope_id \<Rightarrow> scope_id \<Rightarrow>
     session_entry list \<Rightarrow> summarized option"
where
  "summarizeForCompaction managed canCompact countTokens softEntries softTokens compactHistory sid org history =
     (if managed then None
      else if \<not> canCompact then None
      else
        (case compactionPlanFor countTokens softEntries softTokens history of
           None \<Rightarrow> None
         | Some plan \<Rightarrow>
             (if cp_toSummarize plan = [] then None
              else
                (case compactedScopeLabel (cp_toSummarize plan) sid org of
                   None \<Rightarrow> None
                 | Some label \<Rightarrow>
                     if label = [] then None
                     else Some \<lparr>sm_text = compactHistory (cp_toSummarize plan), sm_label = label,
                                sm_throughSeq = compactionThroughSeq (cp_toSummarize plan),
                                sm_tainted = list_ex securityTainted (cp_toSummarize plan)\<rparr>))))"

definition boundRecent :: "(string \<Rightarrow> int) \<Rightarrow> int \<Rightarrow> int \<Rightarrow> session_entry list \<Rightarrow> session_entry list" where
  "boundRecent countTokens maxEntries maxTokens entries =
     (case find isSummary entries of
        None \<Rightarrow> drop (length entries - recentEntryCountWithinBudget countTokens entries maxEntries maxTokens) entries
      | Some s \<Rightarrow>
          (let rest = filter (\<lambda>e. e \<noteq> s) entries
           in s # drop (length rest - recentEntryCountWithinBudget countTokens rest (maxEntries - 1)
                          (maxTokens - estimateEntryTokens countTokens s)) rest))"

definition summaryEntry :: "summarized \<Rightarrow> new_entry" where
  "summaryEntry sm =
     \<lparr>ne_type = ESystem,
      ne_payload = JObj (createContextSummaryPayload (sm_throughSeq sm) (sm_text sm) @
                         (if sm_tainted sm then [(''securityTainted'', JBool True)] else [])),
      ne_scopeLabel = sm_label sm, ne_parentSeq = None\<rparr>"

definition compactionEvent :: "summarized \<Rightarrow> session_entry \<Rightarrow> new_tape_record" where
  "compactionEvent sm e =
     \<lparr>nt_kind = TContextEvent, nt_payload = JObj [(''event'', JStr ''compaction''), (''text'', JStr (sm_text sm))],
      nt_scopeLabel = sm_label sm, nt_harness = None, nt_meta = None, nt_entrySeq = Some (e_seq e),
      nt_coversEntrySeq = Some (sm_throughSeq sm)\<rparr>"

definition turnEndMark :: "summarized \<Rightarrow> session_entry \<Rightarrow> new_tape_record" where
  "turnEndMark sm e =
     \<lparr>nt_kind = TAnnotation, nt_payload = JObj [(''turnEnd'', JBool True)], nt_scopeLabel = sm_label sm,
      nt_harness = None, nt_meta = None, nt_entrySeq = Some (e_seq e), nt_coversEntrySeq = None\<rparr>"

text \<open>The flag tells whether the compaction was mirrored onto the tape; an error there is swallowed.\<close>

definition writeCompaction ::
  "millis \<Rightarrow> millis \<Rightarrow> lease \<Rightarrow> string \<Rightarrow> summarized \<Rightarrow> session_store \<Rightarrow>
     (session_error + session_entry \<times> bool) \<times> session_store"
where
  "writeCompaction now ttl l sessionId sm st =
     (case append_entry now ttl l (summaryEntry sm) st of
        (Inl err, st') \<Rightarrow> (Inl err, st')
      | (Inr summary, st1) \<Rightarrow>
          (case appendTape now ttl l (compactionEvent sm summary) st1 of
             (Inl _, st2) \<Rightarrow> (Inr (summary, False), st2)
           | (Inr _, st2) \<Rightarrow>
               (Inr (summary, True),
                if tapeCoverage st2 sessionId = e_seq summary - 1
                then snd (appendTape now ttl l (turnEndMark sm summary) st2) else st2)))"

definition notCovered :: "int \<Rightarrow> session_entry \<Rightarrow> bool" where
  "notCovered throughSeq e = (e_seq e > throughSeq \<and> \<not> isSummary e)"

text \<open>\<open>applyCompaction\<close>, once the summary is there.\<close>

definition applyCompaction ::
  "millis \<Rightarrow> millis \<Rightarrow> lease \<Rightarrow> string \<Rightarrow> int \<Rightarrow> summarized option \<Rightarrow> session_entry list \<Rightarrow> session_store \<Rightarrow>
     (session_error + (session_entry list \<times> bool) option) \<times> session_store"
where
  "applyCompaction now ttl l sessionId maxEntries sm history st =
     (case sm of
        None \<Rightarrow> (Inr None, st)
      | Some s \<Rightarrow>
          (case writeCompaction now ttl l sessionId s st of
             (Inl err, st') \<Rightarrow> (Inl err, st')
           | (Inr (summary, mirrored), st') \<Rightarrow>
               (let recent = filter (notCovered (sm_throughSeq s)) history
                in (Inr (Some (summary # drop (nat (max 0 (int (length recent) - (maxEntries - 1)))) recent, mirrored)),
                    st'))))"

definition compactContextIfNeeded ::
  "millis \<Rightarrow> millis \<Rightarrow> lease \<Rightarrow> string \<Rightarrow> (string \<Rightarrow> int) \<Rightarrow> int \<Rightarrow> int \<Rightarrow> int \<Rightarrow> int \<Rightarrow> summarized option \<Rightarrow>
     session_entry list \<Rightarrow> session_store \<Rightarrow> (session_error + session_entry list \<times> bool) \<times> session_store"
where
  "compactContextIfNeeded now ttl l sessionId countTokens maxEntries maxTokens hardEntries hardTokens sm history st =
     (if \<not> overBudgetFraction countTokens history hardEntries hardTokens then (Inr (history, False), st)
      else
        (case applyCompaction now ttl l sessionId maxEntries sm history st of
           (Inl err, st') \<Rightarrow> (Inl err, st')
         | (Inr (Some (h, mirrored)), st') \<Rightarrow> (Inr (h, \<not> mirrored), st')
         | (Inr None, st') \<Rightarrow> (Inr (boundRecent countTokens maxEntries maxTokens history, False), st')))"

text \<open>
  A compaction in the background: what it reads, and later, under a lease of its own, what it writes.
  \<open>Inr None\<close> is a compaction given up: no lease to be had, or another summary written meanwhile.
\<close>

definition backgroundHistory :: "bool \<Rightarrow> string \<Rightarrow> session_store \<Rightarrow> session_entry list" where
  "backgroundHistory includeSecurityTainted sessionId st =
     forModelContext includeSecurityTainted (getEntries st sessionId None None)"

definition snapshotSeq :: "string \<Rightarrow> session_store \<Rightarrow> int" where
  "snapshotSeq sessionId st =
     (case rev (getEntries st sessionId None None) of [] \<Rightarrow> - 1 | e # _ \<Rightarrow> e_seq e)"

definition backgroundWrite ::
  "millis \<Rightarrow> millis \<Rightarrow> string \<Rightarrow> string \<Rightarrow> int \<Rightarrow> summarized \<Rightarrow> session_store \<Rightarrow>
     (session_error + session_entry option) \<times> session_store"
where
  "backgroundWrite now ttl fresh sessionId snapshot sm st =
     (case acquireLease now ttl fresh sessionId (Some HCompaction) st of
        (attempt, st1) \<Rightarrow>
          (case la_lease attempt of
             None \<Rightarrow> (Inr None, st1)
           | Some l \<Rightarrow>
               (if list_ex isSummary (getEntries st1 sessionId (Some (snapshot + 1)) None)
                then (Inr None, releaseLease l st1)
                else
                  (case writeCompaction now ttl l sessionId sm st1 of
                     (Inl err, st2) \<Rightarrow> (Inl err, releaseLease l st2)
                   | (Inr (summary, _), st2) \<Rightarrow> (Inr (Some summary), releaseLease l st2)))))"

subsection \<open>The plan cuts the history in two\<close>

lemma trimOverflow_le: "trimOverflow es n \<le> n"
  by (induction n) (auto simp: Let_def intro: le_SucI split: option.splits)

text \<open>The last summarised entry is not a call whose result is left behind.\<close>

lemma trimOverflow_closed:
  assumes "trimOverflow es n = Suc k" "e_type (es ! k) = EToolCall" "callIdOf (es ! k) = Some cid"
  shows "\<exists>e \<in> set (take (Suc k) es). e_type e = EToolResult \<and> strField (e_payload e) ''callId'' = Some cid"
  using assms
proof (induction n)
  case (Suc n)
  then show ?case by (auto simp: Let_def list_ex_iff split: option.splits if_splits)
qed simp

lemma planCompaction_cut:
  assumes "planCompaction ct h kt ke rb = Some p" "cp_reuse p = None"
  obtains n where "0 < n" "n \<le> length (afterSummaryOf h)"
    "cp_toSummarize p = (case latestSummaryOf h of None \<Rightarrow> [] | Some l \<Rightarrow> [l]) @ take n (afterSummaryOf h)"
    "cp_kept p = drop n (afterSummaryOf h)"
proof -
  let ?a = "afterSummaryOf h"
  let ?n = "trimOverflow ?a (length ?a - recentEntryCountWithinBudget ct ?a (max 1 ke) kt)"
  have "?n \<le> length ?a" using trimOverflow_le [of ?a] by (meson diff_le_self le_trans)
  moreover have "take ?n ?a \<noteq> [] \<and> p = \<lparr>cp_toSummarize = (case latestSummaryOf h of None \<Rightarrow> [] | Some l \<Rightarrow> [l]) @ take ?n ?a,
      cp_kept = drop ?n ?a, cp_reuse = None\<rparr>"
    using assms by (auto simp: planCompaction_def Let_def split: if_splits)
  ultimately show ?thesis using that [of ?n] by auto
qed

lemma planCompaction_reuse: "planCompaction ct h kt ke rb = Some p \<Longrightarrow> cp_reuse p \<noteq> None \<Longrightarrow> cp_toSummarize p = []"
  by (auto simp: planCompaction_def Let_def split: if_splits)

definition coverKey :: "session_entry \<Rightarrow> int" where
  "coverKey e = (case contextSummaryPayload e of Some s \<Rightarrow> cs_throughSeq s | None \<Rightarrow> e_seq e)"

lemma foldl_max_le: "foldl (\<lambda>m e. max m (f e)) (a::int) xs \<le> b \<longleftrightarrow> a \<le> b \<and> (\<forall>x \<in> set xs. f x \<le> b)"
  by (induction xs arbitrary: a) simp_all

lemma foldl_max_less: "foldl (\<lambda>m e. max m (f e)) (a::int) xs < b \<longleftrightarrow> a < b \<and> (\<forall>x \<in> set xs. f x < b)"
  by (induction xs arbitrary: a) simp_all

lemma throughSeq_less: "compactionThroughSeq xs < b \<longleftrightarrow> - 1 < b \<and> (\<forall>e \<in> set xs. coverKey e < b)"
  unfolding compactionThroughSeq_def coverKey_def by (rule foldl_max_less)

lemma throughSeq_ge: "e \<in> set xs \<Longrightarrow> coverKey e \<le> compactionThroughSeq xs"
  unfolding compactionThroughSeq_def coverKey_def
  by (rule foldl_max_le [THEN iffD1, THEN conjunct2, rule_format, OF order.refl])

subsection \<open>The context before and after a summary\<close>

definition visibleIn :: "bool \<Rightarrow> session_entry list \<Rightarrow> session_entry list" where
  "visibleIn inc es = filter (\<lambda>e. inc \<or> \<not> securityTainted e) (filter replayable es)"

text \<open>The entries the latest summary of a log does not cover.\<close>

definition uncovered :: "session_entry list \<Rightarrow> session_entry \<Rightarrow> bool" where
  "uncovered log e =
     (\<not> isSummary e \<and>
      (case latestSummaryOf (filter replayable log) of
         None \<Rightarrow> True
       | Some l \<Rightarrow> e_seq e > cs_throughSeq (the (contextSummaryPayload l))))"

lemma visibleIn_append [simp]: "visibleIn inc (xs @ ys) = visibleIn inc xs @ visibleIn inc ys"
  by (simp add: visibleIn_def)

lemma latestSummary_is_summary: "latestSummaryOf h = Some l \<Longrightarrow> isSummary l \<and> l \<in> set h"
  by (auto simp: latestSummaryOf_def find_Some_iff in_set_conv_nth rev_nth)
     (metis in_set_conv_nth length_rev nth_mem rev_nth set_rev)

lemma latestSummary_None: "latestSummaryOf h = None \<longleftrightarrow> (\<forall>e \<in> set h. \<not> isSummary e)"
  by (auto simp: latestSummaryOf_def find_None_iff)

lemma latestSummary_front: "\<forall>e \<in> set h. \<not> isSummary e \<Longrightarrow> isSummary s \<Longrightarrow> latestSummaryOf (s # h) = Some s"
  by (induction h rule: rev_induct) (auto simp: latestSummaryOf_def)

lemma latestSummary_snoc: "isSummary s \<Longrightarrow> latestSummaryOf (h @ [s]) = Some s"
  by (simp add: latestSummaryOf_def)

lemma latestSummary_append_none:
  "\<forall>e \<in> set ys. \<not> isSummary e \<Longrightarrow> latestSummaryOf (xs @ ys) = latestSummaryOf xs"
  by (induction ys rule: rev_induct) (auto simp: latestSummaryOf_def)

lemma forModelContext_shape:
  "forModelContext inc log =
     (case latestSummaryOf (filter replayable log) of
        None \<Rightarrow> []
      | Some l \<Rightarrow> if l \<in> set (visibleIn inc log) then [l] else []) @
     filter (uncovered log) (visibleIn inc log)"
proof (cases "latestSummaryOf (filter replayable log)")
  case None
  then have "\<forall>e \<in> set (visibleIn inc log). uncovered log e"
    using latestSummary_None [of "filter replayable log"] by (auto simp: uncovered_def visibleIn_def)
  then have "filter (uncovered log) (visibleIn inc log) = visibleIn inc log" by (rule filter_True)
  with None show ?thesis by (simp add: forModelContext_def latestSummaryOf_def visibleIn_def)
next
  case (Some l)
  then show ?thesis
    by (simp add: forModelContext_def latestSummaryOf_def visibleIn_def uncovered_def [abs_def] Let_def)
qed

lemma afterSummary_plain:
  assumes "\<forall>e \<in> set h. \<not> isSummary e"
  shows "afterSummaryOf h = h"
  unfolding afterSummaryOf_def latestSummary_None [THEN iffD2, OF assms] using assms by (simp add: filter_True)

lemma afterSummary_context: "afterSummaryOf (forModelContext inc log) = filter (uncovered log) (visibleIn inc log)"
proof -
  let ?F = "filter (uncovered log) (visibleIn inc log)"
  have ns: "\<forall>e \<in> set ?F. \<not> isSummary e" by (simp add: uncovered_def)
  show ?thesis
  proof (cases "latestSummaryOf (filter replayable log)")
    case None
    then have "forModelContext inc log = ?F" by (simp add: forModelContext_shape)
    then show ?thesis using afterSummary_plain [OF ns] by simp
  next
    case (Some l)
    note l = latestSummary_is_summary [OF Some, THEN conjunct1]
    show ?thesis
    proof (cases "l \<in> set (visibleIn inc log)")
      case True
      with Some have H: "forModelContext inc log = l # ?F" by (simp add: forModelContext_shape)
      have "afterSummaryOf (l # ?F) =
          filter (\<lambda>e. \<not> isSummary e \<and> e_seq e > cs_throughSeq (the (contextSummaryPayload l))) (l # ?F)"
        unfolding afterSummaryOf_def latestSummary_front [OF ns l] by simp
      also have "\<dots> = filter (\<lambda>e. \<not> isSummary e \<and> e_seq e > cs_throughSeq (the (contextSummaryPayload l))) ?F"
        using l by simp
      also have "\<dots> = ?F" by (rule filter_True) (simp add: uncovered_def Some)
      finally show ?thesis by (simp only: H)
    next
      case False
      with Some have "forModelContext inc log = ?F" by (simp add: forModelContext_shape)
      then show ?thesis using afterSummary_plain [OF ns] by simp
    qed
  qed
qed

lemma context_summary_prefix:
  assumes "latestSummaryOf (forModelContext inc log) = Some l"
  shows "latestSummaryOf (filter replayable log) = Some l \<and> l \<in> set (visibleIn inc log)"
proof -
  have "isSummary l" "l \<in> set (forModelContext inc log)" using latestSummary_is_summary [OF assms] by auto
  then show ?thesis
    by (auto simp: forModelContext_shape uncovered_def split: option.splits if_splits)
qed

text \<open>
  The cut of a plan in terms of the sequence numbers: what is summarised ends at the number the
  summary covers, what is kept and what comes later lies beyond it.
\<close>

lemma take_witness: "0 < n \<Longrightarrow> n \<le> length xs \<Longrightarrow> \<exists>z. z \<in> set (take n xs)"
  by (cases xs; cases n) auto

lemma cut_bounds:
  assumes ord: "sorted_wrt (<) (map e_seq (F @ extra))" and nonneg: "\<forall>e \<in> set (F @ extra). 0 \<le> e_seq e"
    and n: "0 < n" "n \<le> length F" and plain: "\<forall>e \<in> set F. \<not> isSummary e"
    and pre: "\<forall>l \<in> set pre. \<forall>e \<in> set F. coverKey l < e_seq e"
  shows "\<forall>e \<in> set (take n F). e_seq e \<le> compactionThroughSeq (pre @ take n F)"
    and "\<forall>e \<in> set (drop n F @ extra). compactionThroughSeq (pre @ take n F) < e_seq e"
proof -
  have key: "coverKey e = e_seq e" if "e \<in> set F" for e using that plain by (auto simp: coverKey_def)
  show "\<forall>e \<in> set (take n F). e_seq e \<le> compactionThroughSeq (pre @ take n F)"
  proof
    fix e assume e: "e \<in> set (take n F)"
    then have "coverKey e \<le> compactionThroughSeq (pre @ take n F)" by (intro throughSeq_ge) simp
    then show "e_seq e \<le> compactionThroughSeq (pre @ take n F)" using key [OF in_set_takeD [OF e]] by simp
  qed
  have "sorted_wrt (<) (map e_seq (take n F @ (drop n F @ extra)))"
    using ord by (simp only: append_take_drop_id append_assoc [symmetric])
  then have before: "\<forall>e \<in> set (take n F). \<forall>x \<in> set (drop n F @ extra). e_seq e < e_seq x"
    unfolding map_append sorted_wrt_append by auto
  obtain z where z: "z \<in> set (take n F)" using take_witness [OF n] by blast
  show "\<forall>e \<in> set (drop n F @ extra). compactionThroughSeq (pre @ take n F) < e_seq e"
  proof
    fix x assume x: "x \<in> set (drop n F @ extra)"
    have "coverKey e < e_seq x" if "e \<in> set pre" for e
      using pre that in_set_takeD [OF z] before z x less_trans by blast
    moreover have "coverKey e < e_seq x" if "e \<in> set (take n F)" for e
      using before that x key [OF in_set_takeD [OF that]] by simp
    moreover have "0 \<le> e_seq x" using x nonneg by (auto dest: in_set_dropD)
    ultimately show "compactionThroughSeq (pre @ take n F) < e_seq x" by (auto simp: throughSeq_less)
  qed
qed

lemma filter_cut:
  assumes "\<forall>x \<in> set (take n xs). \<not> P x" "\<forall>x \<in> set (drop n xs). P x"
  shows "filter P xs = drop n xs"
proof -
  have "filter P (take n xs @ drop n xs) = drop n xs"
    using assms by (simp only: filter_append filter_False filter_True append_Nil)
  then show ?thesis by simp
qed

lemma plan_covers:
  assumes ord: "sorted_wrt (<) (map e_seq (log @ extra))" and nonneg: "\<forall>e \<in> set (log @ extra). 0 \<le> e_seq e"
    and plan: "planCompaction ct (forModelContext inc log) kt ke rb = Some p" "cp_reuse p = None"
  defines "T \<equiv> compactionThroughSeq (cp_toSummarize p)"
    and "F \<equiv> filter (uncovered log) (visibleIn inc log)"
  shows "filter (\<lambda>e. e_seq e > T) F = cp_kept p"
    and "\<forall>e \<in> set extra. e_seq e > T"
    and "\<And>l. latestSummaryOf (filter replayable log) = Some l \<Longrightarrow> cs_throughSeq (the (contextSummaryPayload l)) < T"
    and "set F \<subseteq> set (cp_toSummarize p) \<union> set (cp_kept p)"
    and "set (cp_toSummarize p) \<subseteq> set (forModelContext inc log)"
proof -
  define pre where "pre = (case latestSummaryOf (forModelContext inc log) of None \<Rightarrow> [] | Some l \<Rightarrow> [l])"
  obtain n where n: "0 < n" "n \<le> length F" and ts: "cp_toSummarize p = pre @ take n F" and kept: "cp_kept p = drop n F"
    using planCompaction_cut [OF plan] unfolding afterSummary_context pre_def F_def by metis
  have sub: "set F \<subseteq> set log" by (auto simp: F_def visibleIn_def)
  have "sorted_wrt (<) (map e_seq (F @ extra))"
    using ord sub unfolding F_def visibleIn_def by (auto simp: sorted_wrt_append sorted_wrt_map sorted_wrt_filter)
  note ordF = this
  have posF: "\<forall>e \<in> set (F @ extra). 0 \<le> e_seq e" using nonneg sub by auto
  have plainF: "\<forall>e \<in> set F. \<not> isSummary e" by (simp add: F_def uncovered_def)
  have thr: "cs_throughSeq (the (contextSummaryPayload l)) < e_seq e"
    if "latestSummaryOf (filter replayable log) = Some l" "e \<in> set F" for l e
    using that by (auto simp: F_def uncovered_def)
  have "coverKey l < e_seq e" if "l \<in> set pre" "e \<in> set F" for l e
  proof -
    from that(1) have lat: "latestSummaryOf (forModelContext inc log) = Some l"
      by (simp add: pre_def split: option.splits)
    obtain s where "contextSummaryPayload l = Some s" using latestSummary_is_summary [OF lat] by auto
    with thr [OF context_summary_prefix [OF lat, THEN conjunct1] that(2)] show ?thesis by (simp add: coverKey_def)
  qed
  then have preF: "\<forall>l \<in> set pre. \<forall>e \<in> set F. coverKey l < e_seq e" by blast
  note bounds = cut_bounds [OF ordF posF n plainF preF, folded ts T_def]
  show "filter (\<lambda>e. e_seq e > T) F = cp_kept p"
    unfolding kept using bounds by (intro filter_cut) auto
  show "\<forall>e \<in> set extra. e_seq e > T" using bounds(2) by simp
  obtain z where z: "z \<in> set (take n F)" using take_witness [OF n] by blast
  show "cs_throughSeq (the (contextSummaryPayload l)) < T" if "latestSummaryOf (filter replayable log) = Some l" for l
    using thr [OF that in_set_takeD [OF z]] bounds(1) [rule_format, OF z] by linarith
  have "set F = set (take n F) \<union> set (drop n F)" by (metis append_take_drop_id set_append)
  then show "set F \<subseteq> set (cp_toSummarize p) \<union> set (cp_kept p)" by (simp only: ts kept set_append) blast
  have "set F \<subseteq> set (forModelContext inc log)" unfolding forModelContext_shape F_def set_append by (rule Un_upper2)
  moreover have "set pre \<subseteq> set (forModelContext inc log)"
    using latestSummary_is_summary [of "forModelContext inc log"] unfolding pre_def by (auto split: option.splits)
  ultimately show "set (cp_toSummarize p) \<subseteq> set (forModelContext inc log)"
    unfolding ts set_append using set_take_subset [of n F] by blast
qed

text \<open>The context once the summary is in the log.\<close>

lemma context_after_summary:
  assumes ord: "sorted_wrt (<) (map e_seq (log @ extra))" and nonneg: "\<forall>e \<in> set (log @ extra). 0 \<le> e_seq e"
    and plan: "planCompaction ct (forModelContext inc log) kt ke rb = Some p" "cp_reuse p = None"
    and none: "\<forall>e \<in> set extra. \<not> isSummary e"
    and s: "contextSummaryPayload s = Some \<lparr>cs_throughSeq = compactionThroughSeq (cp_toSummarize p), cs_text = t\<rparr>"
      "s \<in> set (visibleIn inc [s])"
  shows "forModelContext inc (log @ extra @ [s]) = s # cp_kept p @ visibleIn inc extra"
    and "forModelContext inc (log @ extra) = forModelContext inc log @ visibleIn inc extra"
proof -
  note c = plan_covers [OF ord nonneg plan]
  let ?T = "compactionThroughSeq (cp_toSummarize p)"
  have rs: "replayable s" "visibleIn inc [s] = [s]" using s(2) by (auto simp: visibleIn_def split: if_splits)
  have lat: "latestSummaryOf (filter replayable (log @ extra @ [s])) = Some s"
    using latestSummary_snoc [of s "filter replayable (log @ extra)"] s(1) rs(1) by simp
  have un: "uncovered (log @ extra @ [s]) = (\<lambda>e. \<not> isSummary e \<and> e_seq e > ?T)"
    unfolding uncovered_def lat using s(1) by (simp add: fun_eq_iff)
  have 1: "filter (\<lambda>e. \<not> isSummary e \<and> e_seq e > ?T) (visibleIn inc log) = cp_kept p"
  proof -
    have "\<not> isSummary e \<and> e_seq e > ?T \<longleftrightarrow> uncovered log e \<and> e_seq e > ?T" for e
      using c(3) unfolding uncovered_def by (auto split: option.splits)
    then show ?thesis using c(1) by simp
  qed
  have sub: "set (visibleIn inc extra) \<subseteq> set extra" by (auto simp: visibleIn_def)
  have 2: "filter (\<lambda>e. \<not> isSummary e \<and> e_seq e > ?T) (visibleIn inc extra) = visibleIn inc extra"
    using none c(2) sub by (intro filter_True) blast
  have 3: "filter (\<lambda>e. \<not> isSummary e \<and> e_seq e > ?T) [s] = []" using s(1) by simp
  show "forModelContext inc (log @ extra @ [s]) = s # cp_kept p @ visibleIn inc extra"
    unfolding forModelContext_shape lat un using 1 2 3 rs(2) by simp
  have "latestSummaryOf (filter replayable (log @ extra)) = latestSummaryOf (filter replayable log)"
    using none by (simp add: latestSummary_append_none)
  moreover from this have "uncovered (log @ extra) = uncovered log" by (simp add: uncovered_def fun_eq_iff)
  moreover have "filter (uncovered log) (visibleIn inc extra) = visibleIn inc extra"
  proof (rule filter_True)
    show "\<forall>e \<in> set (visibleIn inc extra). uncovered log e"
      using none c(2,3) sub unfolding uncovered_def by (fastforce split: option.splits)
  qed
  moreover have "l \<notin> set extra" if "latestSummaryOf (filter replayable log) = Some l" for l
    using latestSummary_is_summary [OF that] none by blast
  ultimately show "forModelContext inc (log @ extra) = forModelContext inc log @ visibleIn inc extra"
    unfolding forModelContext_shape using sub by (auto split: option.splits)
qed

subsection \<open>Compaction over the session store\<close>

lemma log_ok_order: "log_ok i log \<Longrightarrow> sorted_wrt (<) (map e_seq log) \<and> (\<forall>e \<in> set log. 0 \<le> e_seq e)"
  by (auto simp: log_ok_def sorted_wrt_iff_nth_less in_set_conv_nth)

lemma getEntries_all: "\<forall>e \<in> set (logOf st i). 0 \<le> e_seq e \<Longrightarrow> getEntries st i None None = logOf st i"
  by (simp add: getEntries_def filter_True)

lemma snapshot_length:
  assumes "log_ok i (logOf st i)"
  shows "snapshotSeq i st = int (length (logOf st i)) - 1"
proof (cases "logOf st i" rule: rev_cases)
  case Nil
  then show ?thesis by (simp add: snapshotSeq_def getEntries_def)
next
  case (snoc ys y)
  have "e_seq y = int (length ys)" using assms unfolding snoc log_ok_def by (auto dest!: spec [of _ "length ys"])
  then show ?thesis
    using getEntries_all [OF log_ok_order [OF assms, THEN conjunct2]] snoc by (simp add: snapshotSeq_def)
qed

lemma getEntries_since:
  assumes "log_ok i (xs @ ys)" "logOf st i = xs @ ys"
  shows "getEntries st i (Some (int (length xs))) None = ys"
proof -
  have "e_seq e < int (length xs)" if "e \<in> set xs" for e
  proof -
    obtain k where "k < length xs" "e = xs ! k" using \<open>e \<in> set xs\<close> by (metis in_set_conv_nth)
    then show ?thesis using assms(1) by (auto simp: log_ok_def nth_append dest!: spec [of _ k])
  qed
  moreover have "int (length xs) \<le> e_seq e" if "e \<in> set ys" for e
  proof -
    obtain k where "k < length ys" "e = ys ! k" using \<open>e \<in> set ys\<close> by (metis in_set_conv_nth)
    then show ?thesis using assms(1) by (auto simp: log_ok_def nth_append dest!: spec [of _ "length xs + k"])
  qed
  ultimately show ?thesis using assms(2) by (auto simp: getEntries_def filter_False filter_True not_le)
qed

lemma summaryEntry_payload:
  assumes "e_payload e = ne_payload (summaryEntry sm)" "e_type e = ESystem"
  shows "contextSummaryPayload e = Some \<lparr>cs_throughSeq = sm_throughSeq sm, cs_text = sm_text sm\<rparr>"
    and "inc \<or> \<not> sm_tainted sm \<Longrightarrow> e \<in> set (visibleIn inc [e])"
  using assms
  by (auto simp: contextSummaryPayload_def summaryEntry_def createContextSummaryPayload_def payload jint_def
      CONTEXT_SUMMARY_KIND_def visibleIn_def replayable_def securityTainted_def)

lemma writeCompaction_log:
  assumes "writeCompaction now ttl l i sm st = (Inr (summary, m), st')" "ls_sessionId l = j"
  shows "logOf st' j = logOf st j @ [summary] \<and> e_payload summary = ne_payload (summaryEntry sm) \<and>
         e_type summary = ESystem \<and> e_seq summary = int (length (logOf st j))"
proof -
  obtain st1 where a: "append_entry now ttl l (summaryEntry sm) st = (Inr summary, st1)" and e: "ss_entries st' = ss_entries st1"
    using assms(1)
    by (auto simp: writeCompaction_def appendTape_frame split: prod.splits sum.splits if_splits)
       (metis appendTape_frame(3) snd_conv)+
  have "logOf st1 j = logOf st j @ [summary] \<and> e_payload summary = ne_payload (summaryEntry sm) \<and>
      e_type summary = ne_type (summaryEntry sm) \<and> e_seq summary = int (length (logOf st j))"
    using a assms(2)
    by (auto simp: append_entry_def renewLease_def Let_def jm_list_def newEntry_def split: option.splits if_splits)
  then show ?thesis using e by (simp add: summaryEntry_def)
qed

lemma backgroundWrite_log:
  assumes "backgroundWrite now ttl fresh i snap sm st = (Inr (Some summary), st')"
  shows "logOf st' i = logOf st i @ [summary] \<and> e_payload summary = ne_payload (summaryEntry sm) \<and>
         e_type summary = ESystem \<and> 0 \<le> e_seq summary \<and> list_all (\<lambda>e. \<not> isSummary e) (getEntries st i (Some (snap + 1)) None)"
proof -
  obtain att st1 where acq: "acquireLease now ttl fresh i (Some HCompaction) st = (att, st1)" by fastforce
  then have e1: "ss_entries st1 = ss_entries st" by (metis acquireLease_frame(3) snd_conv)
  obtain l m st2 where l: "la_lease att = Some l" and w: "writeCompaction now ttl l i sm st1 = (Inr (summary, m), st2)"
    and st': "st' = releaseLease l st2" and none: "\<not> list_ex isSummary (getEntries st1 i (Some (snap + 1)) None)"
    using assms acq by (auto simp: backgroundWrite_def split: option.splits prod.splits sum.splits if_splits)
  have "ls_sessionId l = i" using acq l by (auto simp: acquireLease_def Let_def split: option.splits if_splits)
  from writeCompaction_log [OF w this] e1 st' none show ?thesis
    by (auto simp: releaseLease_def getEntries_def list_ex_iff list_all_iff Let_def)
qed

subsection \<open>Properties\<close>

lemma summarize_plan:
  assumes "summarizeForCompaction managed can ct se stk ch sid org h = Some sm"
  obtains plan where "compactionPlanFor ct se stk h = Some plan" "cp_reuse plan = None"
    "sm_throughSeq sm = compactionThroughSeq (cp_toSummarize plan)" "sm_text sm = ch (cp_toSummarize plan)"
    "sm_tainted sm = list_ex securityTainted (cp_toSummarize plan)"
    "compactedScopeLabel (cp_toSummarize plan) sid org = Some (sm_label sm)"
  using assms planCompaction_reuse
  by (fastforce simp: summarizeForCompaction_def compactionPlanFor_def split: if_splits option.splits)

lemma context_untainted: "e \<in> set (forModelContext False log) \<Longrightarrow> \<not> securityTainted e"
  by (auto simp: forModelContext_shape visibleIn_def split: option.splits if_splits)

lemma context_prefix_summarised:
  assumes "planCompaction ct (forModelContext inc log) kt ke rb = Some p" "cp_reuse p = None"
    "e \<in> set (forModelContext inc log)"
  shows "e \<in> set (cp_toSummarize p) \<or> uncovered log e \<and> e \<in> set (visibleIn inc log)"
proof (cases "isSummary e")
  case True
  with assms(3) have lat: "latestSummaryOf (filter replayable log) = Some e" "e \<in> set (visibleIn inc log)"
    by (auto simp: forModelContext_shape uncovered_def split: option.splits if_splits)
  then have "forModelContext inc log = e # filter (uncovered log) (visibleIn inc log)"
    by (simp add: forModelContext_shape)
  then have "latestSummaryOf (forModelContext inc log) = Some e"
    using True latestSummary_front [of "filter (uncovered log) (visibleIn inc log)" e] by (simp add: uncovered_def)
  then show ?thesis using planCompaction_cut [OF assms(1,2)] by (metis list.set_intros(1) option.simps(5) Un_iff set_append)
next
  case False
  then show ?thesis using assms(3)
    by (auto simp: forModelContext_shape uncovered_def dest: latestSummary_is_summary split: option.splits if_splits)
qed

lemma context_step:
  assumes ord: "sorted_wrt (<) (map e_seq (log @ extra))" and pos: "\<forall>e \<in> set (log @ extra). 0 \<le> e_seq e"
    and p: "planCompaction ct (forModelContext inc log) kt ke rb = Some p" "cp_reuse p = None"
    and none: "\<forall>e \<in> set extra. \<not> isSummary e"
    and s: "contextSummaryPayload s = Some \<lparr>cs_throughSeq = compactionThroughSeq (cp_toSummarize p), cs_text = t\<rparr>"
      "s \<in> set (visibleIn inc [s])"
  defines "T \<equiv> compactionThroughSeq (cp_toSummarize p)"
  shows "forModelContext inc (log @ extra @ [s]) = s # filter (notCovered T) (forModelContext inc (log @ extra))"
    and "set (forModelContext inc (log @ extra)) \<subseteq> set (cp_toSummarize p) \<union> set (forModelContext inc (log @ extra @ [s]))"
proof -
  note c = plan_covers [OF ord pos p, folded T_def]
  note after = context_after_summary [OF ord pos p none s]
  have plain: "filter (notCovered T) xs = filter (\<lambda>e. e_seq e > T) xs" if "\<forall>e \<in> set xs. \<not> isSummary e" for xs
    using that by (auto simp: notCovered_def intro: filter_cong)
  have 1: "filter (notCovered T) (filter (uncovered log) (visibleIn inc log)) = cp_kept p"
    using plain [of "filter (uncovered log) (visibleIn inc log)"] c(1) by (simp add: uncovered_def)
  have 2: "filter (notCovered T) (visibleIn inc extra) = visibleIn inc extra"
    using c(2) none by (intro filter_True) (auto simp: notCovered_def visibleIn_def)
  have "filter (notCovered T) (case latestSummaryOf (filter replayable log) of None \<Rightarrow> []
      | Some l \<Rightarrow> if l \<in> set (visibleIn inc log) then [l] else []) = []"
  proof (cases "latestSummaryOf (filter replayable log)")
    case (Some l)
    then show ?thesis using latestSummary_is_summary [OF Some] by (simp add: notCovered_def)
  qed simp
  then have "filter (notCovered T) (forModelContext inc log) = cp_kept p"
    unfolding forModelContext_shape filter_append 1 by simp
  then show ctx: "forModelContext inc (log @ extra @ [s]) = s # filter (notCovered T) (forModelContext inc (log @ extra))"
    unfolding after filter_append 2 by simp
  show "set (forModelContext inc (log @ extra)) \<subseteq> set (cp_toSummarize p) \<union> set (forModelContext inc (log @ extra @ [s]))"
    using context_prefix_summarised [OF p] c(4) unfolding after by fastforce
qed

text \<open>
  C16. A compaction in the background loses nothing. However many operations on the store run between
  its reading of a session and its writing of the summary, as long as the session is not deleted:
  once the summary is written, the context of the next turn is the summary followed by exactly the
  entries of the context before it that the summary does not cover, and every entry of that context
  was given to the summariser or is still there.
\<close>

theorem compaction_loses_nothing:
  assumes reach: "any_step\<^sup>*\<^sup>* createMemorySessionStore st1"
    and later: "(session_step (\<lambda>op. \<not> deletes i op))\<^sup>*\<^sup>* st1 st2"
    and summ: "summarizeForCompaction managed can ct se stk ch sid org (backgroundHistory inc i st1) = Some sm"
    and written: "backgroundWrite now ttl fresh i (snapshotSeq i st1) sm st2 = (Inr (Some summary), st3)"
  shows "\<exists>plan. compactionPlanFor ct se stk (backgroundHistory inc i st1) = Some plan \<and>
      contextSummaryPayload summary =
        Some \<lparr>cs_throughSeq = compactionThroughSeq (cp_toSummarize plan), cs_text = ch (cp_toSummarize plan)\<rparr> \<and>
      backgroundHistory inc i st3 = summary # filter (notCovered (sm_throughSeq sm)) (backgroundHistory inc i st2) \<and>
      set (backgroundHistory inc i st2) \<subseteq> set (cp_toSummarize plan) \<union> set (backgroundHistory inc i st3)"
proof -
  have ok1: "store_ok st1" by (rule reachable_ok [OF reach])
  have ok2: "store_ok st2" by (rule sessions.steps_inv [OF later ok1])
  obtain extra where log2: "logOf st2 i = logOf st1 i @ extra"
    using session_log.steps_R [OF later ok1] by (auto simp: log_grows_def)
  have lo1: "log_ok i (logOf st1 i)" using ok1 by (simp add: store_ok_def logs_ok_def)
  have lo2: "log_ok i (logOf st1 i @ extra)"
    unfolding log2 [symmetric] using ok2 by (simp add: store_ok_def logs_ok_def)
  note ord = log_ok_order [OF lo2, THEN conjunct1] and pos = log_ok_order [OF lo2, THEN conjunct2]
  note h1 = getEntries_all [OF log_ok_order [OF lo1, THEN conjunct2]]
  obtain plan where plan: "compactionPlanFor ct se stk (forModelContext inc (logOf st1 i)) = Some plan" "cp_reuse plan = None"
    and sm: "sm_throughSeq sm = compactionThroughSeq (cp_toSummarize plan)" "sm_text sm = ch (cp_toSummarize plan)"
      "sm_tainted sm = list_ex securityTainted (cp_toSummarize plan)"
    using summarize_plan [OF summ] unfolding backgroundHistory_def h1 by metis
  note p = plan(1) [unfolded compactionPlanFor_def] plan(2)
  have wl: "logOf st3 i = logOf st1 i @ extra @ [summary]" "e_payload summary = ne_payload (summaryEntry sm)"
      "e_type summary = ESystem" "0 \<le> e_seq summary" and none: "\<forall>e \<in> set extra. \<not> isSummary e"
    using backgroundWrite_log [OF written] log2 getEntries_since [OF lo2 log2] snapshot_length [OF lo1]
    by (auto simp: list_all_iff)
  have "\<not> sm_tainted sm" if "\<not> inc"
    using that plan_covers(5) [OF ord pos p] context_untainted sm(3) by (auto simp: list_ex_iff)
  then have s: "contextSummaryPayload summary =
      Some \<lparr>cs_throughSeq = compactionThroughSeq (cp_toSummarize plan), cs_text = ch (cp_toSummarize plan)\<rparr>"
      "summary \<in> set (visibleIn inc [summary])"
    using summaryEntry_payload [OF wl(2,3)] sm(1,2) by auto
  have "getEntries st2 i None None = logOf st1 i @ extra" "getEntries st3 i None None = logOf st1 i @ extra @ [summary]"
    using getEntries_all [of st2 i] getEntries_all [of st3 i] pos wl(1,4) log2 by auto
  then have "backgroundHistory inc i st2 = forModelContext inc (logOf st1 i @ extra)"
    "backgroundHistory inc i st3 = forModelContext inc (logOf st1 i @ extra @ [summary])"
    by (simp_all add: backgroundHistory_def)
  with context_step [OF ord pos p none s] s(1) plan(1) sm(1) show ?thesis
    by (auto simp: backgroundHistory_def h1 intro!: exI [of _ plan])
qed

text \<open>
  C17. The label of a summary can be wider than what it summarises: folding a team's entry and a personal
  one gives the personal label, so a person outside the team who sees the summary is not entitled
  to all it was made from.
\<close>

theorem summary_label_can_widen:
  "\<exists>entries sid org label p e.
     compactedScopeLabel entries sid org = Some label \<and> principalEntitledToScope p label sid org \<and>
     e \<in> set entries \<and> \<not> principalEntitledToScope p (e_scopeLabel e) sid org"
proof -
  let ?e = "\<lambda>n l. \<lparr>e_sessionId = ''s'', e_seq = n, e_parentSeq = None, e_type = EUser, e_payload = JNull,
      e_scopeLabel = l, e_createdAt = 0\<rparr>"
  let ?p = "\<lparr>p_id = ''U1'', p_type = Internal, p_teamIds = None, p_displayName = None\<rparr>"
  have "compactedScopeLabel [?e 0 ''team:eng'', ?e 1 ''personal:U1''] ''personal:U1'' ''org:o'' = Some ''personal:U1''"
    "principalEntitledToScope ?p ''personal:U1'' ''personal:U1'' ''org:o''"
    "\<not> principalEntitledToScope ?p ''team:eng'' ''personal:U1'' ''org:o''"
    by code_simp+
  then show ?thesis
    by (intro exI [of _ "[?e 0 ''team:eng'', ?e 1 ''personal:U1'']"] exI [of _ "''personal:U1''"] exI [of _ "''org:o''"]
          exI [of _ ?p] exI [of _ "?e 0 ''team:eng''"]) simp
qed

subsection \<open>Witness\<close>

definition ex_compact_append :: "int \<Rightarrow> string \<Rightarrow> session_op" where
  "ex_compact_append now txt = OpAppend now 100 \<lparr>ls_sessionId = ''s1'', ls_token = ''k1''\<rparr>
     \<lparr>ne_type = EUser, ne_payload = JObj [(''text'', JStr txt)], ne_scopeLabel = ''channel:c'', ne_parentSeq = None\<rparr>"

definition ex_compact_st1 :: session_store where
  "ex_compact_st1 = fold session_apply
     [ex_op_create, OpAcquire 6 100 ''k1'' ''s1'' (Some HTurn), ex_compact_append 7 ''a'', ex_compact_append 8 ''b'',
      ex_compact_append 9 ''c''] createMemorySessionStore"

definition ex_compact_later :: "session_op list" where
  "ex_compact_later = [ex_compact_append 10 ''d'', OpRelease \<lparr>ls_sessionId = ''s1'', ls_token = ''k1''\<rparr>]"

definition ex_compact_st2 :: session_store where
  "ex_compact_st2 = fold session_apply ex_compact_later ex_compact_st1"

definition ex_summarized :: summarized where
  "ex_summarized = \<lparr>sm_text = ''sum'', sm_label = ''channel:c'', sm_throughSeq = 1, sm_tainted = False\<rparr>"

definition ex_compact_write :: "(session_error + session_entry option) \<times> session_store" where
  "ex_compact_write = backgroundWrite 20 100 ''k2'' ''s1'' (snapshotSeq ''s1'' ex_compact_st1) ex_summarized ex_compact_st2"

theorem compaction_loses_nothing_witness:
  "map e_seq (backgroundHistory False ''s1'' ex_compact_st2) = [0, 1, 2, 3] \<and>
   map e_seq (backgroundHistory False ''s1'' (snd ex_compact_write)) = [4, 2, 3]"
proof -
  define summary where "summary = (case fst ex_compact_write of Inr (Some s) \<Rightarrow> s)"
  have reach: "any_step\<^sup>*\<^sup>* createMemorySessionStore ex_compact_st1"
    unfolding ex_compact_st1_def by (rule ops_ok_steps) code_simp
  have later: "(session_step (\<lambda>op. \<not> deletes ''s1'' op))\<^sup>*\<^sup>* ex_compact_st1 ex_compact_st2"
    unfolding ex_compact_st2_def by (rule ops_ok_steps) code_simp
  have summ: "summarizeForCompaction False True (\<lambda>_. 1) 2 1 (\<lambda>_. ''sum'') ''channel:c'' ''org:o''
      (backgroundHistory False ''s1'' ex_compact_st1) = Some ex_summarized"
    by code_simp
  have "case fst ex_compact_write of Inr (Some s) \<Rightarrow> e_seq s = 4 | _ \<Rightarrow> False" by code_simp
  then have fst: "fst ex_compact_write = Inr (Some summary)" "e_seq summary = 4"
    by (auto simp: summary_def split: sum.splits option.splits)
  then have written: "backgroundWrite 20 100 ''k2'' ''s1'' (snapshotSeq ''s1'' ex_compact_st1) ex_summarized ex_compact_st2 =
      (Inr (Some summary), snd ex_compact_write)"
    unfolding ex_compact_write_def [symmetric] by (metis prod.collapse)
  from compaction_loses_nothing [OF reach later summ written]
  have "backgroundHistory False ''s1'' (snd ex_compact_write) =
      summary # filter (notCovered 1) (backgroundHistory False ''s1'' ex_compact_st2)"
    by (auto simp: ex_summarized_def)
  moreover have "map e_seq (filter (notCovered 1) (backgroundHistory False ''s1'' ex_compact_st2)) = [2, 3]" by code_simp
  moreover have "map e_seq (backgroundHistory False ''s1'' ex_compact_st2) = [0, 1, 2, 3]" by code_simp
  ultimately show ?thesis using fst(2) by simp
qed

end
