(* ===== verification/TapeFold.thy ===== *)
theory TapeFold
  imports Compaction
begin

section \<open>Folding the tape of a session into messages\<close>

text \<open>
  Models \<open>src/src/harness/tape-fold.ts\<close>: the rows of a session tape become the messages a model is
  seeded with. Rows are narrowed to an audience, rewritten for the persona that speaks, folded over
  compactions and imports, healed after an interruption, linted, and their images reloaded under a
  byte budget. Messages are JSON values, as in the source.
\<close>

abbreviation rowKind :: "tape_record \<Rightarrow> tape_kind" where "rowKind r \<equiv> nt_kind (tr_rec r)"
abbreviation rowPayload :: "tape_record \<Rightarrow> json" where "rowPayload r \<equiv> nt_payload (tr_rec r)"
abbreviation rowScope :: "tape_record \<Rightarrow> scope_id" where "rowScope r \<equiv> nt_scopeLabel (tr_rec r)"

subsection \<open>Messages\<close>

definition textBlock :: "string \<Rightarrow> json" where
  "textBlock s = JObj [(''type'', JStr ''text''), (''text'', JStr s)]"

definition roleIs :: "string \<Rightarrow> json \<Rightarrow> bool" where
  "roleIs r m = (jfield m ''role'' = Some (JStr r))"

definition typeIs :: "string \<Rightarrow> json \<Rightarrow> bool" where
  "typeIs t b = (jfield b ''type'' = Some (JStr t))"

definition interruptedResult :: "string \<Rightarrow> json \<Rightarrow> millis \<Rightarrow> json" where
  "interruptedResult callId toolName at =
     JObj [(''role'', JStr ''toolResult''), (''toolCallId'', JStr callId), (''toolName'', toolName),
           (''content'', JArr [textBlock INTERRUPTED_TOOL_RESULT]), (''isError'', JBool True), (''timestamp'', jint at)]"

text \<open>The tool calls of an assistant message (identifier and name), and the call a result answers.\<close>

definition contentBlocks :: "json \<Rightarrow> json list" where
  "contentBlocks m = (case listField m ''content'' of Some bs \<Rightarrow> bs | None \<Rightarrow> [])"

definition orTool :: "json option \<Rightarrow> json" where
  "orTool n = (case n of None \<Rightarrow> JStr ''tool'' | Some JNull \<Rightarrow> JStr ''tool'' | Some j \<Rightarrow> j)"

definition blockCall :: "json \<Rightarrow> (string \<times> json) option" where
  "blockCall b =
     (if typeIs ''toolCall'' b
      then map_option (\<lambda>i. (i, orTool (jfield b ''name''))) (strField b ''id'') else None)"

definition messageCalls :: "json \<Rightarrow> (string \<times> json) list" where
  "messageCalls m = (if roleIs ''assistant'' m then List.map_filter blockCall (contentBlocks m) else [])"

definition messageAnswer :: "json \<Rightarrow> string option" where
  "messageAnswer m = (if roleIs ''toolResult'' m then strField m ''toolCallId'' else None)"

subsection \<open>Narrowing a tape to an audience\<close>

definition entitledAll :: "principal list \<Rightarrow> scope_id \<Rightarrow> scope_id \<Rightarrow> scope_id \<Rightarrow> bool" where
  "entitledAll audience sid org scope = list_all (\<lambda>p. principalEntitledToScope p scope sid org) audience"

definition redactRow :: "tape_record \<Rightarrow> tape_record list" where
  "redactRow r =
     (case messageAnswer (rowPayload r) of
        Some cid \<Rightarrow>
          [r\<lparr>tr_rec := (tr_rec r)\<lparr>nt_payload :=
               interruptedResult cid
                 (case strField (rowPayload r) ''toolName'' of Some n \<Rightarrow> JStr n | None \<Rightarrow> JStr ''tool'')
                 (tr_createdAt r)\<rparr>\<rparr>]
      | None \<Rightarrow> [])"

definition filterTapeForAudience ::
  "tape_record list \<Rightarrow> principal list \<Rightarrow> scope_id \<Rightarrow> scope_id \<Rightarrow> tape_record list"
where
  "filterTapeForAudience rows audience sid org =
     (if audience = [] then []
      else concat (map (\<lambda>r. if rowKind r \<noteq> TMessage \<or> entitledAll audience sid org (rowScope r) then [r]
                            else redactRow r) rows))"

datatype tape_event = ECompaction string | ELegacyImport "json list" | ELegacyPatch "json list" | EInterrupt

text \<open>\<open>messages\<close> is an array where it is there; \<open>text\<close> prints as a template literal does.\<close>

definition contextEvent :: "tape_record \<Rightarrow> tape_event option" where
  "contextEvent row =
     (if rowKind row \<noteq> TContextEvent then None
      else
        (let p = rowPayload row; ev = strField p ''event'';
             msgs = (case listField p ''messages'' of Some ms \<Rightarrow> ms | None \<Rightarrow> [])
         in if ev = Some ''compaction''
            then Some (ECompaction (case jfield p ''text'' of None \<Rightarrow> ''undefined'' | Some j \<Rightarrow> js_String j))
            else if ev = Some ''legacy_import'' then Some (ELegacyImport msgs)
            else if ev = Some ''legacy_patch'' then Some (ELegacyPatch msgs)
            else if ev = Some ''interrupt'' then Some EInterrupt
            else None))"

definition isImport :: "tape_record \<Rightarrow> bool" where
  "isImport r = (case contextEvent r of Some (ELegacyImport _) \<Rightarrow> True | _ \<Rightarrow> False)"

definition lastImportLacksScopes :: "tape_record list \<Rightarrow> bool" where
  "lastImportLacksScopes rows =
     (case find isImport (rev rows) of
        None \<Rightarrow> False
      | Some r \<Rightarrow> listField (rowPayload r) ''scopes'' = None)"

definition scopesEntitled :: "principal list \<Rightarrow> scope_id \<Rightarrow> scope_id \<Rightarrow> tape_record \<Rightarrow> bool" where
  "scopesEntitled audience sid org r =
     (case listField (rowPayload r) ''scopes'' of
        None \<Rightarrow> False
      | Some ss \<Rightarrow> list_all (\<lambda>s. case s of JStr x \<Rightarrow> entitledAll audience sid org x | _ \<Rightarrow> False) ss)"

definition eventEntitled :: "principal list \<Rightarrow> scope_id \<Rightarrow> scope_id \<Rightarrow> tape_record \<Rightarrow> bool" where
  "eventEntitled audience sid org r =
     (case contextEvent r of
        None \<Rightarrow> True
      | Some EInterrupt \<Rightarrow> True
      | Some (ECompaction _) \<Rightarrow> entitledAll audience sid org (rowScope r)
      | Some _ \<Rightarrow> entitledAll audience sid org (rowScope r) \<and> scopesEntitled audience sid org r)"

text \<open>The rows from the last import on; everything where there is none.\<close>

fun fromLastImport :: "tape_record list \<Rightarrow> tape_record list" where
  "fromLastImport [] = []"
| "fromLastImport (r # rows) = (if list_ex isImport rows then fromLastImport rows else r # rows)"

definition tapeEventsEntitled :: "tape_record list \<Rightarrow> principal list \<Rightarrow> scope_id \<Rightarrow> scope_id \<Rightarrow> bool" where
  "tapeEventsEntitled rows audience sid org =
     (audience \<noteq> [] \<and> list_all (eventEntitled audience sid org) (fromLastImport rows))"

subsection \<open>Folding\<close>

record foldable =
  fo_out :: "json list"
  fo_boundaries :: "(nat \<times> int) list"

definition unansweredCalls :: "json list \<Rightarrow> (string \<times> json) list" where
  "unansweredCalls out =
     filter (\<lambda>c. fst c \<notin> set (List.map_filter messageAnswer out)) (concat (map messageCalls out))"

definition healDanglingCalls :: "json list \<Rightarrow> millis \<Rightarrow> json list" where
  "healDanglingCalls out at = out @ map (\<lambda>(i, n). interruptedResult i n at) (unansweredCalls out)"

definition summaryMessage :: "string \<Rightarrow> millis \<Rightarrow> json" where
  "summaryMessage txt at =
     JObj [(''role'', JStr ''user''),
           (''content'', JArr [textBlock (''[Earlier conversation summary]'' @ [newline_char] @ txt)]),
           (''timestamp'', jint at)]"

definition foldCompaction :: "string \<Rightarrow> millis \<Rightarrow> int option \<Rightarrow> foldable \<Rightarrow> foldable" where
  "foldCompaction txt at covers f =
     (case (case covers of None \<Rightarrow> None | Some c \<Rightarrow> find (\<lambda>b. snd b \<le> c) (rev (fo_boundaries f))) of
        Some b0 \<Rightarrow>
          \<lparr>fo_out = summaryMessage txt at # drop (fst b0) (fo_out f),
           fo_boundaries = map (\<lambda>b. (fst b - fst b0 + 1, snd b)) (filter (\<lambda>b. fst b \<ge> fst b0) (fo_boundaries f))\<rparr>
      | None \<Rightarrow>
          \<lparr>fo_out = summaryMessage txt at # fo_out f,
           fo_boundaries = map (\<lambda>b. (fst b + 1, snd b)) (fo_boundaries f)\<rparr>)"

definition addBoundary :: "int option \<Rightarrow> foldable \<Rightarrow> foldable" where
  "addBoundary seq f =
     (case seq of
        None \<Rightarrow> f
      | Some n \<Rightarrow> f\<lparr>fo_boundaries := fo_boundaries f @ [(length (fo_out f), n)]\<rparr>)"

definition foldRow :: "foldable \<Rightarrow> tape_record \<Rightarrow> foldable" where
  "foldRow f row =
     (if rowKind row = TAnnotation
      then (if flagField (rowPayload row) ''turnEnd'' then addBoundary (nt_entrySeq (tr_rec row)) f else f)
      else
        (case contextEvent row of
           Some (ELegacyImport ms) \<Rightarrow> addBoundary (nt_coversEntrySeq (tr_rec row)) \<lparr>fo_out = ms, fo_boundaries = []\<rparr>
         | Some (ELegacyPatch ms) \<Rightarrow> addBoundary (nt_coversEntrySeq (tr_rec row)) (f\<lparr>fo_out := fo_out f @ ms\<rparr>)
         | Some (ECompaction txt) \<Rightarrow> foldCompaction txt (tr_createdAt row) (nt_coversEntrySeq (tr_rec row)) f
         | Some EInterrupt \<Rightarrow> f\<lparr>fo_out := healDanglingCalls (fo_out f) (tr_createdAt row)\<rparr>
         | None \<Rightarrow>
             (if rowKind row = TMessage \<and> rowPayload row \<noteq> JNull then f\<lparr>fo_out := fo_out f @ [rowPayload row]\<rparr>
              else f)))"

definition foldRows :: "tape_record list \<Rightarrow> foldable \<Rightarrow> foldable" where
  "foldRows rows f = foldl foldRow f rows"

definition emptyFold :: foldable where
  "emptyFold = \<lparr>fo_out = [], fo_boundaries = []\<rparr>"

definition foldTape :: "tape_record list \<Rightarrow> json list" where
  "foldTape rows = fo_out (foldRows rows emptyFold)"

subsection \<open>The tape as one persona sees it\<close>

record fold_persona =
  fp_id :: string
  fp_name :: string

definition UNATTRIBUTED_AUTHOR :: string where
  "UNATTRIBUTED_AUTHOR = ''Assistant''"

definition rowAuthor :: "tape_record \<Rightarrow> string option" where
  "rowAuthor r = (case nt_meta (tr_rec r) of None \<Rightarrow> None | Some m \<Rightarrow> strField m ''author'')"

definition blockText :: "json \<Rightarrow> string option" where
  "blockText b = (if typeIs ''text'' b then strField b ''text'' else None)"

definition asSpeaker :: "tape_record \<Rightarrow> tape_record" where
  "asSpeaker row =
     (let msg = rowPayload row; blocks = contentBlocks msg;
          author = (case rowAuthor row of None \<Rightarrow> UNATTRIBUTED_AUTHOR | Some a \<Rightarrow> a);
          txt = ''['' @ author @ '']: '' @ join_with [newline_char] (List.map_filter blockText blocks) @
                (if list_ex (typeIs ''toolCall'') blocks
                 then [newline_char] @ ''['' @ author @ '' used tools]'' else [])
      in row\<lparr>tr_rec := (tr_rec row)\<lparr>nt_payload :=
           JObj ([(''role'', JStr ''user''), (''content'', JArr [textBlock txt])] @
                 (case jfield msg ''timestamp'' of Some (JNum n) \<Rightarrow> [(''timestamp'', JNum n)] | _ \<Rightarrow> []))\<rparr>\<rparr>)"

text \<open>A row that is rewritten: an assistant message whose author is not the persona.\<close>

definition spokenByOther :: "fold_persona \<Rightarrow> tape_record \<Rightarrow> bool" where
  "spokenByOther persona row =
     (rowKind row = TMessage \<and> rowPayload row \<noteq> JNull \<and> roleIs ''assistant'' (rowPayload row) \<and>
      rowAuthor row \<noteq> Some (fp_name persona))"

fun rewriteFrom :: "fold_persona \<Rightarrow> string list \<Rightarrow> tape_record list \<Rightarrow> tape_record list" where
  "rewriteFrom persona dropped [] = []"
| "rewriteFrom persona dropped (row # rows) =
     (if spokenByOther persona row
      then asSpeaker row # rewriteFrom persona (dropped @ map fst (messageCalls (rowPayload row))) rows
      else if rowKind row = TMessage \<and> (case messageAnswer (rowPayload row) of Some cid \<Rightarrow> cid \<in> set dropped | None \<Rightarrow> False)
      then rewriteFrom persona dropped rows
      else row # rewriteFrom persona dropped rows)"

definition rewriteRowsForPersona :: "tape_record list \<Rightarrow> fold_persona \<Rightarrow> tape_record list" where
  "rewriteRowsForPersona rows persona = rewriteFrom persona [] rows"

definition foldTapeForPersona :: "tape_record list \<Rightarrow> fold_persona option \<Rightarrow> json list" where
  "foldTapeForPersona rows persona =
     foldTape (case persona of None \<Rightarrow> rows | Some p \<Rightarrow> rewriteRowsForPersona rows p)"

subsection \<open>The lint\<close>

record lint_state =
  li_problems :: "string list"
  li_open :: "string list"
  li_seen :: "string list"

definition addProblem :: "nat \<Rightarrow> string \<Rightarrow> lint_state \<Rightarrow> lint_state" where
  "addProblem i p st = st\<lparr>li_problems := li_problems st @ [''#'' @ show_nat i @ '': '' @ p]\<rparr>"

definition lintCall :: "nat \<Rightarrow> string \<Rightarrow> lint_state \<Rightarrow> lint_state" where
  "lintCall i cid st =
     (let st1 = (if cid \<in> set (li_seen st) then addProblem i (''duplicate tool call id '' @ cid) st else st)
      in st1\<lparr>li_seen := List.insert cid (li_seen st1), li_open := List.insert cid (li_open st1)\<rparr>)"

definition jsonOr :: "json option \<Rightarrow> string" where
  "jsonOr x = (case x of None \<Rightarrow> ''undefined'' | Some j \<Rightarrow> stringify j)"

definition stringOr :: "json option \<Rightarrow> string" where
  "stringOr x = (case x of None \<Rightarrow> ''undefined'' | Some j \<Rightarrow> js_String j)"

definition bytelessImages :: "json \<Rightarrow> json list" where
  "bytelessImages m = filter (\<lambda>b. typeIs ''image'' b \<and> strField b ''data'' = None) (contentBlocks m)"

definition lintRole :: "nat \<Rightarrow> json \<Rightarrow> lint_state \<Rightarrow> lint_state" where
  "lintRole i m st =
     (if roleIs ''assistant'' m then fold (\<lambda>c. lintCall i (fst c)) (messageCalls m) st
      else if roleIs ''toolResult'' m
      then (case strField m ''toolCallId'' of
              Some cid \<Rightarrow>
                (if cid \<in> set (li_open st) then st\<lparr>li_open := removeAll cid (li_open st)\<rparr>
                 else addProblem i (''toolResult without a preceding open call ('' @ cid @ '')'') st)
            | None \<Rightarrow>
                addProblem i (''toolResult without a preceding open call ('' @ stringOr (jfield m ''toolCallId'') @ '')'') st)
      else if li_open st \<noteq> []
      then (addProblem i (''user message while '' @ show_nat (length (li_open st)) @ '' tool call(s) await results'') st)
             \<lparr>li_open := []\<rparr>
      else st)"

definition lintMessage :: "nat \<Rightarrow> json \<Rightarrow> lint_state \<Rightarrow> lint_state" where
  "lintMessage i m st =
     (if \<not> roleIs ''user'' m \<and> \<not> roleIs ''assistant'' m \<and> \<not> roleIs ''toolResult'' m
      then addProblem i (''unknown role '' @ jsonOr (jfield m ''role'')) st
      else lintRole i m (fold (\<lambda>_. addProblem i ''image block without bytes'') (bytelessImages m) st))"

fun lintFrom :: "nat \<Rightarrow> json list \<Rightarrow> lint_state \<Rightarrow> lint_state" where
  "lintFrom i [] st = st"
| "lintFrom i (m # ms) st = lintFrom (Suc i) ms (lintMessage i m st)"

definition falsy :: "json \<Rightarrow> bool" where
  "falsy j = (j = JNull \<or> j = JBool False \<or> j = JStr [] \<or> j = JNum ''0'')"

definition lintStart :: "json list \<Rightarrow> lint_state" where
  "lintStart messages =
     \<lparr>li_problems =
        (case messages of
           [] \<Rightarrow> []
         | m # _ \<Rightarrow> if \<not> falsy m \<and> \<not> roleIs ''user'' m
                   then [''#0: first message must be user-role, got '' @ jsonOr (jfield m ''role'')] else []),
      li_open = [], li_seen = []\<rparr>"

definition lintFold :: "json list \<Rightarrow> string list" where
  "lintFold messages =
     (let st = lintFrom 0 messages (lintStart messages)
      in li_problems st @
         (if li_open st \<noteq> [] then [''end: '' @ show_nat (length (li_open st)) @ '' dangling tool call(s)''] else []))"

definition foldOk :: "json list \<Rightarrow> bool" where
  "foldOk messages = (lintFold messages = [])"

definition tapeNeedsInterruptHeal :: "tape_record list \<Rightarrow> json list option \<Rightarrow> bool" where
  "tapeNeedsInterruptHeal rows folded =
     (let problems = lintFold (case folded of Some f \<Rightarrow> f | None \<Rightarrow> foldTape rows)
      in problems \<noteq> [] \<and> list_all (starts_with ''end:'') problems)"

definition healFoldInterrupt :: "json list \<Rightarrow> millis \<Rightarrow> json list" where
  "healFoldInterrupt messages at = healDanglingCalls messages at"

datatype tape_mode = TapeShadow | TapeServe

record seed_plan =
  sp_seed :: "json list option"
  sp_foreign :: bool
  sp_lint :: "string list option"
  sp_fold :: "json list option"

definition planTapeSeed ::
  "tape_record list \<Rightarrow> string \<Rightarrow> tape_mode option \<Rightarrow> json list option \<Rightarrow> seed_plan"
where
  "planTapeSeed rows harness mode folded =
     (if list_ex (\<lambda>r. rowKind r = TMessage \<and> nt_harness (tr_rec r) \<noteq> None \<and> nt_harness (tr_rec r) \<noteq> Some harness) rows
      then \<lparr>sp_seed = None, sp_foreign = True, sp_lint = None, sp_fold = None\<rparr>
      else
        (let f = (case folded of Some x \<Rightarrow> x | None \<Rightarrow> foldTape rows); lint = lintFold f
         in \<lparr>sp_seed = (if mode = Some TapeServe \<and> lint = [] \<and> f \<noteq> [] then Some f else None),
             sp_foreign = False, sp_lint = Some lint, sp_fold = Some f\<rparr>))"

subsection \<open>Reloading images\<close>

datatype tape_image = Image string string int | OverBudget | Missing

definition ELIDED_IMAGE_TEXT :: string where
  "ELIDED_IMAGE_TEXT =
     ''[image removed: this conversation's images no longer fit the model's request-size limit; ask for it to be re-shared if needed]''"

definition elidedBlock :: json where
  "elidedBlock = textBlock ELIDED_IMAGE_TEXT"

definition isStripped :: "json \<Rightarrow> bool" where
  "isStripped b = (typeIs ''image'' b \<and> strField b ''data'' = None \<and> strField b ''artifactRef'' \<noteq> None)"

definition isOmitted :: "json \<Rightarrow> bool" where
  "isOmitted b =
     (typeIs ''image'' b \<and> strField b ''data'' = None \<and> strField b ''artifactRef'' = None \<and> flagField b ''omitted'')"

type_synonym block_pos = "nat \<times> nat"

text \<open>The blocks of all messages with their positions, in order.\<close>

definition placedBlocks :: "json list \<Rightarrow> (block_pos \<times> json) list" where
  "placedBlocks messages =
     concat (map (\<lambda>(i, m). map (\<lambda>(k, b). ((i, k), b)) (enumerate 0 (contentBlocks m))) (enumerate 0 messages))"

record image_state =
  im_remaining :: int
  im_cached :: "(string, tape_image) jsmap"
  im_swaps :: "(block_pos, json) jsmap"

text \<open>\<open>{...rest, data, mimeType}\<close>, \<open>rest\<close> without \<open>artifactRef\<close> and \<open>omitted\<close>.\<close>

definition withBytes :: "json \<Rightarrow> string \<Rightarrow> string \<Rightarrow> json" where
  "withBytes b bytes mime =
     (case b of
        JObj fs \<Rightarrow>
          JObj (jm_set ''mimeType'' (JStr mime) (jm_set ''data'' (JStr bytes)
                  (jm_delete ''omitted'' (jm_delete ''artifactRef'' fs))))
      | _ \<Rightarrow> b)"

definition lookImage :: "(string \<Rightarrow> int \<Rightarrow> tape_image) \<Rightarrow> string \<Rightarrow> image_state \<Rightarrow> tape_image \<times> image_state" where
  "lookImage load ref st =
     (case jm_get (im_cached st) ref of
        Some x \<Rightarrow> (x, st)
      | None \<Rightarrow> (let x = load ref (im_remaining st) in (x, st\<lparr>im_cached := jm_set ref x (im_cached st)\<rparr>)))"

definition swapBlock :: "block_pos \<Rightarrow> json \<Rightarrow> image_state \<Rightarrow> image_state" where
  "swapBlock pos j st = st\<lparr>im_swaps := jm_set pos j (im_swaps st)\<rparr>"

definition placeImage :: "(string \<Rightarrow> int \<Rightarrow> tape_image) \<Rightarrow> block_pos \<times> json \<Rightarrow> image_state \<Rightarrow> image_state" where
  "placeImage load pb st =
     (let pos = fst pb; b = snd pb; ref = (case strField b ''artifactRef'' of Some r \<Rightarrow> r | None \<Rightarrow> [])
      in if im_remaining st \<le> 0 then swapBlock pos elidedBlock st
         else
           (case lookImage load ref st of
              (Image bytes mime sizeBytes, st1) \<Rightarrow>
                (if sizeBytes > 0 \<and> sizeBytes \<le> im_remaining st1 \<and> strField b ''mimeType'' = Some mime
                 then swapBlock pos (withBytes b bytes mime) (st1\<lparr>im_remaining := im_remaining st1 - sizeBytes\<rparr>)
                 else if sizeBytes > im_remaining st1 then swapBlock pos elidedBlock st1
                 else st1)
            | (OverBudget, st1) \<Rightarrow> swapBlock pos elidedBlock st1
            | (Missing, st1) \<Rightarrow> st1))"

definition imageStart :: "(block_pos \<times> json) list \<Rightarrow> int \<Rightarrow> image_state" where
  "imageStart blocks maxBytes =
     \<lparr>im_remaining = maxBytes, im_cached = [],
      im_swaps = fold (\<lambda>pb. jm_set (fst pb) elidedBlock) (filter (\<lambda>pb. isOmitted (snd pb)) blocks) []\<rparr>"

definition swapBlocks :: "(block_pos, json) jsmap \<Rightarrow> nat \<times> json \<Rightarrow> json" where
  "swapBlocks swaps im =
     (case (listField (snd im) ''content'', snd im) of
        (Some blocks, JObj fs) \<Rightarrow>
          (if list_ex (\<lambda>(k, b). jm_get swaps (fst im, k) \<noteq> None) (enumerate 0 blocks)
           then JObj (jm_set ''content'' (JArr (map (\<lambda>(k, b). case jm_get swaps (fst im, k) of Some j \<Rightarrow> j | None \<Rightarrow> b)
                        (enumerate 0 blocks))) fs)
           else snd im)
      | _ \<Rightarrow> snd im)"

definition rehydrateFoldImages :: "(string \<Rightarrow> int \<Rightarrow> tape_image) \<Rightarrow> int \<Rightarrow> json list \<Rightarrow> json list" where
  "rehydrateFoldImages load maxBytes messages =
     (let blocks = placedBlocks messages;
          st = fold (placeImage load) (rev (filter (\<lambda>pb. isStripped (snd pb)) blocks)) (imageStart blocks maxBytes)
      in map (swapBlocks (im_swaps st)) (enumerate 0 messages))"

subsection \<open>The lint of a clean fold\<close>

abbreviation callsOf :: "json list \<Rightarrow> string list" where
  "callsOf ms \<equiv> concat (map (\<lambda>m. map fst (messageCalls m)) ms)"

abbreviation answersOf :: "json list \<Rightarrow> string list" where
  "answersOf ms \<equiv> List.map_filter messageAnswer ms"

lemma role_exclusive: "roleIs r m \<Longrightarrow> roleIs r' m \<longleftrightarrow> r' = r"
  by (auto simp: roleIs_def)

lemma addProblem_simps [simp]:
  "li_problems (addProblem i p st) = li_problems st @ [''#'' @ show_nat i @ '': '' @ p]"
  "li_open (addProblem i p st) = li_open st" "li_seen (addProblem i p st) = li_seen st"
  by (simp_all add: addProblem_def)

text \<open>Problems are only added, and those of the messages start with their position.\<close>

definition noted :: "lint_state \<Rightarrow> lint_state \<Rightarrow> bool" where
  "noted st st' = (\<exists>ps. li_problems st' = li_problems st @ ps \<and> list_all (starts_with ''#'') ps)"

lemma noted_refl [simp]: "noted st st" by (auto simp: noted_def)

lemma noted_trans: "noted a b \<Longrightarrow> noted b c \<Longrightarrow> noted a c" by (fastforce simp: noted_def)

lemma noted_addProblem [simp]: "noted st (addProblem i p st)"
  by (auto simp: noted_def starts_with_def)

lemma noted_fold: "(\<And>x st. noted st (f x st)) \<Longrightarrow> noted st (fold f xs st)"
  by (induction xs arbitrary: st) (auto intro: noted_trans)

lemma noted_open [simp]: "noted st (st\<lparr>li_open := xs\<rparr>)"
  by (simp add: noted_def)

lemma noted_add_open [simp]: "noted st ((addProblem i p st)\<lparr>li_open := xs\<rparr>)"
  by (auto simp: noted_def starts_with_def)

lemma noted_lintCall: "noted st (lintCall i c st)"
  by (auto simp: lintCall_def Let_def noted_def starts_with_def)

lemma noted_calls [simp]: "noted st (fold (\<lambda>c. lintCall i (fst c)) cs st)"
  by (rule noted_fold) (rule noted_lintCall)

lemma noted_images [simp]: "noted st (fold (\<lambda>_. addProblem i p) xs st)"
  by (rule noted_fold) simp

lemma noted_lintRole [simp]: "noted st (lintRole i m st)"
  unfolding lintRole_def by (simp split: option.splits)

lemma noted_lintMessage [simp]: "noted st (lintMessage i m st)"
  unfolding lintMessage_def by (auto intro: noted_trans [OF noted_images noted_lintRole])

lemma noted_lintFrom: "noted st (lintFrom i ms st)"
  by (induction ms arbitrary: i st) (simp, metis lintFrom.simps(2) noted_lintMessage noted_trans)

lemma noted_clean: "noted st st' \<Longrightarrow> li_problems st' = [] \<Longrightarrow> li_problems st = []"
  by (auto simp: noted_def)

lemma image_problems: "li_problems (fold (\<lambda>_. addProblem i p) xs st) = [] \<longleftrightarrow> li_problems st = [] \<and> xs = []"
proof (cases xs)
  case (Cons x ys)
  then show ?thesis using noted_clean [OF noted_images [of "addProblem i p st" i p ys]] by auto
qed simp

text \<open>What the calls of one message do to the state, as long as no problem is noted.\<close>

lemma lintCalls_clean:
  assumes "li_problems (fold (\<lambda>c. lintCall i (fst c)) cs st) = []" "set (li_open st) \<subseteq> set (li_seen st)"
  shows "set (li_open (fold (\<lambda>c. lintCall i (fst c)) cs st)) = set (li_open st) \<union> fst ` set cs \<and>
         set (li_seen (fold (\<lambda>c. lintCall i (fst c)) cs st)) = set (li_seen st) \<union> fst ` set cs \<and>
         distinct (map fst cs) \<and> fst ` set cs \<inter> set (li_seen st) = {}"
  using assms
proof (induction cs arbitrary: st)
  case (Cons c cs)
  let ?st = "lintCall i (fst c) st"
  have p: "li_problems ?st = []" using Cons.prems(1) noted_clean [OF noted_calls [of ?st i cs]] by simp
  then have new: "fst c \<notin> set (li_seen st)" by (auto simp: lintCall_def Let_def split: if_splits)
  then have st: "?st = st\<lparr>li_seen := List.insert (fst c) (li_seen st), li_open := List.insert (fst c) (li_open st)\<rparr>"
    by (simp add: lintCall_def)
  have "set (li_open ?st) \<subseteq> set (li_seen ?st)" using Cons.prems(2) by (auto simp: st)
  with Cons.IH [of ?st] Cons.prems(1) new show ?case by (auto simp: st)
qed simp

text \<open>
  A step of the lint without problems is a step of the conversation: calls are new and open, a
  result answers an open call, and a user message comes only when no call is open.
\<close>

lemma lintMessage_clean:
  assumes "li_problems (lintMessage i m st) = []" "set (li_open st) \<subseteq> set (li_seen st)"
  shows "set (li_open (lintMessage i m st)) = (set (li_open st) \<union> set (map fst (messageCalls m))) - set_option (messageAnswer m)"
    and "set (li_seen (lintMessage i m st)) = set (li_seen st) \<union> set (map fst (messageCalls m))"
    and "distinct (map fst (messageCalls m))" and "set (map fst (messageCalls m)) \<inter> set (li_seen st) = {}"
    and "set_option (messageAnswer m) \<subseteq> set (li_open st)" and "bytelessImages m = []"
    and "messageAnswer m \<noteq> None \<Longrightarrow> messageCalls m = []"
proof -
  have known: "roleIs ''user'' m \<or> roleIs ''assistant'' m \<or> roleIs ''toolResult'' m"
    using assms(1) by (auto simp: lintMessage_def split: if_splits)
  let ?im = "fold (\<lambda>_. addProblem i ''image block without bytes'') (bytelessImages m) st"
  have lm: "lintMessage i m st = lintRole i m ?im" using known by (auto simp: lintMessage_def)
  have "li_problems ?im = []" using assms(1) noted_clean [OF noted_lintRole [of ?im i m]] lm by simp
  then show im: "bytelessImages m = []" by (simp add: image_problems)
  have lr: "lintMessage i m st = lintRole i m st" using lm im by simp
  show "messageAnswer m \<noteq> None \<Longrightarrow> messageCalls m = []"
    by (auto simp: messageAnswer_def messageCalls_def role_exclusive)
  have "set (li_open (lintRole i m st)) = (set (li_open st) \<union> set (map fst (messageCalls m))) - set_option (messageAnswer m) \<and>
    set (li_seen (lintRole i m st)) = set (li_seen st) \<union> set (map fst (messageCalls m)) \<and>
    distinct (map fst (messageCalls m)) \<and> set (map fst (messageCalls m)) \<inter> set (li_seen st) = {} \<and>
    set_option (messageAnswer m) \<subseteq> set (li_open st)"
    using known
  proof (elim disjE)
    assume r: "roleIs ''user'' m"
    then have "messageCalls m = []" "messageAnswer m = None"
      by (simp_all add: messageCalls_def messageAnswer_def role_exclusive)
    with r assms(1) show ?thesis
      unfolding lr by (auto simp: lintRole_def role_exclusive split: if_splits)
  next
    assume r: "roleIs ''assistant'' m"
    then have role: "lintRole i m st = fold (\<lambda>c. lintCall i (fst c)) (messageCalls m) st" "messageAnswer m = None"
      by (simp_all add: lintRole_def messageAnswer_def role_exclusive)
    with lintCalls_clean [OF assms(1) [unfolded lr role(1)] assms(2)] show ?thesis by auto
  next
    assume r: "roleIs ''toolResult'' m"
    then have "messageCalls m = []" "messageAnswer m = strField m ''toolCallId''"
      by (simp_all add: messageCalls_def messageAnswer_def role_exclusive)
    with r assms(1) show ?thesis
      unfolding lr by (auto simp: lintRole_def role_exclusive split: if_splits option.splits)
  qed
  then show "set (li_open (lintMessage i m st)) = (set (li_open st) \<union> set (map fst (messageCalls m))) - set_option (messageAnswer m)"
    "set (li_seen (lintMessage i m st)) = set (li_seen st) \<union> set (map fst (messageCalls m))"
    "distinct (map fst (messageCalls m))" "set (map fst (messageCalls m)) \<inter> set (li_seen st) = {}"
    "set_option (messageAnswer m) \<subseteq> set (li_open st)"
    unfolding lr by blast+
qed

lemma lintFrom_clean:
  assumes "li_problems (lintFrom i ms st) = []" "set (li_open st) \<subseteq> set (li_seen st)"
  shows "set (li_open (lintFrom i ms st)) = (set (li_open st) \<union> set (callsOf ms)) - set (answersOf ms) \<and>
         set (li_seen (lintFrom i ms st)) = set (li_seen st) \<union> set (callsOf ms) \<and>
         distinct (callsOf ms) \<and> set (callsOf ms) \<inter> set (li_seen st) = {} \<and>
         set (answersOf ms) \<subseteq> set (li_open st) \<union> set (callsOf ms)"
  using assms
proof (induction ms arbitrary: i st)
  case (Cons m ms)
  let ?st = "lintMessage i m st"
  have p: "li_problems ?st = []" using Cons.prems(1) noted_clean [OF noted_lintFrom [of ?st "Suc i" ms]] by simp
  note m = lintMessage_clean [OF p Cons.prems(2)]
  have sub: "set (li_open ?st) \<subseteq> set (li_seen ?st)" using m(1,2) Cons.prems(2) by auto
  have ih: "set (li_open (lintFrom (Suc i) ms ?st)) = (set (li_open ?st) \<union> set (callsOf ms)) - set (answersOf ms)"
    "set (li_seen (lintFrom (Suc i) ms ?st)) = set (li_seen ?st) \<union> set (callsOf ms)"
    "distinct (callsOf ms)" "set (callsOf ms) \<inter> set (li_seen ?st) = {}"
    "set (answersOf ms) \<subseteq> set (li_open ?st) \<union> set (callsOf ms)"
    using Cons.IH [OF _ sub] Cons.prems(1) by auto
  have ans: "set (answersOf (m # ms)) = set_option (messageAnswer m) \<union> set (answersOf ms)"
    by (auto simp: List.map_filter_simps split: option.splits)
  have calls: "callsOf (m # ms) = map fst (messageCalls m) @ callsOf ms" by simp
  have "set_option (messageAnswer m) \<inter> set (callsOf ms) = {}" using m(5) ih(4) m(2) Cons.prems(2) by blast
  then show ?case
    unfolding lintFrom.simps ans calls set_append ih(1,2) m(1,2) distinct_append
    using ih(3,4,5) m(3,4,5) Cons.prems(2) unfolding m(1,2) by blast
qed simp

subsection \<open>Healing\<close>

lemma lintFrom_append: "lintFrom i (xs @ ys) st = lintFrom (i + length xs) ys (lintFrom i xs st)"
  by (induction xs arbitrary: i st) simp_all

lemma interruptedResult_fields:
  "roleIs ''toolResult'' (interruptedResult c n at)" "\<not> roleIs ''user'' (interruptedResult c n at)"
  "\<not> roleIs ''assistant'' (interruptedResult c n at)" "bytelessImages (interruptedResult c n at) = []"
  "strField (interruptedResult c n at) ''toolCallId'' = Some c"
  by (simp_all add: interruptedResult_def roleIs_def bytelessImages_def contentBlocks_def typeIs_def textBlock_def payload)

lemma lint_interrupted:
  "c \<in> set (li_open st) \<Longrightarrow> lintMessage i (interruptedResult c n at) st = st\<lparr>li_open := removeAll c (li_open st)\<rparr>"
  by (simp add: lintMessage_def lintRole_def interruptedResult_fields)

lemma lint_results:
  assumes "distinct (map fst cs)" "set (map fst cs) = set (li_open st)"
  shows "li_problems (lintFrom i (map (\<lambda>(c, n). interruptedResult c n at) cs) st) = li_problems st \<and>
         li_open (lintFrom i (map (\<lambda>(c, n). interruptedResult c n at) cs) st) = []"
  using assms
proof (induction cs arbitrary: i st)
  case (Cons c cs)
  have "lintMessage i (interruptedResult (fst c) (snd c) at) st = st\<lparr>li_open := removeAll (fst c) (li_open st)\<rparr>"
    using Cons.prems(2) by (intro lint_interrupted) auto
  moreover have "set (map fst cs) = set (li_open (st\<lparr>li_open := removeAll (fst c) (li_open st)\<rparr>))"
    using Cons.prems by (simp add: set_eq_iff) (metis image_eqI)
  ultimately show ?case using Cons.IH [of "st\<lparr>li_open := removeAll (fst c) (li_open st)\<rparr>" "Suc i"] Cons.prems(1)
    by (simp add: case_prod_beta)
qed simp

lemma only_end_problems:
  assumes "list_all (starts_with ''end:'') (lintFold ms)"
  shows "li_problems (lintFrom 0 ms (lintStart ms)) = []"
proof -
  let ?ps = "li_problems (lintFrom 0 ms (lintStart ms))"
  have "list_all (starts_with ''#'') ?ps"
    using noted_lintFrom [of "lintStart ms" 0 ms]
    by (auto simp: noted_def lintStart_def starts_with_def split: list.splits)
  moreover have "list_all (starts_with ''end:'') ?ps" using assms by (simp add: lintFold_def Let_def)
  moreover have "\<not> (starts_with ''#'' p \<and> starts_with ''end:'' p)" for p
    by (cases p) (auto simp: starts_with_def)
  ultimately show ?thesis by (cases ?ps) auto
qed

lemma unanswered_ids: "map fst (unansweredCalls ms) = filter (\<lambda>c. c \<notin> set (answersOf ms)) (callsOf ms)"
proof -
  have "callsOf ms = map fst (concat (map messageCalls ms))" by (simp add: map_concat comp_def)
  then show ?thesis by (simp add: unansweredCalls_def filter_map comp_def)
qed

lemma heal_lints:
  assumes "li_problems (lintFrom 0 ms (lintStart ms)) = []"
  shows "foldOk (healDanglingCalls ms at)"
proof (cases "ms = []")
  case True
  then show ?thesis by (simp add: healDanglingCalls_def unansweredCalls_def foldOk_def lintFold_def lintStart_def)
next
  case False
  let ?st = "lintFrom 0 ms (lintStart ms)" and ?cs = "unansweredCalls ms"
  have "set (li_open (lintStart ms)) \<subseteq> set (li_seen (lintStart ms))" by (simp add: lintStart_def)
  note c = lintFrom_clean [OF assms this]
  have "distinct (map fst ?cs)" "set (map fst ?cs) = set (li_open ?st)"
    unfolding unanswered_ids using c by (auto simp: lintStart_def)
  from lint_results [OF this, of "0 + length ms" at] assms
  have "li_problems (lintFrom 0 (healDanglingCalls ms at) (lintStart ms)) = [] \<and>
      li_open (lintFrom 0 (healDanglingCalls ms at) (lintStart ms)) = []"
    unfolding healDanglingCalls_def lintFrom_append by simp
  moreover have "lintStart (healDanglingCalls ms at) = lintStart ms"
    using False by (cases ms) (simp_all add: healDanglingCalls_def lintStart_def)
  ultimately show ?thesis by (simp add: foldOk_def lintFold_def Let_def)
qed

text \<open>A fold the lint accepts has no dangling call, so healing it changes nothing.\<close>

lemma heal_clean_same:
  assumes "foldOk ms"
  shows "healDanglingCalls ms at = ms"
proof -
  have p: "li_problems (lintFrom 0 ms (lintStart ms)) = []" and o: "li_open (lintFrom 0 ms (lintStart ms)) = []"
    using assms by (auto simp: foldOk_def lintFold_def Let_def split: if_splits)
  have "set (li_open (lintStart ms)) \<subseteq> set (li_seen (lintStart ms))" by (simp add: lintStart_def)
  from lintFrom_clean [OF p this] o have "map fst (unansweredCalls ms) = []"
    unfolding unanswered_ids by (auto simp: lintStart_def filter_empty_conv)
  then show ?thesis by (simp add: healDanglingCalls_def)
qed

text \<open>
  A tape cut off by a restart is healed: when the only problem of a fold is tool calls without
  results, healing it keeps its messages, adds one interrupted result for each open call and nothing
  else, and the lint accepts the outcome; healing again changes nothing.
\<close>

theorem interrupted_fold_is_healed:
  assumes "tapeNeedsInterruptHeal rows (Some ms)"
  shows "foldOk (healFoldInterrupt ms at) \<and>
         healFoldInterrupt ms at = ms @ map (\<lambda>(c, n). interruptedResult c n at) (unansweredCalls ms) \<and>
         distinct (map fst (unansweredCalls ms)) \<and>
         healFoldInterrupt (healFoldInterrupt ms at) at' = healFoldInterrupt ms at"
proof -
  have p: "li_problems (lintFrom 0 ms (lintStart ms)) = []"
    using assms by (intro only_end_problems) (simp add: tapeNeedsInterruptHeal_def Let_def)
  have "set (li_open (lintStart ms)) \<subseteq> set (li_seen (lintStart ms))" by (simp add: lintStart_def)
  from lintFrom_clean [OF p this] have "distinct (map fst (unansweredCalls ms))"
    unfolding unanswered_ids by simp
  with heal_lints [OF p, of at] heal_clean_same show ?thesis
    by (simp add: healFoldInterrupt_def healDanglingCalls_def [of ms])
qed

subsection \<open>What an audience is shown\<close>

lemma import_row: "isImport r \<Longrightarrow> rowKind r = TContextEvent \<and> foldRow f r = foldRow g r"
  by (auto simp: isImport_def contextEvent_def foldRow_def Let_def split: if_splits option.splits tape_event.splits)

text \<open>An import starts the fold afresh: what comes before the last one leaves no trace.\<close>

lemma fold_forgets: "isImport r \<Longrightarrow> foldTape (xs @ r # ys) = foldTape (r # ys)"
  unfolding foldTape_def foldRows_def using import_row [of r] by (simp) metis

lemma fromLastImport_cases:
  obtains (none) "fromLastImport rows = rows" "\<forall>r \<in> set rows. \<not> isImport r"
  | (some) xs r ys where "rows = xs @ r # ys" "isImport r" "fromLastImport rows = r # ys"
proof (induction rows)
  case (Cons r rows)
  show ?case
  proof (cases "list_ex isImport rows")
    case True
    then have fl: "fromLastImport (r # rows) = fromLastImport rows" by simp
    show ?thesis
    proof (rule Cons.IH)
      assume "fromLastImport rows = rows" "\<forall>r \<in> set rows. \<not> isImport r"
      with True show ?thesis by (auto simp: list_ex_iff)
    next
      fix xs x ys assume "rows = xs @ x # ys" "isImport x" "fromLastImport rows = x # ys"
      then show ?thesis using Cons.prems(2) [of "r # xs" x ys] fl by simp
    qed
  next
    case False
    then have "fromLastImport (r # rows) = r # rows" by simp
    then show ?thesis using Cons.prems False by (cases "isImport r") (fastforce simp: list_ex_iff)+
  qed
qed simp

text \<open>
  The messages an audience may be shown: the payload of a row every member is entitled to (as it
  is, or quoted as another speaker's), a message of an import whose scopes every member is entitled
  to, an entitled summary, or the notice that stands for a withheld or missing tool result.
\<close>

definition rowShows :: "principal list \<Rightarrow> scope_id \<Rightarrow> scope_id \<Rightarrow> tape_record \<Rightarrow> json \<Rightarrow> bool" where
  "rowShows audience sid org r m =
     (entitledAll audience sid org (rowScope r) \<and>
      (rowKind r = TMessage \<and> (m = rowPayload r \<or> m = rowPayload (asSpeaker r)) \<or>
       (case contextEvent r of
          Some (ECompaction txt) \<Rightarrow> m = summaryMessage txt (tr_createdAt r)
        | Some (ELegacyImport ms) \<Rightarrow> m \<in> set ms \<and> scopesEntitled audience sid org r
        | Some (ELegacyPatch ms) \<Rightarrow> m \<in> set ms \<and> scopesEntitled audience sid org r
        | _ \<Rightarrow> False)))"

definition mayShow :: "principal list \<Rightarrow> scope_id \<Rightarrow> scope_id \<Rightarrow> tape_record list \<Rightarrow> json \<Rightarrow> bool" where
  "mayShow audience sid org rows m =
     ((\<exists>r \<in> set rows. rowShows audience sid org r m) \<or> (\<exists>c n at. m = interruptedResult c n at))"

lemma mayShow_interrupted [simp]: "mayShow audience sid org rows (interruptedResult c n at)"
  by (auto simp: mayShow_def)

text \<open>A row that contributes only what may be shown.\<close>

definition goodRow :: "principal list \<Rightarrow> scope_id \<Rightarrow> scope_id \<Rightarrow> tape_record list \<Rightarrow> tape_record \<Rightarrow> bool" where
  "goodRow audience sid org rows r =
     ((rowKind r = TMessage \<longrightarrow> mayShow audience sid org rows (rowPayload r)) \<and>
      (rowKind r = TContextEvent \<longrightarrow> r \<in> set rows \<and> eventEntitled audience sid org r))"

lemma foldRow_shows:
  assumes "\<forall>m \<in> set (fo_out f). mayShow audience sid org rows m" "goodRow audience sid org rows r"
  shows "\<forall>m \<in> set (fo_out (foldRow f r)). mayShow audience sid org rows m"
proof (cases "contextEvent r")
  case None
  then show ?thesis using assms by (auto simp: foldRow_def addBoundary_def goodRow_def split: option.splits)
next
  case (Some ev)
  then have k: "rowKind r = TContextEvent" by (auto simp: contextEvent_def split: if_splits)
  then have r: "r \<in> set rows" "eventEntitled audience sid org r" using assms(2) by (auto simp: goodRow_def)
  have new: "mayShow audience sid org rows m" if "rowShows audience sid org r m" for m
    using that r(1) by (auto simp: mayShow_def)
  have "\<forall>m \<in> set (drop n (fo_out f)). mayShow audience sid org rows m" for n
    using assms(1) in_set_dropD by fast
  with assms(1) Some k r(2) new show ?thesis
    by (cases ev)
       (auto simp: foldRow_def addBoundary_def foldCompaction_def eventEntitled_def rowShows_def healDanglingCalls_def
         split: option.splits)
qed

lemma foldTape_shows:
  assumes "\<forall>r \<in> set rs. goodRow audience sid org rows r"
  shows "\<forall>m \<in> set (foldTape rs). mayShow audience sid org rows m"
proof -
  have "\<forall>m \<in> set (fo_out (foldRows rs f)). mayShow audience sid org rows m"
    if "\<forall>m \<in> set (fo_out f). mayShow audience sid org rows m" for f
    using assms that
  proof (induction rs arbitrary: f)
    case (Cons r rs)
    have "\<forall>m \<in> set (fo_out (foldRow f r)). mayShow audience sid org rows m"
      using foldRow_shows [of f audience sid org rows r] Cons.prems by simp
    with Cons.IH [of "foldRow f r"] Cons.prems(1) show ?case by (simp add: foldRows_def)
  qed (simp add: foldRows_def)
  from this [of emptyFold] show ?thesis by (simp add: foldTape_def emptyFold_def)
qed

definition shownRow :: "principal list \<Rightarrow> scope_id \<Rightarrow> scope_id \<Rightarrow> tape_record list \<Rightarrow> tape_record \<Rightarrow> bool" where
  "shownRow audience sid org rows r =
     (r \<in> set rows \<and> (rowKind r = TMessage \<longrightarrow> entitledAll audience sid org (rowScope r)) \<or>
      rowKind r = TMessage \<and> (\<exists>c n at. rowPayload r = interruptedResult c n at))"

lemma redactRow_elem:
  assumes "x \<in> set (redactRow r)"
  shows "rowKind x = rowKind r \<and> (\<exists>c n at. rowPayload x = interruptedResult c n at)"
proof (cases "messageAnswer (rowPayload r)")
  case (Some cid)
  with assms show ?thesis by (simp add: redactRow_def) blast
qed (use assms in \<open>simp add: redactRow_def\<close>)

lemma filterTape_shown:
  assumes "r \<in> set (filterTapeForAudience rows audience sid org)"
  shows "shownRow audience sid org rows r"
proof -
  obtain x where x: "x \<in> set rows" and
    r: "r \<in> set (if rowKind x \<noteq> TMessage \<or> entitledAll audience sid org (rowScope x) then [x] else redactRow x)"
    using assms by (auto simp: filterTapeForAudience_def split: if_splits)
  show ?thesis
  proof (cases "rowKind x \<noteq> TMessage \<or> entitledAll audience sid org (rowScope x)")
    case True
    with r x show ?thesis by (auto simp: shownRow_def)
  next
    case False
    with r redactRow_elem [of r x] show ?thesis by (auto simp: shownRow_def)
  qed
qed

lemma rewriteFrom_elem:
  "x \<in> set (rewriteFrom p d rs) \<Longrightarrow> x \<in> set rs \<or> (\<exists>r \<in> set rs. spokenByOther p r \<and> x = asSpeaker r)"
  by (induction p d rs rule: rewriteFrom.induct) (auto split: if_splits)

lemma rewriteFrom_append: "\<exists>d'. rewriteFrom p d (xs @ ys) = rewriteFrom p d xs @ rewriteFrom p d' ys"
  by (induction p d xs rule: rewriteFrom.induct) (auto split: if_splits)

lemma rewriteFrom_import: "isImport r \<Longrightarrow> rewriteFrom p d (r # rs) = r # rewriteFrom p d rs"
  using import_row [of r] by (simp add: spokenByOther_def)

lemma asSpeaker_kind [simp]: "rowKind (asSpeaker r) = rowKind r"
  by (simp add: asSpeaker_def Let_def)

lemma shown_good:
  assumes "shownRow audience sid org rows r" "eventEntitled audience sid org r"
  shows "goodRow audience sid org rows r" and "spokenByOther p r \<Longrightarrow> goodRow audience sid org rows (asSpeaker r)"
proof -
  show "goodRow audience sid org rows r"
    using assms by (auto simp: goodRow_def shownRow_def mayShow_def rowShows_def)
  assume o: "spokenByOther p r"
  then have "r \<in> set rows \<and> entitledAll audience sid org (rowScope r)"
    using assms(1) interruptedResult_fields(3) by (auto simp: shownRow_def spokenByOther_def)
  then show "goodRow audience sid org rows (asSpeaker r)"
    using o by (auto simp: goodRow_def mayShow_def rowShows_def spokenByOther_def)
qed

lemma fold_last_import:
  "\<exists>d. foldTapeForPersona rows persona =
     foldTape (case persona of None \<Rightarrow> fromLastImport rows | Some p \<Rightarrow> rewriteFrom p d (fromLastImport rows))"
proof (cases rule: fromLastImport_cases [of rows])
  case none
  then show ?thesis by (auto simp: foldTapeForPersona_def rewriteRowsForPersona_def split: option.splits)
next
  case (some xs r ys)
  show ?thesis
  proof (cases persona)
    case None
    then show ?thesis using some fold_forgets [of r xs ys] by (simp add: foldTapeForPersona_def)
  next
    case (Some p)
    obtain d where "rewriteRowsForPersona rows p = rewriteFrom p [] xs @ r # rewriteFrom p d ys"
      using rewriteFrom_append [of p "[]" xs "r # ys"]
      unfolding rewriteRowsForPersona_def some(1) rewriteFrom_import [OF some(2)] by blast
    then have "foldTapeForPersona rows persona = foldTape (r # rewriteFrom p d ys)"
      using Some fold_forgets [OF some(2)] by (simp add: foldTapeForPersona_def)
    then show ?thesis unfolding Some some(3) option.case rewriteFrom_import [OF some(2)] by blast
  qed
qed

lemma fromLastImport_sub: "set (fromLastImport rows) \<subseteq> set rows"
  by (induction rows) auto

text \<open>
  C18. Nobody in a conversation is shown what they are not entitled to. Once the events of the narrowed
  tape pass the check, every message of its fold, for whatever persona, is a message of a row that
  every member of the audience is entitled to (quoted, if another persona said it), a message of an
  import or patch all of whose scopes they are entitled to, an entitled summary, or the fixed notice
  that stands for a tool result.
\<close>

theorem audience_sees_only_entitled:
  assumes "tapeEventsEntitled (filterTapeForAudience rows audience sid org) audience sid org"
    and "m \<in> set (foldTapeForPersona (filterTapeForAudience rows audience sid org) persona)"
  shows "mayShow audience sid org rows m"
proof -
  define R where "R = fromLastImport (filterTapeForAudience rows audience sid org)"
  obtain d where m: "m \<in> set (foldTape (case persona of None \<Rightarrow> R | Some p \<Rightarrow> rewriteFrom p d R))"
    using assms(2) fold_last_import [of "filterTapeForAudience rows audience sid org" persona] unfolding R_def by auto
  have R: "shownRow audience sid org rows r \<and> eventEntitled audience sid org r" if "r \<in> set R" for r
  proof
    have "r \<in> set (filterTapeForAudience rows audience sid org)" using that fromLastImport_sub unfolding R_def by blast
    then show "shownRow audience sid org rows r" by (rule filterTape_shown)
    show "eventEntitled audience sid org r"
      using that assms(1) unfolding tapeEventsEntitled_def R_def [symmetric] by (simp add: list_all_iff)
  qed
  have "\<forall>r \<in> set (case persona of None \<Rightarrow> R | Some p \<Rightarrow> rewriteFrom p d R). goodRow audience sid org rows r"
  proof (cases persona)
    case None
    then show ?thesis using R shown_good(1) by auto
  next
    case (Some p)
    have "goodRow audience sid org rows x" if "x \<in> set (rewriteFrom p d R)" for x
      using rewriteFrom_elem [OF that] R shown_good by blast
    with Some show ?thesis by simp
  qed
  with m foldTape_shows show ?thesis by blast
qed

subsection \<open>The byte budget of images\<close>

definition blockAt :: "json list \<Rightarrow> block_pos \<Rightarrow> json" where
  "blockAt ms pos = contentBlocks (ms ! fst pos) ! snd pos"

definition dataWeight :: "(string \<Rightarrow> int) \<Rightarrow> json \<Rightarrow> int" where
  "dataWeight w j = (case strField j ''data'' of Some d \<Rightarrow> w d | None \<Rightarrow> 0)"

lemma placedBlocks_elem:
  "((i, k), b) \<in> set (placedBlocks ms) \<longleftrightarrow> i < length ms \<and> k < length (contentBlocks (ms ! i)) \<and> b = contentBlocks (ms ! i) ! k"
  by (force simp: placedBlocks_def in_set_enumerate_eq)

lemma placed_distinct_from:
  "distinct (map fst (concat (map (\<lambda>(i, m). map (\<lambda>(k, b). ((i, k), b)) (enumerate 0 (contentBlocks m))) (enumerate n ms))))"
proof (induction ms arbitrary: n)
  case (Cons m ms)
  have "distinct (map fst (map (\<lambda>(k, b). ((n, k), b)) (enumerate 0 (contentBlocks m))))"
    by (simp add: distinct_map inj_on_def case_prod_beta comp_def) (auto simp: in_set_enumerate_eq)
  moreover have "fst ` set (map (\<lambda>(k, b). ((n, k), b)) (enumerate 0 (contentBlocks m))) \<inter>
      fst ` set (concat (map (\<lambda>(i, m). map (\<lambda>(k, b). ((i, k), b)) (enumerate 0 (contentBlocks m))) (enumerate (Suc n) ms))) = {}"
    by (fastforce simp: in_set_enumerate_eq)
  ultimately show ?case
    using Cons.IH [of "Suc n"]
    by (simp only: enumerate_simps list.map concat.simps case_prod_conv map_append distinct_append set_map simp_thms)
qed simp

lemma placedBlocks_distinct: "distinct (map fst (placedBlocks ms))"
  unfolding placedBlocks_def by (rule placed_distinct_from)

lemma contentBlocks_swap:
  assumes "k < length (contentBlocks m)"
  shows "contentBlocks (swapBlocks swaps (i, m)) ! k =
         (case jm_get swaps (i, k) of Some j \<Rightarrow> j | None \<Rightarrow> contentBlocks m ! k)"
proof -
  obtain blocks where blocks: "listField m ''content'' = Some blocks" using assms by (auto simp: contentBlocks_def split: option.splits)
  then obtain fs where m: "m = JObj fs" by (cases m) (auto simp: listField_def)
  have len: "k < length blocks" using assms blocks by (simp add: contentBlocks_def)
  show ?thesis
  proof (cases "list_ex (\<lambda>(k, b). jm_get swaps (i, k) \<noteq> None) (enumerate 0 blocks)")
    case True
    then have "contentBlocks (swapBlocks swaps (i, m)) =
        map (\<lambda>(k, b). case jm_get swaps (i, k) of Some j \<Rightarrow> j | None \<Rightarrow> b) (enumerate 0 blocks)"
      using blocks m by (simp add: swapBlocks_def contentBlocks_def listField_def)
    moreover have "contentBlocks m = blocks" using blocks by (simp add: contentBlocks_def)
    ultimately show ?thesis using len by (auto simp: nth_enumerate_eq split: option.splits)
  next
    case False
    then have "swapBlocks swaps (i, m) = m" using blocks m by (simp add: swapBlocks_def)
    moreover have "(k, blocks ! k) \<in> set (enumerate 0 blocks)" using len by (simp add: in_set_enumerate_eq)
    then have "jm_get swaps (i, k) = None" using False unfolding list_ex_iff by blast
    ultimately show ?thesis by simp
  qed
qed

lemma blockAt_swapped:
  assumes "((i, k), b) \<in> set (placedBlocks ms)"
  shows "blockAt (map (swapBlocks swaps) (enumerate 0 ms)) (i, k) = (case jm_get swaps (i, k) of Some j \<Rightarrow> j | None \<Rightarrow> b)"
  using assms contentBlocks_swap [of k "ms ! i" swaps i]
  by (auto simp: placedBlocks_elem blockAt_def nth_enumerate_eq split: option.splits)

text \<open>Placing an image touches its own position only, and charges what it places.\<close>

lemma stripped_object: "isStripped b \<Longrightarrow> \<exists>fs. b = JObj fs"
  by (cases b) (auto simp: isStripped_def typeIs_def)

lemma weight_withBytes: "isStripped b \<Longrightarrow> dataWeight w (withBytes b d mime) = w d"
  using stripped_object [of b] by (auto simp: dataWeight_def withBytes_def strField_def)

lemma weight_elided [simp]: "dataWeight w elidedBlock = 0"
  by (simp add: dataWeight_def elidedBlock_def textBlock_def strField_def)

lemma weight_stripped: "isStripped b \<Longrightarrow> dataWeight w b = 0"
  by (simp add: isStripped_def dataWeight_def)

definition weightAt :: "(string \<Rightarrow> int) \<Rightarrow> image_state \<Rightarrow> block_pos \<times> json \<Rightarrow> int" where
  "weightAt w st pb = dataWeight w (case jm_get (im_swaps st) (fst pb) of Some j \<Rightarrow> j | None \<Rightarrow> snd pb)"

definition fresh_at :: "block_pos \<Rightarrow> image_state \<Rightarrow> bool" where
  "fresh_at pos st = (jm_get (im_swaps st) pos = None)"

text \<open>The images in the cache weigh what they report.\<close>

definition cache_ok :: "(string \<Rightarrow> int) \<Rightarrow> image_state \<Rightarrow> bool" where
  "cache_ok w st = (\<forall>ref d mime s. jm_get (im_cached st) ref = Some (Image d mime s) \<longrightarrow> w d = s)"

lemma lookImage_ok:
  assumes "\<forall>ref n d mime s. load ref n = Image d mime s \<longrightarrow> w d = s" "cache_ok w st" "lookImage load ref st = (x, st1)"
  shows "cache_ok w st1 \<and> im_swaps st1 = im_swaps st \<and> im_remaining st1 = im_remaining st \<and>
         (\<forall>d mime s. x = Image d mime s \<longrightarrow> w d = s)"
  using assms by (auto simp: lookImage_def cache_ok_def Let_def split: option.splits if_splits)

lemma placeImage_step:
  assumes load: "\<forall>ref n d mime s. load ref n = Image d mime s \<longrightarrow> w d = s" and "cache_ok w st"
    and "isStripped b" "fresh_at pos st"
  shows "cache_ok w (placeImage load (pos, b) st) \<and>
         im_remaining (placeImage load (pos, b) st) = im_remaining st - weightAt w (placeImage load (pos, b) st) (pos, b) \<and>
         min 0 (im_remaining st) \<le> im_remaining (placeImage load (pos, b) st) \<and>
         (\<forall>q. q \<noteq> pos \<longrightarrow> jm_get (im_swaps (placeImage load (pos, b) st)) q = jm_get (im_swaps st) q)"
proof (cases "im_remaining st \<le> 0")
  case True
  then show ?thesis using assms(2) by (simp add: placeImage_def swapBlock_def weightAt_def cache_ok_def)
next
  case False
  let ?ref = "case strField b ''artifactRef'' of Some r \<Rightarrow> r | None \<Rightarrow> []"
  obtain x st1 where l: "lookImage load ?ref st = (x, st1)" by fastforce
  note ok = lookImage_ok [OF load assms(2) l]
  have same: "weightAt w st1 (pos, b) = 0" using ok assms(3,4) by (simp add: weightAt_def fresh_at_def weight_stripped)
  show ?thesis
    using False l ok same assms(3)
    by (cases x) (auto simp: placeImage_def swapBlock_def weightAt_def cache_ok_def weight_withBytes)
qed

lemma placeImages_budget:
  assumes load: "\<forall>ref n d mime s. load ref n = Image d mime s \<longrightarrow> w d = s" and "cache_ok w st"
    and "\<forall>pb \<in> set pbs. isStripped (snd pb) \<and> fresh_at (fst pb) st" "distinct (map fst pbs)"
  shows "sum_list (map (weightAt w (fold (placeImage load) pbs st)) pbs) = im_remaining st - im_remaining (fold (placeImage load) pbs st) \<and>
         min 0 (im_remaining st) \<le> im_remaining (fold (placeImage load) pbs st) \<and>
         (\<forall>q. q \<notin> set (map fst pbs) \<longrightarrow> jm_get (im_swaps (fold (placeImage load) pbs st)) q = jm_get (im_swaps st) q)"
  using assms(2-)
proof (induction pbs arbitrary: st)
  case (Cons pb pbs)
  let ?st = "placeImage load pb st"
  have pb: "isStripped (snd pb)" "fresh_at (fst pb) st" using Cons.prems by auto
  note s = placeImage_step [OF load Cons.prems(1) pb, unfolded prod.collapse]
  have "isStripped (snd q) \<and> fresh_at (fst q) ?st" if "q \<in> set pbs" for q
  proof -
    have "fst q \<noteq> fst pb" using that Cons.prems(3) by (metis distinct.simps(2) image_eqI list.simps(9) set_map)
    then have "jm_get (im_swaps ?st) (fst q) = jm_get (im_swaps st) (fst q)" using s by blast
    then show ?thesis using that Cons.prems(2) by (simp add: fresh_at_def)
  qed
  then have "\<forall>q \<in> set pbs. isStripped (snd q) \<and> fresh_at (fst q) ?st" by blast
  moreover have "distinct (map fst pbs)" using Cons.prems(3) by simp
  ultimately have ih: "sum_list (map (weightAt w (fold (placeImage load) pbs ?st)) pbs) =
      im_remaining ?st - im_remaining (fold (placeImage load) pbs ?st)"
    "min 0 (im_remaining ?st) \<le> im_remaining (fold (placeImage load) pbs ?st)"
    "\<forall>q. q \<notin> set (map fst pbs) \<longrightarrow> jm_get (im_swaps (fold (placeImage load) pbs ?st)) q = jm_get (im_swaps ?st) q"
    using Cons.IH [OF s [THEN conjunct1]] by blast+
  have "fst pb \<notin> set (map fst pbs)" using Cons.prems(3) by simp
  then have "jm_get (im_swaps (fold (placeImage load) pbs ?st)) (fst pb) = jm_get (im_swaps ?st) (fst pb)"
    using ih(3) by blast
  then have "weightAt w (fold (placeImage load) pbs ?st) pb = weightAt w ?st pb" by (simp only: weightAt_def)
  then show ?case using ih s Cons.prems(3) by auto
qed simp

lemma elided_absent:
  "q \<notin> fst ` set xs \<Longrightarrow> jm_get (fold (\<lambda>pb. jm_set (fst pb) elidedBlock) xs m) q = jm_get m q"
  by (induction xs arbitrary: m) auto

text \<open>
  C19. Reloaded images fit the request: when the loader reports the size of what it returns, the bytes put
  back into the messages for stripped images never exceed the budget, and with no budget none are.
\<close>

theorem rehydrated_images_fit:
  assumes "\<forall>ref n d mime s. load ref n = Image d mime s \<longrightarrow> w d = s"
  shows "sum_list (map (\<lambda>pb. dataWeight w (blockAt (rehydrateFoldImages load maxBytes ms) (fst pb)))
           (filter (\<lambda>pb. isStripped (snd pb)) (placedBlocks ms))) \<le> max 0 maxBytes"
proof -
  let ?blocks = "placedBlocks ms" and ?c = "filter (\<lambda>pb. isStripped (snd pb)) (placedBlocks ms)"
  let ?st = "fold (placeImage load) (rev ?c) (imageStart ?blocks maxBytes)"
  have d: "distinct (map fst ?blocks)" by (rule placedBlocks_distinct)
  have fresh: "fresh_at (fst pb) (imageStart ?blocks maxBytes)" if pb: "pb \<in> set ?c" for pb
  proof -
    have "fst pb \<notin> fst ` set (filter (\<lambda>pb. isOmitted (snd pb)) ?blocks)"
    proof
      assume "fst pb \<in> fst ` set (filter (\<lambda>pb. isOmitted (snd pb)) ?blocks)"
      then obtain q where "q \<in> set ?blocks" "isOmitted (snd q)" "fst q = fst pb" by auto
      moreover have "pb \<in> set ?blocks" using pb by simp
      ultimately have "q = pb" using d by (simp add: distinct_map inj_on_def)
      moreover note \<open>isOmitted (snd q)\<close>
      ultimately show False using pb by (simp add: isOmitted_def isStripped_def)
    qed
    then show ?thesis by (simp add: fresh_at_def imageStart_def elided_absent)
  qed
  have ok: "cache_ok w (imageStart ?blocks maxBytes)" by (simp add: cache_ok_def imageStart_def)
  have "\<forall>pb \<in> set (rev ?c). isStripped (snd pb) \<and> fresh_at (fst pb) (imageStart ?blocks maxBytes)"
    using fresh by simp
  moreover have "distinct (map fst (rev ?c))" using d by (simp add: rev_map [symmetric] distinct_map_filter)
  ultimately have "sum_list (map (weightAt w ?st) (rev ?c)) \<le> max 0 maxBytes"
    using placeImages_budget [OF assms ok] by (fastforce simp: imageStart_def)
  then have "sum_list (map (weightAt w ?st) ?c) \<le> max 0 maxBytes" by (simp add: rev_map [symmetric])
  moreover have "map (\<lambda>pb. dataWeight w (blockAt (rehydrateFoldImages load maxBytes ms) (fst pb))) ?c = map (weightAt w ?st) ?c"
  proof (rule map_cong [OF refl])
    fix pb assume "pb \<in> set ?c"
    then have "((fst (fst pb), snd (fst pb)), snd pb) \<in> set ?blocks" by simp
    from blockAt_swapped [OF this, of "im_swaps ?st"]
    show "dataWeight w (blockAt (rehydrateFoldImages load maxBytes ms) (fst pb)) = weightAt w ?st pb"
      by (simp add: rehydrateFoldImages_def weightAt_def Let_def)
  qed
  ultimately show ?thesis by (simp only:)
qed

subsection \<open>Witnesses\<close>

definition ex_user :: json where
  "ex_user = JObj [(''role'', JStr ''user''), (''content'', JArr [textBlock ''hello''])]"

definition ex_calls :: json where
  "ex_calls = JObj [(''role'', JStr ''assistant''),
     (''content'', JArr [JObj [(''type'', JStr ''toolCall''), (''id'', JStr ''c1''), (''name'', JStr ''exec'')]])]"

theorem interrupted_fold_is_healed_witness:
  "tapeNeedsInterruptHeal [] (Some [ex_user, ex_calls]) \<and>
   foldOk (healFoldInterrupt [ex_user, ex_calls] 5) \<and> length (healFoldInterrupt [ex_user, ex_calls] 5) = 3"
proof -
  have h: "tapeNeedsInterruptHeal [] (Some [ex_user, ex_calls])" by code_simp
  moreover have "length (healFoldInterrupt [ex_user, ex_calls] 5) = 3" by code_simp
  ultimately show ?thesis using interrupted_fold_is_healed [OF h, of 5 5] by blast
qed

definition ex_row :: "tape_kind \<Rightarrow> json \<Rightarrow> scope_id \<Rightarrow> tape_record" where
  "ex_row k p sc =
     \<lparr>tr_rec = \<lparr>nt_kind = k, nt_payload = p, nt_scopeLabel = sc, nt_harness = None, nt_meta = None,
        nt_entrySeq = None, nt_coversEntrySeq = None\<rparr>, tr_sessionId = ''s1'', tr_seq = 0, tr_createdAt = 1\<rparr>"

definition ex_tape :: "tape_record list" where
  "ex_tape = [ex_row TMessage (JStr ''secret'') ''team:eng'', ex_row TMessage ex_user ''channel:c'',
     ex_row TContextEvent (JObj [(''event'', JStr ''compaction''), (''text'', JStr ''so far'')]) ''channel:c'']"

definition ex_audience :: "principal list" where
  "ex_audience = [\<lparr>p_id = ''U1'', p_type = Internal, p_teamIds = None, p_displayName = None\<rparr>]"

theorem audience_sees_only_entitled_witness:
  "mayShow ex_audience ''channel:c'' ''org:o'' ex_tape ex_user \<and>
   foldTapeForPersona (filterTapeForAudience ex_tape ex_audience ''channel:c'' ''org:o'') None =
     [summaryMessage ''so far'' 1, ex_user]"
proof -
  have f: "foldTapeForPersona (filterTapeForAudience ex_tape ex_audience ''channel:c'' ''org:o'') None =
      [summaryMessage ''so far'' 1, ex_user]" by code_simp
  have "tapeEventsEntitled (filterTapeForAudience ex_tape ex_audience ''channel:c'' ''org:o'') ex_audience ''channel:c'' ''org:o''"
    by code_simp
  from audience_sees_only_entitled [OF this, of ex_user None] f show ?thesis by simp
qed

definition ex_image :: "string \<Rightarrow> json" where
  "ex_image ref = JObj [(''type'', JStr ''image''), (''mimeType'', JStr ''image/png''), (''artifactRef'', JStr ref)]"

theorem rehydrated_images_fit_witness:
  "sum_list (map (\<lambda>pb. dataWeight (\<lambda>d. int (length d))
      (blockAt (rehydrateFoldImages (\<lambda>_ _. Image ''abc'' ''image/png'' 3) 4
        [JObj [(''role'', JStr ''user''), (''content'', JArr [ex_image ''a'', ex_image ''b''])]]) (fst pb)))
     (filter (\<lambda>pb. isStripped (snd pb))
        (placedBlocks [JObj [(''role'', JStr ''user''), (''content'', JArr [ex_image ''a'', ex_image ''b''])]]))) \<le> max 0 4 \<and>
   blockAt (rehydrateFoldImages (\<lambda>_ _. Image ''abc'' ''image/png'' 3) 4
     [JObj [(''role'', JStr ''user''), (''content'', JArr [ex_image ''a'', ex_image ''b''])]]) (0, 0) = elidedBlock"
proof
  show "sum_list (map (\<lambda>pb. dataWeight (\<lambda>d. int (length d))
      (blockAt (rehydrateFoldImages (\<lambda>_ _. Image ''abc'' ''image/png'' 3) 4
        [JObj [(''role'', JStr ''user''), (''content'', JArr [ex_image ''a'', ex_image ''b''])]]) (fst pb)))
     (filter (\<lambda>pb. isStripped (snd pb))
        (placedBlocks [JObj [(''role'', JStr ''user''), (''content'', JArr [ex_image ''a'', ex_image ''b''])]]))) \<le> max 0 4"
    by (rule rehydrated_images_fit) simp
qed code_simp

end
