(* ===== verification/Directory.thy ===== *)
theory Directory
  imports Scopes "HOL-Library.Sublist"
begin

section \<open>The workspace directory\<close>

text \<open>
  Models \<open>src/src/directory/directory-store.ts\<close> (the memory store): the internal people, channels and group conversations of a
  workspace, swapped in by a sync that is stamped with the time it began. A set of identifiers is the list of its elements in insertion
  order. \<open>console.warn\<close> is left out; \<open>Date.now()\<close> is an argument.
\<close>

subsection \<open>Records\<close>

record directory_member =
  dm_principalId :: string
  dm_displayName :: string
  dm_type :: principal_type
  dm_slackId :: "string option"

record directory_channel =
  ch_channelId :: string
  ch_name :: string
  ch_isPrivate :: "bool option"

text \<open>A pair of a room and a person, as \<open>ChannelMembership\<close> and \<open>GroupMembership\<close> have it.\<close>

type_synonym membership_row = "string \<times> string"
type_synonym room_members = "(string, string list) jsmap"

record directory_store =
  dr_members :: "directory_member list"
  dr_channels :: "directory_channel list"
  dr_channelMembers :: "room_members option"
  dr_groupMembers :: "room_members option"
  dr_groupsSynced :: bool
  dr_workspaceUrl :: "string option"
  dr_syncedAts :: "(string, millis) jsmap"

definition createDirectoryStore :: directory_store where
  "createDirectoryStore =
     \<lparr>dr_members = [], dr_channels = [], dr_channelMembers = None, dr_groupMembers = None, dr_groupsSynced = False,
      dr_workspaceUrl = None, dr_syncedAts = []\<rparr>"

subsection \<open>Finding a person, a channel, a group\<close>

definition MAX_CANDIDATES :: nat where
  "MAX_CANDIDATES = 10"

definition normDirectoryQuery :: "string \<Rightarrow> string" where
  "normDirectoryQuery s =
     (case to_lower (js_trim s) of
        [] \<Rightarrow> []
      | c # r \<Rightarrow> if c = CHR ''@'' \<or> c = CHR ''#'' then r else c # r)"

datatype 'a pick = PickNone | PickOne 'a | PickAmbiguous "'a list"

text \<open>\<open>includes\<close> of strings.\<close>

definition js_includes :: "string \<Rightarrow> string \<Rightarrow> bool" where
  "js_includes q s = list_ex (starts_with q) (suffixes s)"

definition pickOf :: "'a list \<Rightarrow> 'a pick" where
  "pickOf pool =
     (case pool of [] \<Rightarrow> PickNone | [x] \<Rightarrow> PickOne x | _ \<Rightarrow> PickAmbiguous (take MAX_CANDIDATES pool))"

definition pickMatch :: "'a list \<Rightarrow> string \<Rightarrow> ('a \<Rightarrow> string) \<Rightarrow> ('a \<Rightarrow> string) \<Rightarrow> 'a pick" where
  "pickMatch items query ident label =
     (let q = normDirectoryQuery query in
      if q = [] then PickNone
      else case find (\<lambda>t. to_lower (ident t) = q) items of
        Some t \<Rightarrow> PickOne t
      | None \<Rightarrow>
          (let exact = filter (\<lambda>t. normDirectoryQuery (label t) = q) items in
           if exact \<noteq> [] then pickOf exact
           else let prefix = filter (\<lambda>t. starts_with q (normDirectoryQuery (label t))) items;
                    pool = (if prefix \<noteq> [] then prefix
                            else filter (\<lambda>t. js_includes q (normDirectoryQuery (label t))) items)
                in pickOf pool))"

definition groupParticipantsKey :: "string list \<Rightarrow> string" where
  "groupParticipantsKey participants = join_with '','' (sort (js_uniq (filter (\<lambda>p. p \<noteq> []) participants)))"

subsection \<open>Operations\<close>

definition acceptSync :: "string \<Rightarrow> millis option \<Rightarrow> directory_store \<Rightarrow> bool \<times> directory_store" where
  "acceptSync sec syncedAt st =
     (case syncedAt of
        None \<Rightarrow> (True, st)
      | Some t \<Rightarrow>
          (case jm_get (dr_syncedAts st) sec of
             Some stored \<Rightarrow> if stored > t then (False, st)
                             else (True, st\<lparr>dr_syncedAts := jm_set sec t (dr_syncedAts st)\<rparr>)
           | None \<Rightarrow> (True, st\<lparr>dr_syncedAts := jm_set sec t (dr_syncedAts st)\<rparr>)))"

definition setWorkspaceUrl :: "string \<Rightarrow> directory_store \<Rightarrow> directory_store" where
  "setWorkspaceUrl url st = st\<lparr>dr_workspaceUrl := Some url\<rparr>"

definition dir_replace :: "directory_member list \<Rightarrow> millis option \<Rightarrow> directory_store \<Rightarrow> bool \<times> directory_store" where
  "dir_replace members syncedAt st =
     (case acceptSync ''members'' syncedAt st of
        (False, st1) \<Rightarrow> (False, st1)
      | (True, st1) \<Rightarrow>
          (True, st1\<lparr>dr_members := filter (\<lambda>m. dm_principalId m \<noteq> [] \<and> dm_type m = Internal) members\<rparr>))"

definition addToRoom :: "membership_row \<Rightarrow> room_members \<Rightarrow> room_members" where
  "addToRoom row m =
     (case row of (room, p) \<Rightarrow>
        if room = [] \<or> p = [] then m
        else let ps = jm_list m room in jm_set room (if p \<in> set ps then ps else ps @ [p]) m)"

definition roomsOf :: "membership_row list \<Rightarrow> room_members" where
  "roomsOf rows = fold addToRoom rows []"

definition replaceChannels ::
  "directory_channel list \<Rightarrow> membership_row list option \<Rightarrow> millis option \<Rightarrow> directory_store \<Rightarrow> bool \<times> directory_store"
where
  "replaceChannels channels channelMembers syncedAt st =
     (case acceptSync ''channels'' syncedAt st of
        (False, st1) \<Rightarrow> (False, st1)
      | (True, st1) \<Rightarrow>
          (let st2 = st1\<lparr>dr_channels := filter (\<lambda>c. ch_channelId c \<noteq> [] \<and> ch_name c \<noteq> []) channels\<rparr>
           in (True, case channelMembers of
                       None \<Rightarrow> st2
                     | Some rows \<Rightarrow> st2\<lparr>dr_channelMembers := Some (roomsOf rows)\<rparr>)))"

definition roomHas :: "room_members option \<Rightarrow> string \<Rightarrow> string \<Rightarrow> bool" where
  "roomHas rooms room p = (case rooms of None \<Rightarrow> False | Some m \<Rightarrow> p \<in> set (jm_list m room))"

definition channelMember :: "directory_store \<Rightarrow> string \<Rightarrow> string \<Rightarrow> bool" where
  "channelMember st c p = roomHas (dr_channelMembers st) c p"

definition findChannel :: "directory_store \<Rightarrow> string \<Rightarrow> directory_channel option" where
  "findChannel st c = find (\<lambda>x. ch_channelId x = c) (dr_channels st)"

definition channelMembership :: "directory_store \<Rightarrow> string \<Rightarrow> string \<Rightarrow> bool option" where
  "channelMembership st c p =
     (case (dr_channelMembers st, findChannel st c) of
        (Some m, Some x) \<Rightarrow>
          (let member = roomHas (Some m) c p in if member \<or> ch_isPrivate x = Some True then Some member else None)
      | _ \<Rightarrow> None)"

definition channelPrivacy :: "directory_store \<Rightarrow> string \<Rightarrow> bool option" where
  "channelPrivacy st c = map_option (\<lambda>x. ch_isPrivate x = Some True) (findChannel st c)"

definition replaceGroups :: "membership_row list \<Rightarrow> millis option \<Rightarrow> directory_store \<Rightarrow> bool \<times> directory_store" where
  "replaceGroups rows syncedAt st =
     (case acceptSync ''groups'' syncedAt st of
        (False, st1) \<Rightarrow> (False, st1)
      | (True, st1) \<Rightarrow> (True, st1\<lparr>dr_groupMembers := Some (roomsOf rows), dr_groupsSynced := True\<rparr>))"

definition upsertGroup :: "millis \<Rightarrow> string \<Rightarrow> string list \<Rightarrow> directory_store \<Rightarrow> directory_store" where
  "upsertGroup now groupId principalIds st =
     (let ids = filter (\<lambda>p. p \<noteq> []) principalIds in
      if groupId = [] \<or> ids = [] then st
      else let byGroup = (case dr_groupMembers st of None \<Rightarrow> [] | Some m \<Rightarrow> m);
               stored = (case jm_get (dr_syncedAts st) ''groups'' of None \<Rightarrow> 0 | Some t \<Rightarrow> t)
           in st\<lparr>dr_groupMembers := Some (jm_set groupId (js_uniq ids) byGroup),
                 dr_syncedAts := jm_set ''groups'' (max stored now) (dr_syncedAts st)\<rparr>)"

definition resolveGroupByParticipants :: "directory_store \<Rightarrow> string list \<Rightarrow> string option" where
  "resolveGroupByParticipants st participants =
     (let key = groupParticipantsKey participants in
      if key = [] then None
      else case dr_groupMembers st of
        None \<Rightarrow> None
      | Some groups \<Rightarrow> map_option fst (find (\<lambda>(g, ms). groupParticipantsKey ms = key) groups))"

definition groupMember :: "directory_store \<Rightarrow> string \<Rightarrow> string \<Rightarrow> bool" where
  "groupMember st g p = roomHas (dr_groupMembers st) g p"

definition groupMembership :: "directory_store \<Rightarrow> string \<Rightarrow> string \<Rightarrow> bool option" where
  "groupMembership st g p =
     (case dr_groupMembers st of
        None \<Rightarrow> None
      | Some m \<Rightarrow> if \<not> dr_groupsSynced st then None else Some (roomHas (Some m) g p))"

definition listGroupsFor :: "directory_store \<Rightarrow> string \<Rightarrow> string list" where
  "listGroupsFor st p =
     (case dr_groupMembers st of None \<Rightarrow> [] | Some m \<Rightarrow> map fst (filter (\<lambda>(g, ms). p \<in> set ms) m))"

definition listChannelsFor :: "directory_store \<Rightarrow> string \<Rightarrow> directory_channel list" where
  "listChannelsFor st p =
     filter (\<lambda>c. ch_isPrivate c \<noteq> Some True \<or> roomHas (dr_channelMembers st) (ch_channelId c) p) (dr_channels st)"

definition dir_get :: "directory_store \<Rightarrow> string \<Rightarrow> directory_member option" where
  "dir_get st p = find (\<lambda>m. samePerson (Some (dm_principalId m)) (Some p)) (dr_members st)"

definition dir_resolve :: "directory_store \<Rightarrow> string \<Rightarrow> directory_member pick" where
  "dir_resolve st query =
     (case find (\<lambda>x. truthy (dm_slackId x) \<and> dm_slackId x = Some (js_trim query)) (dr_members st) of
        Some m \<Rightarrow> PickOne m
      | None \<Rightarrow> pickMatch (dr_members st) query dm_principalId dm_displayName)"

definition resolveChannel :: "directory_store \<Rightarrow> string \<Rightarrow> directory_channel pick" where
  "resolveChannel st query = pickMatch (dr_channels st) query ch_channelId ch_name"

subsection \<open>Histories of a directory\<close>

datatype dir_op =
    DReplace "directory_member list" "millis option"
  | DChannels "directory_channel list" "membership_row list option" "millis option"
  | DGroups "membership_row list" "millis option"
  | DUpsert millis string "string list"
  | DUrl string

fun dir_apply :: "dir_op \<Rightarrow> directory_store \<Rightarrow> directory_store" where
  "dir_apply (DReplace ms t) st = snd (dir_replace ms t st)"
| "dir_apply (DChannels cs rows t) st = snd (replaceChannels cs rows t st)"
| "dir_apply (DGroups rows t) st = snd (replaceGroups rows t st)"
| "dir_apply (DUpsert now g ps) st = upsertGroup now g ps st"
| "dir_apply (DUrl u) st = setWorkspaceUrl u st"

definition dir_step :: "directory_store \<Rightarrow> directory_store \<Rightarrow> bool" where
  "dir_step st st' = (\<exists>op. st' = dir_apply op st)"

subsection \<open>Invariant\<close>

definition rooms_ok :: "room_members option \<Rightarrow> bool" where
  "rooms_ok rooms =
     (case rooms of None \<Rightarrow> True
      | Some m \<Rightarrow> jm_ok m \<and> (\<forall>(g, ms) \<in> set m. g \<noteq> [] \<and> ms \<noteq> [] \<and> distinct ms \<and> [] \<notin> set ms))"

definition dir_ok :: "directory_store \<Rightarrow> bool" where
  "dir_ok st =
     ((\<forall>m \<in> set (dr_members st). dm_principalId m \<noteq> [] \<and> dm_type m = Internal) \<and>
      (\<forall>c \<in> set (dr_channels st). ch_channelId c \<noteq> [] \<and> ch_name c \<noteq> []) \<and>
      rooms_ok (dr_channelMembers st) \<and> rooms_ok (dr_groupMembers st))"

lemma rooms_ok_set:
  assumes "rooms_ok (Some m)" "g \<noteq> []" "ms \<noteq> []" "distinct ms" "[] \<notin> set ms"
  shows "rooms_ok (Some (jm_set g ms m))"
proof -
  have "set (jm_set g ms m) \<subseteq> insert (g, ms) (set m)" by (induction m) auto
  with assms show ?thesis unfolding rooms_ok_def by fastforce
qed

lemma rooms_ok_list: "rooms_ok (Some m) \<Longrightarrow> distinct (jm_list m g) \<and> [] \<notin> set (jm_list m g)"
  by (auto simp: rooms_ok_def jm_list_def split: option.splits dest!: map_of_SomeD)

lemma rooms_ok_addToRoom: "rooms_ok (Some m) \<Longrightarrow> rooms_ok (Some (addToRoom row m))"
  using rooms_ok_list [of m "fst row"]
  by (auto simp: addToRoom_def Let_def split: prod.splits intro!: rooms_ok_set)

lemma rooms_ok_roomsOf [simp]: "rooms_ok (Some (roomsOf rows))"
proof -
  have "rooms_ok (Some m) \<Longrightarrow> rooms_ok (Some (fold addToRoom rows m))" for m
    by (induction rows arbitrary: m) (simp_all add: rooms_ok_addToRoom)
  from this [of "[]"] show ?thesis by (simp add: roomsOf_def) (simp add: rooms_ok_def)
qed

lemma acceptSync_snd: "\<exists>ss. snd (acceptSync sec t st) = st\<lparr>dr_syncedAts := ss\<rparr>"
proof -
  have "\<exists>ss. st = st\<lparr>dr_syncedAts := ss\<rparr>" by (rule exI [of _ "dr_syncedAts st"]) simp
  then show ?thesis unfolding acceptSync_def by (auto split: option.splits)
qed

lemma acceptSync_refused: "acceptSync sec t st = (False, st') \<Longrightarrow> st' = st"
  by (auto simp: acceptSync_def split: option.splits if_splits)

lemma dir_ok_sync [simp]: "dir_ok (st\<lparr>dr_syncedAts := ss\<rparr>) = dir_ok st"
  by (simp add: dir_ok_def)

lemma dir_ok_accept: "dir_ok st \<Longrightarrow> acceptSync sec t st = (b, st') \<Longrightarrow> dir_ok st'"
  using acceptSync_snd [of sec t st] by auto

lemma dir_ok_apply: "dir_ok st \<Longrightarrow> dir_ok (dir_apply op st)"
proof (cases op)
  case (DUpsert now g ps)
  assume ok: "dir_ok st"
  have "rooms_ok (Some (case dr_groupMembers st of None \<Rightarrow> [] | Some m \<Rightarrow> m))"
    using ok by (auto simp: dir_ok_def rooms_ok_def split: option.splits)
  then have "rooms_ok (Some (jm_set g (js_uniq (filter (\<lambda>p. p \<noteq> []) ps)) (case dr_groupMembers st of None \<Rightarrow> [] | Some m \<Rightarrow> m)))"
    if "g \<noteq> []" "filter (\<lambda>p. p \<noteq> []) ps \<noteq> []"
    using that by (intro rooms_ok_set) (simp_all add: js_uniq_def)
  with ok show ?thesis by (simp add: DUpsert upsertGroup_def Let_def dir_ok_def)
next
  case (DReplace ms t)
  assume "dir_ok st"
  then show ?thesis using DReplace dir_ok_accept [of st "''members''" t]
    by (auto simp: dir_replace_def dir_ok_def split: prod.splits bool.splits)
next
  case (DChannels cs rows t)
  assume "dir_ok st"
  then show ?thesis using DChannels dir_ok_accept [of st "''channels''" t]
    by (auto simp: replaceChannels_def dir_ok_def Let_def split: prod.splits bool.splits option.splits)
next
  case (DGroups rows t)
  assume "dir_ok st"
  then show ?thesis using DGroups dir_ok_accept [of st "''groups''" t]
    by (auto simp: replaceGroups_def dir_ok_def split: prod.splits bool.splits)
qed (simp add: setWorkspaceUrl_def dir_ok_def)

lemma dir_ok_create: "dir_ok createDirectoryStore"
  by (simp add: dir_ok_def createDirectoryStore_def rooms_ok_def)

subsection \<open>Stamps only grow\<close>

definition stamps_le :: "directory_store \<Rightarrow> directory_store \<Rightarrow> bool" where
  "stamps_le st st' =
     (\<forall>sec t. jm_get (dr_syncedAts st) sec = Some t \<longrightarrow> (\<exists>t' \<ge> t. jm_get (dr_syncedAts st') sec = Some t'))"

lemma stamps_le_accept: "acceptSync sec t st = (b, st') \<Longrightarrow> stamps_le st st'"
  by (auto simp: acceptSync_def stamps_le_def split: option.splits if_splits)

lemma stamps_le_apply: "stamps_le st (dir_apply op st)"
proof (cases op)
  case (DUpsert now g ps)
  then show ?thesis by (auto simp: stamps_le_def upsertGroup_def Let_def)
next
  case (DReplace ms t)
  then show ?thesis using stamps_le_accept [of "''members''" t st]
    by (auto simp: dir_replace_def stamps_le_def split: prod.splits bool.splits)
next
  case (DChannels cs rows t)
  then show ?thesis using stamps_le_accept [of "''channels''" t st]
    by (auto simp: replaceChannels_def stamps_le_def Let_def split: prod.splits bool.splits option.splits)
next
  case (DGroups rows t)
  then show ?thesis using stamps_le_accept [of "''groups''" t st]
    by (auto simp: replaceGroups_def stamps_le_def split: prod.splits bool.splits)
qed (simp add: stamps_le_def setWorkspaceUrl_def)

interpretation dirs: step_preorder dir_step dir_ok stamps_le
proof unfold_locales
  show "dir_ok s \<Longrightarrow> dir_step s t \<Longrightarrow> dir_ok t" for s t by (auto simp: dir_step_def dir_ok_apply)
  show "stamps_le s s" for s by (auto simp: stamps_le_def)
  show "stamps_le s t \<Longrightarrow> stamps_le t u \<Longrightarrow> stamps_le s u" for s t u
    unfolding stamps_le_def by (meson order_trans)
  show "dir_step s t \<Longrightarrow> stamps_le s t" for s t by (auto simp: dir_step_def stamps_le_apply)
qed

text \<open>The section an operation writes and the time it is stamped with.\<close>

fun stampOf :: "dir_op \<Rightarrow> (string \<times> millis) option" where
  "stampOf (DReplace ms t) = map_option (Pair ''members'') t"
| "stampOf (DChannels cs rows t) = map_option (Pair ''channels'') t"
| "stampOf (DGroups rows t) = map_option (Pair ''groups'') t"
| "stampOf (DUpsert now g ps) = (if g = [] \<or> filter (\<lambda>p. p \<noteq> []) ps = [] then None else Some (''groups'', now))"
| "stampOf (DUrl u) = None"

fun isSync :: "dir_op \<Rightarrow> bool" where
  "isSync (DUpsert now g ps) = False"
| "isSync (DUrl u) = False"
| "isSync _ = True"

lemma accept_stamp: "acceptSync sec (Some t) st = (b, st') \<Longrightarrow> \<exists>t' \<ge> t. jm_get (dr_syncedAts st') sec = Some t'"
  by (auto simp: acceptSync_def split: option.splits if_splits)

lemma stamped_after: "stampOf op = Some (sec, t) \<Longrightarrow> \<exists>t' \<ge> t. jm_get (dr_syncedAts (dir_apply op st)) sec = Some t'"
proof (cases op)
  case (DReplace ms u)
  assume "stampOf op = Some (sec, t)"
  then show ?thesis using DReplace accept_stamp [of "''members''" t st]
    by (auto simp: dir_replace_def split: prod.splits bool.splits)
next
  case (DChannels cs rows u)
  assume "stampOf op = Some (sec, t)"
  then show ?thesis using DChannels accept_stamp [of "''channels''" t st]
    by (auto simp: replaceChannels_def Let_def split: prod.splits bool.splits option.splits)
next
  case (DGroups rows u)
  assume "stampOf op = Some (sec, t)"
  then show ?thesis using DGroups accept_stamp [of "''groups''" t st]
    by (auto simp: replaceGroups_def split: prod.splits bool.splits)
qed (auto simp: upsertGroup_def Let_def split: if_splits)

lemma accept_stale: "jm_get (dr_syncedAts st) sec = Some t \<Longrightarrow> s < t \<Longrightarrow> acceptSync sec (Some s) st = (False, st)"
  by (simp add: acceptSync_def)

lemma stale_refused:
  assumes "jm_get (dr_syncedAts st) sec = Some t" "s < t" "stampOf op = Some (sec, s)" "isSync op"
  shows "dir_apply op st = st"
  using assms accept_stale [OF assms(1,2)]
  by (cases op) (auto simp: dir_replace_def replaceChannels_def replaceGroups_def)

text \<open>
  A sync never puts older data over newer. Once a section of the directory was written with a
  stamp, by a sync or by opening a group, every sync of that section stamped earlier is refused and
  changes nothing, whatever happens in between.
\<close>

theorem stale_sync_is_refused:
  assumes "stampOf op = Some (sec, t)" "dir_step\<^sup>*\<^sup>* (dir_apply op st) st'" "dir_ok st"
    and "isSync late" "stampOf late = Some (sec, s)" "s < t"
  shows "dir_apply late st' = st'"
proof -
  obtain t1 where t1: "t \<le> t1" "jm_get (dr_syncedAts (dir_apply op st)) sec = Some t1"
    using stamped_after [OF assms(1), of st] by auto
  have "stamps_le (dir_apply op st) st'" using dirs.steps_R [OF assms(2)] dir_ok_apply [OF assms(3)] by simp
  then obtain t2 where t2: "t1 \<le> t2" "jm_get (dr_syncedAts st') sec = Some t2" using t1(2) by (auto simp: stamps_le_def)
  then show ?thesis using stale_refused [OF t2(2) _ assms(5,4)] t1(1) assms(6) by simp
qed

text \<open>A group opened while a sync is under way survives the end of that sync.\<close>

lemma stale_sync_is_refused_witness:
  "groupMember (dir_apply (DGroups [(''G2'', ''U9'')] (Some 50))
      (dir_apply (DUrl ''u'') (dir_apply (DUpsert 70 ''G1'' [''U1'', ''U2'']) createDirectoryStore))) ''G1'' ''U2''"
proof -
  let ?st = "dir_apply (DUpsert 70 ''G1'' [''U1'', ''U2'']) createDirectoryStore"
  have "dir_step ?st (dir_apply (DUrl ''u'') ?st)" unfolding dir_step_def by blast
  then have "dir_step\<^sup>*\<^sup>* ?st (dir_apply (DUrl ''u'') ?st)" by blast
  from stale_sync_is_refused [OF _ this dir_ok_create, where sec = "''groups''" and t = 70 and late = "DGroups [(''G2'', ''U9'')] (Some 50)" and s = 50]
  have "dir_apply (DGroups [(''G2'', ''U9'')] (Some 50)) (dir_apply (DUrl ''u'') ?st) = dir_apply (DUrl ''u'') ?st" by simp
  moreover have "groupMember (dir_apply (DUrl ''u'') ?st) ''G1'' ''U2''" by code_simp
  ultimately show ?thesis by metis
qed

subsection \<open>A group is found by exactly its participants\<close>

lemma split_on_none: "c \<notin> set s \<Longrightarrow> split_on c s = [s]"
  by (induction s) auto

lemma split_on_append: "c \<notin> set x \<Longrightarrow> split_on c (x @ c # s) = x # split_on c s"
  by (induction x) auto

lemma split_join: "xs \<noteq> [] \<Longrightarrow> \<forall>x \<in> set xs. c \<notin> set x \<Longrightarrow> split_on c (join_with [c] xs) = xs"
  by (induction "[c]" xs rule: join_with.induct) (auto simp: split_on_none split_on_append)

definition comma_free :: "string list \<Rightarrow> bool" where
  "comma_free ps = list_all (\<lambda>p. CHR '','' \<notin> set p) ps"

abbreviation people :: "string list \<Rightarrow> string set" where
  "people ps \<equiv> set ps - {[]}"

lemma key_Nil: "groupParticipantsKey ps = [] \<longleftrightarrow> people ps = {}"
proof
  assume k: "groupParticipantsKey ps = []"
  define xs where "xs = sort (js_uniq (filter (\<lambda>p. p \<noteq> []) ps))"
  have "join_with '','' xs = []" "[] \<notin> set xs" using k by (simp_all add: groupParticipantsKey_def xs_def)
  then have "xs = []" by (cases xs rule: list.exhaust; cases "tl xs") auto
  then have "set xs = {}" by simp
  then show "people ps = {}" by (auto simp: xs_def)
next
  assume "people ps = {}"
  then have "filter (\<lambda>p. p \<noteq> []) ps = []" by (auto simp: filter_empty_conv)
  then show "groupParticipantsKey ps = []" by (simp add: groupParticipantsKey_def js_uniq_def)
qed

lemma key_eq:
  assumes "comma_free ps" "comma_free qs"
  shows "groupParticipantsKey ps = groupParticipantsKey qs \<longleftrightarrow> people ps = people qs"
proof -
  define f where "f = (\<lambda>ps. sort (js_uniq (filter (\<lambda>p :: string. p \<noteq> []) ps)))"
  have set_f: "set (f xs) = people xs" for xs by (auto simp: f_def)
  have sd: "sorted (f xs)" "distinct (f xs)" for xs by (simp_all add: f_def)
  have key: "groupParticipantsKey xs = join_with '','' (f xs)" for xs by (simp add: groupParticipantsKey_def f_def)
  have no: "\<forall>x \<in> set (f xs). CHR '','' \<notin> set x" if "comma_free xs" for xs
    using that set_f [of xs] by (auto simp: comma_free_def list_all_iff)
  show ?thesis
  proof
    assume e: "groupParticipantsKey ps = groupParticipantsKey qs"
    show "people ps = people qs"
    proof (cases "groupParticipantsKey ps = []")
      case True
      with e have "people ps = {}" "people qs = {}" using key_Nil [of ps] key_Nil [of qs] by metis+
      then show ?thesis by metis
    next
      case False
      then have "f ps \<noteq> []" "f qs \<noteq> []" using e by (auto simp: key)
      then have "f ps = f qs" using split_join [OF _ no [OF assms(1)]] split_join [OF _ no [OF assms(2)]] e
        unfolding key by metis
      then show ?thesis using set_f by metis
    qed
  next
    assume "people ps = people qs"
    then have "f ps = f qs" using sorted_distinct_set_unique [OF sd sd] set_f by metis
    then show "groupParticipantsKey ps = groupParticipantsKey qs" by (simp add: key)
  qed
qed

definition groups_comma_free :: "directory_store \<Rightarrow> bool" where
  "groups_comma_free st =
     (case dr_groupMembers st of None \<Rightarrow> True | Some m \<Rightarrow> list_all (\<lambda>(g, ms). comma_free ms) m)"

lemma roomHas_iff: "roomHas rooms c p \<longleftrightarrow> (\<exists>m ps. rooms = Some m \<and> jm_get m c = Some ps \<and> p \<in> set ps)"
proof (cases rooms)
  case (Some m)
  then show ?thesis by (cases "jm_get m c") (auto simp: roomHas_def jm_list_def)
qed (simp add: roomHas_def)

lemma roomHas_entry: "jm_ok m \<Longrightarrow> (g, ms) \<in> set m \<Longrightarrow> roomHas (Some m) g p \<longleftrightarrow> p \<in> set ms"
  by (simp add: roomHas_def jm_list_def)

lemma resolved_group_is_exact:
  assumes "dir_ok st" "groups_comma_free st" "comma_free ps" "resolveGroupByParticipants st ps = Some g"
  shows "groupMember st g p \<longleftrightarrow> p \<in> people ps"
proof -
  obtain m where m: "dr_groupMembers st = Some m" using assms(4)
    by (auto simp: resolveGroupByParticipants_def Let_def split: if_splits option.splits)
  then obtain ms where f: "find (\<lambda>(g, ms). groupParticipantsKey ms = groupParticipantsKey ps) m = Some (g, ms)"
    using assms(4) by (auto simp: resolveGroupByParticipants_def Let_def split: if_splits)
  then have e: "(g, ms) \<in> set m" "groupParticipantsKey ms = groupParticipantsKey ps"
    by (auto simp: find_Some_iff in_set_conv_nth)
  then have "comma_free ms" using assms(2) m by (auto simp: groups_comma_free_def list_all_iff)
  then have "people ms = people ps" using e(2) key_eq assms(3) by blast
  moreover have "[] \<notin> set ms" "jm_ok m" using assms(1) m e(1) by (auto simp: dir_ok_def rooms_ok_def)
  ultimately show ?thesis using roomHas_entry [OF _ e(1)] m by (auto simp: groupMember_def)
qed

lemma unresolved_group:
  assumes "dir_ok st" "groups_comma_free st" "comma_free ps" "people ps \<noteq> {}" "resolveGroupByParticipants st ps = None"
  shows "\<nexists>g. {p. groupMember st g p} = people ps"
proof
  assume "\<exists>g. {p. groupMember st g p} = people ps"
  then obtain g where g: "{p. groupMember st g p} = people ps" by blast
  then obtain m ms where m: "dr_groupMembers st = Some m" "jm_get m g = Some ms" "set ms = people ps"
  proof -
    obtain q where "groupMember st g q" using assms(4) g by blast
    then obtain m ms where "dr_groupMembers st = Some m" "jm_get m g = Some ms"
      unfolding groupMember_def roomHas_iff by blast
    moreover from this have "set ms = {p. groupMember st g p}" by (simp add: groupMember_def roomHas_def jm_list_def)
    ultimately show ?thesis using that g by blast
  qed
  then have e: "(g, ms) \<in> set m" by (auto dest: map_of_SomeD)
  then have "comma_free ms" using assms(2) m by (auto simp: groups_comma_free_def list_all_iff)
  then have "groupParticipantsKey ms = groupParticipantsKey ps" using key_eq [OF _ assms(3)] m(3) by auto
  then have "find (\<lambda>(g, ms). groupParticipantsKey ms = groupParticipantsKey ps) m \<noteq> None"
    using e by (auto simp: find_None_iff)
  then show False using assms(4,5) m(1) key_Nil [of ps] by (auto simp: resolveGroupByParticipants_def Let_def)
qed

subsection \<open>A name stands for one entry only\<close>

text \<open>How well an entry matches a query: its name is the query, begins with it, contains it.\<close>

definition matchRank :: "string \<Rightarrow> string \<Rightarrow> nat" where
  "matchRank q name =
     (let n = normDirectoryQuery name in
      if n = q then 0 else if starts_with q n then 1 else if js_includes q n then 2 else 3)"

lemma matchRank_0: "matchRank q s = 0 \<longleftrightarrow> normDirectoryQuery s = q"
  by (simp add: matchRank_def Let_def)

lemma matchRank_1: "matchRank q s = 1 \<longleftrightarrow> normDirectoryQuery s \<noteq> q \<and> starts_with q (normDirectoryQuery s)"
  by (simp add: matchRank_def Let_def)

lemma matchRank_2:
  "matchRank q s = 2 \<longleftrightarrow>
     normDirectoryQuery s \<noteq> q \<and> \<not> starts_with q (normDirectoryQuery s) \<and> js_includes q (normDirectoryQuery s)"
  by (simp add: matchRank_def Let_def)

lemma matchRank_le1: "matchRank q s \<le> 1 \<longleftrightarrow> normDirectoryQuery s = q \<or> starts_with q (normDirectoryQuery s)"
  by (simp add: matchRank_def Let_def)

lemma matchRank_le2:
  "matchRank q s \<le> 2 \<longleftrightarrow>
     normDirectoryQuery s = q \<or> starts_with q (normDirectoryQuery s) \<or> js_includes q (normDirectoryQuery s)"
  by (simp add: matchRank_def Let_def)

lemma pickOf_One: "pickOf xs = PickOne x \<longleftrightarrow> xs = [x]"
  by (auto simp: pickOf_def split: list.splits)

lemma pickOf_None: "pickOf xs = PickNone \<longleftrightarrow> xs = []"
  by (auto simp: pickOf_def split: list.splits)

lemma js_includes_prefix: "starts_with q s \<Longrightarrow> js_includes q s"
  by (auto simp: js_includes_def list_ex_iff)

lemma filter_singleton_unique: "filter P xs = [x] \<Longrightarrow> x \<in> set xs \<and> P x \<and> (\<forall>y \<in> set xs. P y \<longrightarrow> y = x)"
proof -
  assume f: "filter P xs = [x]"
  have "y \<in> set xs \<and> P y \<longleftrightarrow> y = x" for y using arg_cong [OF f, of "\<lambda>l. y \<in> set l"] by simp
  then show ?thesis by blast
qed

lemma find_found: "find P xs = Some x \<Longrightarrow> x \<in> set xs \<and> P x"
  by (auto simp: find_Some_iff)

lemma only_best:
  fixes r :: "'a \<Rightarrow> nat"
  shows "x \<in> S \<Longrightarrow> r x = n \<Longrightarrow> \<forall>y \<in> S. r y \<le> n \<longrightarrow> y = x \<Longrightarrow> n < 3 \<Longrightarrow>
    x \<in> S \<and> (A \<or> r x < 3 \<and> (\<forall>y \<in> S. r y \<le> r x \<longrightarrow> y = x))"
  by blast

lemma pickMatch_One:
  assumes "pickMatch items query ident label = PickOne x"
  shows "x \<in> set items \<and>
    (to_lower (ident x) = normDirectoryQuery query \<or>
     matchRank (normDirectoryQuery query) (label x) < 3 \<and>
     (\<forall>y \<in> set items. matchRank (normDirectoryQuery query) (label y) \<le> matchRank (normDirectoryQuery query) (label x) \<longrightarrow> y = x))"
proof (cases "find (\<lambda>t. to_lower (ident t) = normDirectoryQuery query) items")
  case (Some t)
  then have "x = t" using assms by (auto simp: pickMatch_def Let_def split: if_splits)
  with find_found [OF Some] show ?thesis by simp
next
  case None
  let ?q = "normDirectoryQuery query"
  let ?n = "\<lambda>t. normDirectoryQuery (label t)"
  let ?r = "\<lambda>t. matchRank ?q (label t)"
  have q: "?q \<noteq> []" using assms by (auto simp: pickMatch_def Let_def split: if_splits)
  consider (exact) "filter (\<lambda>t. ?n t = ?q) items = [x]"
    | (prefix) "filter (\<lambda>t. ?n t = ?q) items = []" "filter (\<lambda>t. starts_with ?q (?n t)) items = [x]"
    | (inside) "filter (\<lambda>t. ?n t = ?q) items = []" "filter (\<lambda>t. starts_with ?q (?n t)) items = []"
        "filter (\<lambda>t. js_includes ?q (?n t)) items = [x]"
  proof -
    have "(if filter (\<lambda>t. ?n t = ?q) items \<noteq> [] then pickOf (filter (\<lambda>t. ?n t = ?q) items)
      else pickOf (if filter (\<lambda>t. starts_with ?q (?n t)) items \<noteq> [] then filter (\<lambda>t. starts_with ?q (?n t)) items
        else filter (\<lambda>t. js_includes ?q (?n t)) items)) = PickOne x"
      using assms None q unfolding pickMatch_def Let_def by (simp only: if_False option.case)
    then show ?thesis
      using that
      by (cases "filter (\<lambda>t. ?n t = ?q) items = []"; cases "filter (\<lambda>t. starts_with ?q (?n t)) items = []")
         (simp_all add: pickOf_One)
  qed
  then show ?thesis
  proof cases
    case exact
    from filter_singleton_unique [OF exact] have "x \<in> set items" "?r x = 0" "\<forall>y \<in> set items. ?r y \<le> 0 \<longrightarrow> y = x"
      unfolding le_zero_eq matchRank_0 by blast+
    then show ?thesis by (rule only_best) simp
  next
    case prefix
    have none: "\<forall>t \<in> set items. ?n t \<noteq> ?q" using prefix(1) by (simp add: filter_empty_conv)
    from filter_singleton_unique [OF prefix(2)] have "x \<in> set items" "?r x = 1" "\<forall>y \<in> set items. ?r y \<le> 1 \<longrightarrow> y = x"
      unfolding matchRank_1 matchRank_le1 using none by blast+
    then show ?thesis by (rule only_best) simp
  next
    case inside
    have none: "\<forall>t \<in> set items. ?n t \<noteq> ?q \<and> \<not> starts_with ?q (?n t)" using inside(1,2) by (simp add: filter_empty_conv)
    from filter_singleton_unique [OF inside(3)] have "x \<in> set items" "?r x = 2" "\<forall>y \<in> set items. ?r y \<le> 2 \<longrightarrow> y = x"
      unfolding matchRank_2 matchRank_le2 using none by blast+
    then show ?thesis by (rule only_best) simp
  qed
qed

lemma resolved_member:
  assumes "dir_ok st" "dir_resolve st q = PickOne m"
  shows "m \<in> set (dr_members st)" "dm_type m = Internal" "dm_principalId m \<noteq> []"
proof -
  show "m \<in> set (dr_members st)"
  proof (cases "find (\<lambda>x. truthy (dm_slackId x) \<and> dm_slackId x = Some (js_trim q)) (dr_members st)")
    case (Some x)
    then have "m = x" using assms(2) by (simp add: dir_resolve_def)
    with find_found [OF Some] show ?thesis by simp
  next
    case None
    then show ?thesis using assms(2) pickMatch_One [of "dr_members st" q] by (simp add: dir_resolve_def)
  qed
  then show "dm_type m = Internal" "dm_principalId m \<noteq> []" using assms(1) by (auto simp: dir_ok_def)
qed

end
