(* ===== verification/Reach.thy ===== *)
theory Reach
  imports Directory Delivery Payload
begin

section \<open>Reaching a person, a channel or a group\<close>

text \<open>
  Models \<open>src/src/reach/reach.ts\<close> and \<open>reachNow\<close> of \<open>src/src/api/app-messaging.ts\<close>: whom an agent may write to on behalf of a person, and how
  the message is put into the delivery queue. The directory is used through the operations of \<open>ReachDirectory\<close>, a record of
  functions on its state; \<open>reachDir\<close> of \<open>src/src/api/app-helpers.ts\<close> builds it from the directory store. Asking the chat surface to open
  a group is a parameter that answers; a pull that throws makes the whole call throw and is not modelled.
\<close>

subsection \<open>Interfaces\<close>

datatype open_reply = Opened string | OpenError string

record 's reach_directory =
  rd_resolveRecipient :: "'s \<Rightarrow> string \<Rightarrow> directory_member pick"
  rd_resolveChannel :: "'s \<Rightarrow> string \<Rightarrow> directory_channel pick"
  rd_channelMember :: "'s \<Rightarrow> string \<Rightarrow> string \<Rightarrow> bool"
  rd_resolveGroup :: "'s \<Rightarrow> string list \<Rightarrow> string option"
  rd_groupMember :: "'s \<Rightarrow> string \<Rightarrow> string \<Rightarrow> bool"
  rd_directoryMember :: "'s \<Rightarrow> string \<Rightarrow> bool"
  rd_openGroup :: "(string list \<Rightarrow> open_reply option) option"
  rd_registerGroup :: "(string \<Rightarrow> string list \<Rightarrow> 's \<Rightarrow> 's) option"

record reach_target =
  rt_recipient :: "string option"
  rt_channel :: "string option"
  rt_participants :: "string list option"

record reach_ok =
  ro_destination :: destination
  ro_recipient :: "(string \<times> string) option"
  ro_channel :: "(string \<times> string) option"
  ro_group :: "string option"

record reach_error =
  re_status :: nat
  re_error :: string
  re_message :: string
  re_candidates :: "(string \<times> string) list option"

type_synonym reach_resolution = "reach_error + reach_ok"

definition reachErr :: "nat \<Rightarrow> string \<Rightarrow> string \<Rightarrow> reach_error" where
  "reachErr status err msg = \<lparr>re_status = status, re_error = err, re_message = msg, re_candidates = None\<rparr>"

text \<open>What \<open>openGroupViaSurface\<close> reads of the answer of a surface.\<close>

record surface_result =
  sr_groupId :: "string option"
  sr_note :: "string option"

definition openGroupViaSurface :: "(string list \<Rightarrow> surface_result option) \<Rightarrow> string list \<Rightarrow> open_reply option" where
  "openGroupViaSurface pull participants =
     (case pull participants of
        None \<Rightarrow> None
      | Some r \<Rightarrow>
          (if truthy (sr_groupId r) then Some (Opened (the (sr_groupId r)))
           else if truthy (sr_note r) then Some (OpenError (the (sr_note r)))
           else None))"

subsection \<open>Resolving a target\<close>

definition principalDestination :: "string \<Rightarrow> string \<Rightarrow> destination" where
  "principalDestination target onBehalfOf =
     \<lparr>d_type = ''principal'', d_target = target, d_audienceScopeId = Some (scopeId Personal target),
      d_rest = [(''onBehalfOf'', JStr onBehalfOf)]\<rparr>"

definition MAX_GROUP_DM_PARTICIPANTS :: nat where
  "MAX_GROUP_DM_PARTICIPANTS = 8"

definition groupTooLarge :: reach_error where
  "groupTooLarge =
     reachErr 400 ''group_too_large''
       (''a group DM holds at most '' @ show_nat MAX_GROUP_DM_PARTICIPANTS @ '' people including you '' @ [dash_char] @
        '' use a channel instead'')"

datatype room_kind = RoomChannel | RoomGroup

definition membershipDenial :: "'s reach_directory \<Rightarrow> 's \<Rightarrow> string \<Rightarrow> room_kind \<Rightarrow> reach_error" where
  "membershipDenial dir s authorityId room =
     (if \<not> rd_directoryMember dir s authorityId
      then reachErr 403 ''identity_unverified''
        (''I can't confirm your membership here '' @ [dash_char] @
         '' your account isn't in this workspace's directory, so your login may not be linked to Slack (or it hasn't synced yet). Connecting / signing in with Slack should link it.'')
      else reachErr 403 ''not_a_member''
        (if room = RoomChannel then ''I can only post to a private channel you're in''
         else ''I can only post to a group DM you're in''))"

definition quoted :: "string \<Rightarrow> string" where
  "quoted s = [CHR 0x22] @ s @ [CHR 0x22]"

definition recipientNotFound :: "string \<Rightarrow> reach_error" where
  "recipientNotFound q = reachErr 404 ''recipient_not_found'' (''no internal teammate matches '' @ quoted q)"

definition ambiguousRecipient :: "string \<Rightarrow> directory_member list \<Rightarrow> reach_error" where
  "ambiguousRecipient q cs =
     (reachErr 409 ''ambiguous_recipient''
        (quoted q @ '' matches multiple teammates '' @ [dash_char] @ '' pass an exact name or id''))
     \<lparr>re_candidates := Some (map (\<lambda>c. (dm_principalId c, dm_displayName c)) cs)\<rparr>"

definition visibilityOf :: "'s reach_directory \<Rightarrow> 's \<Rightarrow> visibility_directory" where
  "visibilityOf dir s =
     \<lparr>vd_channelMember = rd_channelMember dir s, vd_groupMember = rd_groupMember dir s, vd_listChannelsFor = None\<rparr>"

definition resolveReachRecipient :: "'s reach_directory \<Rightarrow> string \<Rightarrow> string \<Rightarrow> 's \<Rightarrow> reach_resolution" where
  "resolveReachRecipient dir q authorityId s =
     (case rd_resolveRecipient dir s q of
        PickNone \<Rightarrow> Inl (recipientNotFound q)
      | PickAmbiguous cs \<Rightarrow> Inl (ambiguousRecipient q cs)
      | PickOne m \<Rightarrow>
          Inr \<lparr>ro_destination = principalDestination (dm_principalId m) authorityId,
               ro_recipient = Some (dm_principalId m, dm_displayName m), ro_channel = None, ro_group = None\<rparr>)"

definition resolveReachChannel :: "'s reach_directory \<Rightarrow> string \<Rightarrow> string \<Rightarrow> 's \<Rightarrow> reach_resolution" where
  "resolveReachChannel dir q authorityId s =
     (case rd_resolveChannel dir s q of
        PickNone \<Rightarrow> Inl (reachErr 404 ''channel_not_found'' (''no channel I'm in matches '' @ quoted q))
      | PickAmbiguous cs \<Rightarrow>
          Inl ((reachErr 409 ''ambiguous_channel''
                  (quoted q @ '' matches multiple channels '' @ [dash_char] @ '' pass an exact name or id''))
               \<lparr>re_candidates := Some (map (\<lambda>c. (ch_channelId c, ch_name c)) cs)\<rparr>)
      | PickOne c \<Rightarrow>
          (let cid = ch_channelId c in
           if \<not> isVisible (visibilityOf dir s) authorityId (VChannel cid (Some (ch_isPrivate c = Some True)))
           then Inl (membershipDenial dir s authorityId RoomChannel)
           else Inr \<lparr>ro_destination = \<lparr>d_type = ''slack'', d_target = cid, d_audienceScopeId = Some (scopeId Channel cid), d_rest = []\<rparr>,
                     ro_recipient = None, ro_channel = Some (cid, ch_name c), ro_group = None\<rparr>))"

fun resolveNamed :: "(string \<Rightarrow> directory_member pick) \<Rightarrow> string list \<Rightarrow> reach_error + string list" where
  "resolveNamed look [] = Inr []"
| "resolveNamed look (q # qs) =
     (case look q of
        PickNone \<Rightarrow> Inl (recipientNotFound q)
      | PickAmbiguous cs \<Rightarrow> Inl (ambiguousRecipient q cs)
      | PickOne m \<Rightarrow>
          (case resolveNamed look qs of
             Inl e \<Rightarrow> Inl e
           | Inr ids \<Rightarrow> Inr (dm_principalId m # ids)))"

definition groupDestination :: "string \<Rightarrow> reach_ok" where
  "groupDestination gid =
     \<lparr>ro_destination = \<lparr>d_type = ''group'', d_target = gid, d_audienceScopeId = Some (scopeId Group gid), d_rest = []\<rparr>,
      ro_recipient = None, ro_channel = None, ro_group = Some gid\<rparr>"

definition openReachGroup ::
  "'s reach_directory \<Rightarrow> bool \<Rightarrow> string list \<Rightarrow> string \<Rightarrow> 's \<Rightarrow> reach_resolution \<times> 's"
where
  "openReachGroup dir mayOpenGroup participants authorityId s =
     (case (mayOpenGroup, rd_openGroup dir) of
        (True, Some open_) \<Rightarrow>
          (if \<not> rd_directoryMember dir s authorityId then (Inl (membershipDenial dir s authorityId RoomGroup), s)
           else case open_ participants of
                  None \<Rightarrow>
                    (Inl (reachErr 502 ''group_open_failed''
                       (''I couldn't open a group DM with those people just now '' @ [dash_char] @ '' try again in a moment'')), s)
                | Some (OpenError e) \<Rightarrow> (Inl (reachErr 502 ''group_open_failed'' e), s)
                | Some (Opened gid) \<Rightarrow>
                    (Inr (groupDestination gid),
                     case rd_registerGroup dir of None \<Rightarrow> s | Some register \<Rightarrow> register gid participants s))
      | (_, opener) \<Rightarrow>
          (Inl (reachErr 404 ''group_not_found''
             (if opener \<noteq> None
              then ''no group DM I'm in has exactly those participants '' @ [dash_char] @
                   '' post to it once with /v1/reach, which opens it, then address it here''
              else ''no group DM I'm in has exactly those participants (it may not have synced yet)'')), s))"

definition resolveReachGroup ::
  "'s reach_directory \<Rightarrow> bool \<Rightarrow> string list \<Rightarrow> string \<Rightarrow> 's \<Rightarrow> reach_resolution \<times> 's"
where
  "resolveReachGroup dir mayOpenGroup asked0 authorityId s =
     (if asked0 = []
      then (Inl (reachErr 400 ''bad_request'' ''participants must list the group DM's other members (at least one)''), s)
      else let asked = js_uniq asked0 in
        if length asked > MAX_GROUP_DM_PARTICIPANTS then (Inl groupTooLarge, s)
        else case resolveNamed (rd_resolveRecipient dir s) asked of
          Inl e \<Rightarrow> (Inl e, s)
        | Inr named \<Rightarrow>
            (let participants = js_uniq (named @ [authorityId]) in
             if length participants < 2
             then (Inl (reachErr 400 ''bad_request''
                     (''a group DM needs someone besides you '' @ [dash_char] @ '' name a `recipient` instead for a 1:1 DM'')), s)
             else if length participants > MAX_GROUP_DM_PARTICIPANTS then (Inl groupTooLarge, s)
             else case rd_resolveGroup dir s participants of
               Some gid \<Rightarrow>
                 ((if \<not> isVisible (visibilityOf dir s) authorityId (VGroup gid)
                   then Inl (membershipDenial dir s authorityId RoomGroup)
                   else Inr (groupDestination gid)), s)
             | None \<Rightarrow> openReachGroup dir mayOpenGroup participants authorityId s))"

definition resolveReachTarget ::
  "'s reach_directory \<Rightarrow> reach_target \<Rightarrow> string \<Rightarrow> bool \<Rightarrow> 's \<Rightarrow> reach_resolution \<times> 's"
where
  "resolveReachTarget dir target authorityId mayOpenGroup s =
     (if length (filter id [rt_recipient target \<noteq> None, rt_channel target \<noteq> None, rt_participants target \<noteq> None]) > 1
      then (Inl (reachErr 400 ''bad_request''
              ''specify exactly one of recipient (a teammate), channel, or participants (a group DM)''), s)
      else case rt_recipient target of
        Some q \<Rightarrow> (resolveReachRecipient dir q authorityId s, s)
      | None \<Rightarrow>
          (case rt_channel target of
             Some q \<Rightarrow> (resolveReachChannel dir q authorityId s, s)
           | None \<Rightarrow>
               (case rt_participants target of
                  Some ps \<Rightarrow> resolveReachGroup dir mayOpenGroup ps authorityId s
                | None \<Rightarrow>
                    (Inl (reachErr 400 ''bad_request''
                       ''name a recipient (a teammate), a channel, or a group DM's participants''), s))))"

subsection \<open>Putting a message into the queue\<close>

definition attributeRelay :: "string \<Rightarrow> string option \<Rightarrow> string" where
  "attributeRelay body sender =
     (case sender of
        None \<Rightarrow> body
      | Some n \<Rightarrow> let who = js_trim n in if who \<noteq> [] then who @ '' asked me to pass on:'' @ [newline_char] @ body else body)"

definition withField :: "string \<Rightarrow> json option \<Rightarrow> destination \<Rightarrow> destination" where
  "withField k v d = (case v of None \<Rightarrow> d | Some j \<Rightarrow> d\<lparr>d_rest := AList.update k j (d_rest d)\<rparr>)"

definition withSlackUnfurlOption :: "destination \<Rightarrow> bool option \<Rightarrow> destination" where
  "withSlackUnfurlOption d unfurlLinks = withField ''unfurlLinks'' (map_option JBool unfurlLinks) d"

definition withReact :: "destination \<Rightarrow> (string \<times> string) option \<Rightarrow> destination" where
  "withReact d react =
     withField ''react'' (map_option (\<lambda>(ts, emoji). JObj [(''messageTs'', JStr ts), (''emoji'', JStr emoji)]) react) d"

definition withDelete :: "destination \<Rightarrow> string option \<Rightarrow> destination" where
  "withDelete d del = withField ''delete'' (map_option (\<lambda>ts. JObj [(''messageTs'', JStr ts)]) del) d"

definition withThread :: "destination \<Rightarrow> string option \<Rightarrow> destination" where
  "withThread d threadTs =
     (if truthy threadTs then d\<lparr>d_target := d_target d @ '':'' @ the threadTs\<rparr> else d)"

definition withEdit :: "destination \<Rightarrow> string option \<Rightarrow> destination" where
  "withEdit d editRef = withField ''editRef'' (if truthy editRef then Some (JStr (the editRef)) else None) d"

definition isThirdPartyRelay :: "destination \<Rightarrow> string option \<Rightarrow> bool" where
  "isThirdPartyRelay d attributeAs =
     (if attributeAs = None then False
      else if d_type d = ''group'' then True
      else if d_type d \<noteq> ''principal'' then False
      else map_of (d_rest d) ''onBehalfOf'' \<noteq> Some (JStr (d_target d)))"

record reach_enqueue_input =
  rq_destination :: destination
  rq_text :: string
  rq_attachments :: "json list option"
  rq_idempotencyKey :: string
  rq_provenance :: "provenance option"
  rq_attributeAs :: "string option"
  rq_shadow :: bool

definition reachDelivery :: "reach_enqueue_input \<Rightarrow> delivery_input" where
  "reachDelivery inp =
     (if map_of (d_rest (rq_destination inp)) ''react'' \<noteq> None \<or> map_of (d_rest (rq_destination inp)) ''delete'' \<noteq> None
      then \<lparr>di_destination = rq_destination inp, di_text = [], di_attachments = None, di_provenance = rq_provenance inp,
            di_idempotencyKey = rq_idempotencyKey inp, di_shadow = rq_shadow inp\<rparr>
      else \<lparr>di_destination = rq_destination inp,
            di_text = (if isThirdPartyRelay (rq_destination inp) (rq_attributeAs inp)
                       then attributeRelay (rq_text inp) (rq_attributeAs inp) else rq_text inp),
            di_attachments = (case rq_attachments inp of Some (a # as) \<Rightarrow> Some (a # as) | _ \<Rightarrow> None),
            di_provenance = rq_provenance inp, di_idempotencyKey = rq_idempotencyKey inp, di_shadow = rq_shadow inp\<rparr>)"

definition reachEnqueue ::
  "string \<Rightarrow> millis \<Rightarrow> reach_enqueue_input \<Rightarrow> delivery_store \<Rightarrow> (delivery option \<times> bool) \<times> delivery_store"
where
  "reachEnqueue uuid now inp st = delivery_enqueue uuid now (reachDelivery inp) st"

subsection \<open>The directory behind it, and reaching at once\<close>

definition reachDir :: "(string list \<Rightarrow> surface_result option) \<Rightarrow> millis \<Rightarrow> directory_store reach_directory" where
  "reachDir pull now =
     \<lparr>rd_resolveRecipient = dir_resolve, rd_resolveChannel = resolveChannel, rd_channelMember = channelMember,
      rd_resolveGroup = resolveGroupByParticipants, rd_groupMember = groupMember,
      rd_directoryMember = (\<lambda>st p. dir_get st p \<noteq> None),
      rd_openGroup = Some (openGroupViaSurface pull), rd_registerGroup = Some (upsertGroup now)\<rparr>"

record reach_now_input =
  rn_senderId :: string
  rn_senderScope :: scope_id
  rn_text :: "string option"
  rn_target :: reach_target
  rn_threadTs :: "string option"
  rn_unfurlLinks :: "bool option"
  rn_attachments :: "json list option"
  rn_react :: "(string \<times> string) option"
  rn_delete :: "string option"
  rn_currentDestination :: "destination option"

record audit_event =
  au_at :: millis
  au_principalId :: string
  au_action :: string
  au_resource :: string
  au_scopeLabel :: scope_id

record reach_sys =
  rs_directory :: directory_store
  rs_deliveries :: delivery_store
  rs_audit :: "audit_event list"

definition hasNamedTarget :: "reach_target \<Rightarrow> bool" where
  "hasNamedTarget t = (rt_recipient t \<noteq> None \<or> rt_channel t \<noteq> None \<or> rt_participants t \<noteq> None)"

text \<open>Where a call addresses its message: the conversation it is in, for a deletion that names no target, and the resolved target otherwise.\<close>

definition reachBase ::
  "(string list \<Rightarrow> surface_result option) \<Rightarrow> millis \<Rightarrow> reach_now_input \<Rightarrow> directory_store \<Rightarrow> reach_resolution \<times> directory_store"
where
  "reachBase pull now inp dirs =
     (if rn_delete inp \<noteq> None \<and> \<not> hasNamedTarget (rn_target inp)
      then (case rn_currentDestination inp of
              Some dest \<Rightarrow>
                (if d_target dest \<noteq> []
                 then (Inr \<lparr>ro_destination = dest, ro_recipient = None, ro_channel = None, ro_group = None\<rparr>, dirs)
                 else (Inl (reachErr 400 ''no_conversation''
                         (''this conversation has no message surface to delete from '' @ [dash_char] @ '' name a channel or its participants'')), dirs))
            | None \<Rightarrow>
                (Inl (reachErr 400 ''no_conversation''
                   (''this conversation has no message surface to delete from '' @ [dash_char] @ '' name a channel or its participants'')), dirs))
      else resolveReachTarget (reachDir pull now) (rn_target inp) (rn_senderId inp)
             (rn_react inp = None \<and> rn_delete inp = None) dirs)"

definition reachThread :: "reach_now_input \<Rightarrow> destination \<Rightarrow> reach_error + destination" where
  "reachThread inp d =
     (if truthy (rn_threadTs inp)
      then (if d_type d \<noteq> ''slack'' \<and> d_type d \<noteq> ''group''
            then Inl (reachErr 400 ''bad_request''
                   (''threadTs threads a channel or group DM post '' @ [dash_char] @ '' a DM to a person has no threads''))
            else Inr (withThread d (rn_threadTs inp)))
      else Inr d)"

definition reachInput :: "string \<Rightarrow> reach_now_input \<Rightarrow> directory_store \<Rightarrow> destination \<Rightarrow> reach_enqueue_input" where
  "reachInput uuid inp dirs d =
     \<lparr>rq_destination = withDelete (withReact (withSlackUnfurlOption d (rn_unfurlLinks inp)) (rn_react inp)) (rn_delete inp),
      rq_text = (case rn_text inp of None \<Rightarrow> [] | Some t \<Rightarrow> t),
      rq_attachments = rn_attachments inp, rq_idempotencyKey = ''reach:'' @ uuid, rq_provenance = None,
      rq_attributeAs =
        (case dir_get dirs (rn_senderId inp) of
           None \<Rightarrow> None
         | Some m \<Rightarrow> if rn_react inp = None \<and> rn_delete inp = None \<and> dm_displayName m \<noteq> [] then Some (dm_displayName m) else None),
      rq_shadow = False\<rparr>"

definition reachNow ::
  "(string list \<Rightarrow> surface_result option) \<Rightarrow> string \<Rightarrow> string \<Rightarrow> millis \<Rightarrow> reach_now_input \<Rightarrow> reach_sys \<Rightarrow>
   (reach_error + delivery option \<times> reach_ok) \<times> reach_sys"
where
  "reachNow pull keyUuid uuid now inp sys =
     (case reachBase pull now inp (rs_directory sys) of
        (Inl e, dirs) \<Rightarrow> (Inl e, sys\<lparr>rs_directory := dirs\<rparr>)
      | (Inr r, dirs) \<Rightarrow>
          (case reachThread inp (ro_destination r) of
             Inl e \<Rightarrow> (Inl e, sys\<lparr>rs_directory := dirs\<rparr>)
           | Inr d \<Rightarrow>
               (case reachEnqueue uuid now (reachInput keyUuid inp dirs d) (rs_deliveries sys) of
                  ((dv, listeners), deliveries) \<Rightarrow>
                    (Inr (dv, r),
                     sys\<lparr>rs_directory := dirs, rs_deliveries := deliveries,
                         rs_audit := rs_audit sys @
                           [\<lparr>au_at = now, au_principalId = rn_senderId inp, au_action = ''reach_now'',
                             au_resource = (case dv of None \<Rightarrow> [] | Some x \<Rightarrow> dv_id x), au_scopeLabel = rn_senderScope inp\<rparr>]\<rparr>))))"

subsection \<open>What a resolved target may be\<close>

text \<open>A message is addressed to a known person, to a channel that is public or that the sender is in, or to a group the sender is in.\<close>

definition addressable ::
  "('s \<Rightarrow> string \<Rightarrow> bool) \<Rightarrow> ('s \<Rightarrow> string \<Rightarrow> bool) \<Rightarrow> 's reach_directory \<Rightarrow> 's \<Rightarrow> string \<Rightarrow> destination \<Rightarrow> bool"
where
  "addressable known public dir s a d =
     (d_type d = ''principal'' \<and> known s (d_target d) \<and> d_audienceScopeId d = Some (scopeId Personal (d_target d)) \<or>
      d_type d = ''slack'' \<and> (public s (d_target d) \<or> rd_channelMember dir s (d_target d) a) \<and>
        d_audienceScopeId d = Some (scopeId Channel (d_target d)) \<or>
      d_type d = ''group'' \<and> rd_groupMember dir s (d_target d) a \<and> d_audienceScopeId d = Some (scopeId Group (d_target d)))"

text \<open>
  The contract of a directory: a resolved person is one it knows, a group is found by exactly its
  members, a registered group has exactly the people it was opened with.
\<close>

locale reach_provider =
  fixes dir :: "'s reach_directory"
    and ok :: "'s \<Rightarrow> bool"
    and known :: "'s \<Rightarrow> string \<Rightarrow> bool"
    and public :: "'s \<Rightarrow> string \<Rightarrow> bool"
    and clean :: "string \<Rightarrow> bool"
  assumes recipient_known: "ok s \<Longrightarrow> rd_resolveRecipient dir s q = PickOne m \<Longrightarrow> known s (dm_principalId m)"
    and known_clean: "ok s \<Longrightarrow> known s p \<Longrightarrow> clean p \<and> p \<noteq> []"
    and channel_public: "ok s \<Longrightarrow> rd_resolveChannel dir s q = PickOne c \<Longrightarrow> ch_isPrivate c \<noteq> Some True \<Longrightarrow> public s (ch_channelId c)"
    and group_exact: "ok s \<Longrightarrow> \<forall>p \<in> set ps. clean p \<Longrightarrow> rd_resolveGroup dir s ps = Some g \<Longrightarrow>
      rd_groupMember dir s g p \<longleftrightarrow> p \<in> set ps \<and> p \<noteq> []"
    and member_named: "rd_directoryMember dir s p \<Longrightarrow> p \<noteq> []"
    and opened_named: "rd_openGroup dir = Some f \<Longrightarrow> f ps = Some (Opened g) \<Longrightarrow> g \<noteq> []"
    and registered: "rd_openGroup dir \<noteq> None \<Longrightarrow> \<exists>register. rd_registerGroup dir = Some register \<and>
      (\<forall>g ps p s. g \<noteq> [] \<and> (\<exists>x \<in> set ps. x \<noteq> []) \<longrightarrow>
         (rd_groupMember dir (register g ps s) g p \<longleftrightarrow> p \<in> set ps \<and> p \<noteq> []))"
begin

lemma named_known:
  "ok s \<Longrightarrow> resolveNamed (rd_resolveRecipient dir s) qs = Inr ids \<Longrightarrow> \<forall>p \<in> set ids. known s p"
  by (induction qs arbitrary: ids) (auto split: pick.splits sum.splits intro: recipient_known)

lemma opened_group:
  assumes "openReachGroup dir may ps a s = (Inr r, s')" "a \<in> set ps"
  shows "\<exists>g. r = groupDestination g \<and> (\<forall>p. rd_groupMember dir s' g p \<longleftrightarrow> p \<in> set ps \<and> p \<noteq> []) \<and> a \<noteq> []"
proof -
  obtain f g where f: "rd_openGroup dir = Some f" "f ps = Some (Opened g)" "rd_directoryMember dir s a" "r = groupDestination g"
      "s' = (case rd_registerGroup dir of None \<Rightarrow> s | Some register \<Rightarrow> register g ps s)"
    using assms(1) by (auto simp: openReachGroup_def split: bool.splits option.splits open_reply.splits if_splits)
  then obtain register where r: "rd_registerGroup dir = Some register"
      "\<forall>g ps p s. g \<noteq> [] \<and> (\<exists>x \<in> set ps. x \<noteq> []) \<longrightarrow> (rd_groupMember dir (register g ps s) g p \<longleftrightarrow> p \<in> set ps \<and> p \<noteq> [])"
    using registered by blast
  have "a \<noteq> []" "g \<noteq> []" using f member_named opened_named by blast+
  then have "\<forall>p. rd_groupMember dir (register g ps s) g p \<longleftrightarrow> p \<in> set ps \<and> p \<noteq> []" using r(2) assms(2) by blast
  then have "\<forall>p. rd_groupMember dir s' g p \<longleftrightarrow> p \<in> set ps \<and> p \<noteq> []" using f(5) r(1) by simp
  with f(4) \<open>a \<noteq> []\<close> show ?thesis by blast
qed

lemma reached_group:
  assumes "ok s" "clean a" "resolveReachGroup dir may qs a s = (Inr r, s')"
  shows "\<exists>g ids. r = groupDestination g \<and> resolveNamed (rd_resolveRecipient dir s) (js_uniq qs) = Inr ids \<and>
    {p. rd_groupMember dir s' g p} = insert a (set ids) \<and> card (insert a (set ids)) \<in> {2..MAX_GROUP_DM_PARTICIPANTS}"
proof -
  obtain ids where ids: "resolveNamed (rd_resolveRecipient dir s) (js_uniq qs) = Inr ids"
    using assms(3) by (auto simp: resolveReachGroup_def Let_def split: if_splits sum.splits)
  let ?ps = "js_uniq (ids @ [a])"
  have ps: "set ?ps = insert a (set ids)" "length ?ps = card (insert a (set ids))"
    using distinct_card [OF distinct_js_uniq, of "ids @ [a]"] by auto
  have kn: "\<forall>p \<in> set ids. clean p \<and> p \<noteq> []" using named_known [OF assms(1) ids] known_clean [OF assms(1)] by blast
  have sz: "card (insert a (set ids)) \<in> {2..MAX_GROUP_DM_PARTICIPANTS}"
    using assms(3) ids ps by (auto simp: resolveReachGroup_def Let_def split: if_splits)
  show ?thesis
  proof (cases "rd_resolveGroup dir s ?ps")
    case (Some g)
    then have r: "r = groupDestination g" "s' = s" "rd_groupMember dir s g a"
      using assms(3) ids by (auto simp: resolveReachGroup_def Let_def visibilityOf_def split: if_splits)
    have "rd_groupMember dir s g p \<longleftrightarrow> p \<in> set ?ps \<and> p \<noteq> []" for p
      using group_exact [OF assms(1) _ Some] kn assms(2) ps(1) by auto
    moreover from this r(3) have "a \<noteq> []" by blast
    ultimately have "{p. rd_groupMember dir s' g p} = insert a (set ids)" using kn ps(1) r(2) by auto
    with r ids sz show ?thesis by blast
  next
    case None
    then have "openReachGroup dir may ?ps a s = (Inr r, s')"
      using assms(3) ids by (auto simp: resolveReachGroup_def Let_def split: if_splits)
    from opened_group [OF this] obtain g where g: "r = groupDestination g" "a \<noteq> []"
        "\<forall>p. rd_groupMember dir s' g p \<longleftrightarrow> p \<in> set ?ps \<and> p \<noteq> []" by auto
    then have "{p. rd_groupMember dir s' g p} = insert a (set ids)" using kn ps(1) by auto
    with g ids sz show ?thesis by blast
  qed
qed

lemma person_addressable: "ok s \<Longrightarrow> resolveReachRecipient dir q a s = Inr r \<Longrightarrow> addressable known public dir s a (ro_destination r)"
  by (auto simp: resolveReachRecipient_def addressable_def principalDestination_def split: pick.splits intro: recipient_known)

lemma channel_addressable: "ok s \<Longrightarrow> resolveReachChannel dir q a s = Inr r \<Longrightarrow> addressable known public dir s a (ro_destination r)"
  by (auto simp: resolveReachChannel_def addressable_def visibilityOf_def Let_def split: pick.splits if_splits
      intro: channel_public)

lemma group_addressable:
  "ok s \<Longrightarrow> clean a \<Longrightarrow> resolveReachGroup dir may qs a s = (Inr r, s') \<Longrightarrow> addressable known public dir s' a (ro_destination r)"
  using reached_group [of s a may qs r s'] by (auto simp: addressable_def groupDestination_def)

lemma resolved_is_addressable:
  assumes "ok s" "clean a" "resolveReachTarget dir t a may s = (Inr r, s')"
  shows "addressable known public dir s' a (ro_destination r)"
proof (cases "rt_recipient t")
  case (Some q)
  then have "resolveReachRecipient dir q a s = Inr r" "s' = s"
    using assms(3) by (auto simp: resolveReachTarget_def split: if_splits)
  then show ?thesis using person_addressable [OF assms(1)] by blast
next
  case None
  show ?thesis
  proof (cases "rt_channel t")
    case (Some q)
    then have "resolveReachChannel dir q a s = Inr r" "s' = s"
      using assms(3) None by (auto simp: resolveReachTarget_def split: if_splits)
    then show ?thesis using channel_addressable [OF assms(1)] by blast
  next
    case no_channel: None
    then obtain qs where "resolveReachGroup dir may qs a s = (Inr r, s')"
      using assms(3) None by (cases "rt_participants t") (auto simp: resolveReachTarget_def)
    then show ?thesis by (rule group_addressable [OF assms(1,2)])
  qed
qed

lemma resolved_group_people:
  assumes "ok s" "clean a" "resolveReachTarget dir t a may s = (Inr r, s')"
  shows "\<forall>g. ro_group r = Some g \<longrightarrow>
    (\<exists>ids. resolveNamed (rd_resolveRecipient dir s) (js_uniq (the (rt_participants t))) = Inr ids \<and>
       {p. rd_groupMember dir s' g p} = insert a (set ids) \<and>
       card {p. rd_groupMember dir s' g p} \<in> {2..MAX_GROUP_DM_PARTICIPANTS})"
proof (cases "rt_recipient t")
  case (Some q)
  then show ?thesis using assms(3)
    by (auto simp: resolveReachTarget_def resolveReachRecipient_def split: if_splits pick.splits)
next
  case None
  show ?thesis
  proof (cases "rt_channel t")
    case (Some q)
    then show ?thesis using assms(3) None
      by (auto simp: resolveReachTarget_def resolveReachChannel_def Let_def split: if_splits pick.splits)
  next
    case no_channel: None
    then obtain qs where qs: "rt_participants t = Some qs" "resolveReachGroup dir may qs a s = (Inr r, s')"
      using assms(3) None by (cases "rt_participants t") (auto simp: resolveReachTarget_def)
    from reached_group [OF assms(1,2) qs(2)] qs(1) show ?thesis by (auto simp: groupDestination_def)
  qed
qed

end

subsection \<open>The memory directory keeps the contract\<close>

definition dir_clean :: "directory_store \<Rightarrow> bool" where
  "dir_clean st =
     (dir_ok st \<and> groups_comma_free st \<and> list_all (\<lambda>m. CHR '','' \<notin> set (dm_principalId m)) (dr_members st))"

definition knownPerson :: "directory_store \<Rightarrow> string \<Rightarrow> bool" where
  "knownPerson st p = list_ex (\<lambda>m. dm_principalId m = p \<and> dm_type m = Internal) (dr_members st)"

definition publicChannel :: "directory_store \<Rightarrow> string \<Rightarrow> bool" where
  "publicChannel st c = list_ex (\<lambda>x. ch_channelId x = c \<and> ch_isPrivate x \<noteq> Some True) (dr_channels st)"

lemma truthy_the: "truthy x \<Longrightarrow> the x \<noteq> []"
  by (cases x) auto

lemma upsertGroup_member:
  "g \<noteq> [] \<Longrightarrow> \<exists>x \<in> set ps. x \<noteq> [] \<Longrightarrow> groupMember (upsertGroup now g ps st) g p \<longleftrightarrow> p \<in> set ps \<and> p \<noteq> []"
  by (auto simp: upsertGroup_def groupMember_def roomHas_def Let_def filter_empty_conv)

interpretation memdir: reach_provider "reachDir pull now" dir_clean knownPerson publicChannel "\<lambda>p. CHR '','' \<notin> set p" for pull now
proof unfold_locales
  fix s q m p c ps g f
  show "dir_clean s \<Longrightarrow> rd_resolveRecipient (reachDir pull now) s q = PickOne m \<Longrightarrow> knownPerson s (dm_principalId m)"
    using resolved_member [of s q m] by (auto simp: reachDir_def dir_clean_def knownPerson_def list_ex_iff)
  show "dir_clean s \<Longrightarrow> knownPerson s p \<Longrightarrow> CHR '','' \<notin> set p \<and> p \<noteq> []"
    by (auto simp: dir_clean_def knownPerson_def list_ex_iff list_all_iff dir_ok_def)
  show "dir_clean s \<Longrightarrow> rd_resolveChannel (reachDir pull now) s q = PickOne c \<Longrightarrow> ch_isPrivate c \<noteq> Some True \<Longrightarrow>
    publicChannel s (ch_channelId c)"
    using pickMatch_One [of "dr_channels s" q ch_channelId ch_name c]
    by (auto simp: reachDir_def resolveChannel_def publicChannel_def list_ex_iff)
  show "dir_clean s \<Longrightarrow> \<forall>p \<in> set ps. CHR '','' \<notin> set p \<Longrightarrow> rd_resolveGroup (reachDir pull now) s ps = Some g \<Longrightarrow>
    rd_groupMember (reachDir pull now) s g p \<longleftrightarrow> p \<in> set ps \<and> p \<noteq> []"
    using resolved_group_is_exact [of s ps g p] by (simp add: reachDir_def dir_clean_def comma_free_def list_all_iff)
  show "rd_directoryMember (reachDir pull now) s p \<Longrightarrow> p \<noteq> []"
    by (auto simp: reachDir_def dir_get_def samePerson_def personKey_def Let_def js_trim_def find_Some_iff)
  show "rd_openGroup (reachDir pull now) = Some f \<Longrightarrow> f ps = Some (Opened g) \<Longrightarrow> g \<noteq> []"
    by (auto simp: reachDir_def openGroupViaSurface_def dest: truthy_the split: option.splits if_splits)
  show "rd_openGroup (reachDir pull now) \<noteq> None \<Longrightarrow> \<exists>register. rd_registerGroup (reachDir pull now) = Some register \<and>
    (\<forall>g ps p s. g \<noteq> [] \<and> (\<exists>x \<in> set ps. x \<noteq> []) \<longrightarrow>
       (rd_groupMember (reachDir pull now) (register g ps s) g p \<longleftrightarrow> p \<in> set ps \<and> p \<noteq> []))"
    by (simp add: reachDir_def upsertGroup_member)
qed

text \<open>
  C24. An agent never writes, on behalf of a person, where that person could not. A target that
  resolves is an internal person of the directory, a channel that is public or that the person is in,
  or a group the person is in once the call is over; and a group has exactly the people named and the
  person, at least two and at most eight, whether it was there or is opened for the call.
\<close>

theorem reach_stays_within_membership:
  assumes "dir_clean st" "CHR '','' \<notin> set authorityId"
    and "resolveReachTarget (reachDir pull now) target authorityId mayOpen st = (Inr r, st')"
  shows "addressable knownPerson publicChannel (reachDir pull now) st' authorityId (ro_destination r) \<and>
    (\<forall>g. ro_group r = Some g \<longrightarrow>
      (\<exists>ids. resolveNamed (dir_resolve st) (js_uniq (the (rt_participants target))) = Inr ids \<and>
         {p. groupMember st' g p} = insert authorityId (set ids) \<and> card {p. groupMember st' g p} \<in> {2..8}))"
proof
  show "addressable knownPerson publicChannel (reachDir pull now) st' authorityId (ro_destination r)"
    using memdir.resolved_is_addressable [OF assms] .
  show "\<forall>g. ro_group r = Some g \<longrightarrow>
      (\<exists>ids. resolveNamed (dir_resolve st) (js_uniq (the (rt_participants target))) = Inr ids \<and>
         {p. groupMember st' g p} = insert authorityId (set ids) \<and> card {p. groupMember st' g p} \<in> {2..8})"
    using memdir.resolved_group_people [OF assms] by (simp add: reachDir_def MAX_GROUP_DM_PARTICIPANTS_def)
qed

definition ex_people :: directory_store where
  "ex_people =
     snd (dir_replace
       [\<lparr>dm_principalId = ''U1'', dm_displayName = ''Ann'', dm_type = Internal, dm_slackId = None\<rparr>,
        \<lparr>dm_principalId = ''U2'', dm_displayName = ''Bob'', dm_type = Internal, dm_slackId = None\<rparr>] None createDirectoryStore)"

definition ex_pull :: "string list \<Rightarrow> surface_result option" where
  "ex_pull ps = Some \<lparr>sr_groupId = Some ''G7'', sr_note = None\<rparr>"

definition ex_with_bob :: reach_target where
  "ex_with_bob = \<lparr>rt_recipient = None, rt_channel = None, rt_participants = Some [''@bob'']\<rparr>"

lemma ex_people_clean: "dir_clean ex_people"
proof -
  have "dir_ok (dir_apply (DReplace ms None) createDirectoryStore)" for ms by (intro dir_ok_apply dir_ok_create)
  then have "dir_ok ex_people" by (simp add: ex_people_def)
  moreover have "groups_comma_free ex_people" by code_simp
  moreover have "list_all (\<lambda>m. CHR '','' \<notin> set (dm_principalId m)) (dr_members ex_people)" by code_simp
  ultimately show ?thesis by (simp add: dir_clean_def)
qed

lemma reach_stays_within_membership_witness:
  "{p. groupMember (snd (resolveReachTarget (reachDir ex_pull 5) ex_with_bob ''U1'' True ex_people)) ''G7'' p} = {''U1'', ''U2''}"
proof -
  let ?res = "resolveReachTarget (reachDir ex_pull 5) ex_with_bob ''U1'' True ex_people"
  have r: "fst ?res = Inr (groupDestination ''G7'')" by code_simp
  then have res: "?res = (Inr (groupDestination ''G7''), snd ?res)" by (metis prod.collapse)
  have "CHR '','' \<notin> set ''U1''" by simp
  note ex = reach_stays_within_membership [OF ex_people_clean this res]
  have "resolveNamed (dir_resolve ex_people) (js_uniq (the (rt_participants ex_with_bob))) = Inr [''U2'']" by code_simp
  with ex show ?thesis by (simp add: groupDestination_def)
qed

subsection \<open>A message passed on names its sender\<close>

lemma dir_get_openGroup: "resolveReachTarget (reachDir pull now) t a may st = (res, st') \<Longrightarrow> dir_get st' p = dir_get st p"
  by (auto simp: resolveReachTarget_def resolveReachGroup_def openReachGroup_def reachDir_def dir_get_def upsertGroup_def Let_def
      split: if_splits option.splits sum.splits bool.splits open_reply.splits)

lemma resolved_shape:
  assumes "resolveReachTarget dir t a may s = (Inr r, s')"
  shows "(\<exists>p n. ro_recipient r = Some (p, n) \<and> ro_destination r = principalDestination p a \<and> ro_group r = None) \<or>
    (ro_recipient r = None \<and> ro_group r = None \<and> d_type (ro_destination r) = ''slack'' \<and> d_rest (ro_destination r) = []) \<or>
    (\<exists>g. r = groupDestination g)"
  using assms
  by (auto simp: resolveReachTarget_def resolveReachRecipient_def resolveReachChannel_def resolveReachGroup_def openReachGroup_def Let_def
      split: if_splits option.splits sum.splits bool.splits open_reply.splits pick.splits)

text \<open>Whether a resolved target is somebody else.\<close>

definition relayed :: "string \<Rightarrow> reach_ok \<Rightarrow> bool" where
  "relayed senderId r = (case ro_recipient r of Some (p, n) \<Rightarrow> p \<noteq> senderId | None \<Rightarrow> ro_group r \<noteq> None)"

lemma withField_simps [simp]:
  "withSlackUnfurlOption d None = d" "withReact d None = d" "withDelete d None = d"
  "d_type (withField k v d) = d_type d" "d_target (withField k v d) = d_target d"
  "map_of (d_rest (withField k v d)) k' = (if k' = k \<and> v \<noteq> None then v else map_of (d_rest d) k')"
  by (auto simp: withField_def withSlackUnfurlOption_def withReact_def withDelete_def split: option.splits)

lemma relay_test:
  assumes "resolveReachTarget dir t a may s = (Inr r, s')" "reachThread inp (ro_destination r) = Inr d"
  shows "isThirdPartyRelay (withSlackUnfurlOption d u) (Some n) = relayed a r"
    and "map_of (d_rest (withSlackUnfurlOption d u)) ''react'' = None" "map_of (d_rest (withSlackUnfurlOption d u)) ''delete'' = None"
  using resolved_shape [OF assms(1)] assms(2)
  by (auto simp: isThirdPartyRelay_def relayed_def reachThread_def withThread_def withSlackUnfurlOption_def principalDestination_def
      groupDestination_def split: if_splits)

text \<open>
  A message that is passed on says so. A message that somebody sends to another person or to a
  group reads ``<name> asked me to pass on:'' before its text, with the sender's name in the
  directory, and goes out under the sender's identifier; one to the sender or to a channel is left
  as it is.
\<close>

theorem relay_is_attributed:
  assumes "reachNow pull key uuid now inp sys = (Inr (dv, r), sys')"
    and "existingFor (''reach:'' @ key) (rs_deliveries sys) = None"
    and "rn_react inp = None" "rn_delete inp = None"
    and "dir_get (rs_directory sys) (rn_senderId inp) = Some m" "js_trim (dm_displayName m) \<noteq> []"
  shows "\<exists>d. dv = Some d \<and> getDelivery uuid (rs_deliveries sys') = Some d \<and>
    dv_text d = (if relayed (rn_senderId inp) r then js_trim (dm_displayName m) @ '' asked me to pass on:'' @ [newline_char] else []) @
      (case rn_text inp of None \<Rightarrow> [] | Some t \<Rightarrow> t)"
proof -
  obtain dirs where res: "resolveReachTarget (reachDir pull now) (rn_target inp) (rn_senderId inp) True (rs_directory sys) = (Inr r, dirs)"
    using assms(1,3,4) by (auto simp: reachNow_def reachBase_def split: prod.splits sum.splits)
  obtain d where d: "reachThread inp (ro_destination r) = Inr d"
    using assms(1,3,4) res by (auto simp: reachNow_def reachBase_def split: prod.splits sum.splits)
  have name: "dir_get dirs (rn_senderId inp) = Some m" using dir_get_openGroup [OF res] assms(5) by simp
  have ne: "dm_displayName m \<noteq> []" using assms(6) by (auto simp: js_trim_def)
  define q where "q = reachInput key inp dirs d"
  have q: "rq_destination q = withSlackUnfurlOption d (rn_unfurlLinks inp)" "rq_attributeAs q = Some (dm_displayName m)"
    "rq_idempotencyKey q = ''reach:'' @ key" "rq_text q = (case rn_text inp of None \<Rightarrow> [] | Some t \<Rightarrow> t)"
    using assms(3,4) name ne by (simp_all add: q_def reachInput_def)
  have key: "di_idempotencyKey (reachDelivery q) = ''reach:'' @ key" using q(3) by (simp add: reachDelivery_def)
  have "di_text (reachDelivery q) = (if relayed (rn_senderId inp) r then attributeRelay (rq_text q) (rq_attributeAs q) else rq_text q)"
    using relay_test [OF res d] q(1,2) by (simp add: reachDelivery_def)
  then have t: "di_text (reachDelivery q) =
      (if relayed (rn_senderId inp) r then js_trim (dm_displayName m) @ '' asked me to pass on:'' @ [newline_char] else []) @
      (case rn_text inp of None \<Rightarrow> [] | Some t \<Rightarrow> t)"
    using q(2,4) assms(6) by (simp add: attributeRelay_def Let_def)
  have "dv = Some (newDelivery uuid now (reachDelivery q))"
      "getDelivery uuid (rs_deliveries sys') = Some (newDelivery uuid now (reachDelivery q))"
    using assms(1-4) res d key q_def
    by (auto simp: reachNow_def reachBase_def reachEnqueue_def delivery_enqueue_def Let_def getDelivery_def putDelivery_def newDelivery_def
        split: prod.splits)
  with t show ?thesis by (simp add: newDelivery_def)
qed

definition ex_note :: reach_now_input where
  "ex_note =
     \<lparr>rn_senderId = ''U1'', rn_senderScope = ''personal:U1'', rn_text = Some ''lunch?'',
      rn_target = \<lparr>rt_recipient = Some ''bob'', rt_channel = None, rt_participants = None\<rparr>, rn_threadTs = None,
      rn_unfurlLinks = None, rn_attachments = None, rn_react = None, rn_delete = None, rn_currentDestination = None\<rparr>"

definition ex_reach_sys :: reach_sys where
  "ex_reach_sys = \<lparr>rs_directory = ex_people, rs_deliveries = createDeliveryStore, rs_audit = []\<rparr>"

lemma relay_is_attributed_witness:
  "map_option dv_text (getDelivery ''d1'' (rs_deliveries (snd (reachNow ex_pull ''k1'' ''d1'' 9 ex_note ex_reach_sys)))) =
     Some (''Ann asked me to pass on:'' @ [newline_char] @ ''lunch?'')"
proof -
  let ?r = "\<lparr>ro_destination = principalDestination ''U2'' ''U1'', ro_recipient = Some (''U2'', ''Bob''), ro_channel = None, ro_group = None\<rparr>"
  have f: "map_sum id snd (fst (reachNow ex_pull ''k1'' ''d1'' 9 ex_note ex_reach_sys)) = Inr ?r" by code_simp
  then obtain dv where "fst (reachNow ex_pull ''k1'' ''d1'' 9 ex_note ex_reach_sys) = Inr (dv, ?r)"
    by (cases "fst (reachNow ex_pull ''k1'' ''d1'' 9 ex_note ex_reach_sys)") auto
  then have run: "reachNow ex_pull ''k1'' ''d1'' 9 ex_note ex_reach_sys =
      (Inr (dv, ?r), snd (reachNow ex_pull ''k1'' ''d1'' 9 ex_note ex_reach_sys))" by (metis prod.collapse)
  have "dir_get (rs_directory ex_reach_sys) (rn_senderId ex_note) =
      Some \<lparr>dm_principalId = ''U1'', dm_displayName = ''Ann'', dm_type = Internal, dm_slackId = None\<rparr>" by code_simp
  from relay_is_attributed [OF run _ _ _ this] show ?thesis
    by (auto simp: ex_reach_sys_def createDeliveryStore_def existingFor_def ex_note_def relayed_def js_trim_def is_space_def)
qed

end
