(* ===== verification/Identity.thy ===== *)
theory Identity
  imports Scopes DurableMap
begin

section \<open>Identity\<close>

text \<open>
  Models \<open>src/src/identity/identity-service.ts\<close>: who is internal. A person is internal unless deactivated, by an administrator or by
  a directory sync; the deactivations are kept in a memory map and in a durable map. \<open>Date.now()\<close> is an argument.
  \<open>store.put\<close> and \<open>store.delete\<close> are awaited after the memory map was changed, and \<open>refresh\<close> reads the whole durable map before it
  replaces the memory map: the writes under way and the read of a refresh are part of the state.
\<close>

datatype deactivation_source = ManualSource | DirectorySync

record deactivation =
  de_principalId :: string
  de_source :: deactivation_source
  de_at :: millis

text \<open>A write to the durable map that was issued and has not arrived.\<close>

datatype pending_write = PutRecord string deactivation | DeleteRecord string

record identity_service =
  id_store :: "deactivation durable_map"
  id_deactivated :: "(string, deactivation) jsmap"
  id_refreshedAt :: millis
  id_refresh :: "deactivation list option option"
  id_hydrated :: bool
  id_writes :: "pending_write list"

definition createIdentityService :: "deactivation durable_map \<Rightarrow> identity_service" where
  "createIdentityService backing =
     \<lparr>id_store = backing, id_deactivated = [], id_refreshedAt = 0, id_refresh = None, id_hydrated = False, id_writes = []\<rparr>"

definition REFRESH_TTL_MS :: int where
  "REFRESH_TTL_MS = 10000"

abbreviation key_of :: "string \<Rightarrow> string" where
  "key_of p \<equiv> personKey (Some p)"

definition isDeactivated :: "identity_service \<Rightarrow> string \<Rightarrow> bool" where
  "isDeactivated svc p = (jm_get (id_deactivated svc) (key_of p) \<noteq> None)"

definition classify :: "identity_service \<Rightarrow> string \<Rightarrow> bool \<Rightarrow> principal" where
  "classify svc externalId isExternalGuest =
     \<lparr>p_id = externalId, p_type = (if isDeactivated svc externalId \<or> isExternalGuest then Guest else Internal),
      p_teamIds = None, p_displayName = None\<rparr>"

record actor_assertion =
  aa_externalId :: string
  aa_isExternalGuest :: bool
  aa_teamIds :: "string list option"
  aa_displayName :: "string option"

definition resolveActor :: "identity_service \<Rightarrow> actor_assertion \<Rightarrow> principal" where
  "resolveActor svc actor =
     (classify svc (aa_externalId actor) (aa_isExternalGuest actor))
       \<lparr>p_teamIds := aa_teamIds actor,
        p_displayName := (if truthy (aa_displayName actor) then aa_displayName actor else None)\<rparr>"

definition isInternal :: "principal \<Rightarrow> bool" where
  "isInternal p = (p_type p = Internal)"

definition audienceIsAllInternal :: "principal list \<Rightarrow> bool" where
  "audienceIsAllInternal audience = (audience \<noteq> [] \<and> list_all isInternal audience)"

subsection \<open>Changing who is deactivated\<close>

definition deactivate :: "millis \<Rightarrow> string \<Rightarrow> deactivation_source \<Rightarrow> identity_service \<Rightarrow> identity_service" where
  "deactivate now externalId source svc =
     (let key = key_of externalId;
          rec = \<lparr>de_principalId = externalId, de_source = source, de_at = now\<rparr>;
          go = svc\<lparr>id_deactivated := jm_set key rec (id_deactivated svc), id_writes := id_writes svc @ [PutRecord key rec]\<rparr>
      in case jm_get (id_deactivated svc) key of
           Some existing \<Rightarrow> if de_source existing = ManualSource \<or> de_source existing = source then svc else go
         | None \<Rightarrow> go)"

definition reactivate :: "string \<Rightarrow> identity_service \<Rightarrow> identity_service" where
  "reactivate externalId svc =
     (let key = key_of externalId
      in svc\<lparr>id_deactivated := jm_delete key (id_deactivated svc), id_writes := id_writes svc @ [DeleteRecord key]\<rparr>)"

text \<open>The oldest write arrives.\<close>

fun arrive :: "pending_write \<Rightarrow> deactivation durable_map \<Rightarrow> deactivation durable_map" where
  "arrive (PutRecord key rec) m = dm_put key rec m"
| "arrive (DeleteRecord key) m = dm_delete key m"

definition writeArrives :: "identity_service \<Rightarrow> identity_service" where
  "writeArrives svc =
     (case id_writes svc of
        [] \<Rightarrow> svc
      | w # ws \<Rightarrow> svc\<lparr>id_store := arrive w (id_store svc), id_writes := ws\<rparr>)"

text \<open>The two loops of \<open>recordDirectorySync\<close>, one identifier at a time, as they run between their awaits.\<close>

definition syncRemoved :: "millis \<Rightarrow> string \<Rightarrow> identity_service \<Rightarrow> bool \<times> identity_service" where
  "syncRemoved now i svc =
     (if isDeactivated svc i then (False, svc) else (True, deactivate now i DirectorySync svc))"

definition syncPresent :: "string \<Rightarrow> identity_service \<Rightarrow> bool \<times> identity_service" where
  "syncPresent i svc =
     (if map_option de_source (jm_get (id_deactivated svc) (key_of i)) \<noteq> Some DirectorySync then (False, svc)
      else (True, reactivate i svc))"

fun syncLoop :: "(string \<Rightarrow> identity_service \<Rightarrow> bool \<times> identity_service) \<Rightarrow> string list \<Rightarrow> identity_service \<Rightarrow> string list \<times> identity_service" where
  "syncLoop f [] svc = ([], svc)"
| "syncLoop f (i # is) svc =
     (case f i svc of (hit, svc1) \<Rightarrow>
        (case syncLoop f is svc1 of (out, svc2) \<Rightarrow> (if hit then i # out else out, svc2)))"

definition recordDirectorySync ::
  "millis \<Rightarrow> string list \<Rightarrow> string list \<Rightarrow> identity_service \<Rightarrow> (string list \<times> string list) \<times> identity_service"
where
  "recordDirectorySync now removedIds presentIds svc =
     (case syncLoop (syncRemoved now) removedIds svc of (gone, svc1) \<Rightarrow>
        (case syncLoop syncPresent presentIds svc1 of (returned, svc2) \<Rightarrow> ((gone, returned), svc2)))"

subsection \<open>Reading the durable map\<close>

definition hydrate :: "identity_service \<Rightarrow> identity_service" where
  "hydrate svc =
     (if id_hydrated svc then svc
      else svc\<lparr>id_hydrated := True,
               id_deactivated :=
                 fold (\<lambda>r m. if jm_get m (key_of (de_principalId r)) = None then jm_set (key_of (de_principalId r)) r m else m)
                   (dm_all (id_store svc)) (id_deactivated svc)\<rparr>)"

text \<open>A refresh is started, the durable map is read, the memory map is replaced.\<close>

definition refreshStart :: "millis \<Rightarrow> identity_service \<Rightarrow> identity_service" where
  "refreshStart now svc =
     (if id_refresh svc \<noteq> None \<or> now - id_refreshedAt svc < REFRESH_TTL_MS then svc else svc\<lparr>id_refresh := Some None\<rparr>)"

definition refreshRead :: "identity_service \<Rightarrow> identity_service" where
  "refreshRead svc = (if id_refresh svc = Some None then svc\<lparr>id_refresh := Some (Some (dm_all (id_store svc)))\<rparr> else svc)"

definition memoryOf :: "deactivation list \<Rightarrow> (string, deactivation) jsmap" where
  "memoryOf records = fold (\<lambda>r. jm_set (key_of (de_principalId r)) r) records []"

definition refreshEnd :: "millis \<Rightarrow> identity_service \<Rightarrow> identity_service" where
  "refreshEnd now svc =
     (case id_refresh svc of
        Some (Some records) \<Rightarrow> svc\<lparr>id_deactivated := memoryOf records, id_refreshedAt := now, id_refresh := None\<rparr>
      | _ \<Rightarrow> svc)"

subsection \<open>Interleavings\<close>

datatype id_op =
    IDeactivate millis string deactivation_source
  | IReactivate string
  | ISyncRemoved millis string
  | ISyncPresent string
  | IArrive
  | IHydrate
  | IRefreshStart millis
  | IRefreshRead
  | IRefreshEnd millis

fun id_apply :: "id_op \<Rightarrow> identity_service \<Rightarrow> identity_service" where
  "id_apply (IDeactivate now i src) svc = deactivate now i src svc"
| "id_apply (IReactivate i) svc = reactivate i svc"
| "id_apply (ISyncRemoved now i) svc = snd (syncRemoved now i svc)"
| "id_apply (ISyncPresent i) svc = snd (syncPresent i svc)"
| "id_apply IArrive svc = writeArrives svc"
| "id_apply IHydrate svc = hydrate svc"
| "id_apply (IRefreshStart now) svc = refreshStart now svc"
| "id_apply IRefreshRead svc = refreshRead svc"
| "id_apply (IRefreshEnd now) svc = refreshEnd now svc"

text \<open>A record stands under the key of its person.\<close>

fun write_ok :: "pending_write \<Rightarrow> bool" where
  "write_ok (PutRecord key rec) = (key_of (de_principalId rec) = key)"
| "write_ok (DeleteRecord key) = True"

definition deactivations_ok :: "deactivation durable_map \<Rightarrow> bool" where
  "deactivations_ok m = (jm_ok m \<and> (\<forall>(k, r) \<in> set m. key_of (de_principalId r) = k))"

text \<open>A manual deactivation that no write under way takes back and no refresh under way has missed.\<close>

fun keeps_manual :: "string \<Rightarrow> pending_write \<Rightarrow> bool" where
  "keeps_manual k (PutRecord key rec) = (key = k \<longrightarrow> de_source rec = ManualSource)"
| "keeps_manual k (DeleteRecord key) = (key \<noteq> k)"

definition manual_at :: "string \<Rightarrow> (string, deactivation) jsmap \<Rightarrow> bool" where
  "manual_at k m = (map_option de_source (jm_get m k) = Some ManualSource)"

definition settled :: "string \<Rightarrow> identity_service \<Rightarrow> bool" where
  "settled k svc =
     (manual_at k (id_deactivated svc) \<and> manual_at k (id_store svc) \<and> deactivations_ok (id_store svc) \<and>
      list_all write_ok (id_writes svc) \<and> list_all (keeps_manual k) (id_writes svc) \<and>
      (case id_refresh svc of Some (Some records) \<Rightarrow> manual_at k (memoryOf records) | _ \<Rightarrow> True))"

lemma deactivations_ok_set: "deactivations_ok m \<Longrightarrow> key_of (de_principalId r) = k \<Longrightarrow> deactivations_ok (jm_set k r m)"
proof -
  assume ok: "deactivations_ok m" "key_of (de_principalId r) = k"
  have "set (jm_set k r m) \<subseteq> insert (k, r) (set m)" by (induction m) auto
  with ok show ?thesis unfolding deactivations_ok_def by fastforce
qed

lemma deactivations_ok_delete: "deactivations_ok m \<Longrightarrow> deactivations_ok (jm_delete k m)"
proof -
  assume ok: "deactivations_ok m"
  have "set (jm_delete k m) \<subseteq> set m" by (induction m) auto
  moreover have "jm_ok (jm_delete k m)" using ok by (auto simp: deactivations_ok_def)
  ultimately show ?thesis using ok unfolding deactivations_ok_def by blast
qed

lemma get_memory_fold:
  "\<forall>r \<in> set rs. key_of (de_principalId r) = k \<longrightarrow> r = e \<Longrightarrow>
   jm_get (fold (\<lambda>r. jm_set (key_of (de_principalId r)) r) rs m) k =
     (if \<exists>r \<in> set rs. key_of (de_principalId r) = k then Some e else jm_get m k)"
  by (induction rs arbitrary: m) auto

text \<open>What a refresh reads is what the durable map holds.\<close>

lemma memoryOf_all:
  assumes "deactivations_ok m"
  shows "jm_get (memoryOf (dm_all m)) k = jm_get m k"
proof -
  have all: "r \<in> set (dm_all m) \<longleftrightarrow> (\<exists>i. (i, r) \<in> set m)" for r by (force simp: set_dm_all)
  have ok: "jm_ok m" "\<And>i r. (i, r) \<in> set m \<Longrightarrow> key_of (de_principalId r) = i" using assms by (auto simp: deactivations_ok_def)
  show ?thesis
  proof (cases "jm_get m k")
    case None
    then have "\<not> (\<exists>r \<in> set (dm_all m). key_of (de_principalId r) = k)" using ok all by (force simp: map_of_eq_None_iff)
    then show ?thesis using get_memory_fold [of "dm_all m" k _ "[]"] None by (simp add: memoryOf_def)
  next
    case (Some r0)
    then have "(k, r0) \<in> set m" by (rule map_of_SomeD)
    then have "r0 \<in> set (dm_all m)" "key_of (de_principalId r0) = k" using all ok(2) by blast+
    moreover have "\<forall>r \<in> set (dm_all m). key_of (de_principalId r) = k \<longrightarrow> r = r0"
    proof (intro ballI impI)
      fix r assume "r \<in> set (dm_all m)" "key_of (de_principalId r) = k"
      then have "(k, r) \<in> set m" using all ok(2) by blast
      then have "jm_get m k = Some r" by (rule map_of_is_SomeI [OF ok(1)])
      with Some show "r = r0" by simp
    qed
    ultimately have "jm_get (memoryOf (dm_all m)) k = Some r0"
      unfolding memoryOf_def by (subst get_memory_fold [where e = r0]) (assumption, metis)
    with Some show ?thesis by simp
  qed
qed

lemma hydrate_keeps:
  "jm_get m k \<noteq> None \<Longrightarrow>
   jm_get (fold (\<lambda>r m. if jm_get m (key_of (de_principalId r)) = None then jm_set (key_of (de_principalId r)) r m else m) rs m) k
     = jm_get m k"
  by (induction rs arbitrary: m) auto

lemma settled_arrive: "settled k svc \<Longrightarrow> settled k (writeArrives svc)"
proof (cases "id_writes svc")
  case (Cons w ws)
  assume st: "settled k svc"
  then have w: "write_ok w" "keeps_manual k w" "deactivations_ok (id_store svc)" "manual_at k (id_store svc)"
    using Cons by (auto simp: settled_def)
  have "deactivations_ok (arrive w (id_store svc)) \<and> manual_at k (arrive w (id_store svc))"
    using w by (cases w) (auto simp: dm_put_def dm_delete_def manual_at_def intro: deactivations_ok_set deactivations_ok_delete)
  with st Cons show ?thesis by (simp add: settled_def writeArrives_def)
qed (simp add: writeArrives_def)

lemma settled_deactivate: "settled k svc \<Longrightarrow> settled k (deactivate now i src svc)"
  by (auto simp: settled_def deactivate_def Let_def manual_at_def split: option.splits)

lemma settled_reactivate: "settled k svc \<Longrightarrow> key_of i \<noteq> k \<Longrightarrow> settled k (reactivate i svc)"
  by (auto simp: settled_def reactivate_def Let_def manual_at_def)

lemma settled_apply:
  assumes "settled k svc" "\<forall>i. op = IReactivate i \<longrightarrow> key_of i \<noteq> k"
  shows "settled k (id_apply op svc)"
proof (cases op)
  case (ISyncPresent i)
  have m: "map_option de_source (jm_get (id_deactivated svc) k) = Some ManualSource"
    using assms(1) by (simp add: settled_def manual_at_def)
  show ?thesis
  proof (cases "map_option de_source (jm_get (id_deactivated svc) (key_of i)) = Some DirectorySync")
    case True
    with m have "key_of i \<noteq> k" by auto
    then show ?thesis using ISyncPresent True settled_reactivate [OF assms(1)] by (simp add: syncPresent_def)
  qed (use assms(1) ISyncPresent in \<open>simp add: syncPresent_def\<close>)
next
  case IHydrate
  then show ?thesis using assms(1) by (auto simp: settled_def hydrate_def manual_at_def hydrate_keeps)
next
  case IRefreshRead
  then show ?thesis using assms(1) by (auto simp: settled_def refreshRead_def manual_at_def memoryOf_all)
next
  case (IRefreshEnd now)
  then show ?thesis using assms(1) by (auto simp: settled_def refreshEnd_def split: option.splits)
next
  case (IRefreshStart now)
  then show ?thesis using assms(1) by (auto simp: settled_def refreshStart_def)
qed (use assms in \<open>simp_all add: syncRemoved_def settled_deactivate settled_reactivate settled_arrive\<close>)

text \<open>
  C25. A person deactivated by an administrator stays deactivated until an administrator takes it back.
  Once the deactivation is in memory and in the durable map and no refresh under way was read before
  it, no sequence of directory syncs, other deactivations and reactivations, writes arriving,
  hydration and refreshes makes the person internal again, other than a reactivation of that person.
\<close>

theorem manual_deactivation_outlasts_sync:
  assumes "settled (key_of p) svc" "\<forall>i. IReactivate i \<in> set ops \<longrightarrow> key_of i \<noteq> key_of p"
  shows "p_type (classify (fold id_apply ops svc) p guest) = Guest"
proof -
  have "settled (key_of p) (fold id_apply ops svc)"
    using assms
  proof (induction ops arbitrary: svc)
    case (Cons op ops)
    have "settled (key_of p) (id_apply op svc)" using Cons.prems by (intro settled_apply) auto
    then show ?case using Cons by simp
  qed simp
  then show ?thesis by (auto simp: classify_def isDeactivated_def settled_def manual_at_def)
qed

lemma manual_deactivation_outlasts_sync_witness:
  "p_type (classify (fold id_apply
       [IRefreshStart 20000, IRefreshRead, ISyncPresent ''ann@x.org'', IReactivate ''bob@x.org'', IRefreshEnd 20001, IArrive]
       (fold id_apply [IDeactivate 1 ''Ann@x.org'' ManualSource, IArrive] (createIdentityService createMemoryMap)))
     ''ann@X.org'' False) = Guest"
proof (rule manual_deactivation_outlasts_sync)
  let ?svc = "fold id_apply [IDeactivate 1 ''Ann@x.org'' ManualSource, IArrive] (createIdentityService createMemoryMap)"
  have "manual_at (key_of ''ann@X.org'') (id_deactivated ?svc)" "manual_at (key_of ''ann@X.org'') (id_store ?svc)"
    "id_writes ?svc = []" "id_refresh ?svc = None" by code_simp+
  moreover have "deactivations_ok (id_store ?svc)"
    by (simp add: deactivations_ok_def createIdentityService_def createMemoryMap_def deactivate_def writeArrives_def dm_put_def Let_def)
  ultimately show "settled (key_of ''ann@X.org'') ?svc" by (simp add: settled_def)
  have "key_of ''bob@x.org'' \<noteq> key_of ''ann@X.org''" by code_simp
  then show "\<forall>i. IReactivate i \<in> set [IRefreshStart 20000, IRefreshRead, ISyncPresent ''ann@x.org'', IReactivate ''bob@x.org'',
      IRefreshEnd 20001, IArrive] \<longrightarrow> key_of i \<noteq> key_of ''ann@X.org''" by simp
qed


end
