(* ===== verification/Projects.thy ===== *)
theory Projects
  imports Identity
begin

section \<open>Projects\<close>

text \<open>
  Models \<open>src/src/projects/project-store.ts\<close>: projects of the web surface, their rosters and the group reference under which the rest of the
  program sees a project. The lock of a project (\<open>createKeyedQueue\<close> and the advisory lock) makes its operations atomic; the
  effect a caller hands to a mutation runs inside the lock, after the change, and is not modelled. \<open>configOrgId()\<close>, the clock,
  \<open>randomUUID\<close> and \<open>isActiveMember\<close> are arguments.
\<close>

definition PROJECT_GROUP_PREFIX :: string where
  "PROJECT_GROUP_PREFIX = ''web-project-''"

record project =
  pj_id :: string
  pj_orgId :: string
  pj_name :: string
  pj_ownerId :: string
  pj_memberIds :: "string list"
  pj_createdAt :: millis
  pj_updatedAt :: millis

type_synonym project_store = "project durable_map"

datatype project_status = StOk | StNotFound | StForbidden | StInvalidMember | StInvalidName

datatype project_mutation = ProjectOk project bool | ProjectRefused project_status

definition projectGroupRef :: "string \<Rightarrow> string" where
  "projectGroupRef i = PROJECT_GROUP_PREFIX @ i"

definition projectScopeId :: "string \<Rightarrow> scope_id" where
  "projectScopeId i = scopeId Group (projectGroupRef i)"

definition isProjectGroupRef :: "string \<Rightarrow> bool" where
  "isProjectGroupRef ref = starts_with PROJECT_GROUP_PREFIX ref"

definition projectIdFromGroupRef :: "string \<Rightarrow> string option" where
  "projectIdFromGroupRef ref =
     (if \<not> isProjectGroupRef ref then None
      else let i = drop (length PROJECT_GROUP_PREFIX) ref in if i \<noteq> [] \<and> CHR '':'' \<notin> set i then Some i else None)"

definition cleanName :: "string \<Rightarrow> string" where
  "cleanName name = take 200 (collapseSpace False (js_trim name))"

subsection \<open>Operations\<close>

definition projectForGroup :: "string \<Rightarrow> string \<Rightarrow> project_store \<Rightarrow> project option" where
  "projectForGroup org groupRef st =
     (case projectIdFromGroupRef groupRef of
        None \<Rightarrow> None
      | Some i \<Rightarrow> (case dm_get st i of Some p \<Rightarrow> if pj_orgId p = org then Some p else None | None \<Rightarrow> None))"

text \<open>The function \<open>mutate\<close> hands to \<open>update\<close>: the outcome, whether the roster changed, and the row to write.\<close>

definition changeRoster ::
  "(string \<Rightarrow> bool) \<Rightarrow> millis \<Rightarrow> string \<Rightarrow> string \<Rightarrow> bool \<Rightarrow> project \<Rightarrow> (project_status \<times> bool) \<times> project"
where
  "changeRoster isActive now actorId memberId add p =
     (let canChangeRoster = (if add then list_ex (\<lambda>m. samePerson (Some m) (Some actorId)) (pj_memberIds p)
                             else samePerson (Some (pj_ownerId p)) (Some actorId)) in
      if \<not> canChangeRoster \<or> \<not> isActive (pj_ownerId p) \<or> \<not> isActive actorId then ((StForbidden, False), p)
      else if samePerson (Some memberId) (Some (pj_ownerId p)) then ((StInvalidMember, False), p)
      else let memberIds = (if add then js_uniq (pj_memberIds p @ [memberId])
                            else filter (\<lambda>m. m \<noteq> memberId) (pj_memberIds p)) in
        if memberIds = pj_memberIds p then ((StOk, False), p)
        else ((StOk, True), p\<lparr>pj_memberIds := memberIds, pj_updatedAt := max now (pj_updatedAt p + 1)\<rparr>))"

definition finishMutation :: "(project_status \<times> bool) \<Rightarrow> project option \<Rightarrow> project_mutation" where
  "finishMutation outcome updated =
     (case updated of
        None \<Rightarrow> ProjectRefused StNotFound
      | Some p \<Rightarrow> if fst outcome \<noteq> StOk then ProjectRefused (fst outcome) else ProjectOk p (snd outcome))"

definition mutateProject ::
  "(string \<Rightarrow> bool) \<Rightarrow> millis \<Rightarrow> string \<Rightarrow> string \<Rightarrow> string \<Rightarrow> bool \<Rightarrow> project_store \<Rightarrow> project_mutation \<times> project_store"
where
  "mutateProject isActive now i actorId memberId add st =
     (if memberId = [] then (ProjectRefused StInvalidMember, st)
      else let change = changeRoster isActive now actorId memberId add;
               outcome = (case dm_get st i of None \<Rightarrow> (StNotFound, False) | Some p \<Rightarrow> fst (change p))
           in case dm_update i (\<lambda>p. snd (change p)) st of (updated, st') \<Rightarrow> (finishMutation outcome updated, st'))"

definition addMember where "addMember isActive now i actorId memberId = mutateProject isActive now i actorId memberId True"

definition removeMember where "removeMember isActive now i actorId memberId = mutateProject isActive now i actorId memberId False"

datatype create_error = RequiresNameAndOwner | ProjectIdCollision

definition project_create ::
  "string \<Rightarrow> string \<Rightarrow> millis \<Rightarrow> string \<Rightarrow> string \<Rightarrow> project_store \<Rightarrow> (create_error + project) \<times> project_store"
where
  "project_create org uuid at name0 ownerId st =
     (let name = cleanName name0 in
      if name = [] \<or> ownerId = [] then (Inl RequiresNameAndOwner, st)
      else let p = \<lparr>pj_id = uuid, pj_orgId = org, pj_name = name, pj_ownerId = ownerId, pj_memberIds = [ownerId],
                    pj_createdAt = at, pj_updatedAt = at\<rparr>
           in case dm_putIfAbsent uuid p st of (stored, st') \<Rightarrow>
                (if pj_createdAt stored \<noteq> at \<or> pj_ownerId stored \<noteq> ownerId then Inl ProjectIdCollision else Inr stored, st'))"

definition project_get :: "string \<Rightarrow> project_store \<Rightarrow> project option" where
  "project_get i st = dm_get st i"

definition listForMember :: "string \<Rightarrow> (string \<Rightarrow> bool) \<Rightarrow> string \<Rightarrow> project_store \<Rightarrow> project list" where
  "listForMember org isActive principalId st =
     sort_key (\<lambda>p. - pj_updatedAt p)
       (filter (\<lambda>p. pj_orgId p = org \<and> isActive (pj_ownerId p) \<and> isActive principalId \<and> principalId \<in> set (pj_memberIds p))
          (dm_all st))"

definition renameRow :: "(string \<Rightarrow> bool) \<Rightarrow> string \<Rightarrow> string \<Rightarrow> project \<Rightarrow> (project_status \<times> bool) \<times> project" where
  "renameRow isActive ownerId clean p =
     (if pj_ownerId p \<noteq> ownerId \<or> \<not> isActive ownerId then ((StForbidden, False), p)
      else if pj_name p = clean then ((StOk, False), p)
      else ((StOk, True), p\<lparr>pj_name := clean\<rparr>))"

definition project_rename ::
  "(string \<Rightarrow> bool) \<Rightarrow> string \<Rightarrow> string \<Rightarrow> string \<Rightarrow> project_store \<Rightarrow> project_mutation \<times> project_store"
where
  "project_rename isActive i ownerId name st =
     (let clean = cleanName name in
      if clean = [] then (ProjectRefused StInvalidName, st)
      else let outcome = (case dm_get st i of None \<Rightarrow> (StNotFound, False) | Some p \<Rightarrow> fst (renameRow isActive ownerId clean p))
           in case dm_update i (\<lambda>p. snd (renameRow isActive ownerId clean p)) st of
                (updated, st') \<Rightarrow> (finishMutation outcome updated, st'))"

definition project_membership :: "string \<Rightarrow> (string \<Rightarrow> bool) \<Rightarrow> project_store \<Rightarrow> string \<Rightarrow> string \<Rightarrow> bool option" where
  "project_membership org isActive st groupRef principalId =
     map_option (\<lambda>p. isActive (pj_ownerId p) \<and> isActive principalId \<and> principalId \<in> set (pj_memberIds p))
       (projectForGroup org groupRef st)"

definition project_members :: "string \<Rightarrow> (string \<Rightarrow> bool) \<Rightarrow> project_store \<Rightarrow> string \<Rightarrow> string list option" where
  "project_members org isActive st groupRef =
     map_option (\<lambda>p. if isActive (pj_ownerId p) then filter isActive (pj_memberIds p) else []) (projectForGroup org groupRef st)"

definition project_version :: "string \<Rightarrow> project_store \<Rightarrow> string \<Rightarrow> string option" where
  "project_version org st groupRef = map_option (\<lambda>p. show_int (pj_updatedAt p)) (projectForGroup org groupRef st)"

text \<open>Whether \<open>withVersion\<close> runs the function it is given.\<close>

definition withVersion :: "string \<Rightarrow> project_store \<Rightarrow> string \<Rightarrow> string option \<Rightarrow> bool" where
  "withVersion org st groupRef version =
     (case projectIdFromGroupRef groupRef of
        None \<Rightarrow> False
      | Some i \<Rightarrow>
          (case dm_get st i of
             None \<Rightarrow> False
           | Some p \<Rightarrow> \<not> (pj_orgId p \<noteq> org \<or> Some (show_int (pj_updatedAt p)) \<noteq> version)))"

definition project_name :: "string \<Rightarrow> (string \<Rightarrow> bool) \<Rightarrow> project_store \<Rightarrow> string \<Rightarrow> string option" where
  "project_name org isActive st groupRef =
     (case projectForGroup org groupRef st of
        Some p \<Rightarrow> if isActive (pj_ownerId p) then Some (pj_name p) else None
      | None \<Rightarrow> None)"

text \<open>\<open>withRosterLock\<close>: the project its function is called with.\<close>

definition withRosterLock :: "string \<Rightarrow> project_store \<Rightarrow> project option" where
  "withRosterLock i st = dm_get st i"

subsection \<open>Histories\<close>

datatype project_op =
    POCreate string string millis string string
  | PORoster "string \<Rightarrow> bool" millis string string string bool
  | PORename "string \<Rightarrow> bool" string string string

fun project_apply :: "project_op \<Rightarrow> project_store \<Rightarrow> project_store" where
  "project_apply (POCreate org uuid at name owner) st = snd (project_create org uuid at name owner st)"
| "project_apply (PORoster isActive now i actor member add) st = snd (mutateProject isActive now i actor member add st)"
| "project_apply (PORename isActive i owner name) st = snd (project_rename isActive i owner name st)"

definition project_step :: "project_store \<Rightarrow> project_store \<Rightarrow> bool" where
  "project_step st st' = (\<exists>op. st' = project_apply op st)"

definition project_ok :: "project \<Rightarrow> bool" where
  "project_ok p =
     (pj_ownerId p \<in> set (pj_memberIds p) \<and> distinct (pj_memberIds p) \<and> [] \<notin> set (pj_memberIds p) \<and> pj_name p \<noteq> [])"

definition projects_ok :: "project_store \<Rightarrow> bool" where
  "projects_ok st = (jm_ok st \<and> (\<forall>i p. dm_get st i = Some p \<longrightarrow> project_ok p \<and> pj_id p = i))"

text \<open>
  What an operation may do to a project: its identity, organisation and owner stay, and the roster changes only together with
  the version.
\<close>

definition roster_le :: "project_store \<Rightarrow> project_store \<Rightarrow> bool" where
  "roster_le st st' =
     (\<forall>i p. dm_get st i = Some p \<longrightarrow>
        (\<exists>q. dm_get st' i = Some q \<and> pj_ownerId q = pj_ownerId p \<and> pj_orgId q = pj_orgId p \<and> pj_updatedAt p \<le> pj_updatedAt q \<and>
             (pj_updatedAt q = pj_updatedAt p \<longrightarrow> pj_memberIds q = pj_memberIds p)))"

subsection \<open>Proofs\<close>

lemma js_uniq_snoc: "distinct xs \<Longrightarrow> js_uniq (xs @ [x]) = (if x \<in> set xs then xs else xs @ [x])"
  by (simp add: js_uniq_def distinct_remdups_id)

text \<open>One row: what a change of the roster or of the name does to it.\<close>

lemma changeRoster_row:
  assumes "project_ok p" "member \<noteq> []"
  shows "project_ok (snd (changeRoster act now actor member add p)) \<and>
    pj_id (snd (changeRoster act now actor member add p)) = pj_id p \<and>
    pj_ownerId (snd (changeRoster act now actor member add p)) = pj_ownerId p \<and>
    pj_orgId (snd (changeRoster act now actor member add p)) = pj_orgId p \<and>
    pj_updatedAt p \<le> pj_updatedAt (snd (changeRoster act now actor member add p)) \<and>
    (pj_updatedAt (snd (changeRoster act now actor member add p)) = pj_updatedAt p \<longrightarrow>
       pj_memberIds (snd (changeRoster act now actor member add p)) = pj_memberIds p)"
proof (cases "member = pj_ownerId p")
  case True
  then have "js_uniq (pj_memberIds p @ [member]) = pj_memberIds p" using assms(1) by (simp add: js_uniq_snoc project_ok_def)
  with assms show ?thesis by (auto simp: changeRoster_def Let_def project_ok_def samePerson_def True)
next
  case False
  with assms show ?thesis by (auto simp: changeRoster_def Let_def project_ok_def)
qed

lemma renameRow_row:
  assumes "project_ok p" "clean \<noteq> []"
  shows "project_ok (snd (renameRow act owner clean p)) \<and> pj_id (snd (renameRow act owner clean p)) = pj_id p \<and>
    pj_ownerId (snd (renameRow act owner clean p)) = pj_ownerId p \<and> pj_orgId (snd (renameRow act owner clean p)) = pj_orgId p \<and>
    pj_updatedAt (snd (renameRow act owner clean p)) = pj_updatedAt p \<and>
    pj_memberIds (snd (renameRow act owner clean p)) = pj_memberIds p"
  using assms by (auto simp: renameRow_def project_ok_def)

lemma mutate_get:
  "member \<noteq> [] \<Longrightarrow> dm_get (snd (mutateProject act now i actor member add st)) j =
     (if j = i then map_option (\<lambda>p. snd (changeRoster act now actor member add p)) (dm_get st i) else dm_get st j)"
  by (simp add: mutateProject_def Let_def case_prod_unfold)

lemma rename_get:
  "cleanName name \<noteq> [] \<Longrightarrow> dm_get (snd (project_rename act i owner name st)) j =
     (if j = i then map_option (\<lambda>p. snd (renameRow act owner (cleanName name) p)) (dm_get st i) else dm_get st j)"
  by (simp add: project_rename_def Let_def case_prod_unfold)

lemma mutate_nobody [simp]: "mutateProject act now i actor [] add st = (ProjectRefused StInvalidMember, st)"
  by (simp add: mutateProject_def)

lemma rename_nothing: "cleanName name = [] \<Longrightarrow> project_rename act i owner name st = (ProjectRefused StInvalidName, st)"
  by (simp add: project_rename_def)

lemma jm_ok_update: "jm_ok st \<Longrightarrow> jm_ok (snd (dm_update i f st))"
  by (auto simp: dm_update_def split: option.splits)

lemma create_get:
  "dm_get st i = Some p \<Longrightarrow> dm_get (snd (project_create org uuid at name owner st)) i = Some p"
  by (auto simp: project_create_def Let_def dm_putIfAbsent_def dm_get_def split: option.splits)

lemma create_get_new:
  assumes "dm_get (snd (project_create org uuid at name owner st)) i = Some p" "dm_get st i = None"
  shows "project_ok p \<and> pj_id p = i"
  using assms
  by (auto simp: project_create_def Let_def dm_putIfAbsent_def dm_get_def project_ok_def split: option.splits if_splits)

lemma step_ok:
  assumes "projects_ok st"
  shows "projects_ok (project_apply op st)"
proof (cases op)
  case (POCreate org uuid at name owner)
  have "jm_ok (snd (project_create org uuid at name owner st))"
    using assms by (auto simp: project_create_def Let_def dm_putIfAbsent_def projects_ok_def split: option.splits)
  moreover have "project_ok p \<and> pj_id p = i" if "dm_get (snd (project_create org uuid at name owner st)) i = Some p" for i p
    using create_get [of st i] create_get_new [OF that] that assms by (cases "dm_get st i") (auto simp: projects_ok_def)
  ultimately show ?thesis by (simp add: projects_ok_def POCreate)
next
  case (PORoster act now i actor member add)
  have "jm_ok (snd (mutateProject act now i actor member add st))"
    using assms jm_ok_update by (auto simp: mutateProject_def Let_def case_prod_unfold projects_ok_def)
  then show ?thesis using assms PORoster changeRoster_row
    by (cases "member = []") (auto simp: projects_ok_def mutate_get)
next
  case (PORename act i owner name)
  have "jm_ok (snd (project_rename act i owner name st))"
    using assms jm_ok_update by (auto simp: project_rename_def Let_def case_prod_unfold projects_ok_def)
  then show ?thesis using assms PORename renameRow_row
    by (cases "cleanName name = []") (auto simp: projects_ok_def rename_get rename_nothing)
qed

lemma roster_le_refl: "roster_le st st"
  by (auto simp: roster_le_def)

lemma step_roster_le:
  assumes "projects_ok st"
  shows "roster_le st (project_apply op st)"
proof (cases op)
  case (POCreate org uuid at name owner)
  then show ?thesis using create_get by (auto simp: roster_le_def)
next
  case (PORoster act now i actor member add)
  show ?thesis
  proof (cases "member = []")
    case False
    then have "roster_le st (snd (mutateProject act now i actor member add st))"
      using assms changeRoster_row [OF _ False] unfolding roster_le_def projects_ok_def by (auto simp: mutate_get)
    then show ?thesis by (simp add: PORoster)
  qed (simp add: PORoster roster_le_refl)
next
  case (PORename act i owner name)
  show ?thesis
  proof (cases "cleanName name = []")
    case False
    then have "roster_le st (snd (project_rename act i owner name st))"
      using assms renameRow_row [OF _ False] unfolding roster_le_def projects_ok_def by (auto simp: rename_get)
    then show ?thesis by (simp add: PORename)
  qed (simp add: PORename roster_le_refl rename_nothing)
qed

lemma roster_le_trans:
  assumes "roster_le s t" "roster_le t u"
  shows "roster_le s u"
  unfolding roster_le_def
proof (intro allI impI)
  fix i p assume "dm_get s i = Some p"
  then obtain q where q: "dm_get t i = Some q" "pj_ownerId q = pj_ownerId p" "pj_orgId q = pj_orgId p" "pj_updatedAt p \<le> pj_updatedAt q"
      "pj_updatedAt q = pj_updatedAt p \<longrightarrow> pj_memberIds q = pj_memberIds p"
    using assms(1) unfolding roster_le_def by blast
  then obtain r where r: "dm_get u i = Some r" "pj_ownerId r = pj_ownerId q" "pj_orgId r = pj_orgId q" "pj_updatedAt q \<le> pj_updatedAt r"
      "pj_updatedAt r = pj_updatedAt q \<longrightarrow> pj_memberIds r = pj_memberIds q"
    using assms(2) unfolding roster_le_def by blast
  have "pj_updatedAt r = pj_updatedAt p \<longrightarrow> pj_memberIds r = pj_memberIds p" using q(4,5) r(4,5) by simp
  with q r show "\<exists>q. dm_get u i = Some q \<and> pj_ownerId q = pj_ownerId p \<and> pj_orgId q = pj_orgId p \<and> pj_updatedAt p \<le> pj_updatedAt q \<and>
      (pj_updatedAt q = pj_updatedAt p \<longrightarrow> pj_memberIds q = pj_memberIds p)" by (intro exI [of _ r]) simp
qed

interpretation prj: step_preorder project_step projects_ok roster_le
proof unfold_locales
  show "projects_ok s \<Longrightarrow> project_step s t \<Longrightarrow> projects_ok t" for s t by (auto simp: project_step_def step_ok)
  show "roster_le s s" for s by (rule roster_le_refl)
  show "roster_le s t \<Longrightarrow> roster_le t u \<Longrightarrow> roster_le s u" for s t u by (rule roster_le_trans)
  show "projects_ok s \<Longrightarrow> project_step s t \<Longrightarrow> roster_le s t" for s t by (auto simp: project_step_def step_roster_le)
qed

lemma show_int_inj: "show_int a = show_int b \<longleftrightarrow> a = b"
proof
  assume e: "show_int a = show_int b"
  have d: "CHR ''-'' \<notin> set (show_nat n)" for n by (rule show_nat_not_in) (simp add: digit_def)
  have "x < 0 \<longleftrightarrow> CHR ''-'' \<in> set (show_int x)" for x by (simp add: show_int_def d)
  with e have "a < 0 \<longleftrightarrow> b < 0" by simp
  with e show "a = b" by (auto simp: show_int_def split: if_splits)
qed simp

text \<open>
  A version pins the roster of a project. If a function guarded by \<open>withVersion\<close> runs with a
  version read at some earlier time, then the project has the members and the owner it had then,
  whatever members were added and removed, whatever was renamed or created in between and whatever
  the clock did.
\<close>

theorem project_version_pins_roster:
  assumes "projects_ok st" "project_step\<^sup>*\<^sup>* st st'"
    and "project_version org st groupRef = version" "withVersion org st' groupRef version"
  shows "\<exists>p q. projectForGroup org groupRef st = Some p \<and> projectForGroup org groupRef st' = Some q \<and>
    pj_memberIds q = pj_memberIds p \<and> pj_ownerId q = pj_ownerId p"
proof -
  have le: "roster_le st st'" using prj.steps_R [OF assms(2,1)] .
  obtain i q where i: "projectIdFromGroupRef groupRef = Some i" "dm_get st' i = Some q" "pj_orgId q = org"
      "version = Some (show_int (pj_updatedAt q))"
    using assms(4) by (auto simp: withVersion_def split: option.splits)
  then obtain p where p: "dm_get st i = Some p" "pj_orgId p = org" "show_int (pj_updatedAt p) = show_int (pj_updatedAt q)"
    using assms(3) by (auto simp: project_version_def projectForGroup_def split: option.splits if_splits)
  then have "pj_memberIds q = pj_memberIds p \<and> pj_ownerId q = pj_ownerId p"
    using le i(2) unfolding roster_le_def by (fastforce simp: show_int_inj)
  with i p show ?thesis by (auto simp: projectForGroup_def)
qed

definition ex_projects :: project_store where
  "ex_projects = snd (project_create ''o'' ''p1'' 10 '' New   launch'' ''U1'' createMemoryMap)"

lemma projects_ok_create: "projects_ok createMemoryMap"
  by (simp add: projects_ok_def createMemoryMap_def dm_get_def)

lemma project_version_pins_roster_witness:
  "map_option pj_memberIds (projectForGroup ''o'' ''web-project-p1'' (project_apply (PORename (\<lambda>_. True) ''p1'' ''U1'' ''Old launch'') ex_projects))
     = map_option pj_memberIds (projectForGroup ''o'' ''web-project-p1'' ex_projects)"
proof -
  let ?st' = "project_apply (PORename (\<lambda>_. True) ''p1'' ''U1'' ''Old launch'') ex_projects"
  have ok: "projects_ok ex_projects" using step_ok [OF projects_ok_create, of "POCreate ''o'' ''p1'' 10 '' New   launch'' ''U1''"]
    by (simp add: ex_projects_def)
  have "project_step ex_projects ?st'" unfolding project_step_def by blast
  then have run: "project_step\<^sup>*\<^sup>* ex_projects ?st'" by blast
  have "withVersion ''o'' ?st' ''web-project-p1'' (project_version ''o'' ex_projects ''web-project-p1'')" by code_simp
  from project_version_pins_roster [OF ok run refl this] show ?thesis by auto
qed

subsection \<open>Who may change a roster\<close>

text \<open>The person on whose behalf an operation changes the roster of a project.\<close>

fun rosterActor :: "string \<Rightarrow> project_op \<Rightarrow> string option" where
  "rosterActor i (PORoster act now j actor member add) = (if j = i then Some actor else None)"
| "rosterActor i _ = None"

definition is_owner :: "project \<Rightarrow> string \<Rightarrow> bool" where
  "is_owner p a = samePerson (Some (pj_ownerId p)) (Some a)"

definition is_member :: "project \<Rightarrow> string \<Rightarrow> bool" where
  "is_member p a = list_ex (\<lambda>m. samePerson (Some m) (Some a)) (pj_memberIds p)"

lemma owner_is_member: "project_ok p \<Longrightarrow> is_owner p a \<Longrightarrow> is_member p a"
  by (auto simp: is_owner_def is_member_def list_ex_iff project_ok_def)

lemma roster_step:
  assumes "projects_ok st" "dm_get st i = Some p"
  obtains q where "dm_get (project_apply op st) i = Some q" "pj_ownerId q = pj_ownerId p"
    "\<forall>a. rosterActor i op = Some a \<longrightarrow> \<not> is_owner p a \<Longrightarrow> set (pj_memberIds p) \<subseteq> set (pj_memberIds q)"
    "\<forall>a. rosterActor i op = Some a \<longrightarrow> \<not> is_member p a \<Longrightarrow> pj_memberIds q = pj_memberIds p"
proof -
  have "project_ok p" using assms by (simp add: projects_ok_def)
  show ?thesis
  proof (cases op)
    case (POCreate org uuid at name owner)
    then show ?thesis using that [of p] create_get [OF assms(2)] by simp
  next
    case (PORename act j owner name)
    show ?thesis
    proof (cases "cleanName name = [] \<or> j \<noteq> i")
      case True
      then have "dm_get (project_apply op st) i = Some p"
        using PORename assms(2) by (cases "cleanName name = []") (auto simp: rename_get rename_nothing)
      then show ?thesis using that by blast
    next
      case False
      then show ?thesis using that [of "snd (renameRow act owner (cleanName name) p)"] PORename assms(2)
        renameRow_row [OF \<open>project_ok p\<close>, of "cleanName name" act owner] by (simp add: rename_get)
    qed
  next
    case (PORoster act now j actor member add)
    show ?thesis
    proof (cases "member = [] \<or> j \<noteq> i")
      case True
      then have "dm_get (project_apply op st) i = Some p"
        using PORoster assms(2) by (cases "member = []") (auto simp: mutate_get)
      then show ?thesis using that by blast
    next
      case False
      let ?q = "snd (changeRoster act now actor member add p)"
      have g: "dm_get (project_apply op st) i = Some ?q" using False PORoster assms(2) by (simp add: mutate_get)
      have own: "pj_ownerId ?q = pj_ownerId p" using changeRoster_row [OF \<open>project_ok p\<close>] False by blast
      have keep: "\<not> is_owner p actor \<Longrightarrow> set (pj_memberIds p) \<subseteq> set (pj_memberIds ?q)"
        by (auto simp: changeRoster_def Let_def is_owner_def)
      have same: "\<not> is_member p actor \<Longrightarrow> pj_memberIds ?q = pj_memberIds p"
        using owner_is_member [OF \<open>project_ok p\<close>] by (auto simp: changeRoster_def Let_def is_owner_def is_member_def)
      show ?thesis using that [OF g own] keep same False PORoster by simp
    qed
  qed
qed

lemma roster_run:
  assumes "projects_ok st" "dm_get st i = Some p"
  shows "\<exists>q. dm_get (fold project_apply ops st) i = Some q \<and> pj_ownerId q = pj_ownerId p \<and>
    ((\<forall>op \<in> set ops. \<forall>a. rosterActor i op = Some a \<longrightarrow> \<not> is_owner p a) \<longrightarrow> set (pj_memberIds p) \<subseteq> set (pj_memberIds q)) \<and>
    ((\<forall>op \<in> set ops. \<forall>a. rosterActor i op = Some a \<longrightarrow> \<not> is_member p a) \<longrightarrow> pj_memberIds q = pj_memberIds p)"
  using assms
proof (induction ops arbitrary: st p)
  case (Cons op ops)
  obtain q where q: "dm_get (project_apply op st) i = Some q" "pj_ownerId q = pj_ownerId p"
    "\<forall>a. rosterActor i op = Some a \<longrightarrow> \<not> is_owner p a \<Longrightarrow> set (pj_memberIds p) \<subseteq> set (pj_memberIds q)"
    "\<forall>a. rosterActor i op = Some a \<longrightarrow> \<not> is_member p a \<Longrightarrow> pj_memberIds q = pj_memberIds p"
    using roster_step [OF Cons.prems] by blast
  have owner: "is_owner q a = is_owner p a" for a using q(2) by (simp add: is_owner_def)
  have member: "is_member q a = is_member p a" if "pj_memberIds q = pj_memberIds p" for a using that by (simp add: is_member_def)
  obtain r where r: "dm_get (fold project_apply ops (project_apply op st)) i = Some r" "pj_ownerId r = pj_ownerId q"
    "(\<forall>op \<in> set ops. \<forall>a. rosterActor i op = Some a \<longrightarrow> \<not> is_owner q a) \<longrightarrow> set (pj_memberIds q) \<subseteq> set (pj_memberIds r)"
    "(\<forall>op \<in> set ops. \<forall>a. rosterActor i op = Some a \<longrightarrow> \<not> is_member q a) \<longrightarrow> pj_memberIds r = pj_memberIds q"
    using Cons.IH [OF step_ok [OF Cons.prems(1)] q(1)] by blast
  have 1: "set (pj_memberIds p) \<subseteq> set (pj_memberIds r)" if "\<forall>o' \<in> set (op # ops). \<forall>a. rosterActor i o' = Some a \<longrightarrow> \<not> is_owner p a"
    using that q(3) r(3) owner by (meson list.set_intros order_trans)
  have 2: "pj_memberIds r = pj_memberIds p" if "\<forall>o' \<in> set (op # ops). \<forall>a. rosterActor i o' = Some a \<longrightarrow> \<not> is_member p a"
  proof -
    have "pj_memberIds q = pj_memberIds p" using q(4) that by simp
    with r(4) that member show ?thesis by simp
  qed
  show ?case using r(1,2) q(2) 1 2 by simp
qed simp

text \<open>
  C23. A roster changes only on behalf of those entitled to. Whatever is done to the projects, the owner
  of a project stays its owner; as long as the owner does not act on its roster nobody is removed from
  it, and as long as no member does it does not change at all.
\<close>

theorem roster_changes_are_authorised:
  assumes "projects_ok st" "dm_get st i = Some p"
  shows "\<exists>q. dm_get (fold project_apply ops st) i = Some q \<and> pj_ownerId q = pj_ownerId p \<and> pj_ownerId q \<in> set (pj_memberIds q) \<and>
    ((\<forall>op \<in> set ops. \<forall>a. rosterActor i op = Some a \<longrightarrow> \<not> is_owner p a) \<longrightarrow> set (pj_memberIds p) \<subseteq> set (pj_memberIds q)) \<and>
    ((\<forall>op \<in> set ops. \<forall>a. rosterActor i op = Some a \<longrightarrow> \<not> is_member p a) \<longrightarrow> pj_memberIds q = pj_memberIds p)"
proof -
  have "projects_ok (fold project_apply ops st)" using assms(1) by (induction ops arbitrary: st) (simp_all add: step_ok)
  then have "pj_ownerId q \<in> set (pj_memberIds q)" if "dm_get (fold project_apply ops st) i = Some q" for q
    using that unfolding projects_ok_def project_ok_def by blast
  then show ?thesis using roster_run [OF assms, of ops] by blast
qed

lemma roster_changes_are_authorised_witness:
  "map_option pj_memberIds (dm_get (fold project_apply
      [PORoster (\<lambda>_. True) 20 ''p1'' ''U9'' ''U8'' True, PORoster (\<lambda>_. True) 21 ''p1'' ''U9'' ''U1'' False] ex_projects) ''p1'') =
   Some [''U1'']"
proof -
  let ?ops = "[PORoster (\<lambda>_. True) 20 ''p1'' ''U9'' ''U8'' True, PORoster (\<lambda>_. True) 21 ''p1'' ''U9'' ''U1'' False]"
  have ok: "projects_ok ex_projects" using step_ok [OF projects_ok_create, of "POCreate ''o'' ''p1'' 10 '' New   launch'' ''U1''"]
    by (simp add: ex_projects_def)
  obtain p where p: "dm_get ex_projects ''p1'' = Some p" "pj_memberIds p = [''U1'']"
  proof -
    have "map_option pj_memberIds (dm_get ex_projects ''p1'') = Some [''U1'']" by code_simp
    then show ?thesis using that by auto
  qed
  have "\<not> samePerson (Some ''U1'') (Some ''U9'')" by code_simp
  then have "\<not> is_member p ''U9''" using p(2) by (simp add: is_member_def)
  then show ?thesis using roster_changes_are_authorised [OF ok p(1), of ?ops] p(2) by auto
qed

end
