(* ===== verification/Membership.thy ===== *)
theory Membership
  imports Projects Directory
begin

section \<open>Membership of scopes\<close>

text \<open>
  Models \<open>src/src/resolution/scope-membership.ts\<close>: who may read, write and manage a scope, and who its members are. The stores it consults
  are handed over as a record of functions (\<open>ScopeMembershipDeps\<close>); a promise that may be rejected is an option whose \<open>None\<close> is
  the rejection, and a method that may be missing is an option again. \<open>wiredDeps\<close> is the record \<open>src/src/wiring.ts\<close> builds.
\<close>

record managed_groups =
  mg_recognizes :: "string \<Rightarrow> bool"
  mg_membership :: "string \<Rightarrow> string \<Rightarrow> bool option option"
  mg_members :: "string \<Rightarrow> string list option option"

record membership_directory =
  md_channelMember :: "string \<Rightarrow> string \<Rightarrow> bool option"
  md_groupMember :: "string \<Rightarrow> string \<Rightarrow> bool option"
  md_channelMembership :: "(string \<Rightarrow> string \<Rightarrow> bool option option) option"
  md_groupMembership :: "(string \<Rightarrow> string \<Rightarrow> bool option option) option"
  md_channelPrivacy :: "(string \<Rightarrow> bool option option) option"
  md_list :: "(string \<times> string option) list option option"

record scope_deps =
  sd_managedGroups :: "managed_groups option"
  sd_directory :: "membership_directory option"
  sd_classify :: "(string \<Rightarrow> string option \<times> string list option) option"
  sd_sessions :: "(string \<Rightarrow> scope_id list option) option"

datatype shared_kind = SharedChannel | SharedGroup

definition activePrincipal :: "scope_deps \<Rightarrow> string \<Rightarrow> bool" where
  "activePrincipal deps p =
     (case Option.bind (sd_classify deps) (\<lambda>c. fst (c p)) of None \<Rightarrow> True | Some t \<Rightarrow> t = ''internal'')"

definition managedFor :: "scope_deps \<Rightarrow> shared_kind \<Rightarrow> string \<Rightarrow> managed_groups option" where
  "managedFor deps kind ref =
     (case sd_managedGroups deps of
        Some mg \<Rightarrow> if kind = SharedGroup \<and> mg_recognizes mg ref then Some mg else None
      | None \<Rightarrow> None)"

text \<open>\<open>await direct?.call(directory, ref, principalId).catch(() => false) === true\<close>\<close>

definition directMember :: "scope_deps \<Rightarrow> shared_kind \<Rightarrow> string \<Rightarrow> string \<Rightarrow> bool" where
  "directMember deps kind ref p =
     (case sd_directory deps of
        None \<Rightarrow> False
      | Some d \<Rightarrow> (if kind = SharedChannel then md_channelMember d ref p else md_groupMember d ref p) = Some True)"

text \<open>\<open>await directory?.channelPrivacy?.(ref).catch(() => undefined)\<close>\<close>

definition privacyOf :: "scope_deps \<Rightarrow> string \<Rightarrow> bool option" where
  "privacyOf deps ref =
     (case Option.bind (sd_directory deps) md_channelPrivacy of
        None \<Rightarrow> None
      | Some f \<Rightarrow> (case f ref of None \<Rightarrow> None | Some r \<Rightarrow> r))"

definition currentSharedScopeMember :: "scope_deps \<Rightarrow> shared_kind \<Rightarrow> string \<Rightarrow> string \<Rightarrow> bool" where
  "currentSharedScopeMember deps kind ref p =
     (if \<not> activePrincipal deps p then False
      else case managedFor deps kind ref of
             Some mg \<Rightarrow> mg_membership mg ref p = Some (Some True)
           | None \<Rightarrow> directMember deps kind ref p)"

definition sharedScopeMembership :: "scope_deps \<Rightarrow> shared_kind \<Rightarrow> string \<Rightarrow> string \<Rightarrow> bool option" where
  "sharedScopeMembership deps kind ref p =
     (if \<not> activePrincipal deps p then Some False
      else case managedFor deps kind ref of
             Some mg \<Rightarrow> Some (mg_membership mg ref p = Some (Some True))
           | None \<Rightarrow>
               (case Option.bind (sd_directory deps) (if kind = SharedChannel then md_channelMembership else md_groupMembership) of
                  Some triState \<Rightarrow> (case triState ref p of None \<Rightarrow> None | Some r \<Rightarrow> r)
                | None \<Rightarrow>
                    (if directMember deps kind ref p then Some True
                     else if kind = SharedChannel \<and> privacyOf deps ref \<noteq> None then Some False
                     else None)))"

definition memberOfSharedScope :: "scope_deps \<Rightarrow> shared_kind \<Rightarrow> string \<Rightarrow> string \<Rightarrow> scope_id \<Rightarrow> bool" where
  "memberOfSharedScope deps kind ref p fullScope =
     (case sharedScopeMembership deps kind ref p of
        Some current \<Rightarrow> current
      | None \<Rightarrow>
          (case sd_sessions deps of
             None \<Rightarrow> False
           | Some f \<Rightarrow> fullScope \<in> set (case f p of None \<Rightarrow> [] | Some ss \<Rightarrow> ss)))"

definition isCurrentSharedScopeMember :: "scope_deps \<Rightarrow> string \<Rightarrow> scope_id \<Rightarrow> bool" where
  "isCurrentSharedScopeMember deps p scope =
     (if p = [] then False
      else case parseScopeId scope of
             (Some Channel, ref) \<Rightarrow> currentSharedScopeMember deps SharedChannel ref p
           | (Some Group, ref) \<Rightarrow> currentSharedScopeMember deps SharedGroup ref p
           | _ \<Rightarrow> False)"

definition scopePrincipal :: "scope_deps \<Rightarrow> string \<Rightarrow> string option \<Rightarrow> principal option" where
  "scopePrincipal deps i displayName =
     (let classified = map_option (\<lambda>c. c i) (sd_classify deps);
          ty = Option.bind classified fst
      in if ty \<noteq> None \<and> ty \<noteq> Some ''internal'' then None
         else Some \<lparr>p_id = i, p_type = Internal, p_teamIds = Option.bind classified snd,
                    p_displayName = (if truthy displayName then displayName else None)\<rparr>)"

text \<open>\<open>Promise.all\<close> over answers that may be rejected.\<close>

fun all_or_none :: "'a option list \<Rightarrow> 'a list option" where
  "all_or_none [] = Some []"
| "all_or_none (None # xs) = None"
| "all_or_none (Some x # xs) = map_option (Cons x) (all_or_none xs)"

definition directoryMembers :: "scope_deps \<Rightarrow> membership_directory \<Rightarrow> shared_kind \<Rightarrow> string \<Rightarrow> principal list option option" where
  "directoryMembers deps d kind ref =
     (case md_list d of
        None \<Rightarrow> Some None
      | Some listing \<Rightarrow>
          (let privacy = (case (kind, md_channelPrivacy d) of
                            (SharedChannel, Some f) \<Rightarrow> f ref
                          | _ \<Rightarrow> Some None) in
           case privacy of
             None \<Rightarrow> None
           | Some isPrivate \<Rightarrow>
               (if kind = SharedChannel \<and> isPrivate \<noteq> Some True then Some None
                else case listing of
                  None \<Rightarrow> None
                | Some candidates \<Rightarrow>
                    map_option (\<lambda>ms. Some (map the (filter (\<lambda>m. m \<noteq> None) ms)))
                      (all_or_none (map (\<lambda>(i, name).
                         map_option (\<lambda>isMember. if isMember then scopePrincipal deps i name else None)
                           (if kind = SharedChannel then md_channelMember d ref i else md_groupMember d ref i)) candidates)))))"

text \<open>The outer \<open>None\<close>: the promise is rejected; the inner one: the members are not known.\<close>

definition currentScopeMembers :: "scope_deps \<Rightarrow> scope_id \<Rightarrow> principal list option option" where
  "currentScopeMembers deps scope =
     (case parseScopeId scope of
        (k, ref) \<Rightarrow>
          (if k \<noteq> Some Channel \<and> k \<noteq> Some Group then Some None
           else let kind = (if k = Some Channel then SharedChannel else SharedGroup) in
             case managedFor deps kind ref of
               Some mg \<Rightarrow>
                 map_option (\<lambda>ids. Some (map the (filter (\<lambda>m. m \<noteq> None)
                     (map (\<lambda>i. scopePrincipal deps i None) (case ids of None \<Rightarrow> [] | Some xs \<Rightarrow> xs)))))
                   (mg_members mg ref)
             | None \<Rightarrow>
                 (case sd_directory deps of None \<Rightarrow> Some None | Some d \<Rightarrow> directoryMembers deps d kind ref)))"

definition classifiedTeams :: "scope_deps \<Rightarrow> string \<Rightarrow> string list" where
  "classifiedTeams deps p = (case Option.bind (sd_classify deps) (\<lambda>c. snd (c p)) of None \<Rightarrow> [] | Some ts \<Rightarrow> ts)"

definition canReadScope :: "scope_deps \<Rightarrow> string \<Rightarrow> scope_id \<Rightarrow> bool" where
  "canReadScope deps p scope =
     (if p = [] then False
      else case parseScopeId scope of
             (Some Org, ref) \<Rightarrow> Option.bind (sd_classify deps) (\<lambda>c. fst (c p)) = Some ''internal''
           | (Some Personal, ref) \<Rightarrow> samePerson (Some ref) (Some p)
           | (Some Team, ref) \<Rightarrow> ref \<in> set (classifiedTeams deps p)
           | (Some Group, ref) \<Rightarrow> memberOfSharedScope deps SharedGroup ref p scope
           | (Some Channel, ref) \<Rightarrow>
               (if memberOfSharedScope deps SharedChannel ref p scope then True
                else if privacyOf deps ref = Some False then activePrincipal deps p
                else False)
           | (None, ref) \<Rightarrow> False)"

definition canWriteScope :: "scope_deps \<Rightarrow> string \<Rightarrow> scope_id \<Rightarrow> bool" where
  "canWriteScope deps p scope =
     (if p = [] \<or> \<not> activePrincipal deps p then False
      else case parseScopeId scope of
             (Some Org, ref) \<Rightarrow> True
           | (Some Personal, ref) \<Rightarrow> samePerson (Some ref) (Some p)
           | (Some Team, ref) \<Rightarrow> ref \<in> set (classifiedTeams deps p)
           | (Some Channel, ref) \<Rightarrow> currentSharedScopeMember deps SharedChannel ref p
           | (Some Group, ref) \<Rightarrow> currentSharedScopeMember deps SharedGroup ref p
           | (None, ref) \<Rightarrow> False)"

definition membershipControlsScope :: "scope_deps \<Rightarrow> scope_id \<Rightarrow> bool" where
  "membershipControlsScope deps scope =
     (case parseScopeId scope of
        (Some Group, ref) \<Rightarrow> True
      | (Some Channel, ref) \<Rightarrow> privacyOf deps ref = Some True
      | _ \<Rightarrow> False)"

definition canManageScope :: "scope_deps \<Rightarrow> string \<Rightarrow> scope_id \<Rightarrow> bool" where
  "canManageScope deps p scope =
     (if p = [] \<or> \<not> activePrincipal deps p then False
      else case parseScopeId scope of
             (Some Personal, ref) \<Rightarrow> samePerson (Some ref) (Some p)
           | (Some Group, ref) \<Rightarrow> currentSharedScopeMember deps SharedGroup ref p
           | (Some Channel, ref) \<Rightarrow>
               (if privacyOf deps ref \<noteq> Some True then False else currentSharedScopeMember deps SharedChannel ref p)
           | _ \<Rightarrow> False)"

definition managesArtifactHome ::
  "scope_deps \<Rightarrow> (string \<Rightarrow> scope_id \<Rightarrow> bool) \<Rightarrow> scope_id \<Rightarrow> string \<Rightarrow> string \<Rightarrow> bool"
where
  "managesArtifactHome deps canManage homeScopeId createdBy p =
     (if p = [] \<or> \<not> activePrincipal deps p then False
      else if canManage p homeScopeId then True
      else if \<not> samePerson (Some createdBy) (Some p) then False
      else case parseScopeId homeScopeId of
             (Some Personal, ref) \<Rightarrow> True
           | (Some Channel, ref) \<Rightarrow> privacyOf deps ref = Some False
           | _ \<Rightarrow> False)"

subsection \<open>The stores behind it\<close>

definition activeMember :: "identity_service \<Rightarrow> string \<Rightarrow> bool" where
  "activeMember svc p = isInternal (classify svc p False)"

definition projectGroups :: "string \<Rightarrow> identity_service \<Rightarrow> project_store \<Rightarrow> managed_groups" where
  "projectGroups org svc pst =
     \<lparr>mg_recognizes = isProjectGroupRef,
      mg_membership = (\<lambda>g p. Some (project_membership org (activeMember svc) pst g p)),
      mg_members = (\<lambda>g. Some (project_members org (activeMember svc) pst g))\<rparr>"

definition storeDirectory :: "directory_store \<Rightarrow> membership_directory" where
  "storeDirectory st =
     \<lparr>md_channelMember = (\<lambda>c p. Some (channelMember st c p)), md_groupMember = (\<lambda>g p. Some (groupMember st g p)),
      md_channelMembership = Some (\<lambda>c p. Some (channelMembership st c p)),
      md_groupMembership = Some (\<lambda>g p. Some (groupMembership st g p)),
      md_channelPrivacy = Some (\<lambda>c. Some (channelPrivacy st c)),
      md_list = Some (Some (map (\<lambda>m. (dm_principalId m, Some (dm_displayName m))) (dr_members st)))\<rparr>"

definition principalTypeName :: "principal_type \<Rightarrow> string" where
  "principalTypeName t = (case t of Internal \<Rightarrow> ''internal'' | Guest \<Rightarrow> ''guest'')"

definition wiredDeps ::
  "string \<Rightarrow> identity_service \<Rightarrow> project_store \<Rightarrow> directory_store \<Rightarrow> (string \<Rightarrow> scope_id list option) option \<Rightarrow> scope_deps"
where
  "wiredDeps org svc pst dst sessions =
     \<lparr>sd_managedGroups = Some (projectGroups org svc pst), sd_directory = Some (storeDirectory dst),
      sd_classify = Some (\<lambda>p. let c = classify svc p False in (Some (principalTypeName (p_type c)), p_teamIds c)),
      sd_sessions = sessions\<rparr>"

text \<open>The further checks of \<open>src/src/api/app-helpers.ts\<close>.\<close>

definition principalCanAccessCurrentScope :: "scope_deps \<Rightarrow> string \<Rightarrow> scope_id \<Rightarrow> bool" where
  "principalCanAccessCurrentScope deps p scope =
     (if canWriteScope deps p scope then True
      else case parseScopeId scope of
             (Some Channel, ref) \<Rightarrow>
               (if Option.bind (sd_classify deps) (\<lambda>c. fst (c p)) \<noteq> Some ''internal'' then False
                else if privacyOf deps ref \<noteq> Some False then False
                else canReadScope deps p scope)
           | _ \<Rightarrow> False)"

definition principalCanUseWriteGrant :: "scope_deps \<Rightarrow> string \<Rightarrow> scope_id \<Rightarrow> bool" where
  "principalCanUseWriteGrant deps p scope =
     (if (case parseScopeId scope of (Some Channel, ref) \<Rightarrow> privacyOf deps ref = Some False | _ \<Rightarrow> False)
      then principalCanAccessCurrentScope deps p scope else canWriteScope deps p scope)"

record capability_scope =
  cs_actorId :: string
  cs_scopeId :: scope_id
  cs_scopeVersion :: "string option"

definition authorizesCapabilityScope :: "scope_deps \<Rightarrow> string \<Rightarrow> project_store \<Rightarrow> capability_scope \<Rightarrow> bool" where
  "authorizesCapabilityScope deps org pst claims =
     (case parseScopeId (cs_scopeId claims) of
        (Some Group, ref) \<Rightarrow>
          (if \<not> isProjectGroupRef ref then True
           else canManageScope deps (cs_actorId claims) (cs_scopeId claims) \<and> cs_scopeVersion claims = project_version org pst ref)
      | _ \<Rightarrow> True)"

subsection \<open>A managed group decides alone\<close>

lemma in_present: "x \<in> set (map the (filter (\<lambda>m. m \<noteq> None) ys)) \<longleftrightarrow> Some x \<in> set ys"
  by (induction ys) auto

text \<open>
  The contract of a directory of managed groups: the list of members and the membership test agree, and only active people are
  members. From it alone, every access to a scope of such a group follows the membership.
\<close>

locale managed_directory =
  fixes recognizes :: "string \<Rightarrow> bool"
    and membership :: "string \<Rightarrow> string \<Rightarrow> bool option"
    and members :: "string \<Rightarrow> string list option"
    and active :: "string \<Rightarrow> bool"
  assumes members_membership: "(case members g of None \<Rightarrow> False | Some ms \<Rightarrow> p \<in> set ms) \<longleftrightarrow> membership g p = Some True"
    and membership_active: "membership g p = Some True \<Longrightarrow> active p"
begin

lemma managed_access:
  assumes mg: "sd_managedGroups deps = Some \<lparr>mg_recognizes = recognizes, mg_membership = (\<lambda>g p. Some (membership g p)),
      mg_members = (\<lambda>g. Some (members g))\<rparr>"
    and act: "\<And>p. activePrincipal deps p = active p" and g: "recognizes g" and p: "p \<noteq> []"
  shows "canReadScope deps p (scopeId Group g) \<longleftrightarrow> membership g p = Some True"
    "canWriteScope deps p (scopeId Group g) \<longleftrightarrow> membership g p = Some True"
    "canManageScope deps p (scopeId Group g) \<longleftrightarrow> membership g p = Some True"
    "isCurrentSharedScopeMember deps p (scopeId Group g) \<longleftrightarrow> membership g p = Some True"
proof -
  have m: "managedFor deps SharedGroup g = Some \<lparr>mg_recognizes = recognizes, mg_membership = (\<lambda>g p. Some (membership g p)),
      mg_members = (\<lambda>g. Some (members g))\<rparr>" using mg g by (simp add: managedFor_def)
  have c: "currentSharedScopeMember deps SharedGroup g p \<longleftrightarrow> membership g p = Some True"
    using membership_active by (auto simp: currentSharedScopeMember_def m act)
  have sh: "sharedScopeMembership deps SharedGroup g p = Some (membership g p = Some True)"
    using membership_active by (auto simp: sharedScopeMembership_def m act)
  show "canReadScope deps p (scopeId Group g) \<longleftrightarrow> membership g p = Some True"
    using p sh by (simp add: canReadScope_def memberOfSharedScope_def)
  show "canWriteScope deps p (scopeId Group g) \<longleftrightarrow> membership g p = Some True"
    using p c membership_active by (auto simp: canWriteScope_def act)
  show "canManageScope deps p (scopeId Group g) \<longleftrightarrow> membership g p = Some True"
    using p c membership_active by (auto simp: canManageScope_def act)
  show "isCurrentSharedScopeMember deps p (scopeId Group g) \<longleftrightarrow> membership g p = Some True"
    using p c by (simp add: isCurrentSharedScopeMember_def)
qed

lemma managed_members:
  assumes mg: "sd_managedGroups deps = Some \<lparr>mg_recognizes = recognizes, mg_membership = (\<lambda>g p. Some (membership g p)),
      mg_members = (\<lambda>g. Some (members g))\<rparr>"
    and act: "\<And>p. activePrincipal deps p = active p" and g: "recognizes g"
  shows "\<exists>ms. currentScopeMembers deps (scopeId Group g) = Some (Some ms) \<and>
    (\<forall>p. p \<in> p_id ` set ms \<longleftrightarrow> membership g p = Some True)"
proof -
  define ids where "ids = (case members g of None \<Rightarrow> [] | Some xs \<Rightarrow> xs)"
  have m: "managedFor deps SharedGroup g = Some \<lparr>mg_recognizes = recognizes, mg_membership = (\<lambda>g p. Some (membership g p)),
      mg_members = (\<lambda>g. Some (members g))\<rparr>" using mg g by (simp add: managedFor_def)
  have sp: "scopePrincipal deps i None \<noteq> None \<longleftrightarrow> active i" for i
    using act [of i] by (cases "sd_classify deps") (auto simp: scopePrincipal_def activePrincipal_def Let_def split: option.splits)
  have spi: "p_id (the (scopePrincipal deps i None)) = i" if "scopePrincipal deps i None \<noteq> None" for i
    using that by (auto simp: scopePrincipal_def Let_def)
  have in_ids: "p \<in> set ids \<longleftrightarrow> membership g p = Some True" for p
    using members_membership [where g = g and p = p] by (cases "members g") (simp_all add: ids_def)
  define ms where "ms = map the (filter (\<lambda>m. m \<noteq> None) (map (\<lambda>i. scopePrincipal deps i None) ids))"
  have "p \<in> p_id ` set ms \<longleftrightarrow> membership g p = Some True" for p
  proof -
    have "m \<in> set ms \<longleftrightarrow> (\<exists>i \<in> set ids. scopePrincipal deps i None = Some m)" for m
      unfolding ms_def in_present by (metis (no_types, lifting) image_iff set_map)
    then have "p \<in> p_id ` set ms \<longleftrightarrow> (\<exists>i \<in> set ids. \<exists>m. scopePrincipal deps i None = Some m \<and> p_id m = p)" by blast
    also have "\<dots> \<longleftrightarrow> p \<in> set ids \<and> active p" using sp spi by (metis option.sel option.distinct(1) not_None_eq)
    finally show ?thesis using in_ids membership_active by blast
  qed
  moreover have "currentScopeMembers deps (scopeId Group g) = Some (Some ms)"
    by (simp add: currentScopeMembers_def m ms_def ids_def)
  ultimately show ?thesis by blast
qed

end

interpretation pj: managed_directory isProjectGroupRef "project_membership org (activeMember svc) pst"
  "project_members org (activeMember svc) pst" "activeMember svc" for org svc pst
  by unfold_locales (auto simp: project_membership_def project_members_def split: option.splits)

lemma wired_active [simp]: "activePrincipal (wiredDeps org svc pst dst sessions) p = activeMember svc p"
  by (simp add: activePrincipal_def wiredDeps_def activeMember_def isInternal_def principalTypeName_def Let_def split: principal_type.splits)

lemma wired_managed:
  "sd_managedGroups (wiredDeps org svc pst dst sessions) =
     Some \<lparr>mg_recognizes = isProjectGroupRef, mg_membership = (\<lambda>g p. Some (project_membership org (activeMember svc) pst g p)),
           mg_members = (\<lambda>g. Some (project_members org (activeMember svc) pst g))\<rparr>"
  by (simp add: wiredDeps_def projectGroups_def)

lemma project_ref [simp]: "isProjectGroupRef (projectGroupRef i)"
  by (simp add: isProjectGroupRef_def projectGroupRef_def)

text \<open>
  The roster of a project decides who has access to it, and nothing else does. Reading, writing and
  managing the scope of a project, being a current member and being listed among the members all
  say the same: the person is on the roster, internal, and the owner of the project is internal too.
\<close>

theorem project_scope_follows_roster:
  assumes deps_def: "deps = wiredDeps org svc pst dst sessions" and "principalId \<noteq> []"
  shows "(canReadScope deps principalId (projectScopeId i) \<longleftrightarrow> project_membership org (activeMember svc) pst (projectGroupRef i) principalId = Some True) \<and>
    (canWriteScope deps principalId (projectScopeId i) \<longleftrightarrow> project_membership org (activeMember svc) pst (projectGroupRef i) principalId = Some True) \<and>
    (canManageScope deps principalId (projectScopeId i) \<longleftrightarrow> project_membership org (activeMember svc) pst (projectGroupRef i) principalId = Some True) \<and>
    (isCurrentSharedScopeMember deps principalId (projectScopeId i) \<longleftrightarrow> project_membership org (activeMember svc) pst (projectGroupRef i) principalId = Some True) \<and>
    (\<exists>ms. currentScopeMembers deps (projectScopeId i) = Some (Some ms) \<and>
       (principalId \<in> p_id ` set ms \<longleftrightarrow> project_membership org (activeMember svc) pst (projectGroupRef i) principalId = Some True))"
proof -
  have mg: "sd_managedGroups deps = Some \<lparr>mg_recognizes = isProjectGroupRef,
      mg_membership = (\<lambda>g p. Some (project_membership org (activeMember svc) pst g p)),
      mg_members = (\<lambda>g. Some (project_members org (activeMember svc) pst g))\<rparr>" by (simp add: deps_def wired_managed)
  have act: "activePrincipal deps p = activeMember svc p" for p by (simp add: deps_def)
  note access = pj.managed_access [OF mg act project_ref assms(2), of i, folded projectScopeId_def]
  obtain ms where ms: "currentScopeMembers deps (projectScopeId i) = Some (Some ms)"
      "\<forall>p. p \<in> p_id ` set ms \<longleftrightarrow> project_membership org (activeMember svc) pst (projectGroupRef i) p = Some True"
    using pj.managed_members [OF mg act project_ref, of i, folded projectScopeId_def] by blast
  show ?thesis by (intro conjI access exI [of _ ms] ms(1) ms(2) [rule_format])
qed

definition ex_identity :: identity_service where
  "ex_identity = deactivate 3 ''U3'' ManualSource (createIdentityService createMemoryMap)"

definition ex_roster :: project_store where
  "ex_roster = fold project_apply
     [POCreate ''o'' ''p1'' 10 ''Launch'' ''U1'', PORoster (\<lambda>_. True) 11 ''p1'' ''U1'' ''U2'' True, PORoster (\<lambda>_. True) 12 ''p1'' ''U2'' ''U3'' True]
     createMemoryMap"

lemma project_scope_follows_roster_witness:
  "canWriteScope (wiredDeps ''o'' ex_identity ex_roster createDirectoryStore None) ''U2'' (projectScopeId ''p1'') \<and>
   canReadScope (wiredDeps ''o'' ex_identity ex_roster createDirectoryStore None) ''U3'' (projectScopeId ''p1'') = False"
proof -
  have "project_membership ''o'' (activeMember ex_identity) ex_roster (projectGroupRef ''p1'') ''U2'' = Some True"
    "project_membership ''o'' (activeMember ex_identity) ex_roster (projectGroupRef ''p1'') ''U3'' = Some False" by code_simp+
  then show ?thesis
    using project_scope_follows_roster [OF refl, of "''U2''" "''o''" ex_identity ex_roster createDirectoryStore None "''p1''"]
      project_scope_follows_roster [OF refl, of "''U3''" "''o''" ex_identity ex_roster createDirectoryStore None "''p1''"] by simp
qed

subsection \<open>A person who was deactivated\<close>

lemma scopePrincipal_active: "scopePrincipal deps i name = Some m \<Longrightarrow> activePrincipal deps i \<and> p_id m = i"
  by (cases "sd_classify deps") (auto simp: scopePrincipal_def activePrincipal_def Let_def split: if_splits option.splits)

lemma all_or_none_Some: "all_or_none xs = Some ys \<Longrightarrow> xs = map Some ys"
  by (induction xs arbitrary: ys rule: all_or_none.induct) auto

text \<open>Whoever is listed among the members of a scope is active.\<close>

lemma listed_directory_active:
  assumes "directoryMembers deps d kind ref = Some (Some ms)" "m \<in> set ms"
  shows "activePrincipal deps (p_id m)"
proof -
  let ?one = "\<lambda>(i, name). map_option (\<lambda>isMember. if isMember then scopePrincipal deps i name else None)
    (if kind = SharedChannel then md_channelMember d ref i else md_groupMember d ref i)"
  obtain candidates ys where ys: "all_or_none (map ?one candidates) = Some ys" "ms = map the (filter (\<lambda>m. m \<noteq> None) ys)"
    using assms(1) by (auto simp: directoryMembers_def Let_def split: option.splits if_splits)
  then have "Some m \<in> set ys" using assms(2) in_present by metis
  then have "Some (Some m) \<in> set (map Some ys)" by simp
  then have "Some (Some m) \<in> ?one ` set candidates" by (simp only: all_or_none_Some [OF ys(1), symmetric] set_map)
  then obtain c where c: "Some (Some m) = ?one c" by (rule imageE)
  obtain i name where "c = (i, name)" by (cases c)
  with c have "?one (i, name) = Some (Some m)" by (simp only: eq_commute)
  then have "scopePrincipal deps i name = Some m" by (auto split: if_splits)
  then show ?thesis using scopePrincipal_active by blast
qed

lemma listed_members_active:
  assumes "currentScopeMembers deps scope = Some (Some ms)" "p \<in> p_id ` set ms"
  shows "activePrincipal deps p"
proof -
  obtain m where m: "m \<in> set ms" "p = p_id m" using assms(2) by auto
  obtain k ref where k: "parseScopeId scope = (k, ref)" by fastforce
  define kind where "kind = (if k = Some Channel then SharedChannel else SharedGroup)"
  show ?thesis
  proof (cases "managedFor deps kind ref")
    case (Some mg)
    then obtain ids where "ms = map the (filter (\<lambda>m. m \<noteq> None) (map (\<lambda>i. scopePrincipal deps i None) ids))"
      using assms(1) k by (auto simp: currentScopeMembers_def kind_def Let_def split: if_splits)
    then have "Some m \<in> (\<lambda>i. scopePrincipal deps i None) ` set ids" using m(1) in_present by (metis set_map)
    then have "\<exists>i. scopePrincipal deps i None = Some m" by (metis imageE)
    then show ?thesis using scopePrincipal_active m(2) by blast
  next
    case None
    then obtain d where "directoryMembers deps d kind ref = Some (Some ms)"
      using assms(1) k by (auto simp: currentScopeMembers_def kind_def Let_def split: if_splits option.splits)
    then show ?thesis using listed_directory_active m by blast
  qed
qed

text \<open>
  C21. Deactivating a person takes every shared access away at once. The person can neither write nor
  manage any scope, is a current member of no channel, group or project and is listed among the
  members of none, may not use a write grant, and can read no scope but the personal one.
\<close>

theorem deactivated_person_loses_access:
  assumes deps_def: "deps = wiredDeps org svc pst dst sessions" and gone: "p_type (classify svc principalId False) = Guest"
  shows "\<not> canWriteScope deps principalId scope \<and> \<not> canManageScope deps principalId scope \<and>
    \<not> isCurrentSharedScopeMember deps principalId scope \<and> \<not> principalCanUseWriteGrant deps principalId scope \<and>
    (\<forall>ms. currentScopeMembers deps scope = Some (Some ms) \<longrightarrow> principalId \<notin> p_id ` set ms) \<and>
    (canReadScope deps principalId scope \<longrightarrow> (\<exists>ref. scope = scopeId Personal ref \<and> samePerson (Some ref) (Some principalId)))"
proof (intro conjI)
  have act: "\<not> activePrincipal deps principalId" using gone by (simp add: deps_def activeMember_def isInternal_def)
  have guest: "Option.bind (sd_classify deps) (\<lambda>c. fst (c principalId)) = Some ''guest''"
    using gone by (simp add: deps_def wiredDeps_def principalTypeName_def Let_def)
  show w: "\<not> canWriteScope deps principalId scope" using act by (simp add: canWriteScope_def)
  show "\<not> canManageScope deps principalId scope" using act by (simp add: canManageScope_def)
  show "\<not> isCurrentSharedScopeMember deps principalId scope" using act
    by (auto simp: isCurrentSharedScopeMember_def currentSharedScopeMember_def split: prod.splits option.splits scope_kind.splits)
  show "\<not> principalCanUseWriteGrant deps principalId scope" using w guest
    by (auto simp: principalCanUseWriteGrant_def principalCanAccessCurrentScope_def split: prod.splits option.splits scope_kind.splits)
  show "\<forall>ms. currentScopeMembers deps scope = Some (Some ms) \<longrightarrow> principalId \<notin> p_id ` set ms"
    using listed_members_active [of deps scope] act by blast
  have sh: "sharedScopeMembership deps k ref principalId = Some False" for k ref using act by (simp add: sharedScopeMembership_def)
  have team: "classifiedTeams deps principalId = []"
    by (simp add: classifiedTeams_def deps_def wiredDeps_def classify_def Let_def)
  show "canReadScope deps principalId scope \<longrightarrow> (\<exists>ref. scope = scopeId Personal ref \<and> samePerson (Some ref) (Some principalId))"
    using act guest sh team
    by (auto simp: canReadScope_def memberOfSharedScope_def parseScopeId_Some split: prod.splits option.splits scope_kind.splits if_splits)
qed

lemma deactivated_person_loses_access_witness:
  "canReadScope (wiredDeps ''o'' ex_identity ex_roster createDirectoryStore None) ''U3'' ''org:o'' = False \<and>
   canWriteScope (wiredDeps ''o'' ex_identity ex_roster createDirectoryStore None) ''U3'' ''personal:U3'' = False"
proof -
  have "p_type (classify ex_identity ''U3'' False) = Guest" by code_simp
  note gone = deactivated_person_loses_access [OF refl this]
  have "''org:o'' \<noteq> scopeId Personal ref" for ref by (simp add: scopeId_def)
  with gone [of "''o''" ex_roster createDirectoryStore None "''org:o''"]
    gone [of "''o''" ex_roster createDirectoryStore None "''personal:U3''"] show ?thesis by metis
qed

text \<open>
  The check of \<open>src/src/wiring.ts\<close> for who manages an artifact is built without the identity service:
  there a deactivated author keeps managing what is at home in the own personal scope.
\<close>

lemma deactivated_author_still_manages:
  "managesArtifactHome ((wiredDeps ''o'' ex_identity ex_roster createDirectoryStore None)\<lparr>sd_classify := None, sd_sessions := None\<rparr>)
     (canManageScope (wiredDeps ''o'' ex_identity ex_roster createDirectoryStore None)) ''personal:U3'' ''U3'' ''U3'' \<and>
   \<not> managesArtifactHome (wiredDeps ''o'' ex_identity ex_roster createDirectoryStore None)
     (canManageScope (wiredDeps ''o'' ex_identity ex_roster createDirectoryStore None)) ''personal:U3'' ''U3'' ''U3''"
  by code_simp

subsection \<open>Managing implies writing implies reading\<close>

definition channels_listed :: "directory_store \<Rightarrow> bool" where
  "channels_listed dst =
     (case dr_channelMembers dst of None \<Rightarrow> True | Some m \<Rightarrow> list_all (\<lambda>(c, ps). ps = [] \<or> findChannel dst c \<noteq> None) m)"

lemma channel_member_listed: "channels_listed dst \<Longrightarrow> channelMember dst c p \<Longrightarrow> channelMembership dst c p = Some True"
proof -
  assume l: "channels_listed dst" and "channelMember dst c p"
  then obtain m ps where m: "dr_channelMembers dst = Some m" "jm_get m c = Some ps" "p \<in> set ps"
    unfolding channelMember_def roomHas_iff by blast
  then have "findChannel dst c \<noteq> None" using l map_of_SomeD [OF m(2)] by (auto simp: channels_listed_def list_all_iff)
  then show ?thesis using m by (auto simp: channelMembership_def roomHas_def jm_list_def)
qed

lemma group_member_synced: "dr_groupsSynced dst \<Longrightarrow> groupMember dst g p \<Longrightarrow> groupMembership dst g p = Some True"
  unfolding groupMember_def groupMembership_def by (cases "dr_groupMembers dst") (auto simp: roomHas_def)

lemma wired_shared_member:
  assumes "dr_groupsSynced dst" "channels_listed dst" "currentSharedScopeMember (wiredDeps org svc pst dst sessions) k ref p"
  shows "sharedScopeMembership (wiredDeps org svc pst dst sessions) k ref p = Some True"
proof -
  let ?d = "wiredDeps org svc pst dst sessions"
  have act: "activePrincipal ?d p" using assms(3) by (auto simp: currentSharedScopeMember_def split: if_splits)
  show ?thesis
  proof (cases "managedFor ?d k ref")
    case (Some mg)
    with assms(3) act show ?thesis by (simp add: currentSharedScopeMember_def sharedScopeMembership_def)
  next
    case None
    then have m: "if k = SharedChannel then channelMember dst ref p else groupMember dst ref p"
      using assms(3) act by (simp add: currentSharedScopeMember_def directMember_def wiredDeps_def storeDirectory_def split: if_splits)
    then have "(if k = SharedChannel then channelMembership dst ref p else groupMembership dst ref p) = Some True"
      using channel_member_listed [OF assms(2)] group_member_synced [OF assms(1)] by (simp split: if_splits)
    with None act show ?thesis by (simp add: sharedScopeMembership_def wiredDeps_def storeDirectory_def split: if_splits)
  qed
qed

text \<open>
  Rights are nested. Once the groups were synced and every channel with members is listed, whoever
  may manage a scope may write it, and whoever may write it may read it.
\<close>

theorem rights_are_nested:
  assumes deps_def: "deps = wiredDeps org svc pst dst sessions" and "dr_groupsSynced dst" "channels_listed dst"
  shows "(canManageScope deps principalId scope \<longrightarrow> canWriteScope deps principalId scope) \<and>
    (canWriteScope deps principalId scope \<longrightarrow> canReadScope deps principalId scope)"
proof
  show "canManageScope deps principalId scope \<longrightarrow> canWriteScope deps principalId scope"
    by (auto simp: canManageScope_def canWriteScope_def split: prod.splits option.splits scope_kind.splits if_splits)
  have shared: "memberOfSharedScope deps k ref principalId scope" if "currentSharedScopeMember deps k ref principalId" for k ref
    using wired_shared_member [OF assms(2,3)] that by (simp add: deps_def memberOfSharedScope_def)
  have org: "Option.bind (sd_classify deps) (\<lambda>c. fst (c principalId)) = Some ''internal''" if "activePrincipal deps principalId"
    using that by (auto simp: deps_def activePrincipal_def wiredDeps_def Let_def)
  show "canWriteScope deps principalId scope \<longrightarrow> canReadScope deps principalId scope"
    using shared org by (auto simp: canWriteScope_def canReadScope_def split: prod.splits option.splits scope_kind.splits if_splits)
qed

definition ex_synced :: directory_store where
  "ex_synced = snd (replaceGroups [(''G1'', ''U1''), (''G1'', ''U2'')] (Some 5) createDirectoryStore)"

lemma rights_are_nested_witness:
  "canManageScope (wiredDeps ''o'' ex_identity ex_roster ex_synced None) ''U1'' ''group:G1'' \<and>
   canReadScope (wiredDeps ''o'' ex_identity ex_roster ex_synced None) ''U1'' ''group:G1''"
proof -
  have "dr_groupsSynced ex_synced" "channels_listed ex_synced" by code_simp+
  note nested = rights_are_nested [OF refl this]
  have "canManageScope (wiredDeps ''o'' ex_identity ex_roster ex_synced None) ''U1'' ''group:G1''" by code_simp
  with nested show ?thesis by blast
qed

text \<open>A group that was opened before the first sync of the groups is managed by its members, who cannot read it.\<close>

lemma opened_group_is_managed_but_unreadable:
  "let deps = wiredDeps ''o'' ex_identity ex_roster (upsertGroup 5 ''G1'' [''U1'', ''U2''] createDirectoryStore) None
   in canManageScope deps ''U1'' ''group:G1'' \<and> \<not> canReadScope deps ''U1'' ''group:G1''"
  by code_simp

subsection \<open>A capability for a project\<close>

lemma authorized_version:
  assumes "authorizesCapabilityScope deps org pst claims" "cs_scopeId claims = projectScopeId i"
  shows "canManageScope deps (cs_actorId claims) (cs_scopeId claims) \<and> cs_scopeVersion claims = project_version org pst (projectGroupRef i)"
  using assms by (simp add: authorizesCapabilityScope_def projectScopeId_def)

text \<open>
  C22. A capability for a project dies with the roster it was issued for. A capability that carries
  the version its project had is honoured later only if its holder is still a member, internal, and
  the project has exactly the members it had.
\<close>

theorem capability_dies_with_roster_change:
  assumes "projects_ok pst" "project_step\<^sup>*\<^sup>* pst pst'"
    and "cs_scopeId claims = projectScopeId i" "cs_scopeVersion claims = project_version org pst (projectGroupRef i)"
    and "projectForGroup org (projectGroupRef i) pst = Some p"
    and "authorizesCapabilityScope (wiredDeps org svc pst' dst sessions) org pst' claims"
  shows "\<exists>q. projectForGroup org (projectGroupRef i) pst' = Some q \<and> pj_memberIds q = pj_memberIds p \<and>
    cs_actorId claims \<in> set (pj_memberIds p) \<and> p_type (classify svc (cs_actorId claims) False) = Internal"
proof -
  have a: "canManageScope (wiredDeps org svc pst' dst sessions) (cs_actorId claims) (projectScopeId i)"
    "project_version org pst (projectGroupRef i) = project_version org pst' (projectGroupRef i)"
    using authorized_version [OF assms(6,3)] assms(3,4) by simp_all
  obtain i' where i': "projectIdFromGroupRef (projectGroupRef i) = Some i'" "dm_get pst i' = Some p"
    using assms(5) by (auto simp: projectForGroup_def split: option.splits if_splits)
  obtain q where q: "dm_get pst' i' = Some q" "pj_ownerId q = pj_ownerId p" "pj_orgId q = pj_orgId p"
      "pj_updatedAt q = pj_updatedAt p \<longrightarrow> pj_memberIds q = pj_memberIds p"
    using prj.steps_R [OF assms(2,1)] i'(2) unfolding roster_le_def by blast
  have g: "projectForGroup org (projectGroupRef i) pst' = Some q"
    using i' q(1,3) assms(5) by (auto simp: projectForGroup_def split: if_splits)
  then have "pj_memberIds q = pj_memberIds p" using a(2) assms(5) q(4) by (simp add: project_version_def show_int_inj)
  moreover have "cs_actorId claims \<noteq> []" using a(1) by (auto simp: canManageScope_def)
  then have "project_membership org (activeMember svc) pst' (projectGroupRef i) (cs_actorId claims) = Some True"
    using pj.managed_access(3) [OF wired_managed wired_active project_ref, of "cs_actorId claims" org svc pst' dst sessions i] a(1)
    by (simp add: projectScopeId_def)
  then have "cs_actorId claims \<in> set (pj_memberIds q)" "activeMember svc (cs_actorId claims)"
    using g by (auto simp: project_membership_def)
  ultimately show ?thesis using g by (simp add: activeMember_def isInternal_def)
qed

definition ex_claims :: capability_scope where
  "ex_claims = \<lparr>cs_actorId = ''U2'', cs_scopeId = projectScopeId ''p1'', cs_scopeVersion = Some ''12''\<rparr>"

lemma capability_dies_with_roster_change_witness:
  "map_option pj_memberIds (projectForGroup ''o'' (projectGroupRef ''p1'') (project_apply (PORename (\<lambda>_. True) ''p1'' ''U1'' ''Shipped'') ex_roster))
     = Some [''U1'', ''U2'', ''U3'']"
proof -
  let ?st' = "project_apply (PORename (\<lambda>_. True) ''p1'' ''U1'' ''Shipped'') ex_roster"
  have "projects_ok (fold project_apply ops createMemoryMap)" for ops
  proof -
    have "projects_ok st \<Longrightarrow> projects_ok (fold project_apply ops st)" for st by (induction ops arbitrary: st) (simp_all add: step_ok)
    then show ?thesis using projects_ok_create by blast
  qed
  then have ok: "projects_ok ex_roster" unfolding ex_roster_def by blast
  have "project_step ex_roster ?st'" unfolding project_step_def by blast
  then have run: "project_step\<^sup>*\<^sup>* ex_roster ?st'" by blast
  have "map_option pj_memberIds (projectForGroup ''o'' (projectGroupRef ''p1'') ex_roster) = Some [''U1'', ''U2'', ''U3'']" by code_simp
  then obtain p where p: "projectForGroup ''o'' (projectGroupRef ''p1'') ex_roster = Some p" "pj_memberIds p = [''U1'', ''U2'', ''U3'']" by auto
  have v: "cs_scopeVersion ex_claims = project_version ''o'' ex_roster (projectGroupRef ''p1'')" by code_simp
  have "authorizesCapabilityScope (wiredDeps ''o'' ex_identity ?st' createDirectoryStore None) ''o'' ?st' ex_claims" by code_simp
  from capability_dies_with_roster_change [OF ok run _ v p(1) this] p(2) show ?thesis by (auto simp: ex_claims_def)
qed

end
