(* ===== verification/Panel.thy ===== *)
theory Panel
  imports Payload DurableMap Scopes "HOL-Library.Sublist"
begin

section \<open>Agents in a room\<close>

text \<open>
  Models \<open>src/src/agents/persona-store.ts\<close> and \<open>src/src/agents/panel-driver.ts\<close>: the named voices of a scope, and the panel in which several
  of them answer one message. A turn of the panel is an argument, a function of the turns so far, and so is the flag a fresh
  message of a person sets; a turn answers or throws. Regular expressions are written out as matchers; a case-insensitive match
  compares lower-case letters. \<open>localeCompare\<close> is a parameter. A glyph counts one per code unit.
\<close>

subsection \<open>Personas\<close>

definition PERSONA_NAME_MIN :: nat where "PERSONA_NAME_MIN = 2"
definition PERSONA_NAME_MAX :: nat where "PERSONA_NAME_MAX = 32"
definition PERSONA_INSTRUCTIONS_MAX :: nat where "PERSONA_INSTRUCTIONS_MAX = 8000"

definition letter :: "char \<Rightarrow> bool" where
  "letter c = (let n = (of_char c :: nat) in 65 \<le> n \<and> n \<le> 90 \<or> 97 \<le> n \<and> n \<le> 122)"

text \<open>\<open>[A-Za-z0-9-]\<close>\<close>

definition name_char :: "char \<Rightarrow> bool" where
  "name_char c = (letter c \<or> digit c \<or> c = CHR ''-'')"

definition PERSONA_NAME_PATTERN :: "string \<Rightarrow> bool" where
  "PERSONA_NAME_PATTERN s = (case s of [] \<Rightarrow> False | c # r \<Rightarrow> letter c \<and> list_all name_char r)"

definition hex_char :: "char \<Rightarrow> bool" where
  "hex_char c = (let n = (of_char c :: nat) in digit c \<or> 65 \<le> n \<and> n \<le> 70 \<or> 97 \<le> n \<and> n \<le> 102)"

definition PERSONA_COLOR_PATTERN :: "string \<Rightarrow> bool" where
  "PERSONA_COLOR_PATTERN s = (case s of [] \<Rightarrow> False | c # r \<Rightarrow> c = CHR ''#'' \<and> length r = 6 \<and> list_all hex_char r)"

record agent_persona =
  ap_id :: string
  ap_scopeId :: scope_id
  ap_name :: string
  ap_color :: string
  ap_glyph :: string
  ap_harnessId :: string
  ap_modelId :: string
  ap_instructions :: string
  ap_enabled :: bool
  ap_createdBy :: string
  ap_createdAt :: millis
  ap_version :: int
  ap_updatedAt :: "millis option"
  ap_archivedAt :: "millis option"

record new_agent_persona =
  np_scopeId :: scope_id
  np_name :: string
  np_color :: string
  np_glyph :: string
  np_harnessId :: string
  np_modelId :: string
  np_instructions :: string
  np_enabled :: "bool option"
  np_createdBy :: string

record agent_persona_patch =
  pp_name :: "string option"
  pp_color :: "string option"
  pp_glyph :: "string option"
  pp_harnessId :: "string option"
  pp_modelId :: "string option"
  pp_instructions :: "string option"
  pp_enabled :: "bool option"

type_synonym persona_store = "agent_persona durable_map"

definition personaFieldError :: "string \<Rightarrow> string \<Rightarrow> string \<Rightarrow> string \<Rightarrow> string option" where
  "personaFieldError name color glyph instructions =
     (if length name < PERSONA_NAME_MIN \<or> length name > PERSONA_NAME_MAX
      then Some (''persona name must be '' @ show_nat PERSONA_NAME_MIN @ ''-'' @ show_nat PERSONA_NAME_MAX @ '' characters'')
      else if \<not> PERSONA_NAME_PATTERN name
      then Some (''persona name must start with a letter and contain only letters, digits, and hyphens (no spaces '' @ [dash_char] @
                 '' it is the @mention token)'')
      else if \<not> PERSONA_COLOR_PATTERN color then Some ''persona color must be a #rrggbb hex color''
      else if length glyph < 1 \<or> length glyph > 2 then Some ''persona glyph must be 1-2 characters''
      else if length instructions > PERSONA_INSTRUCTIONS_MAX
      then Some (''persona instructions must be at most '' @ show_nat PERSONA_INSTRUCTIONS_MAX @ '' characters'')
      else None)"

definition isLive :: "agent_persona \<Rightarrow> bool" where
  "isLive p = (ap_archivedAt p = None)"

definition nameClash :: "scope_id \<Rightarrow> string \<Rightarrow> string option \<Rightarrow> persona_store \<Rightarrow> agent_persona option" where
  "nameClash scope name exceptId st =
     find (\<lambda>p. Some (ap_id p) \<noteq> exceptId \<and> ap_scopeId p = scope \<and> isLive p \<and> to_lower (ap_name p) = to_lower name) (dm_all st)"

definition assertNameFree :: "scope_id \<Rightarrow> string \<Rightarrow> string option \<Rightarrow> persona_store \<Rightarrow> string option" where
  "assertNameFree scope name exceptId st =
     map_option (\<lambda>p. ''an agent named '' @ [CHR 0x22] @ ap_name p @ [CHR 0x22] @ '' already exists in '' @ scope)
       (nameClash scope name exceptId st)"

text \<open>
  \<open>create\<close> in two parts, as the awaits divide it: the checks, and the write of the persona they let through. A call is one after the
  other; between them other calls may run.
\<close>

definition createChecked :: "string \<Rightarrow> millis \<Rightarrow> new_agent_persona \<Rightarrow> persona_store \<Rightarrow> string + agent_persona" where
  "createChecked uuid at inp st =
     (let name = js_trim (np_name inp); color = to_lower (js_trim (np_color inp)); glyph = js_trim (np_glyph inp) in
      case personaFieldError name color glyph (np_instructions inp) of
        Some e \<Rightarrow> Inl e
      | None \<Rightarrow>
          (case assertNameFree (np_scopeId inp) name None st of
             Some e \<Rightarrow> Inl e
           | None \<Rightarrow>
               Inr \<lparr>ap_id = ''ap_'' @ uuid, ap_scopeId = np_scopeId inp, ap_name = name, ap_color = color, ap_glyph = glyph,
                    ap_harnessId = np_harnessId inp, ap_modelId = np_modelId inp, ap_instructions = np_instructions inp,
                    ap_enabled = (case np_enabled inp of None \<Rightarrow> True | Some b \<Rightarrow> b), ap_createdBy = np_createdBy inp,
                    ap_createdAt = at, ap_version = 1, ap_updatedAt = Some at, ap_archivedAt = None\<rparr>))"

definition putPersona :: "agent_persona \<Rightarrow> persona_store \<Rightarrow> persona_store" where
  "putPersona p st = dm_put (ap_id p) p st"

definition persona_create :: "string \<Rightarrow> millis \<Rightarrow> new_agent_persona \<Rightarrow> persona_store \<Rightarrow> (string + agent_persona) \<times> persona_store" where
  "persona_create uuid at inp st =
     (case createChecked uuid at inp st of
        Inl e \<Rightarrow> (Inl e, st)
      | Inr p \<Rightarrow> (Inr p, putPersona p st))"

definition updateChecked :: "string \<Rightarrow> agent_persona_patch \<Rightarrow> millis \<Rightarrow> persona_store \<Rightarrow> string + agent_persona" where
  "updateChecked i patch at st =
     (case dm_get st i of
        None \<Rightarrow> Inl (''unknown agent persona: '' @ i)
      | Some p \<Rightarrow>
          (if \<not> isLive p then Inl (''agent persona is archived: '' @ i)
           else let name = (case pp_name patch of None \<Rightarrow> ap_name p | Some n \<Rightarrow> js_trim n);
                    color = (case pp_color patch of None \<Rightarrow> ap_color p | Some c \<Rightarrow> to_lower (js_trim c));
                    glyph = (case pp_glyph patch of None \<Rightarrow> ap_glyph p | Some g \<Rightarrow> js_trim g);
                    instructions = (case pp_instructions patch of None \<Rightarrow> ap_instructions p | Some t \<Rightarrow> t) in
             case personaFieldError name color glyph instructions of
               Some e \<Rightarrow> Inl e
             | None \<Rightarrow>
                 (case (if to_lower name \<noteq> to_lower (ap_name p) then assertNameFree (ap_scopeId p) name (Some (ap_id p)) st else None) of
                    Some e \<Rightarrow> Inl e
                  | None \<Rightarrow>
                      Inr (p\<lparr>ap_name := name, ap_color := color, ap_glyph := glyph, ap_instructions := instructions,
                            ap_harnessId := (case pp_harnessId patch of None \<Rightarrow> ap_harnessId p | Some x \<Rightarrow> x),
                            ap_modelId := (case pp_modelId patch of None \<Rightarrow> ap_modelId p | Some x \<Rightarrow> x),
                            ap_enabled := (case pp_enabled patch of None \<Rightarrow> ap_enabled p | Some x \<Rightarrow> x),
                            ap_version := ap_version p + 1, ap_updatedAt := Some at\<rparr>))))"

definition persona_update :: "string \<Rightarrow> agent_persona_patch \<Rightarrow> millis \<Rightarrow> persona_store \<Rightarrow> (string + agent_persona) \<times> persona_store" where
  "persona_update i patch at st =
     (case updateChecked i patch at st of
        Inl e \<Rightarrow> (Inl e, st)
      | Inr p \<Rightarrow> (Inr p, putPersona p st))"

text \<open>The position of a scope in the list; a scope listed twice has its last.\<close>

definition scopeRank :: "scope_id list \<Rightarrow> scope_id \<Rightarrow> nat option" where
  "scopeRank scopes s = map_of (rev (zip scopes [0..<length scopes])) s"

definition personaBefore :: "(string \<Rightarrow> string \<Rightarrow> bool) \<Rightarrow> scope_id list \<Rightarrow> agent_persona \<Rightarrow> agent_persona \<Rightarrow> bool" where
  "personaBefore localeLess scopes a b =
     (let ra = the (scopeRank scopes (ap_scopeId a)); rb = the (scopeRank scopes (ap_scopeId b))
      in ra < rb \<or> ra = rb \<and> localeLess (ap_name a) (ap_name b))"

fun insertPersona :: "(agent_persona \<Rightarrow> agent_persona \<Rightarrow> bool) \<Rightarrow> agent_persona \<Rightarrow> agent_persona list \<Rightarrow> agent_persona list" where
  "insertPersona before p [] = [p]"
| "insertPersona before p (q # qs) = (if before q p then q # insertPersona before p qs else p # q # qs)"

definition listForScopes :: "(string \<Rightarrow> string \<Rightarrow> bool) \<Rightarrow> scope_id list \<Rightarrow> persona_store \<Rightarrow> agent_persona list" where
  "listForScopes localeLess scopes st =
     foldr (insertPersona (personaBefore localeLess scopes))
       (filter (\<lambda>p. isLive p \<and> scopeRank scopes (ap_scopeId p) \<noteq> None) (dm_all st)) []"

definition persona_archive :: "string \<Rightarrow> millis \<Rightarrow> persona_store \<Rightarrow> (string + agent_persona) \<times> persona_store" where
  "persona_archive i at st =
     (case dm_get st i of
        None \<Rightarrow> (Inl (''unknown agent persona: '' @ i), st)
      | Some p \<Rightarrow>
          (if \<not> isLive p then (Inr p, st)
           else let q = p\<lparr>ap_archivedAt := Some at, ap_updatedAt := Some at\<rparr> in (Inr q, putPersona q st)))"

definition persona_delete :: "string \<Rightarrow> persona_store \<Rightarrow> persona_store" where
  "persona_delete i st = dm_delete i st"

subsection \<open>Who was mentioned\<close>

record panel_member =
  pm_id :: string
  pm_name :: string
  pm_harnessId :: string
  pm_modelId :: string

definition panelMembersFrom :: "agent_persona option list \<Rightarrow> panel_member list" where
  "panelMembersFrom personas =
     map (\<lambda>p. \<lparr>pm_id = ap_id p, pm_name = ap_name p, pm_harnessId = ap_harnessId p, pm_modelId = ap_modelId p\<rparr>)
       (filter (\<lambda>p. ap_enabled p \<and> ap_archivedAt p = None) (map the (filter (\<lambda>p. p \<noteq> None) personas)))"

definition PANEL_PASS :: string where
  "PANEL_PASS = ''PASS''"

definition isPanelPass :: "string option \<Rightarrow> bool" where
  "isPanelPass reply = (js_trim (case reply of None \<Rightarrow> [] | Some r \<Rightarrow> r) = PANEL_PASS)"

record panel_outcome =
  po_status :: "string option"
  po_reply :: "string option"
  po_posted :: bool

definition isPanelQuiet :: "panel_outcome option \<Rightarrow> bool" where
  "isPanelQuiet result =
     (case result of
        None \<Rightarrow> True
      | Some r \<Rightarrow>
          (if po_status r = Some ''silent'' then \<not> po_posted r
           else if po_status r \<noteq> None \<and> po_status r \<noteq> Some ''ok'' then False
           else isPanelPass (po_reply r) \<or> js_trim (case po_reply r of None \<Rightarrow> [] | Some t \<Rightarrow> t) = []))"

text \<open>\<open>@Name\<close> at the head of a text, not followed by a character of a name.\<close>

definition mentionHere :: "string \<Rightarrow> string \<Rightarrow> bool" where
  "mentionHere name s =
     (let tok = CHR ''@'' # name in
      starts_with (to_lower tok) (to_lower s) \<and>
      (case drop (length tok) s of [] \<Rightarrow> True | c # r \<Rightarrow> \<not> name_char c))"

fun mentionAt :: "string \<Rightarrow> string \<Rightarrow> nat option" where
  "mentionAt [] name = None"
| "mentionAt (c # s) name = (if mentionHere name (c # s) then Some 0 else map_option Suc (mentionAt s name))"

definition panelMentions :: "string option \<Rightarrow> string list \<Rightarrow> string option \<Rightarrow> string list" where
  "panelMentions reply roster selfName =
     (let s = (case reply of None \<Rightarrow> [] | Some r \<Rightarrow> r) in
      if CHR ''@'' \<notin> set s then []
      else filter (\<lambda>name. \<not> (case selfName of None \<Rightarrow> False | Some n \<Rightarrow> to_lower name = to_lower n) \<and> mentionAt s name \<noteq> None) roster)"

text \<open>The sort is stable, so the position in the roster decides between equal offsets.\<close>

definition panelAddressed :: "string option \<Rightarrow> panel_member list \<Rightarrow> panel_member list" where
  "panelAddressed body0 members =
     (let body = (case body0 of None \<Rightarrow> [] | Some b \<Rightarrow> b) in
      if CHR ''@'' \<notin> set body then []
      else sort_key (\<lambda>m. the (mentionAt body (pm_name m))) (filter (\<lambda>m. mentionAt body (pm_name m) \<noteq> None) members))"

definition ROOM_MAX_ROUNDS :: nat where
  "ROOM_MAX_ROUNDS = 20"

definition word_char :: "char \<Rightarrow> bool" where
  "word_char c = (letter c \<or> digit c \<or> c = CHR ''_'')"

text \<open>\<open>(?:times|rounds?|turns?|exchanges?)\b\<close>\<close>

definition turnNoun :: "string \<Rightarrow> bool" where
  "turnNoun s =
     list_ex (\<lambda>w. starts_with w (to_lower s) \<and> (case drop (length w) s of [] \<Rightarrow> True | c # r \<Rightarrow> \<not> word_char c))
       [''times'', ''rounds'', ''round'', ''turns'', ''turn'', ''exchanges'', ''exchange'']"

text \<open>\<open>(\d{1,2})\s*\<close> and a noun at the head of a text: the digits. A shorter run of digits than the longest never leads to a match.\<close>

definition roundsHere :: "string \<Rightarrow> string option" where
  "roundsHere s =
     (let ds = take 2 (takeWhile digit s)
      in if ds \<noteq> [] \<and> turnNoun (dropWhile is_space (drop (length ds) s)) then Some ds else None)"

fun searchRounds :: "bool \<Rightarrow> string \<Rightarrow> string option" where
  "searchRounds prevWord [] = None"
| "searchRounds prevWord (c # s) =
     (case (if prevWord then None else roundsHere (c # s)) of
        Some ds \<Rightarrow> Some ds
      | None \<Rightarrow> searchRounds (word_char c) s)"

definition requestedPanelRounds :: "string option \<Rightarrow> nat option" where
  "requestedPanelRounds body =
     (case body of
        None \<Rightarrow> None
      | Some s \<Rightarrow>
          (case searchRounds False s of
             None \<Rightarrow> None
           | Some ds \<Rightarrow> let n = read_digits ds in if n < 1 then None else Some (min n ROOM_MAX_ROUNDS)))"

subsection \<open>The panel\<close>

definition panelTurnCeiling :: "nat \<Rightarrow> nat \<Rightarrow> nat" where
  "panelTurnCeiling memberCount rounds = max 1 memberCount * max 1 rounds * 2"

definition PANEL_CONTINUATION_NUDGE :: string where
  "PANEL_CONTINUATION_NUDGE = ''It is your turn to speak in the room. Reply to the conversation so far, or reply exactly PASS.''"

record panel_turn_spec =
  ts_persona :: "string \<times> string"
  ts_continuation :: bool
  ts_harness :: string
  ts_model :: string
  ts_text :: string
  ts_index :: nat
  ts_round :: nat
  ts_rounds :: nat

datatype turn_answer = TurnThrew | TurnAnswered "panel_outcome option"

type_synonym panel_log = "(panel_turn_spec \<times> turn_answer) list"

record panel_options =
  pn_members :: "panel_member list"
  pn_invitable :: "panel_member list option"
  pn_rounds :: nat
  pn_text :: string
  pn_aborted :: "panel_log \<Rightarrow> bool"
  pn_run :: "panel_log \<Rightarrow> panel_turn_spec \<Rightarrow> turn_answer"

definition invitableOf :: "panel_options \<Rightarrow> panel_member list" where
  "invitableOf opts = (case pn_invitable opts of None \<Rightarrow> pn_members opts | Some ms \<Rightarrow> ms)"

definition ceilingOf :: "panel_options \<Rightarrow> nat" where
  "ceilingOf opts = panelTurnCeiling (max (length (pn_members opts)) (length (invitableOf opts))) (pn_rounds opts)"

definition turnSpec :: "panel_options \<Rightarrow> nat \<Rightarrow> nat \<Rightarrow> panel_member \<Rightarrow> panel_turn_spec" where
  "turnSpec opts index round m =
     \<lparr>ts_persona = (pm_id m, pm_name m), ts_continuation = (index > 0), ts_harness = pm_harnessId m, ts_model = pm_modelId m,
      ts_text = (if index > 0 then PANEL_CONTINUATION_NUDGE else pn_text opts), ts_index = index, ts_round = round,
      ts_rounds = pn_rounds opts\<rparr>"

text \<open>The invitations of one reply: whom it adds to the queue, and who was granted a turn this round.\<close>

fun invite :: "panel_member list \<Rightarrow> string list \<Rightarrow> string list \<Rightarrow> panel_member list \<times> string list" where
  "invite invitable granted [] = ([], granted)"
| "invite invitable granted (name # names) =
     (case find (\<lambda>m. to_lower (pm_name m) = to_lower name) invitable of
        None \<Rightarrow> invite invitable granted names
      | Some m \<Rightarrow>
          (if pm_id m \<in> set granted then invite invitable granted names
           else case invite invitable (granted @ [pm_id m]) names of (ms, g) \<Rightarrow> (m # ms, g)))"

text \<open>Why the driver returned; the source returns in each case.\<close>

datatype panel_end = EndAborted | EndCeiling | EndQuiet | EndRounds

lemma filter_shrinks:
  "m \<in> set xs \<Longrightarrow> Q m \<Longrightarrow> \<not> P m \<Longrightarrow> \<forall>x. P x \<longrightarrow> Q x \<Longrightarrow> length (filter P xs) < length (filter Q xs)"
proof (induction xs)
  case (Cons x xs)
  have "length (filter P xs) \<le> length (filter Q xs)" using Cons.prems(4) by (induction xs) auto
  with Cons show ?case by auto
qed simp

lemma invite_ungranted:
  "invite invitable granted names = (ms, g) \<Longrightarrow>
   length ms + length (filter (\<lambda>m. pm_id m \<notin> set g) invitable) \<le> length (filter (\<lambda>m. pm_id m \<notin> set granted) invitable)"
proof (induction names arbitrary: granted ms)
  case (Cons name names)
  show ?case
  proof (cases "find (\<lambda>m. to_lower (pm_name m) = to_lower name) invitable")
    case (Some m)
    show ?thesis
    proof (cases "pm_id m \<in> set granted")
      case False
      obtain ms' where ms': "invite invitable (granted @ [pm_id m]) names = (ms', g)" "ms = m # ms'"
        using Cons.prems Some False by (auto split: prod.splits)
      let ?f = "\<lambda>gr. filter (\<lambda>x. pm_id x \<notin> set gr) invitable"
      have "m \<in> set invitable" using Some by (auto simp: find_Some_iff)
      then have "length (?f (granted @ [pm_id m])) < length (?f granted)"
        using False by (intro filter_shrinks [of m]) auto
      with Cons.IH [OF ms'(1)] ms'(2) show ?thesis by simp
    qed (use Cons Some in auto)
  qed (use Cons in auto)
qed simp

text \<open>
  One round: the queue, the turns and the quiet turns so far, and the personas granted a bonus turn. The result tells whether the driver
  returned inside the round.
\<close>

function panelRound ::
  "panel_options \<Rightarrow> nat \<Rightarrow> panel_member list \<Rightarrow> string list \<Rightarrow> nat \<Rightarrow> nat \<Rightarrow> panel_log \<Rightarrow> (panel_end + nat \<times> nat) \<times> panel_log"
where
  "panelRound opts round [] granted turns passes log = (Inr (turns, passes), log)"
| "panelRound opts round (m # queue) granted turns passes log =
     (if pn_aborted opts log then (Inl EndAborted, log)
      else if length log \<ge> ceilingOf opts then (Inl EndCeiling, log)
      else let spec = turnSpec opts (length log) round m; answer = pn_run opts log spec; log' = log @ [(spec, answer)] in
        case answer of
          TurnThrew \<Rightarrow> panelRound opts round queue granted (turns + 1) passes log'
        | TurnAnswered result \<Rightarrow>
            (if isPanelQuiet result then panelRound opts round queue granted (turns + 1) (passes + 1) log'
             else case invite (invitableOf opts) granted
                         (panelMentions (Option.bind result po_reply) (map pm_name (invitableOf opts)) (Some (pm_name m))) of
                    (ms, granted') \<Rightarrow> panelRound opts round (queue @ ms) granted' (turns + 1) passes log'))"
  by pat_completeness auto
termination
  by (relation "measure (\<lambda>(opts, round, queue, granted, turns, passes, log).
        length queue + length (filter (\<lambda>m. pm_id m \<notin> set granted) (invitableOf opts)))")
     (auto dest: invite_ungranted [OF sym])

fun panelRounds :: "panel_options \<Rightarrow> nat \<Rightarrow> nat \<Rightarrow> panel_log \<Rightarrow> panel_end \<times> panel_log" where
  "panelRounds opts round 0 log = (EndRounds, log)"
| "panelRounds opts round (Suc n) log =
     (case panelRound opts round (pn_members opts) [] 0 0 log of
        (Inl e, log') \<Rightarrow> (e, log')
      | (Inr (turns, passes), log') \<Rightarrow>
          (if turns > 0 \<and> passes = turns then (EndQuiet, log') else panelRounds opts (round + 1) n log'))"

definition runPanel :: "panel_options \<Rightarrow> panel_end \<times> panel_log" where
  "runPanel opts = panelRounds opts 1 (pn_rounds opts) []"

subsection \<open>The bound of a panel\<close>

definition ungranted :: "panel_options \<Rightarrow> string list \<Rightarrow> panel_member list" where
  "ungranted opts granted = filter (\<lambda>m. pm_id m \<notin> set granted) (invitableOf opts)"

text \<open>What one turn does to the rest of its round.\<close>

lemma panelRound_turn:
  assumes "\<not> pn_aborted opts log" "length log < ceilingOf opts"
  obtains answer ms granted' q where
    "answer = pn_run opts log (turnSpec opts (length log) round m)"
    "panelRound opts round (m # queue) granted turns passes log =
       panelRound opts round (queue @ ms) granted' (turns + 1) (passes + q) (log @ [(turnSpec opts (length log) round m, answer)])"
    "q = (case answer of TurnAnswered r \<Rightarrow> if isPanelQuiet r then 1 else 0 | TurnThrew \<Rightarrow> 0)"
    "(ms = [] \<and> granted' = granted) \<or> (\<exists>names. invite (invitableOf opts) granted names = (ms, granted'))"
proof (cases "pn_run opts log (turnSpec opts (length log) round m)")
  case TurnThrew
  then show ?thesis using assms that [of TurnThrew "[]" granted 0] by simp
next
  case (TurnAnswered r)
  show ?thesis
  proof (cases "isPanelQuiet r")
    case True
    then show ?thesis using assms TurnAnswered that [of "TurnAnswered r" "[]" granted 1] by simp
  next
    case False
    obtain ms g where "invite (invitableOf opts) granted
        (panelMentions (Option.bind r po_reply) (map pm_name (invitableOf opts)) (Some (pm_name m))) = (ms, g)" by fastforce
    then show ?thesis using assms TurnAnswered False that [of "TurnAnswered r" ms g 0] by auto
  qed
qed






lemma panelRound_ceiling:
  assumes "panelRound opts round queue granted turns passes log = (res, log')"
    and "length log + length queue + length (ungranted opts granted) \<le> ceilingOf opts"
  shows "res \<noteq> Inl EndCeiling \<and> res \<noteq> Inl EndQuiet \<and> res \<noteq> Inl EndRounds \<and>
    length log' \<le> length log + length queue + length (ungranted opts granted)"
  using assms
proof (induction "length queue + length (ungranted opts granted)" arbitrary: queue granted turns passes log rule: less_induct)
  case less
  show ?case
  proof (cases queue)
    case (Cons m rest)
    show ?thesis
    proof (cases "pn_aborted opts log")
      case True
      with less.prems Cons show ?thesis by auto
    next
      case False
      have "length log < ceilingOf opts" using less.prems(2) Cons by simp
      note go = False this
      obtain answer ms granted' q where step:
        "panelRound opts round (m # rest) granted turns passes log =
           panelRound opts round (rest @ ms) granted' (turns + 1) (passes + q) (log @ [(turnSpec opts (length log) round m, answer)])"
        "(ms = [] \<and> granted' = granted) \<or> (\<exists>names. invite (invitableOf opts) granted names = (ms, granted'))"
        by (rule panelRound_turn [OF go, of round m rest granted turns passes]) blast
      have "length ms + length (ungranted opts granted') \<le> length (ungranted opts granted)"
        using step(2) invite_ungranted [of "invitableOf opts" granted _ ms granted'] unfolding ungranted_def by auto
      then have "length (rest @ ms) + length (ungranted opts granted') < length queue + length (ungranted opts granted)"
        "length (log @ [(turnSpec opts (length log) round m, answer)]) + length (rest @ ms) + length (ungranted opts granted')
           \<le> length log + length queue + length (ungranted opts granted)"
        using Cons by simp_all
      with less.hyps [of "rest @ ms" granted' "turns + 1" "passes + q" "log @ [(turnSpec opts (length log) round m, answer)]"]
        step(1) less.prems Cons show ?thesis by fastforce
    qed
  qed (use less.prems in auto)
qed

definition perRound :: "panel_options \<Rightarrow> nat" where
  "perRound opts = length (pn_members opts) + length (invitableOf opts)"

lemma ceiling_covers: "pn_rounds opts * perRound opts \<le> ceilingOf opts"
proof -
  let ?k = "max (length (pn_members opts)) (length (invitableOf opts))"
  have "perRound opts \<le> max 1 ?k * 2" by (auto simp: perRound_def)
  then have "pn_rounds opts * perRound opts \<le> max 1 (pn_rounds opts) * (max 1 ?k * 2)" by (intro mult_le_mono) auto
  then show ?thesis by (simp add: ceilingOf_def panelTurnCeiling_def mult.commute mult.left_commute)
qed

lemma panelRounds_bound:
  assumes "panelRounds opts round n log = (why, log')" "length log + n * perRound opts \<le> ceilingOf opts"
  shows "why \<noteq> EndCeiling \<and> length log' \<le> length log + n * perRound opts"
  using assms
proof (induction n arbitrary: round log)
  case (Suc n)
  obtain res log1 where r: "panelRound opts round (pn_members opts) [] 0 0 log = (res, log1)" by fastforce
  have b: "res \<noteq> Inl EndCeiling \<and> length log1 \<le> length log + perRound opts"
    using panelRound_ceiling [OF r] Suc.prems(2) by (simp add: perRound_def ungranted_def)
  show ?case
  proof (cases res)
    case (Inl e)
    with r b Suc.prems(1) show ?thesis by auto
  next
    case (Inr tp)
    obtain t p where tp: "tp = (t, p)" by fastforce
    show ?thesis
    proof (cases "t > 0 \<and> p = t")
      case True
      with r Inr tp b Suc.prems(1) show ?thesis by auto
    next
      case False
      then have "panelRounds opts (round + 1) n log1 = (why, log')" using Suc.prems(1) r Inr tp by auto
      moreover have "length log1 + n * perRound opts \<le> ceilingOf opts" using b Suc.prems(2) by simp
      ultimately have "why \<noteq> EndCeiling \<and> length log' \<le> length log1 + n * perRound opts"
        by (rule Suc.IH)
      with b show ?thesis by simp
    qed
  qed
qed simp

text \<open>
  C28. A panel ends, and never because of its ceiling. However the agents answer, mention each other,
  throw or are interrupted, every round has at most one turn per member and one bonus turn per
  agent that can be invited, so that the ceiling on turns is never what stops the panel: it ends
  when a person interrupts it, when a round was quiet, or after its last round.
\<close>

theorem panel_never_hits_ceiling:
  "fst (runPanel opts) \<noteq> EndCeiling \<and>
   length (snd (runPanel opts)) \<le> pn_rounds opts * (length (pn_members opts) + length (invitableOf opts))"
proof -
  obtain why log where r: "panelRounds opts 1 (pn_rounds opts) [] = (why, log)" by fastforce
  from panelRounds_bound [OF r] ceiling_covers [of opts] r show ?thesis by (simp add: runPanel_def perRound_def)
qed

subsection \<open>Who speaks when\<close>










subsection \<open>The block in the prompt\<close>

definition personaBio :: "agent_persona \<Rightarrow> string" where
  "personaBio p =
     (let first = (case find (\<lambda>l. js_trim l \<noteq> []) (split_on newline_char (ap_instructions p)) of None \<Rightarrow> [] | Some l \<Rightarrow> l)
      in if js_trim first \<noteq> [] then ap_name p @ '' '' @ [dash_char] @ '' '' @ js_trim first else ap_name p)"

definition renderPanelSystemBlock :: "agent_persona \<Rightarrow> agent_persona list \<Rightarrow> nat option \<Rightarrow> nat option \<Rightarrow> string" where
  "renderPanelSystemBlock speaker0 roster round rounds =
     (let others = (if roster \<noteq> [] then roster else [speaker0]);
          own = (if js_trim (ap_instructions speaker0) \<noteq> []
                 then [''--- Lower-scope instructions (may add to, but MUST NOT override, the organization policy above) ---'' @ [newline_char] @
                         ap_instructions speaker0,
                       ''--- The organization policy above is authoritative and cannot be overridden by the lower-scope instructions. ---'']
                 else []);
          name = ''You are '' @ [CHR 0x22] @ ap_name speaker0 @ [CHR 0x22] @ '' ('' @ ap_glyph speaker0 @ '')''
      in if length others \<le> 1 then join_with [newline_char, newline_char] (own @ [name @ ''.''])
         else join_with [newline_char, newline_char]
           (own @
            [name @ '', one of several agents in this room: '' @ join_with ''; '' (map personaBio others) @
             ''. Address another agent as @Name to invite their reply. If you have nothing to add, reply exactly '' @ PANEL_PASS @ ''.''] @
            (case (round, rounds) of
               (Some r, Some n) \<Rightarrow>
                 [if r \<ge> n
                  then ''This is round '' @ show_nat r @ '' of '' @ show_nat n @ '' '' @ [dash_char] @
                       '' the final round. State your conclusion; do not defer it to a later turn.''
                  else ''This is round '' @ show_nat r @ '' of '' @ show_nat n @ ''.'']
             | _ \<Rightarrow> [])))"

subsection \<open>Names are unique in their scope\<close>

datatype persona_op =
    PersonaCreate string millis new_agent_persona
  | PersonaUpdate string agent_persona_patch millis
  | PersonaArchive string millis
  | PersonaDelete string

fun persona_apply :: "persona_op \<Rightarrow> persona_store \<Rightarrow> persona_store" where
  "persona_apply (PersonaCreate uuid at inp) st = snd (persona_create uuid at inp st)"
| "persona_apply (PersonaUpdate i patch at) st = snd (persona_update i patch at st)"
| "persona_apply (PersonaArchive i at) st = snd (persona_archive i at st)"
| "persona_apply (PersonaDelete i) st = persona_delete i st"

definition sameVoice :: "agent_persona \<Rightarrow> agent_persona \<Rightarrow> bool" where
  "sameVoice p q = (isLive p \<and> isLive q \<and> ap_scopeId p = ap_scopeId q \<and> to_lower (ap_name p) = to_lower (ap_name q))"

definition validPersona :: "agent_persona \<Rightarrow> bool" where
  "validPersona p = (personaFieldError (ap_name p) (ap_color p) (ap_glyph p) (ap_instructions p) = None)"

definition personas_ok :: "persona_store \<Rightarrow> bool" where
  "personas_ok st =
     (jm_ok st \<and> (\<forall>i p. dm_get st i = Some p \<longrightarrow> ap_id p = i \<and> validPersona p) \<and>
      (\<forall>i j p q. dm_get st i = Some p \<longrightarrow> dm_get st j = Some q \<longrightarrow> sameVoice p q \<longrightarrow> i = j))"

lemma name_free:
  assumes "personas_ok st" "assertNameFree scope name exceptId st = None" "dm_get st i = Some p" "Some i \<noteq> exceptId"
    "ap_scopeId p = scope" "isLive p"
  shows "to_lower (ap_name p) \<noteq> to_lower name"
proof -
  have "p \<in> set (dm_all st)" using assms(1,3) dm_all_iff [of st p] by (auto simp: personas_ok_def)
  moreover have "ap_id p = i" using assms(1,3) by (simp add: personas_ok_def)
  ultimately show ?thesis using assms(2,4-6) unfolding assertNameFree_def nameClash_def by (auto simp: find_None_iff)
qed

text \<open>Writing a valid persona that no other live one of its scope shares the name with.\<close>

lemma personas_ok_put:
  assumes "personas_ok st" "validPersona p" "\<forall>j q. dm_get st j = Some q \<longrightarrow> j \<noteq> ap_id p \<longrightarrow> \<not> sameVoice p q"
  shows "personas_ok (putPersona p st)"
proof -
  have sym: "sameVoice q r \<Longrightarrow> sameVoice r q" for q r by (auto simp: sameVoice_def)
  have "jm_ok (putPersona p st)" using assms(1) by (simp add: personas_ok_def putPersona_def dm_put_def)
  moreover have g: "dm_get (putPersona p st) i = (if i = ap_id p then Some p else dm_get st i)" for i by (simp add: putPersona_def)
  have "\<forall>i q. dm_get (putPersona p st) i = Some q \<longrightarrow> ap_id q = i \<and> validPersona q"
    using assms(1,2) by (auto simp: g personas_ok_def)
  moreover have "i = j" if "dm_get (putPersona p st) i = Some q" "dm_get (putPersona p st) j = Some r" "sameVoice q r" for i j q r
  proof (cases "i = ap_id p \<or> j = ap_id p")
    case True
    then show ?thesis using that assms(3) sym by (auto simp: g split: if_splits)
  next
    case False
    then show ?thesis using that assms(1) unfolding g personas_ok_def by simp
  qed
  ultimately show ?thesis unfolding personas_ok_def by blast
qed

lemma personas_ok_create: "personas_ok st \<Longrightarrow> personas_ok (snd (persona_create uuid at inp st))"
proof (cases "createChecked uuid at inp st")
  case (Inr p)
  assume ok: "personas_ok st"
  have p: "validPersona p" "isLive p" "assertNameFree (ap_scopeId p) (ap_name p) None st = None"
    using Inr by (auto simp: createChecked_def validPersona_def isLive_def Let_def split: option.splits)
  then have "personas_ok (putPersona p st)"
    using ok name_free [OF ok p(3)] by (intro personas_ok_put) (fastforce simp: sameVoice_def)+
  with Inr show ?thesis by (simp add: persona_create_def)
qed (simp add: persona_create_def)

lemma updateChecked_Inr:
  assumes "updateChecked i patch at st = Inr q"
  obtains p where "dm_get st i = Some p" "isLive p" "validPersona q" "ap_id q = ap_id p" "ap_scopeId q = ap_scopeId p" "isLive q"
    "to_lower (ap_name q) \<noteq> to_lower (ap_name p) \<Longrightarrow> assertNameFree (ap_scopeId p) (ap_name q) (Some (ap_id p)) st = None"
proof -
  obtain p where p: "dm_get st i = Some p" "isLive p"
    using assms by (auto simp: updateChecked_def split: option.splits if_splits)
  define N where "N = (case pp_name patch of None \<Rightarrow> ap_name p | Some n \<Rightarrow> js_trim n)"
  define C where "C = (case pp_color patch of None \<Rightarrow> ap_color p | Some c \<Rightarrow> to_lower (js_trim c))"
  define G where "G = (case pp_glyph patch of None \<Rightarrow> ap_glyph p | Some g \<Rightarrow> js_trim g)"
  define I where "I = (case pp_instructions patch of None \<Rightarrow> ap_instructions p | Some t \<Rightarrow> t)"
  define free where "free = (if to_lower N \<noteq> to_lower (ap_name p) then assertNameFree (ap_scopeId p) N (Some (ap_id p)) st else None)"
  define r where "r = p\<lparr>ap_name := N, ap_color := C, ap_glyph := G, ap_instructions := I,
    ap_harnessId := (case pp_harnessId patch of None \<Rightarrow> ap_harnessId p | Some x \<Rightarrow> x),
    ap_modelId := (case pp_modelId patch of None \<Rightarrow> ap_modelId p | Some x \<Rightarrow> x),
    ap_enabled := (case pp_enabled patch of None \<Rightarrow> ap_enabled p | Some x \<Rightarrow> x),
    ap_version := ap_version p + 1, ap_updatedAt := Some at\<rparr>"
  have "(case personaFieldError N C G I of Some e \<Rightarrow> Inl e | None \<Rightarrow> (case free of Some e \<Rightarrow> Inl e | None \<Rightarrow> Inr r)) = Inr q"
    using assms p unfolding updateChecked_def Let_def N_def C_def G_def I_def free_def r_def by (simp only: option.case if_False simp_thms)
  then have e: "personaFieldError N C G I = None" "free = None" "q = r" by (auto split: option.splits)
  have r: "ap_name r = N" "ap_color r = C" "ap_glyph r = G" "ap_instructions r = I" "ap_id r = ap_id p" "ap_scopeId r = ap_scopeId p"
    "isLive r = isLive p" by (simp_all add: r_def isLive_def)
  show ?thesis
  proof (rule that [OF p])
    show "validPersona q" using e r by (simp add: validPersona_def)
    show "to_lower (ap_name q) \<noteq> to_lower (ap_name p) \<Longrightarrow> assertNameFree (ap_scopeId p) (ap_name q) (Some (ap_id p)) st = None"
      using e(2,3) r(1) unfolding free_def by simp
  qed (use e(3) r p(2) in simp_all)
qed

lemma personas_ok_update: "personas_ok st \<Longrightarrow> personas_ok (snd (persona_update i patch at st))"
proof (cases "updateChecked i patch at st")
  case (Inr q)
  assume ok: "personas_ok st"
  obtain p where p: "dm_get st i = Some p" "isLive p" "validPersona q" "ap_id q = ap_id p" "ap_scopeId q = ap_scopeId p" "isLive q"
    "to_lower (ap_name q) \<noteq> to_lower (ap_name p) \<Longrightarrow> assertNameFree (ap_scopeId p) (ap_name q) (Some (ap_id p)) st = None"
    using updateChecked_Inr [OF Inr] by blast
  have i: "ap_id p = i" using ok p(1) by (simp add: personas_ok_def)
  have "\<not> sameVoice q r" if "dm_get st j = Some r" "j \<noteq> ap_id q" for j r
  proof
    assume v: "sameVoice q r"
    show False
    proof (cases "to_lower (ap_name q) = to_lower (ap_name p)")
      case True
      then have "sameVoice p r" using v p(2,5) by (simp add: sameVoice_def)
      then show False using ok p(1) that i p(4) unfolding personas_ok_def by metis
    next
      case False
      from name_free [OF ok p(7) [OF False] that(1)] that(2) v p(4,5) show False by (simp add: sameVoice_def)
    qed
  qed
  then have "personas_ok (putPersona q st)" using ok p(3) by (intro personas_ok_put) auto
  with Inr show ?thesis by (simp add: persona_update_def)
qed (simp add: persona_update_def)

lemma personas_ok_archive: "personas_ok st \<Longrightarrow> personas_ok (snd (persona_archive i at st))"
proof (cases "dm_get st i")
  case (Some p)
  assume ok: "personas_ok st"
  then have "validPersona p" using Some by (simp add: personas_ok_def)
  then have "personas_ok (putPersona (p\<lparr>ap_archivedAt := Some at, ap_updatedAt := Some at\<rparr>) st)"
    using ok by (intro personas_ok_put) (auto simp: validPersona_def sameVoice_def isLive_def)
  with ok Some show ?thesis by (simp add: persona_archive_def Let_def)
qed (simp add: persona_archive_def)

lemma personas_ok_delete: "personas_ok st \<Longrightarrow> personas_ok (persona_delete i st)"
  unfolding personas_ok_def persona_delete_def by (auto simp: dm_delete_def dm_get_def)

text \<open>
  A name means one agent. After any sequence of creations, changes, archivings and deletions that
  run one after the other, no two live agents of a scope have names that differ at most in case, and
  every agent has a name, colour, glyph and instructions within the rules.
\<close>

theorem persona_names_are_unique:
  "personas_ok (fold persona_apply ops createMemoryMap)"
proof -
  have "personas_ok st \<Longrightarrow> personas_ok (persona_apply op st)" for op st
    by (cases op) (simp_all add: personas_ok_create personas_ok_update personas_ok_archive personas_ok_delete)
  then have "personas_ok st \<Longrightarrow> personas_ok (fold persona_apply ops st)" for st by (induction ops arbitrary: st) simp_all
  moreover have "personas_ok createMemoryMap" by (simp add: personas_ok_def createMemoryMap_def dm_get_def)
  ultimately show ?thesis by blast
qed

text \<open>Two creations whose checks both run before either write: the name is taken twice.\<close>

definition ex_new_persona :: new_agent_persona where
  "ex_new_persona =
     \<lparr>np_scopeId = ''org:o'', np_name = ''Scout'', np_color = ''#00ff00'', np_glyph = ''S'', np_harnessId = ''h'', np_modelId = ''m'',
      np_instructions = [], np_enabled = None, np_createdBy = ''U1''\<rparr>"

lemma concurrent_creates_share_a_name:
  "case (createChecked ''1'' 5 ex_new_persona createMemoryMap, createChecked ''2'' 6 ex_new_persona createMemoryMap) of
     (Inr p, Inr q) \<Rightarrow> sameVoice p q \<and> ap_id p \<noteq> ap_id q \<and> length (dm_all (putPersona q (putPersona p createMemoryMap))) = 2
   | _ \<Rightarrow> False"
  by code_simp

end
