(* ===== verification/Answers.thy ===== *)
theory Answers
  imports Runs Tasks Delivery Panel "HOL-Library.Multiset"
begin

section \<open>Where a turn comes from and where its answer goes\<close>

text \<open>
  Models \<open>src/src/core/turn-origin.ts\<close> and \<open>src/src/delivery/run-result-delivery.ts\<close>: the origin of a turn, and the recovery delivery that is
  enqueued when a run ends, through the listener \<open>wireRunResultDeliveries\<close> registers with the run store. A request is kept with the
  fields these functions read. The sign at the head of a failure notice has two code units above 255, written with two unused codes.
\<close>

subsection \<open>Origins\<close>

datatype turn_origin =
    OHuman "string option" "string option"
  | OAmbient "string option" "bool option"
  | OAutomation "string option" "destination option" "bool option"
  | ODirect

record legacy_origin =
  lo_triggerTs :: "string option"
  lo_entryTs :: "string option"
  lo_triggered :: "bool option"
  lo_securityScreenData :: "string option"
  lo_triggerDestination :: "destination option"
  lo_ownerKeychainUnion :: "bool option"
  lo_unprompted :: "bool option"
  lo_liveActor :: "bool option"

definition noLegacy :: legacy_origin where
  "noLegacy =
     \<lparr>lo_triggerTs = None, lo_entryTs = None, lo_triggered = None, lo_securityScreenData = None, lo_triggerDestination = None,
      lo_ownerKeychainUnion = None, lo_unprompted = None, lo_liveActor = None\<rparr>"

definition nonempty :: "string option \<Rightarrow> string option" where
  "nonempty s = (if truthy s then s else None)"

definition flag :: "bool option \<Rightarrow> bool option" where
  "flag b = (if b = Some True then Some True else None)"

definition normalizeTurnOrigin :: "legacy_origin \<Rightarrow> turn_origin" where
  "normalizeTurnOrigin i =
     (if lo_triggered i = Some True
      then OAutomation (lo_securityScreenData i) (lo_triggerDestination i) (flag (lo_ownerKeychainUnion i))
      else if lo_unprompted i = Some True then OAmbient (nonempty (lo_entryTs i)) (flag (lo_liveActor i))
      else if lo_liveActor i = Some True then OHuman (nonempty (lo_triggerTs i)) (nonempty (lo_entryTs i))
      else ODirect)"

fun originRank :: "turn_origin \<Rightarrow> nat" where
  "originRank ODirect = 0"
| "originRank (OHuman m e) = 1"
| "originRank (OAmbient e l) = 2"
| "originRank (OAutomation s d k) = 3"

text \<open>\<open>a ?? b\<close>\<close>

definition orElse :: "'a option \<Rightarrow> 'a option \<Rightarrow> 'a option" where
  "orElse a b = (case a of None \<Rightarrow> b | Some x \<Rightarrow> Some x)"

definition mergeScreenData :: "string option \<Rightarrow> string option \<Rightarrow> string option" where
  "mergeScreenData typed legacy =
     (case typed of
        None \<Rightarrow> legacy
      | Some t \<Rightarrow>
          (case legacy of
             None \<Rightarrow> Some t
           | Some l \<Rightarrow>
               (if t = l then Some t
                else Some (''Typed automation data:'' @ [newline_char] @ t @ [newline_char, newline_char] @
                           ''Legacy automation data:'' @ [newline_char] @ l))))"

fun mergeOrigin :: "turn_origin \<Rightarrow> turn_origin \<Rightarrow> turn_origin" where
  "mergeOrigin (OAutomation s d k) (OAutomation s' d' k') =
     OAutomation (mergeScreenData s s') (orElse d d') (if k = Some True \<or> k' = Some True then Some True else None)"
| "mergeOrigin (OHuman m e) (OHuman m' e') = OHuman (nonempty (orElse m m')) (nonempty (orElse e e'))"
| "mergeOrigin (OAmbient e l) (OAmbient e' l') =
     OAmbient (nonempty (orElse e e')) (if l = Some True \<or> l' = Some True then Some True else None)"
| "mergeOrigin typed legacy = typed"

definition resolveTurnOrigin :: "turn_origin option \<Rightarrow> legacy_origin \<Rightarrow> turn_origin" where
  "resolveTurnOrigin origin i =
     (let hasLegacy = (lo_triggered i = Some True \<or> lo_unprompted i = Some True \<or> lo_liveActor i = Some True) in
      case origin of
        None \<Rightarrow> normalizeTurnOrigin i
      | Some typed \<Rightarrow>
          (if \<not> hasLegacy then typed
           else let legacy = normalizeTurnOrigin i in
             if originRank typed \<noteq> originRank legacy
             then (if originRank typed > originRank legacy then typed else legacy)
             else mergeOrigin typed legacy))"

fun turnOriginRequestFields :: "turn_origin \<Rightarrow> legacy_origin" where
  "turnOriginRequestFields (OHuman m e) =
     noLegacy\<lparr>lo_liveActor := Some True, lo_triggerTs := nonempty m, lo_entryTs := nonempty e\<rparr>"
| "turnOriginRequestFields (OAmbient e l) =
     noLegacy\<lparr>lo_unprompted := Some True, lo_entryTs := nonempty e, lo_liveActor := flag l\<rparr>"
| "turnOriginRequestFields (OAutomation s d k) =
     noLegacy\<lparr>lo_triggered := Some True, lo_securityScreenData := s, lo_triggerDestination := d, lo_ownerKeychainUnion := flag k\<rparr>"
| "turnOriginRequestFields ODirect = noLegacy"

subsection \<open>The answer of a run\<close>

record panel_info =
  pi_persona :: "string \<times> string"
  pi_continuation :: bool

record turn_request =
  tq_surface :: string
  tq_deliveryTarget :: "string option"
  tq_origin :: "turn_origin option"
  tq_legacy :: legacy_origin
  tq_panel :: "panel_info option"
  tq_surfaceTools :: bool
  tq_addressed :: bool

definition PERSONA_IDENTITY_PREFIX :: string where
  "PERSONA_IDENTITY_PREFIX = ''persona:''"

definition personaPostIdentity :: "string \<Rightarrow> string" where
  "personaPostIdentity i = PERSONA_IDENTITY_PREFIX @ i"

definition personaIdFromIdentity :: "string option \<Rightarrow> string option" where
  "personaIdFromIdentity identity =
     (case identity of
        None \<Rightarrow> None
      | Some s \<Rightarrow> if \<not> starts_with PERSONA_IDENTITY_PREFIX s then None
                  else nonempty (Some (drop (length PERSONA_IDENTITY_PREFIX) s)))"

definition SECURITY_QUARANTINE_REFUSAL_TEXT :: string where
  "SECURITY_QUARANTINE_REFUSAL_TEXT =
     ''I couldn't act because my security screen flagged part of this message or its conversation context. Please retry without the flagged context, or ask an admin to review the quarantine.''"

definition WARNING_SIGN :: string where
  "WARNING_SIGN = [CHR 0x81, CHR 0x8D]"

fun taskStatusName :: "task_status \<Rightarrow> string" where
  "taskStatusName TaskPending = ''pending''"
| "taskStatusName TaskInProgress = ''in_progress''"
| "taskStatusName TaskCompleted = ''completed''"
| "taskStatusName TaskSkipped = ''skipped''"
| "taskStatusName TaskFailed = ''failed''"

definition taskJson :: "task \<Rightarrow> json" where
  "taskJson t = JObj [(''id'', JStr (tk_id t)), (''title'', JStr (tk_title t)), (''status'', JStr (taskStatusName (tk_status t)))]"

definition resultDestination :: "turn_request run \<Rightarrow> task list \<Rightarrow> string \<Rightarrow> destination" where
  "resultDestination run taskList target =
     (let q = r_request run;
          editRef = (case r_deliveryState run of None \<Rightarrow> None | Some e \<Rightarrow> nonempty e);
          author = (case tq_panel q of Some p \<Rightarrow> if pi_continuation p then nonempty (Some (fst (pi_persona p))) else None | None \<Rightarrow> None)
      in \<lparr>d_type = tq_surface q, d_target = target, d_audienceScopeId = None,
          d_rest = (case editRef of None \<Rightarrow> [] | Some e \<Rightarrow> [(''editRef'', JStr e)]) @
                   (if taskList \<noteq> [] then [(''taskList'', JArr (map taskJson taskList))] else []) @
                   (case author of
                      Some a \<Rightarrow> if tq_surface q = ''slack'' then [(''identity'', JStr (personaPostIdentity a))] else []
                    | None \<Rightarrow> [])\<rparr>)"

definition resultKey :: "turn_request run \<Rightarrow> string" where
  "resultKey run = ''run:'' @ r_id run"

definition attached :: "turn_result option \<Rightarrow> bool" where
  "attached res = (case Option.bind res tr_attachments of Some (a # as) \<Rightarrow> True | _ \<Rightarrow> False)"

definition resultStatus :: "turn_result option \<Rightarrow> turn_status option" where
  "resultStatus res = map_option tr_status res"

text \<open>A persona that was quiet: \<open>PASS\<close>, a silent result, or no text.\<close>

definition panelQuietResult :: "turn_request run \<Rightarrow> bool" where
  "panelQuietResult run =
     (let res = r_result run; reply = Option.bind res tr_reply in
      tq_panel (r_request run) \<noteq> None \<and> \<not> attached res \<and> r_status run \<noteq> Failed \<and> resultStatus res \<noteq> Some TFailed \<and>
      resultStatus res \<noteq> Some TRefused \<and>
      (resultStatus res = Some TSilent \<or> isPanelPass reply \<or> js_trim (case reply of None \<Rightarrow> [] | Some r \<Rightarrow> r) = []))"

definition runResultDelivery :: "turn_request run \<Rightarrow> task list \<Rightarrow> delivery_input option" where
  "runResultDelivery run taskList =
     (let q = r_request run; res = r_result run in
      if \<not> truthy (tq_deliveryTarget q) \<or> tq_surface q = [] then None
      else
        let say = (\<lambda>body att. Some \<lparr>di_destination = resultDestination run taskList (the (tq_deliveryTarget q)), di_text = body,
                     di_attachments = att, di_provenance = None, di_idempotencyKey = resultKey run, di_shadow = False\<rparr>)
        in if tq_surface q = ''slack'' \<and> resultStatus res = Some TRefused \<and>
              Option.bind res tr_refusalKind = Some ''security_quarantine'' \<and> tq_addressed q
           then say SECURITY_QUARANTINE_REFUSAL_TEXT None
           else if panelQuietResult run then None
           else if tq_surfaceTools q \<and> resultStatus res \<noteq> Some TFailed \<and> \<not> attached res then None
           else if r_status run = Failed
           then (if originRank (resolveTurnOrigin (tq_origin q) (tq_legacy q)) = 2 then None
                 else say (WARNING_SIGN @ '' I couldn't finish that turn: '' @
                           (case Option.bind res tr_reason of None \<Rightarrow> ''unknown error'' | Some r \<Rightarrow> r)) None)
           else if resultStatus res = Some TOk \<and> (truthy (Option.bind res tr_reply) \<or> attached res)
           then say (case Option.bind res tr_reply of None \<Rightarrow> [] | Some r \<Rightarrow> r)
                  (if attached res then Option.bind res tr_attachments else None)
           else None)"

text \<open>
  The listener of \<open>onTerminal\<close>: it is called with each run that settles, reads the tasks of the run, and then enqueues what
  \<open>runResultDelivery\<close> gives for the run as it is at that moment (the run object is shared with the store).
\<close>

definition originRunFilter :: "string \<Rightarrow> task_filter" where
  "originRunFilter i = \<lparr>tf_sessionId = None, tf_originRunId = Some i, tf_statuses = None\<rparr>"

record answer_sys =
  an_runs :: "turn_request run_store"
  an_tasks :: task_store
  an_deliveries :: delivery_store
  an_waiting :: "(string \<times> task list option) list"
  an_finished :: "(string \<times> delivery_input option) list"

definition wireRunResultDeliveries :: "turn_request run_store \<Rightarrow> task_store \<Rightarrow> delivery_store \<Rightarrow> answer_sys" where
  "wireRunResultDeliveries runs tasks deliveries =
     \<lparr>an_runs = runs, an_tasks = tasks, an_deliveries = deliveries, an_waiting = [], an_finished = []\<rparr>"

definition runsMoved :: "turn_request run_store \<Rightarrow> answer_sys \<Rightarrow> answer_sys" where
  "runsMoved runs' s =
     s\<lparr>an_runs := runs',
       an_waiting := an_waiting s @ map (\<lambda>r. (r_id r, None)) (drop (length (rs_settled (an_runs s))) (rs_settled runs'))\<rparr>"

definition listenerReads :: "(string \<Rightarrow> string \<Rightarrow> bool) \<Rightarrow> nat \<Rightarrow> answer_sys \<Rightarrow> answer_sys" where
  "listenerReads collate k s =
     (let i = fst (an_waiting s ! k)
      in s\<lparr>an_waiting := (an_waiting s)[k := (i, Some (task_list collate (originRunFilter i) (an_tasks s)))]\<rparr>)"

definition listenerEnqueues :: "string \<Rightarrow> millis \<Rightarrow> nat \<Rightarrow> turn_request run \<Rightarrow> task list \<Rightarrow> answer_sys \<Rightarrow> answer_sys" where
  "listenerEnqueues uuid now k r taskList s =
     (let out = runResultDelivery r taskList;
          s1 = s\<lparr>an_waiting := take k (an_waiting s) @ drop (Suc k) (an_waiting s),
                 an_finished := an_finished s @ [(r_id r, out)]\<rparr>
      in case out of
           None \<Rightarrow> s1
         | Some inp \<Rightarrow> s1\<lparr>an_deliveries := snd (delivery_enqueue uuid now inp (an_deliveries s))\<rparr>)"

inductive answer_step :: "answer_sys \<Rightarrow> answer_sys \<Rightarrow> bool" where
  answer_runs: "run_step (an_runs s) runs' \<Longrightarrow> answer_step s (runsMoved runs' s)"
| answer_tasks: "task_step (an_tasks s) t \<Longrightarrow> answer_step s (s\<lparr>an_tasks := t\<rparr>)"
| answer_deliveries: "delivery_step (an_deliveries s) d \<Longrightarrow> answer_step s (s\<lparr>an_deliveries := d\<rparr>)"
| answer_reads: "k < length (an_waiting s) \<Longrightarrow> snd (an_waiting s ! k) = None \<Longrightarrow> answer_step s (listenerReads collate k s)"
| answer_enqueues:
    "k < length (an_waiting s) \<Longrightarrow> an_waiting s ! k = (i, Some taskList) \<Longrightarrow> get_run (an_runs s) i = Some r \<Longrightarrow> uuid \<noteq> [] \<Longrightarrow>
     getDelivery uuid (an_deliveries s) = None \<Longrightarrow> answer_step s (listenerEnqueues uuid now k r taskList s)"

subsection \<open>Every run that ends is settled once\<close>

definition settled_once :: "'q run_store \<Rightarrow> bool" where
  "settled_once s \<longleftrightarrow>
     distinct (map r_id (rs_settled s)) \<and>
     set (map r_id (rs_settled s)) = {i. \<exists>r. get_run s i = Some r \<and> isTerminal (r_status r)}"

text \<open>The settled runs of a store grow by the runs that end.\<close>

definition settles_on :: "'q run_store \<Rightarrow> 'q run_store \<Rightarrow> bool" where
  "settles_on s t \<longleftrightarrow> (\<exists>new. rs_settled t = rs_settled s @ new)"

lemma settled_put_run [simp]: "rs_settled (put_run r s) = rs_settled s"
  by (simp add: put_run_def)

lemma settles_on_refl: "settles_on s s"
  by (simp add: settles_on_def)

lemma settles_on_trans: "settles_on s t \<Longrightarrow> settles_on t u \<Longrightarrow> settles_on s u"
  by (force simp: settles_on_def)

lemma settled_keeps:
  assumes "settled_once s" "get_run s (r_id r') = Some r \<or> get_run s (r_id r') = None \<and> \<not> isTerminal (r_status r')"
    "get_run s (r_id r') = Some r \<Longrightarrow> isTerminal (r_status r') = isTerminal (r_status r)"
  shows "settled_once (put_run r' s) \<and> settles_on s (put_run r' s)"
  using assms by (auto simp: settled_once_def settles_on_def)

lemma settled_ends:
  assumes "settled_once s" "get_run s (r_id r') = Some r" "\<not> isTerminal (r_status r)" "isTerminal (r_status r')"
  shows "settled_once (settle r' (put_run r' s)) \<and> settles_on s (settle r' (put_run r' s))"
proof -
  have "r_id r' \<notin> set (map r_id (rs_settled s))" using assms(1-3) by (simp only: settled_once_def) auto
  moreover have "get_run (settle r' (put_run r' s)) i = (if i = r_id r' then Some r' else get_run s i)" for i by simp
  moreover have "rs_settled (settle r' (put_run r' s)) = rs_settled s @ [r']" using assms(4) by (simp add: settle_def)
  ultimately show ?thesis using assms unfolding settled_once_def settles_on_def by auto
qed

abbreviation settle_good :: "'q run_store \<Rightarrow> 'q run_store \<Rightarrow> bool" where
  "settle_good s t \<equiv> settled_once t \<and> settles_on s t"

lemma settled_retire:
  assumes "run_inv s" "settled_once s" "get_run s (r_id r) = Some r"
  shows "settle_good s (snd (retire now r err retry ife cae s))"
  using assms(1,3)
proof (cases rule: retire_cases [where now = now and err = err and retry = retry and ife = ife and cae = cae])
  case skip
  then show ?thesis using assms(2) by (simp add: settles_on_refl)
next
  case (requeue r')
  then show ?thesis using settled_keeps [OF assms(2), of r' r] assms(3) by (simp add: isTerminal_def)
next
  case (park r')
  then show ?thesis using settled_ends [OF assms(2), of r' r] assms(3) by (simp add: isTerminal_def)
qed

lemma settled_reapOne:
  assumes "run_inv (rp_store st)" "settled_once (rp_store st)"
  shows "settle_good (rp_store st) (rp_store (reapOne now maxAge i st))"
  using settled_retire [OF assms] run_invD(1) [OF assms(1)] assms(2)
  by (auto simp: reapOne_def Let_def case_prod_unfold settles_on_refl split: option.split)

lemma settled_reap_fold:
  "run_inv (rp_store st) \<Longrightarrow> settled_once (rp_store st) \<Longrightarrow> settle_good (rp_store st) (rp_store (fold (reapOne now maxAge) is st))"
proof (induction "is" arbitrary: st)
  case (Cons i "is")
  let ?st = "reapOne now maxAge i st"
  have "settle_good (rp_store st) (rp_store ?st)" using Cons.prems by (rule settled_reapOne)
  with Cons.IH [of ?st] run_inv_reapOne [OF Cons.prems(1)] show ?case by (auto intro: settles_on_trans)
qed (simp add: settles_on_refl)

lemma settled_lease:
  assumes "settled_once s" "get_run s (r_id r) = Some r" "r_status r = Pending"
  shows "settle_good s (put_run (lease_run uuid now w ttl r) s)"
  using settled_keeps [OF assms(1), of "lease_run uuid now w ttl r" r] assms(2,3) by (simp add: isTerminal_def)

lemma settled_enqueue:
  assumes "settled_once s" "get_run s uuid = None"
  shows "settle_good s (snd (enqueue uuid now inp s))"
proof (cases "findByDedupKey s (ei_dedupKey inp)")
  case None
  let ?r = "newRun uuid now inp" and ?s = "snd (enqueue uuid now inp s)"
  have "settle_good s (put_run ?r s)"
    using settled_keeps [OF assms(1), of ?r] assms(2) by (simp add: newRun_def isTerminal_def)
  moreover have "get_run ?s = get_run (put_run ?r s)" "rs_settled ?s = rs_settled (put_run ?r s)"
    using None by (auto simp: enqueue_def Let_def get_run_def)
  ultimately show ?thesis by (simp add: settled_once_def settles_on_def)
qed (use assms in \<open>simp add: enqueue_def settles_on_refl\<close>)

lemma settled_ops:
  assumes inv: "run_inv s" and once: "settled_once s"
  shows "settle_good s (snd (claimById uuid now i w ttl s))" "settle_good s (snd (heartbeat now i tok ttl s))"
    "settle_good s (snd (releaseRunLease i tok s))" "settle_good s (snd (complete now i tok res s))"
    "settle_good s (snd (fail now i tok err retry s))" "settle_good s (snd (setDeliveryState i otok st s))"
proof -
  note d = run_invD [OF inv] and refl = settles_on_refl [of s]
  note put = settled_keeps [OF once] settled_ends [OF once]
  show "settle_good s (snd (claimById uuid now i w ttl s))"
    using settled_lease [OF once] d(1) [of i] once refl
    by (auto simp: claimById_def claimable_def Let_def split: option.split)
  show "settle_good s (snd (heartbeat now i tok ttl s))" "settle_good s (snd (releaseRunLease i tok s))"
    "settle_good s (snd (setDeliveryState i otok st s))"
    using d(1) [of i] once refl
    by (auto simp: heartbeat_def releaseRunLease_def setDeliveryState_def isTerminal_def split: option.split intro!: put)
  show "settle_good s (snd (complete now i tok res s))"
    using d(1,3) [of i] once refl put(2)
    by (auto simp: complete_def Let_def isTerminal_def run_wf_def split: option.split)
  show "settle_good s (snd (fail now i tok err retry s))"
    using settled_retire [OF inv once] d(1) [of i] once refl
    by (auto simp: fail_def case_prod_unfold split: option.split)
qed

lemma run_step_settles: "run_step s t \<Longrightarrow> run_inv s \<Longrightarrow> settled_once s \<Longrightarrow> settle_good s t"
proof (induction rule: run_step.induct)
  case (step_claim s uuid now w ttl)
  show ?case
    using step_claim(1)
  proof (cases rule: claim_cases [where uuid = uuid and now = now and w = w and ttl = ttl])
    case none
    then show ?thesis using step_claim(2) by (simp add: settles_on_refl)
  next
    case (some r)
    then show ?thesis using settled_lease [OF step_claim(2), of r] by (simp add: claimable_def)
  qed
next
  case (step_reap s now maxAge)
  then show ?case unfolding reapExpired_def
    using settled_reap_fold [of "\<lparr>rp_store = s, rp_requeued = 0, rp_parked = 0, rp_sessions = [], rp_events = []\<rparr>"] by simp
qed (simp_all add: settled_enqueue settled_ops)

interpretation settling: step_preorder run_step "\<lambda>s. run_inv s \<and> settled_once s" settles_on
  by unfold_locales (auto intro: settles_on_refl settles_on_trans run_step_inv dest: run_step_settles)

lemma settled_once_init: "settled_once (createMemoryRunStore m)"
  by (simp add: settled_once_def createMemoryRunStore_def get_run_def)

subsection \<open>Every answer is delivered once\<close>

lemma runResultDelivery_key: "runResultDelivery r taskList = Some inp \<Longrightarrow> di_idempotencyKey inp = resultKey r"
  by (auto simp: runResultDelivery_def Let_def split: if_splits)

text \<open>
  The listener is called once for each run that has ended: it is either waiting or finished. What it enqueued is filed under the key of
  the run.
\<close>

definition filed :: "delivery_store \<Rightarrow> string \<Rightarrow> bool" where
  "filed st key \<longleftrightarrow> (\<exists>j d. getDelivery j st = Some d \<and> dv_idempotencyKey d = key)"

lemma filed_le: "delivery_le st st' \<Longrightarrow> filed st key \<Longrightarrow> filed st' key"
  unfolding delivery_le_def filed_def by metis

definition answer_inv :: "answer_sys \<Rightarrow> bool" where
  "answer_inv s \<longleftrightarrow>
     run_inv (an_runs s) \<and> settled_once (an_runs s) \<and> delivery_ok (an_deliveries s) \<and>
     mset (map fst (an_waiting s)) + mset (map fst (an_finished s)) = mset (map r_id (rs_settled (an_runs s))) \<and>
     (\<forall>x \<in> set (an_finished s). snd x \<noteq> None \<longrightarrow> filed (an_deliveries s) (''run:'' @ fst x))"

lemma answer_inv_runs:
  assumes "run_step (an_runs s) runs'" "answer_inv s"
  shows "answer_inv (runsMoved runs' s)"
proof -
  obtain new where new: "rs_settled runs' = rs_settled (an_runs s) @ new"
    using run_step_settles [OF assms(1)] assms(2) by (auto simp: answer_inv_def settles_on_def)
  then show ?thesis
    using assms(2) run_step_inv [OF assms(1)] run_step_settles [OF assms(1)]
    by (simp add: answer_inv_def runsMoved_def comp_def)
qed

lemma answer_inv_deliveries:
  assumes "answer_inv s" "delivery_ok d" "delivery_le (an_deliveries s) d"
  shows "answer_inv (s\<lparr>an_deliveries := d\<rparr>)"
  using assms(1,2) filed_le [OF assms(3)] by (simp add: answer_inv_def)

lemma enqueue_files:
  assumes ok: "delivery_ok st"
  shows "filed (snd (delivery_enqueue uuid now inp st)) (di_idempotencyKey inp)"
proof (cases "existingFor (di_idempotencyKey inp) st")
  case None
  then show ?thesis unfolding filed_def
    by (intro exI [of _ uuid] exI [of _ "newDelivery uuid now inp"])
      (simp add: delivery_enqueue_def Let_def newDelivery_def)
next
  case (Some i)
  then show ?thesis using existingFor_ok(2) [OF ok Some] by (auto simp: delivery_enqueue_def filed_def)
qed

lemma mset_remove_at:
  assumes "k < length xs"
  shows "mset (take k xs @ drop (Suc k) xs) + {#xs ! k#} = mset xs"
proof -
  have "mset xs = mset (take k xs @ xs ! k # drop (Suc k) xs)" using id_take_nth_drop [OF assms] by simp
  then show ?thesis by simp
qed

lemma answer_inv_listener:
  assumes "answer_inv s" "mset (jm_keys w) + mset (jm_keys f) = mset (jm_keys (an_waiting s)) + mset (jm_keys (an_finished s))"
    "\<forall>x \<in> set f. snd x \<noteq> None \<longrightarrow> filed (an_deliveries s) (''run:'' @ fst x)"
  shows "answer_inv (s\<lparr>an_waiting := w, an_finished := f\<rparr>)"
  using assms unfolding answer_inv_def by simp

lemma answer_inv_enqueues:
  assumes inv: "answer_inv s" and k: "k < length (an_waiting s)" "an_waiting s ! k = (r_id r, Some taskList)"
    and fresh: "uuid \<noteq> []" "getDelivery uuid (an_deliveries s) = None"
  shows "answer_inv (listenerEnqueues uuid now k r taskList s)"
proof -
  let ?out = "runResultDelivery r taskList"
  let ?d = "case ?out of None \<Rightarrow> an_deliveries s | Some inp \<Rightarrow> snd (delivery_enqueue uuid now inp (an_deliveries s))"
  let ?w = "take k (an_waiting s) @ drop (Suc k) (an_waiting s)"
  let ?f = "an_finished s @ [(r_id r, ?out)]"
  have eq: "listenerEnqueues uuid now k r taskList s = s\<lparr>an_deliveries := ?d, an_waiting := ?w, an_finished := ?f\<rparr>"
    by (simp add: listenerEnqueues_def Let_def split: option.split)
  have ok: "delivery_ok (an_deliveries s)" using inv by (simp add: answer_inv_def)
  have "delivery_ok ?d" "delivery_le (an_deliveries s) ?d"
    using enqueue_ok [OF ok fresh] ok by (simp_all add: delivery_le_refl split: option.split)
  then have d: "answer_inv (s\<lparr>an_deliveries := ?d\<rparr>)" using inv by (rule answer_inv_deliveries [rotated])
  have "mset (jm_keys ?w) + mset (jm_keys ?f) = mset (jm_keys (an_waiting s)) + mset (jm_keys (an_finished s))"
  proof -
    have "image_mset fst (mset ?w + {#an_waiting s ! k#}) = image_mset fst (mset (an_waiting s))"
      using mset_remove_at [OF k(1)] by simp
    then show ?thesis using k(2) by (simp add: ac_simps)
  qed
  moreover have "\<forall>x \<in> set ?f. snd x \<noteq> None \<longrightarrow> filed ?d (''run:'' @ fst x)"
  proof -
    have "filed ?d (''run:'' @ r_id r)" if "?out = Some inp" for inp
      using that enqueue_files [OF ok, of uuid now inp] runResultDelivery_key [of r taskList inp] by (simp add: resultKey_def)
    moreover have "\<forall>x \<in> set (an_finished s). snd x \<noteq> None \<longrightarrow> filed ?d (''run:'' @ fst x)"
      using d by (simp add: answer_inv_def)
    ultimately show ?thesis by auto
  qed
  ultimately show ?thesis using answer_inv_listener [OF d, of ?w ?f] unfolding eq by simp
qed

lemma answer_step_inv: "answer_step s t \<Longrightarrow> answer_inv s \<Longrightarrow> answer_inv t"
proof (induction rule: answer_step.induct)
  case (answer_tasks s t)
  then show ?case by (simp add: answer_inv_def)
next
  case (answer_deliveries s d)
  have ok: "delivery_ok (an_deliveries s)" using answer_deliveries(2) by (simp add: answer_inv_def)
  show ?case
    using answer_inv_deliveries [OF answer_deliveries(2)] deliveries.step_inv [OF ok answer_deliveries(1)]
      deliveries.step_R [OF ok answer_deliveries(1)] by blast
next
  case (answer_reads k s collate)
  have "jm_keys ((an_waiting s)[k := (fst (an_waiting s ! k), z)]) = jm_keys (an_waiting s)" for z
    using answer_reads(1) by (metis list_update_id map_update fst_conv nth_map)
  then show ?case using answer_reads(3) by (simp add: answer_inv_def listenerReads_def Let_def)
next
  case (answer_enqueues k s i taskList r uuid now)
  have "r_id r = i" using answer_enqueues(3,6) run_invD(1) [of "an_runs s" i r] by (simp add: answer_inv_def)
  then show ?case using answer_inv_enqueues answer_enqueues by simp
qed (rule answer_inv_runs)

interpretation answers: step_system answer_step answer_inv
  by unfold_locales (rule answer_step_inv)

lemma answer_inv_start:
  "answer_inv (wireRunResultDeliveries (createMemoryRunStore m) tasks createDeliveryStore)"
  by (simp add: answer_inv_def wireRunResultDeliveries_def run_inv_init settled_once_init delivery_ok_start)
    (simp add: createMemoryRunStore_def)

lemma filed_unique:
  assumes ok: "delivery_ok st" and "filed st key"
  shows "\<exists>!d. d \<in> set (jm_values (ds_deliveries st)) \<and> dv_idempotencyKey d = key"
proof -
  obtain i d where d: "getDelivery i st = Some d" "dv_idempotencyKey d = key" using assms(2) by (auto simp: filed_def)
  have "jm_ok (ds_deliveries st)" using ok by (simp add: delivery_ok_def)
  then have vals: "x \<in> set (jm_values (ds_deliveries st)) \<longleftrightarrow> (\<exists>j. getDelivery j st = Some x)" for x
    unfolding getDelivery_def by (metis jm_values_iff)
  have "x = d" if "getDelivery j st = Some x" "dv_idempotencyKey x = key" for x j
    using delivery_okD(3) [OF ok that(1)] delivery_okD(3) [OF ok d(1)] that d by simp
  then show ?thesis using d vals by blast
qed

text \<open>
  C29. However runs, tasks and deliveries interleave, the answer of a run is prepared once and sent once: the listener is called exactly
  once for every run that has ended and for no other; when it has finished with something to say, exactly one delivery carries the key of
  the run; and as soon as that delivery counts as delivered (also because the surface acknowledged the key itself), no claim ever returns it.\<close>

theorem answer_is_delivered_once:
  assumes "answer_step\<^sup>*\<^sup>* (wireRunResultDeliveries (createMemoryRunStore m) tasks createDeliveryStore) s"
  shows "count (mset (map fst (an_waiting s)) + mset (map fst (an_finished s))) i =
       (if \<exists>r. get_run (an_runs s) i = Some r \<and> isTerminal (r_status r) then 1 else 0) \<and>
     ((i, Some inp) \<in> set (an_finished s) \<longrightarrow>
        (\<exists>!d. d \<in> set (jm_values (ds_deliveries (an_deliveries s))) \<and> dv_idempotencyKey d = ''run:'' @ i)) \<and>
     (\<forall>d \<in> set (jm_values (ds_deliveries (an_deliveries s))). dv_deliveredAt d \<noteq> None \<longrightarrow>
        (\<forall>x \<in> set (fst (claimPending now ty ttl (an_deliveries s))). dv_idempotencyKey x \<noteq> dv_idempotencyKey d))"
proof (intro conjI impI ballI)
  have inv: "answer_inv s" using answers.steps_inv [OF assms answer_inv_start] .
  then have once: "settled_once (an_runs s)" and ok: "delivery_ok (an_deliveries s)" by (simp_all add: answer_inv_def)
  let ?ids = "map r_id (rs_settled (an_runs s))"
  have "count (mset ?ids) i = (if i \<in> set ?ids then 1 else 0)"
    using once distinct_count_atmost_1 [of ?ids] unfolding settled_once_def by blast
  then show "count (mset (map fst (an_waiting s)) + mset (map fst (an_finished s))) i =
       (if \<exists>r. get_run (an_runs s) i = Some r \<and> isTerminal (r_status r) then 1 else 0)"
    using inv once unfolding answer_inv_def settled_once_def by simp
  show "\<exists>!d. d \<in> set (jm_values (ds_deliveries (an_deliveries s))) \<and> dv_idempotencyKey d = ''run:'' @ i"
    if "(i, Some inp) \<in> set (an_finished s)"
    using inv that by (intro filed_unique [OF ok]) (auto simp: answer_inv_def)
  show "dv_idempotencyKey x \<noteq> dv_idempotencyKey d"
    if "d \<in> set (jm_values (ds_deliveries (an_deliveries s)))" "dv_deliveredAt d \<noteq> None"
      "x \<in> set (fst (claimPending now ty ttl (an_deliveries s)))" for d x
  proof
    assume k: "dv_idempotencyKey x = dv_idempotencyKey d"
    have x: "x \<in> set (jm_values (ds_deliveries (an_deliveries s)))" "dv_deliveredAt x = None"
      using that(3) by (auto simp: claimPending_def Let_def isPending_def)
    have "filed (an_deliveries s) (dv_idempotencyKey d)"
      using that(1) ok unfolding filed_def getDelivery_def by (metis delivery_ok_def jm_values_iff)
    from filed_unique [OF ok this] have "x = d" using x(1) that(1) k by blast
    then show False using x(2) that(2) by simp
  qed
qed

definition ex_request :: turn_request where
  "ex_request =
     \<lparr>tq_surface = ''slack'', tq_deliveryTarget = Some ''C1'', tq_origin = Some (OHuman None None), tq_legacy = noLegacy,
      tq_panel = None, tq_surfaceTools = False, tq_addressed = True\<rparr>"

definition ex_answer_input :: "turn_request enqueue_input" where
  "ex_answer_input = \<lparr>ei_sessionId = ''s'', ei_request = ex_request, ei_dedupKey = None, ei_maxAttempts = None\<rparr>"

definition ex_reply :: turn_result where
  "ex_reply = \<lparr>tr_status = TOk, tr_sessionId = Some ''s'', tr_reply = Some ''hi'', tr_reason = None, tr_refusalKind = None, tr_attachments = None\<rparr>"

definition ex_runs1 :: "turn_request run_store" where
  "ex_runs1 = snd (enqueue ''r'' 0 ex_answer_input (createMemoryRunStore None))"

definition ex_runs2 :: "turn_request run_store" where
  "ex_runs2 = snd (claim ''t'' 1 ''w'' 100 ex_runs1)"

definition ex_runs3 :: "turn_request run_store" where
  "ex_runs3 = snd (complete 2 ''r'' ''t'' ex_reply ex_runs2)"

definition ex_answer0 :: answer_sys where
  "ex_answer0 = wireRunResultDeliveries (createMemoryRunStore None) createMemoryTaskStore createDeliveryStore"

definition ex_answer3 :: answer_sys where
  "ex_answer3 = runsMoved ex_runs3 (runsMoved ex_runs2 (runsMoved ex_runs1 ex_answer0))"

definition ex_answer4 :: answer_sys where
  "ex_answer4 = listenerReads (\<lambda>a b. False) 0 ex_answer3"

definition ex_answer5 :: answer_sys where
  "ex_answer5 = listenerEnqueues ''d'' 3 0 (the (get_run (an_runs ex_answer4) ''r'')) [] ex_answer4"

lemma ex_answer_reachable: "answer_step\<^sup>*\<^sup>* ex_answer0 ex_answer5"
proof -
  let ?a1 = "runsMoved ex_runs1 ex_answer0" and ?a2 = "runsMoved ex_runs2 (runsMoved ex_runs1 ex_answer0)"
  have "an_runs ex_answer0 = createMemoryRunStore None" by (simp add: ex_answer0_def wireRunResultDeliveries_def)
  then have "run_step (an_runs ex_answer0) ex_runs1"
    unfolding ex_runs1_def by (simp add: step_enqueue createMemoryRunStore_def get_run_def)
  then have s1: "answer_step ex_answer0 ?a1" by (rule answer_runs)
  have "run_step (an_runs ?a1) ex_runs2" using run_step.step_claim [of ex_runs1] by (simp add: runsMoved_def ex_runs2_def)
  then have s2: "answer_step ?a1 ?a2" by (rule answer_runs)
  have "run_step (an_runs ?a2) ex_runs3" using run_step.step_complete [of ex_runs2] by (simp add: runsMoved_def ex_runs3_def)
  then have s3: "answer_step ?a2 ex_answer3" unfolding ex_answer3_def by (rule answer_runs)
  have "an_waiting ex_answer3 = [(''r'', None)]" by code_simp
  then have s4: "answer_step ex_answer3 ex_answer4" unfolding ex_answer4_def by (intro answer_reads) simp_all
  have "an_waiting ex_answer4 = [(''r'', Some [])]" "get_run (an_runs ex_answer4) ''r'' \<noteq> None"
    "getDelivery ''d'' (an_deliveries ex_answer4) = None"
    by code_simp+
  then have s5: "answer_step ex_answer4 ex_answer5"
    unfolding ex_answer5_def by (intro answer_enqueues [where i = "''r''"]) simp_all
  from s1 s2 s3 s4 s5 show ?thesis by (meson converse_rtranclp_into_rtranclp rtranclp.rtrancl_refl)
qed

theorem answer_is_delivered_once_witness:
  "count (mset (map fst (an_waiting ex_answer5)) + mset (map fst (an_finished ex_answer5))) ''r'' = 1 \<and>
   (\<exists>!d. d \<in> set (jm_values (ds_deliveries (an_deliveries ex_answer5))) \<and> dv_idempotencyKey d = ''run:r'')"
proof -
  note once = answer_is_delivered_once [OF ex_answer_reachable [unfolded ex_answer0_def], of "''r''"]
  have t: "\<exists>r. get_run (an_runs ex_answer5) ''r'' = Some r \<and> isTerminal (r_status r)"
    by (intro exI [of _ "the (get_run (an_runs ex_answer5) ''r'')"]) code_simp
  have "list_ex (\<lambda>x. fst x = ''r'' \<and> snd x \<noteq> None) (an_finished ex_answer5)" by code_simp
  then obtain inp where "(''r'', Some inp) \<in> set (an_finished ex_answer5)" by (auto simp: list_ex_iff)
  then show ?thesis using once [of inp] t by simp
qed

subsection \<open>Origins keep what they say\<close>

text \<open>An origin as the code builds it: no empty time stamps, and flags that are absent or true.\<close>

fun origin_ok :: "turn_origin \<Rightarrow> bool" where
  "origin_ok (OHuman m e) = (m \<noteq> Some [] \<and> e \<noteq> Some [])"
| "origin_ok (OAmbient e l) = (e \<noteq> Some [] \<and> l \<noteq> Some False)"
| "origin_ok (OAutomation s d k) = (k \<noteq> Some False)"
| "origin_ok ODirect = True"

lemma nonempty_id [simp]: "s \<noteq> Some [] \<Longrightarrow> nonempty s = s"
  by (cases s) (auto simp: nonempty_def)

lemma nonempty_full [simp]: "nonempty s \<noteq> Some []"
  by (auto simp: nonempty_def)

lemma flag_id [simp]: "b \<noteq> Some False \<Longrightarrow> flag b = b"
  by (cases b) (auto simp: flag_def)

lemma merge_same [simp]: "mergeScreenData a a = a" "orElse b b = b"
  by (simp_all add: mergeScreenData_def orElse_def split: option.split)

text \<open>
  The typed origin of a turn and its legacy fields say the same: writing an origin to the fields and reading them back gives that
  origin, also when the request carries the typed origin beside them, and reading any fields gives an origin of this form.\<close>

theorem turn_origin_roundtrip:
  assumes "origin_ok x"
  shows "resolveTurnOrigin None (turnOriginRequestFields x) = x \<and> resolveTurnOrigin (Some x) (turnOriginRequestFields x) = x \<and>
    origin_ok (resolveTurnOrigin None i)"
proof -
  have read: "normalizeTurnOrigin (turnOriginRequestFields x) = x"
    using assms by (cases x) (simp_all add: normalizeTurnOrigin_def noLegacy_def)
  have "mergeOrigin x x = x"
    using assms by (cases x) (simp_all add: flag_def [symmetric])
  moreover have "origin_ok (normalizeTurnOrigin i)"
    by (simp add: normalizeTurnOrigin_def flag_def)
  ultimately show ?thesis using read by (simp add: resolveTurnOrigin_def Let_def)
qed

fun usesOwnerKeychain :: "turn_origin \<Rightarrow> bool" where
  "usesOwnerKeychain (OAutomation s d k) = (k = Some True)"
| "usesOwnerKeychain x = False"

fun screenDataOf :: "turn_origin \<Rightarrow> string option" where
  "screenDataOf (OAutomation s d k) = s"
| "screenDataOf x = None"

text \<open>The text is a part of the data.\<close>

definition shown :: "string \<Rightarrow> string option \<Rightarrow> bool" where
  "shown t s = (\<exists>u v. s = Some (u @ t @ v))"

lemma shownI: "shown t (Some (u @ t @ v))"
  by (auto simp: shown_def)

lemma shown_self [simp]: "shown t (Some t)"
  using shownI [of t "[]" "[]"] by simp

lemma merged_screen [simp]: "shown t (mergeScreenData (Some t) b)" "shown t (mergeScreenData a (Some t))"
proof -
  have first: "shown x (Some (p @ n @ x @ nn @ q @ n @ y))" and second: "shown y (Some (p @ n @ x @ nn @ q @ n @ y))" for x y p n nn q
    using shownI [of x "p @ n"] shownI [of y "p @ n @ x @ nn @ q @ n" "[]"] by simp_all
  show "shown t (mergeScreenData (Some t) b)" unfolding mergeScreenData_def
    by (cases b) (simp_all only: option.case shown_self first split: if_split, blast)
  show "shown t (mergeScreenData a (Some t))" unfolding mergeScreenData_def
    by (cases a) (simp_all only: option.case shown_self second split: if_split, simp)
qed

text \<open>
  A request that carries both forms is never treated as more trusted than either says: the resolved origin has the higher of the two
  ranks, it opens the keychain of an owner only where one of the forms that name an automation asked for it, and the security screen sees
  the data of both forms.\<close>

theorem mixed_origin_is_not_relaxed:
  fixes i :: legacy_origin
  assumes "r = resolveTurnOrigin (Some typed) i" "legacy = normalizeTurnOrigin i"
  shows "originRank r = max (originRank typed) (originRank legacy) \<and>
    (usesOwnerKeychain r \<longrightarrow> usesOwnerKeychain typed \<or> usesOwnerKeychain legacy) \<and>
    (\<forall>t. Some t \<in> {screenDataOf typed, screenDataOf legacy} \<longrightarrow> shown t (screenDataOf r))"
proof -
  have merged: "originRank (mergeOrigin a b) = originRank a \<and>
      (usesOwnerKeychain (mergeOrigin a b) \<longrightarrow> usesOwnerKeychain a \<or> usesOwnerKeychain b) \<and>
      (\<forall>t. Some t \<in> {screenDataOf a, screenDataOf b} \<longrightarrow> shown t (screenDataOf (mergeOrigin a b)))"
    if "originRank a = originRank b" for a b
    using that by (cases a; cases b) auto
  have low: "screenDataOf x = None \<and> \<not> usesOwnerKeychain x" if "originRank x < 3" for x using that by (cases x) simp_all
  have top: "originRank x \<le> 3" for x by (cases x) simp_all
  have direct: "legacy = ODirect" if "\<not> (lo_triggered i = Some True \<or> lo_unprompted i = Some True \<or> lo_liveActor i = Some True)"
    using that by (simp add: assms(2) normalizeTurnOrigin_def)
  consider "r = typed" "legacy = ODirect" | "r = typed" "originRank legacy < originRank typed"
    | "r = legacy" "originRank typed < originRank legacy" | "r = mergeOrigin typed legacy" "originRank typed = originRank legacy"
    using assms direct unfolding resolveTurnOrigin_def Let_def option.case by (metis linorder_neqE_nat)
  then show ?thesis
  proof cases
    case 1
    then show ?thesis by (auto dest: sym)
  next
    case 2
    then show ?thesis using low [of legacy] top [of typed] by (auto dest: sym)
  next
    case 3
    then show ?thesis using low [of typed] top [of legacy] by (auto dest: sym)
  next
    case 4
    then show ?thesis using merged [of typed legacy] by simp
  qed
qed

definition ex_origin :: turn_origin where
  "ex_origin = OAutomation (Some ''data'') None (Some True)"

theorem turn_origin_roundtrip_witness:
  "resolveTurnOrigin None (turnOriginRequestFields ex_origin) = ex_origin \<and>
   resolveTurnOrigin (Some ex_origin) (turnOriginRequestFields ex_origin) = ex_origin"
  using turn_origin_roundtrip [of ex_origin noLegacy] by (simp add: ex_origin_def)

theorem mixed_origin_is_not_relaxed_witness:
  "originRank (resolveTurnOrigin (Some (OHuman None None)) (turnOriginRequestFields ex_origin)) = 3"
  using mixed_origin_is_not_relaxed [OF refl refl, of "OHuman None None" "turnOriginRequestFields ex_origin"]
  by (simp add: ex_origin_def normalizeTurnOrigin_def noLegacy_def)

lemma persona_identity_roundtrip: "p \<noteq> [] \<Longrightarrow> personaIdFromIdentity (Some (personaPostIdentity p)) = Some p"
  by (simp add: personaIdFromIdentity_def personaPostIdentity_def PERSONA_IDENTITY_PREFIX_def starts_with_def nonempty_def)

end
