(* ===== verification/Json.thy ===== *)
theory Json
  imports Payload
begin

section \<open>Reading JSON\<close>

text \<open>
  \<open>JSON.parse\<close>, beside \<open>JSON.stringify\<close> of the prelude: tokens, credentials and stored bundles are written by one and read back
  by the other. A number keeps its text; an escape of a code unit above 255 is outside the model and is refused. The fuel is the number
  of characters that are left: every nested value begins behind at least one character.
\<close>

definition json_space :: "char \<Rightarrow> bool" where
  "json_space c = (c \<in> {CHR 0x20, CHR 0x09, CHR 0x0A, CHR 0x0D})"

definition skip_ws :: "string \<Rightarrow> string" where
  "skip_ws s = dropWhile json_space s"

definition hex_value :: "char \<Rightarrow> nat option" where
  "hex_value c =
     (let n = (of_char c :: nat) in
      if 48 \<le> n \<and> n \<le> 57 then Some (n - 48)
      else if 97 \<le> n \<and> n \<le> 102 then Some (n - 87)
      else if 65 \<le> n \<and> n \<le> 70 then Some (n - 55)
      else None)"

text \<open>The characters of a string up to its closing quote.\<close>

definition plain_escape :: "char \<Rightarrow> char option" where
  "plain_escape c =
     (let n = (of_char c :: nat) in
      if n = 34 \<or> n = 92 \<or> n = 47 then Some c
      else if c = CHR ''b'' then Some (char_of (8::nat))
      else if c = CHR ''t'' then Some (char_of (9::nat))
      else if c = CHR ''n'' then Some (char_of (10::nat))
      else if c = CHR ''f'' then Some (char_of (12::nat))
      else if c = CHR ''r'' then Some (char_of (13::nat))
      else None)"

definition unit_escape :: "string \<Rightarrow> char option" where
  "unit_escape s =
     (case map hex_value s of
        [Some a, Some b, Some c, Some d] \<Rightarrow> if a = 0 \<and> b = 0 then Some (char_of (16 * c + d)) else None
      | _ \<Rightarrow> None)"

fun read_string :: "string \<Rightarrow> (string \<times> string) option" where
  "read_string [] = None"
| "read_string (c # s) =
     (if of_char c = (34::nat) then Some ([], s)
      else if of_char c < (32::nat) then None
      else if of_char c = (92::nat) then
        (case s of
           [] \<Rightarrow> None
         | e # s' \<Rightarrow>
             (if e = CHR ''u'' then
                (case unit_escape (take 4 s') of
                   None \<Rightarrow> None
                 | Some x \<Rightarrow> map_option (\<lambda>(t, rest). (x # t, rest)) (read_string (drop 4 s')))
              else
                (case plain_escape e of
                   None \<Rightarrow> None
                 | Some x \<Rightarrow> map_option (\<lambda>(t, rest). (x # t, rest)) (read_string s'))))
      else map_option (\<lambda>(t, rest). (c # t, rest)) (read_string s))"

definition digit_run :: "string \<Rightarrow> string \<times> string" where
  "digit_run s = (takeWhile digit s, dropWhile digit s)"

definition read_fraction :: "string \<Rightarrow> (string \<times> string) option" where
  "read_fraction s =
     (case s of
        c # s' \<Rightarrow>
          (if c = CHR ''.'' then
             (case digit_run s' of (ds, rest) \<Rightarrow> if ds = [] then None else Some (c # ds, rest))
           else Some ([], s))
      | [] \<Rightarrow> Some ([], s))"

definition read_exponent :: "string \<Rightarrow> (string \<times> string) option" where
  "read_exponent s =
     (case s of
        c # s' \<Rightarrow>
          (if c = CHR ''e'' \<or> c = CHR ''E'' then
             (let (sign, s'') = (case s' of x # xs \<Rightarrow> if x = CHR ''+'' \<or> x = CHR ''-'' then ([x], xs) else ([], s') | [] \<Rightarrow> ([], s'))
              in case digit_run s'' of (ds, rest) \<Rightarrow> if ds = [] then None else Some (c # sign @ ds, rest))
           else Some ([], s))
      | [] \<Rightarrow> Some ([], s))"

definition read_number :: "string \<Rightarrow> (string \<times> string) option" where
  "read_number s =
     (let (sign, s1) = (case s of c # s' \<Rightarrow> if c = CHR ''-'' then ([c], s') else ([], s) | [] \<Rightarrow> ([], s));
          (ds, s2) = digit_run s1
      in if ds = [] \<or> (hd ds = CHR ''0'' \<and> length ds > 1) then None
         else
           (case read_fraction s2 of
              None \<Rightarrow> None
            | Some (fr, s3) \<Rightarrow>
                (case read_exponent s3 of
                   None \<Rightarrow> None
                 | Some (ex, s4) \<Rightarrow> Some (sign @ ds @ fr @ ex, s4))))"

definition literal :: "string \<Rightarrow> json \<Rightarrow> string \<Rightarrow> (json \<times> string) option" where
  "literal word j s = (if starts_with word s then Some (j, drop (length word) s) else None)"

definition quote_char :: char where "quote_char = CHR 0x22"

text \<open>The next character that is no white space.\<close>

definition next_char :: "string \<Rightarrow> (char \<times> string) option" where
  "next_char s = (case skip_ws s of [] \<Rightarrow> None | c # r \<Rightarrow> Some (c, r))"

definition expect :: "char \<Rightarrow> string \<Rightarrow> string option" where
  "expect c s = (case next_char s of Some (d, r) \<Rightarrow> if d = c then Some r else None | None \<Rightarrow> None)"

text \<open>\<open>read_items\<close> and \<open>read_members\<close> read the items up to the closing bracket; there is at least one.\<close>

fun read_value :: "nat \<Rightarrow> string \<Rightarrow> (json \<times> string) option"
  and read_items :: "nat \<Rightarrow> string \<Rightarrow> (json list \<times> string) option"
  and read_members :: "nat \<Rightarrow> string \<Rightarrow> ((string \<times> json) list \<times> string) option"
where
  "read_value 0 s = None"
| "read_value (Suc n) s0 =
     Option.bind (next_char s0) (\<lambda>(c, s).
       if c = quote_char then map_option (\<lambda>(t, rest). (JStr t, rest)) (read_string s)
       else if c = CHR ''['' then
         (case expect (CHR '']'') s of
            Some rest \<Rightarrow> Some (JArr [], rest)
          | None \<Rightarrow> map_option (\<lambda>(xs, rest). (JArr xs, rest)) (read_items n s))
       else if c = CHR 0x7B then
         (case expect (CHR 0x7D) s of
            Some rest \<Rightarrow> Some (JObj [], rest)
          | None \<Rightarrow> map_option (\<lambda>(fs, rest). (JObj (fold (\<lambda>(k, v). jm_set k v) fs []), rest)) (read_members n s))
       else if c = CHR ''n'' then literal ''null'' JNull (c # s)
       else if c = CHR ''t'' then literal ''true'' (JBool True) (c # s)
       else if c = CHR ''f'' then literal ''false'' (JBool False) (c # s)
       else map_option (\<lambda>(t, rest). (JNum t, rest)) (read_number (c # s)))"
| "read_items 0 s = None"
| "read_items (Suc n) s =
     Option.bind (read_value n s) (\<lambda>(x, s1).
     Option.bind (next_char s1) (\<lambda>(d, s2).
       if d = CHR '']'' then Some ([x], s2)
       else if d = CHR '','' then map_option (\<lambda>(xs, r). (x # xs, r)) (read_items n s2)
       else None))"
| "read_members 0 s = None"
| "read_members (Suc n) s =
     Option.bind (expect quote_char s) (\<lambda>s1.
     Option.bind (read_string s1) (\<lambda>(k, s2).
     Option.bind (expect (CHR '':'') s2) (\<lambda>s3.
     Option.bind (read_value n s3) (\<lambda>(v, s4).
     Option.bind (next_char s4) (\<lambda>(d, s5).
       if d = CHR 0x7D then Some ([(k, v)], s5)
       else if d = CHR '','' then map_option (\<lambda>(fs, r). ((k, v) # fs, r)) (read_members n s5)
       else None)))))"

definition jsonParse :: "string \<Rightarrow> json option" where
  "jsonParse s =
     (case read_value (Suc (2 * length s)) s of
        Some (j, rest) \<Rightarrow> if skip_ws rest = [] then Some j else None
      | None \<Rightarrow> None)"

subsection \<open>What was written is read back\<close>

lemma char_quote: "char_of (34::nat) = quote_char" "of_char quote_char = (34::nat)"
proof -
  show "of_char quote_char = (34::nat)" by (simp add: quote_char_def)
  then show "char_of (34::nat) = quote_char" by (metis char_of_char)
qed

lemma hex_value_digit: "n < 16 \<Longrightarrow> hex_value (hex_digit n) = Some n"
  by (simp add: hex_value_def hex_digit_def Let_def)

lemma hex_zero: "hex_value (CHR ''0'') = Some 0"
  by (simp add: hex_value_def)

lemma json_escape_cases:
  obtains (quoted) "of_char c = (34::nat) \<or> of_char c = (92::nat)" "json_escape c = [char_of (92::nat), c]"
  | (letter) e where "json_escape c = [char_of (92::nat), e]" "e \<noteq> CHR ''u''" "plain_escape e = Some c"
  | (code) "of_char c < (32::nat)" "json_escape c = char_of (92::nat) # CHR ''u'' # CHR ''0'' # CHR ''0'' #
        [hex_digit (of_char c div 16), hex_digit (of_char c mod 16)]"
  | (itself) "of_char c \<noteq> (34::nat)" "of_char c \<noteq> (92::nat)" "\<not> of_char c < (32::nat)" "json_escape c = [c]"
proof -
  define n where "n = (of_char c :: nat)"
  have c: "c = char_of n" by (simp add: n_def)
  have e: "json_escape c =
     (if n = 34 \<or> n = 92 then [char_of (92::nat), c]
      else if n = 8 then [char_of (92::nat), CHR ''b'']
      else if n = 9 then [char_of (92::nat), CHR ''t'']
      else if n = 10 then [char_of (92::nat), CHR ''n'']
      else if n = 12 then [char_of (92::nat), CHR ''f'']
      else if n = 13 then [char_of (92::nat), CHR ''r'']
      else if n < 32 then [char_of (92::nat)] @ ''u00'' @ [hex_digit (n div 16), hex_digit (n mod 16)]
      else [c])"
    unfolding json_escape_def Let_def n_def by simp
  consider "n = 34 \<or> n = 92" | "n = 8" | "n = 9" | "n = 10" | "n = 12" | "n = 13"
    | "n \<noteq> 34" "n \<noteq> 92" "n \<noteq> 8" "n \<noteq> 9" "n \<noteq> 10" "n \<noteq> 12" "n \<noteq> 13" "n < 32"
    | "n \<noteq> 34" "n \<noteq> 92" "\<not> n < 32" by linarith
  then show thesis
  proof cases
    case 1
    then show thesis using quoted e n_def by auto
  next
    case 7
    then show thesis using code e n_def by auto
  next
    case 8
    then show thesis using itself e n_def by auto
  qed (use letter [of "CHR ''b''"] letter [of "CHR ''t''"] letter [of "CHR ''n''"] letter [of "CHR ''f''"] letter [of "CHR ''r''"] e c
      in \<open>simp_all add: plain_escape_def\<close>)
qed

lemma read_backslash:
  "read_string (char_of (92::nat) # CHR ''u'' # s) =
     (case unit_escape (take 4 s) of
        None \<Rightarrow> None
      | Some x \<Rightarrow> map_option (\<lambda>(t, rest). (x # t, rest)) (read_string (drop 4 s)))"
  "e \<noteq> CHR ''u'' \<Longrightarrow> plain_escape e = Some x \<Longrightarrow>
     read_string (char_of (92::nat) # e # s) = map_option (\<lambda>(t, rest). (x # t, rest)) (read_string s)"
  by (subst read_string.simps, simp)+

lemma read_string_escape:
  "read_string (json_escape c @ s) = map_option (\<lambda>(t, rest). (c # t, rest)) (read_string s)"
proof (cases c rule: json_escape_cases)
  case quoted
  then have "plain_escape c = Some c" "c \<noteq> CHR ''u''" by (auto simp: plain_escape_def)
  with quoted(2) read_backslash(2) [of c c s] show ?thesis by simp
next
  case (letter e)
  then show ?thesis using read_backslash(2) [of e c s] by simp
next
  case code
  have d: "of_char c div 16 < (16::nat)" "of_char c mod 16 < (16::nat)" using code(1) by simp_all
  let ?ds = "[CHR ''0'', CHR ''0'', hex_digit (of_char c div 16), hex_digit (of_char c mod 16)]"
  have "map hex_value ?ds = [Some 0, Some 0, Some (of_char c div 16), Some (of_char c mod 16)]"
    by (simp only: list.map hex_value_digit [OF d(1)] hex_value_digit [OF d(2)] hex_zero)
  then have "unit_escape ?ds = Some c" unfolding unit_escape_def by simp
  moreover have "take 4 (?ds @ s) = ?ds" "drop 4 (?ds @ s) = s" by simp_all
  ultimately show ?thesis using code(2) read_backslash(1) [of "?ds @ s"] by simp
next
  case itself
  then show ?thesis by simp
qed

lemma read_json_string: "read_string (concat (map json_escape t) @ quote_char # rest) = Some (t, rest)"
  by (induction t) (simp_all add: read_string_escape char_quote)

lemma json_string_quoted: "json_string t = quote_char # concat (map json_escape t) @ [quote_char]"
  by (simp add: json_string_def char_quote)

text \<open>A value that is followed by nothing, a comma or a closing bracket.\<close>

definition value_ends :: "string \<Rightarrow> bool" where
  "value_ends rest = (rest = [] \<or> hd rest \<in> {CHR '','', CHR '']'', CHR 0x7D})"

definition canonical_number :: "string \<Rightarrow> bool" where
  "canonical_number s = (\<exists>i. s = show_int i)"

fun json_ok :: "json \<Rightarrow> bool" where
  "json_ok (JNum s) = canonical_number s"
| "json_ok (JArr xs) = (\<forall>x \<in> set xs. json_ok x)"
| "json_ok (JObj fs) = (distinct (map fst fs) \<and> (\<forall>f \<in> set fs. json_ok (snd f)))"
| "json_ok _ = True"

lemma show_nat_positive: "0 < n \<Longrightarrow> hd (show_nat n) \<noteq> CHR ''0''"
proof (induction n rule: show_nat.induct)
  case (1 n)
  show ?case
  proof (cases "n < 10")
    case True
    then have "of_char (char_of (48 + n) :: char) = 48 + n" by simp
    moreover have "of_char (CHR ''0'') = (48::nat)" by simp
    ultimately have "char_of (48 + n) \<noteq> CHR ''0''" using 1(2) by (intro notI) simp
    with True show ?thesis by (subst show_nat.simps) simp
  next
    case False
    then have "hd (show_nat (n div 10)) \<noteq> CHR ''0''" using 1 by simp
    with False show ?thesis by (subst show_nat.simps) simp
  qed
qed

lemma show_nat_no_zero: "\<not> (hd (show_nat n) = CHR ''0'' \<and> length (show_nat n) > 1)"
proof (cases "n = 0")
  case True
  then show ?thesis by (simp add: show_nat.simps)
qed (use show_nat_positive in auto)

lemma digit_run_nat: "value_ends rest \<Longrightarrow> digit_run (show_nat n @ rest) = (show_nat n, rest)"
proof -
  assume "value_ends rest"
  then have "rest = [] \<or> \<not> digit (hd rest)" by (auto simp: value_ends_def digit_def)
  then have "takeWhile digit rest = [] \<and> dropWhile digit rest = rest" by (cases rest) auto
  with show_nat_digits [of n] show ?thesis
    by (simp add: digit_run_def takeWhile_append2 dropWhile_append2)
qed

lemma no_tail:
  assumes "value_ends rest"
  shows "read_fraction rest = Some ([], rest)" "read_exponent rest = Some ([], rest)"
  using assms by (auto simp: value_ends_def read_fraction_def read_exponent_def split: list.split)

lemma read_number_int:
  assumes "value_ends rest"
  shows "read_number (show_int i @ rest) = Some (show_int i, rest)"
proof -
  have nat: "show_nat n = c # ds \<Longrightarrow> c \<noteq> CHR ''-''" for n c ds by (rule show_nat_hd)
  note parts = digit_run_nat [OF assms] no_tail [OF assms] show_nat_no_zero
  show ?thesis
  proof (cases "i < 0")
    case True
    then show ?thesis using parts by (simp add: read_number_def show_int_def Let_def)
  next
    case False
    obtain c ds where c: "show_nat (nat i) = c # ds" by (meson neq_Nil_conv show_nat_nonempty)
    have "c \<noteq> CHR ''-''" using nat [OF c] .
    then have "(case show_nat (nat i) @ rest of x # s' \<Rightarrow> if x = CHR ''-'' then ([x], s') else ([], show_nat (nat i) @ rest)
        | [] \<Rightarrow> ([], show_nat (nat i) @ rest)) = ([], show_nat (nat i) @ rest)"
      by (simp add: c)
    then show ?thesis using parts False by (simp add: read_number_def show_int_def Let_def)
  qed
qed

lemma next_char_plain [simp]: "\<not> json_space c \<Longrightarrow> next_char (c # s) = Some (c, s)"
  by (simp add: next_char_def skip_ws_def)

lemma expect_plain: "\<not> json_space d \<Longrightarrow> expect c (d # s) = (if d = c then Some s else None)"
  by (simp add: expect_def)

lemma no_space [simp]:
  "\<not> json_space quote_char" "\<not> json_space (CHR ''['')" "\<not> json_space (CHR '']'')" "\<not> json_space (CHR 0x7B)"
  "\<not> json_space (CHR 0x7D)" "\<not> json_space (CHR '','')" "\<not> json_space (CHR '':'')"
  by (simp_all add: json_space_def quote_char_def)

text \<open>The first character of a written value tells what it is.\<close>

lemma show_int_head:
  obtains c ds where "show_int i = c # ds" "c = CHR ''-'' \<or> digit c"
proof (cases "i < 0")
  case True
  then show thesis using that by (simp add: show_int_def)
next
  case False
  obtain c ds where "show_nat (nat i) = c # ds" by (meson neq_Nil_conv show_nat_nonempty)
  moreover have "digit c" using show_nat_digits [of "nat i"] calculation by simp
  ultimately show thesis using that False by (simp add: show_int_def)
qed

lemma number_head: "c = CHR ''-'' \<or> digit c \<Longrightarrow>
    \<not> json_space c \<and> c \<noteq> quote_char \<and> c \<noteq> CHR ''['' \<and> c \<noteq> CHR '']'' \<and> c \<noteq> CHR 0x7B \<and> c \<noteq> CHR ''n'' \<and> c \<noteq> CHR ''t'' \<and> c \<noteq> CHR ''f''"
  by (auto simp: json_space_def quote_char_def digit_def)

lemma stringify_head:
  assumes "json_ok j"
  obtains c s where "stringify j = c # s" "\<not> json_space c" "c \<noteq> CHR '']''"
proof (cases j)
  case (JNum t)
  then obtain i where "t = show_int i" using assms by (auto simp: canonical_number_def)
  then show thesis using JNum that number_head by (metis show_int_head stringify.simps(3))
next
  case (JBool b)
  then show thesis using that by (cases b) (simp_all add: json_space_def)
qed (use that in \<open>simp_all add: json_space_def json_string_quoted quote_char_def\<close>)

lemma literal_back: "literal w j (w @ rest) = Some (j, rest)"
  by (simp add: literal_def)

lemma read_number_value:
  assumes "value_ends rest"
  shows "read_value (Suc n) (show_int i @ rest) = Some (JNum (show_int i), rest)"
proof -
  obtain c ds where c: "show_int i = c # ds" "c = CHR ''-'' \<or> digit c" by (rule show_int_head)
  show ?thesis using read_number_int [OF assms, of i] number_head [OF c(2)] c(1) by simp
qed

lemma fold_jm_set:
  "distinct (map fst (m @ fs)) \<Longrightarrow> fold (\<lambda>(k, v). jm_set k v) fs m = m @ fs"
proof (induction fs arbitrary: m)
  case (Cons f fs)
  then have "(case f of (k, v) \<Rightarrow> jm_set k v) m = m @ [f]" by (cases f) (simp add: jm_set_absent)
  then show ?case using Cons.IH [of "m @ [f]"] Cons.prems by simp
qed simp

definition reads_back :: "json \<Rightarrow> bool" where
  "reads_back j \<longleftrightarrow> (\<forall>n rest. 2 * length (stringify j) \<le> n \<longrightarrow> value_ends rest \<longrightarrow> read_value n (stringify j @ rest) = Some (j, rest))"

lemma reads_backD:
  "reads_back j \<Longrightarrow> 2 * length (stringify j) \<le> n \<Longrightarrow> value_ends rest \<Longrightarrow> read_value n (stringify j @ rest) = Some (j, rest)"
  by (simp add: reads_back_def)

lemma ends_simps [simp]: "value_ends (CHR '','' # s)" "value_ends (CHR '']'' # s)" "value_ends (CHR 0x7D # s)" "value_ends []"
  by (simp_all add: value_ends_def)

lemma read_items_back:
  assumes "xs \<noteq> []" "\<forall>x \<in> set xs. reads_back x" "2 * length (join_with '','' (map stringify xs)) < n"
  shows "read_items n (join_with '','' (map stringify xs) @ CHR '']'' # rest) = Some (xs, rest)"
  using assms
proof (induction xs arbitrary: n)
  case (Cons x xs)
  obtain m where n: "n = Suc m" using Cons.prems(3) by (cases n) auto
  have x: "reads_back x" using Cons.prems(2) by simp
  show ?case
  proof (cases xs)
    case Nil
    have "2 * length (stringify x) \<le> m" using Cons.prems(3) n Nil by simp
    from reads_backD [OF x this, of "CHR '']'' # rest"] show ?thesis using n Nil by simp
  next
    case (Cons y ys)
    let ?more = "join_with '','' (map stringify xs)"
    have tx: "join_with '','' (map stringify (x # xs)) = stringify x @ CHR '','' # ?more" using Cons by simp
    have "2 * length (stringify x) \<le> m" "2 * length ?more < m" using Cons.prems(3) n unfolding tx by simp_all
    with reads_backD [OF x this(1), of "CHR '','' # ?more @ CHR '']'' # rest"] Cons.IH [of m] Cons.prems(2) Cons
    show ?thesis unfolding tx n by simp
  qed
qed simp

abbreviation member_text :: "string \<times> json \<Rightarrow> string" where
  "member_text f \<equiv> (case f of (k, v) \<Rightarrow> json_string k @ '':'' @ stringify v)"

lemma read_member_head:
  assumes "reads_back v" "2 * length (stringify v) \<le> m" "value_ends s"
  shows "read_members (Suc m) (json_string k @ CHR '':'' # stringify v @ s) =
     Option.bind (next_char s) (\<lambda>(d, s5).
       if d = CHR 0x7D then Some ([(k, v)], s5)
       else if d = CHR '','' then map_option (\<lambda>(fs, r). ((k, v) # fs, r)) (read_members m s5)
       else None)"
  using reads_backD [OF assms] read_json_string [of k "CHR '':'' # stringify v @ s"]
  by (simp add: json_string_quoted expect_plain)

lemma read_members_back:
  assumes "fs \<noteq> []" "\<forall>f \<in> set fs. reads_back (snd f)" "2 * length (join_with '','' (map member_text fs)) < n"
  shows "read_members n (join_with '','' (map member_text fs) @ CHR 0x7D # rest) = Some (fs, rest)"
  using assms
proof (induction fs arbitrary: n)
  case (Cons f fs)
  obtain m where n: "n = Suc m" using Cons.prems(3) by (cases n) auto
  obtain k v where f: "f = (k, v)" by fastforce
  have v: "reads_back v" using Cons.prems(2) f by simp
  show ?case
  proof (cases fs)
    case Nil
    have "2 * length (stringify v) \<le> m" using Cons.prems(3) n Nil f by simp
    from read_member_head [OF v this, of "CHR 0x7D # rest" k] show ?thesis using n Nil f by simp
  next
    case (Cons g gs)
    let ?more = "join_with '','' (map member_text fs)"
    have tx: "join_with '','' (map member_text (f # fs)) = json_string k @ CHR '':'' # stringify v @ CHR '','' # ?more"
      using Cons f by simp
    have "2 * length (stringify v) \<le> m" "2 * length ?more < m" using Cons.prems(3) n unfolding tx by simp_all
    with read_member_head [OF v this(1), of "CHR '','' # ?more @ CHR 0x7D # rest" k] Cons.IH [of m] Cons.prems(2) Cons f
    show ?thesis unfolding tx n by simp
  qed
qed simp

lemma read_words:
  assumes "0 < n"
  shows "read_value n (CHR ''n'' # CHR ''u'' # CHR ''l'' # CHR ''l'' # rest) = Some (JNull, rest)"
    "read_value n (CHR ''t'' # CHR ''r'' # CHR ''u'' # CHR ''e'' # rest) = Some (JBool True, rest)"
    "read_value n (CHR ''f'' # CHR ''a'' # CHR ''l'' # CHR ''s'' # CHR ''e'' # rest) = Some (JBool False, rest)"
  using assms by (cases n; simp add: json_space_def quote_char_def literal_def starts_with_def)+

lemma stringify_back: "json_ok j \<Longrightarrow> reads_back j"
proof (induction j rule: stringify.induct)
  case (3 s)
  then obtain i where i: "s = show_int i" by (auto simp: canonical_number_def)
  have "stringify (JNum s) \<noteq> []" by (metis i list.distinct(1) show_int_head stringify.simps(3))
  then have "\<exists>k. n = Suc k" if "2 * length (stringify (JNum s)) \<le> n" for n using that by (cases n) auto
  then show ?case unfolding reads_back_def i using read_number_value by fastforce
next
  case (4 s)
  have "read_value (Suc n) (json_string s @ rest) = Some (JStr s, rest)" for n rest
    using read_json_string [of s rest] by (simp add: json_string_quoted)
  moreover have "\<exists>k. n = Suc k" if "2 * length (stringify (JStr s)) \<le> n" for n
    using that by (cases n) (simp_all add: json_string_quoted)
  ultimately show ?case unfolding reads_back_def by fastforce
next
  case (5 xs)
  show ?case unfolding reads_back_def
  proof (intro allI impI)
    fix n rest
    let ?body = "join_with '','' (map stringify xs)"
    assume n: "2 * length (stringify (JArr xs)) \<le> n"
    then obtain m where m: "n = Suc m" "2 * length ?body < m" by (cases n) auto
    show "read_value n (stringify (JArr xs) @ rest) = Some (JArr xs, rest)"
    proof (cases xs)
      case Nil
      then show ?thesis using m(1) by (simp add: expect_plain quote_char_def)
    next
      case (Cons y ys)
      have "json_ok y" using 5 Cons by simp
      then obtain c s where c: "stringify y = c # s" "\<not> json_space c" "c \<noteq> CHR '']''" by (rule stringify_head)
      then obtain s' where "?body = c # s'" using Cons by (cases ys) auto
      then have "expect (CHR '']'') (?body @ CHR '']'' # rest) = None" using c by (simp add: expect_plain)
      moreover have "read_items m (?body @ CHR '']'' # rest) = Some (xs, rest)"
        using 5 Cons m(2) by (intro read_items_back) simp_all
      ultimately show ?thesis using m(1) by (simp add: quote_char_def)
    qed
  qed
next
  case (6 fs)
  show ?case unfolding reads_back_def
  proof (intro allI impI)
    fix n rest
    let ?body = "join_with '','' (map member_text fs)"
    assume n: "2 * length (stringify (JObj fs)) \<le> n"
    then obtain m where m: "n = Suc m" "2 * length ?body < m" by (cases n) auto
    show "read_value n (stringify (JObj fs) @ rest) = Some (JObj fs, rest)"
    proof (cases fs)
      case Nil
      then show ?thesis using m(1) by (simp add: expect_plain quote_char_def)
    next
      case (Cons g gs)
      have other: "quote_char \<noteq> CHR 0x7D" by (simp add: quote_char_def)
      obtain s' where "?body = quote_char # s'" using Cons by (cases g; cases gs) (auto simp: json_string_quoted)
      then have "expect (CHR 0x7D) (?body @ CHR 0x7D # rest) = None" using other by (simp add: expect_plain)
      moreover have "read_members m (?body @ CHR 0x7D # rest) = Some (fs, rest)"
      proof (intro read_members_back)
        show "\<forall>f \<in> set fs. reads_back (snd f)" using 6 by (metis json_ok.simps(3) prod.collapse)
      qed (use Cons m(2) in simp_all)
      moreover have "fold (\<lambda>(k, v). jm_set k v) fs [] = fs" using fold_jm_set [of "[]" fs] 6(2) by simp
      ultimately show ?thesis using m(1) by (simp add: quote_char_def)
    qed
  qed
qed (auto simp: reads_back_def read_words)

theorem parse_stringify: "json_ok j \<Longrightarrow> jsonParse (stringify j) = Some j"
  using reads_backD [OF stringify_back, of j "Suc (2 * length (stringify j))" "[]"]
  by (simp add: jsonParse_def skip_ws_def)

end
