(* ===== verification/Capability.thy ===== *)
theory Capability
  imports Json Directory
begin

section \<open>Signed tokens and capabilities\<close>

text \<open>
  Models \<open>src/src/auth/signed-token.ts\<close> and \<open>src/src/auth/capability-token.ts\<close>. The package \<open>jose\<close>, the hashes of \<open>node:crypto\<close>,
  \<open>Buffer.from(_, "base64url")\<close> and the time zones \<open>Intl\<close> knows are a parameter \<open>token_lib\<close>. Claims are the JSON value the token
  carries; the expiry is read when it is an integer, as the program writes it.
\<close>

record token_lib =
  tl_sha :: "string \<Rightarrow> string"
  tl_hmac64 :: "string \<Rightarrow> string \<Rightarrow> string"
  tl_hmacHex :: "string \<Rightarrow> string \<Rightarrow> string"
  tl_fromBase64url :: "string \<Rightarrow> string"
  tl_sign :: "string \<Rightarrow> string \<Rightarrow> string \<Rightarrow> string"
  tl_kid :: "string \<Rightarrow> string option option"
  tl_verify :: "string \<Rightarrow> string \<Rightarrow> string option"
  tl_knownZone :: "string \<Rightarrow> bool"

definition signingKeyId :: "token_lib \<Rightarrow> string \<Rightarrow> string" where
  "signingKeyId lib secret = take 8 (tl_sha lib secret)"

definition mintSignedPayload :: "token_lib \<Rightarrow> json \<Rightarrow> string \<Rightarrow> string" where
  "mintSignedPayload lib value secret = tl_sign lib (signingKeyId lib secret) (stringify value) secret"

text \<open>\<open>lastIndexOf\<close> of a dot\<close>

definition lastDot :: "string \<Rightarrow> nat option" where
  "lastDot s = (if CHR ''.'' \<in> set s then Some (length s - 1 - length (takeWhile (\<lambda>c. c \<noteq> CHR ''.'') (rev s))) else None)"

fun legacyLoop :: "token_lib \<Rightarrow> string \<Rightarrow> string \<Rightarrow> string list \<Rightarrow> json option" where
  "legacyLoop lib payload sig [] = None"
| "legacyLoop lib payload sig (secret # secrets) =
     (if tl_hmac64 lib secret payload \<noteq> sig \<and> tl_hmacHex lib secret payload \<noteq> sig then legacyLoop lib payload sig secrets
      else jsonParse (tl_fromBase64url lib payload))"

definition verifyLegacyPayload :: "token_lib \<Rightarrow> string \<Rightarrow> string list \<Rightarrow> json option" where
  "verifyLegacyPayload lib token secrets =
     (case lastDot token of
        None \<Rightarrow> None
      | Some dot \<Rightarrow> if dot = 0 then None else legacyLoop lib (take dot token) (drop (dot + 1) token) secrets)"

fun verifyLoop :: "token_lib \<Rightarrow> string \<Rightarrow> string list \<Rightarrow> json option" where
  "verifyLoop lib token [] = None"
| "verifyLoop lib token (candidate # rest) =
     (case tl_verify lib token candidate of
        None \<Rightarrow> verifyLoop lib token rest
      | Some payload \<Rightarrow> (case jsonParse payload of None \<Rightarrow> verifyLoop lib token rest | Some j \<Rightarrow> Some j))"

definition orderedSecrets :: "token_lib \<Rightarrow> string option \<Rightarrow> string list \<Rightarrow> string list" where
  "orderedSecrets lib kid secrets =
     (case kid of
        None \<Rightarrow> secrets
      | Some k \<Rightarrow> sort_key (\<lambda>s. if signingKeyId lib s = k then 0 else (1::nat)) secrets)"

definition verifySignedPayload :: "token_lib \<Rightarrow> string \<Rightarrow> string list \<Rightarrow> json option" where
  "verifySignedPayload lib token secrets =
     (if length (split_on (CHR ''.'') token) \<noteq> 3 then verifyLegacyPayload lib token secrets
      else
        (case tl_kid lib token of
           None \<Rightarrow> None
         | Some kid \<Rightarrow> verifyLoop lib token (orderedSecrets lib kid secrets)))"

subsection \<open>Capabilities\<close>

definition CAPABILITY_TTL_MS :: int where "CAPABILITY_TTL_MS = 60 * 60000"

definition BLOB_TRANSFER_AUD :: string where "BLOB_TRANSFER_AUD = ''blob-transfer''"

text \<open>\<open>{ orgId, ...claims }\<close>\<close>

definition withOrg :: "string \<Rightarrow> (string \<times> json) list \<Rightarrow> json" where
  "withOrg orgId claims = JObj (fold (\<lambda>(k, v). jm_set k v) claims [(''orgId'', JStr orgId)])"

definition mintCapabilityToken :: "token_lib \<Rightarrow> string \<Rightarrow> (string \<times> json) list \<Rightarrow> string \<Rightarrow> string" where
  "mintCapabilityToken lib orgId claims secret = mintSignedPayload lib (withOrg orgId claims) secret"

definition isStr :: "json option \<Rightarrow> bool" where
  "isStr j = (case j of Some (JStr s) \<Rightarrow> True | _ \<Rightarrow> False)"

definition isArr :: "json option \<Rightarrow> bool" where
  "isArr j = (case j of Some (JArr xs) \<Rightarrow> True | _ \<Rightarrow> False)"

definition isBool :: "json option \<Rightarrow> bool" where
  "isBool j = (case j of Some (JBool b) \<Rightarrow> True | _ \<Rightarrow> False)"

definition isNum :: "json option \<Rightarrow> bool" where
  "isNum j = (case j of Some (JNum s) \<Rightarrow> True | _ \<Rightarrow> False)"

definition isValidCapabilityTimezone :: "token_lib \<Rightarrow> json option \<Rightarrow> bool" where
  "isValidCapabilityTimezone lib j =
     (case j of
        Some (JStr s) \<Rightarrow> \<not> (s = [] \<or> length s > 64 \<or> js_trim s \<noteq> s) \<and> tl_knownZone lib s
      | _ \<Rightarrow> False)"

text \<open>\<open>claims.x !== undefined && !ok(claims.x)\<close>\<close>

definition absentOr :: "(json option \<Rightarrow> bool) \<Rightarrow> json option \<Rightarrow> bool" where
  "absentOr ok j = (j = None \<or> ok j)"

definition blobDirOk :: "json option \<Rightarrow> bool" where
  "blobDirOk j = (case j of Some b \<Rightarrow> jfield b ''dir'' \<in> {Some (JStr ''read''), Some (JStr ''write'')} | None \<Rightarrow> False)"

definition memoryOk :: "json option \<Rightarrow> bool" where
  "memoryOk j = (case j of Some m \<Rightarrow> isArr (jfield m ''read'') | None \<Rightarrow> False)"

definition notExpired :: "json \<Rightarrow> millis \<Rightarrow> bool" where
  "notExpired claims now = (case intField claims ''exp'' of Some e \<Rightarrow> \<not> now \<ge> e | None \<Rightarrow> False)"

definition claimsOk :: "token_lib \<Rightarrow> json \<Rightarrow> millis \<Rightarrow> bool" where
  "claimsOk lib claims now =
     (isStr (jfield claims ''actorId'') \<and> isStr (jfield claims ''scopeId'') \<and> isNum (jfield claims ''exp'') \<and>
      absentOr (isValidCapabilityTimezone lib) (jfield claims ''timezone'') \<and>
      absentOr isStr (jfield claims ''scopeVersion'') \<and>
      absentOr isArr (jfield claims ''destinations'') \<and>
      absentOr isArr (jfield claims ''credentials'') \<and>
      absentOr isArr (jfield claims ''keychainMembers'') \<and>
      absentOr memoryOk (jfield claims ''memory'') \<and>
      absentOr isBool (jfield claims ''liveActor'') \<and>
      absentOr isBool (jfield claims ''liveAuthor'') \<and>
      absentOr blobDirOk (jfield claims ''blob'') \<and>
      absentOr isStr (jfield claims ''drop'') \<and>
      notExpired claims now)"

definition verifyCapabilityToken :: "token_lib \<Rightarrow> string \<Rightarrow> string list \<Rightarrow> millis \<Rightarrow> json option" where
  "verifyCapabilityToken lib token secrets now =
     (case verifySignedPayload lib token secrets of
        None \<Rightarrow> None
      | Some claims \<Rightarrow> if claimsOk lib claims now then Some claims else None)"

definition hexLower :: "char \<Rightarrow> bool" where
  "hexLower c = (digit c \<or> (97 \<le> (of_char c :: nat) \<and> (of_char c :: nat) \<le> 102))"

definition BLOB_ID :: "string \<Rightarrow> bool" where
  "BLOB_ID s = (length s = 32 \<and> list_all hexLower s)"

datatype blob_use = ReadBlob string | WriteBlob

fun blobDir :: "blob_use \<Rightarrow> string" where
  "blobDir (ReadBlob i) = ''read''"
| "blobDir WriteBlob = ''write''"

fun blobIdOk :: "blob_use \<Rightarrow> json option \<Rightarrow> bool" where
  "blobIdOk (ReadBlob i) j = (j = Some (JStr i))"
| "blobIdOk WriteBlob j = (j = None)"

definition verifyBlobTransferCapability :: "token_lib \<Rightarrow> string \<Rightarrow> string list \<Rightarrow> blob_use \<Rightarrow> millis \<Rightarrow> json option" where
  "verifyBlobTransferCapability lib token secrets expected now =
     (case verifyCapabilityToken lib token secrets now of
        None \<Rightarrow> None
      | Some claims \<Rightarrow>
          (case jfield claims ''blob'' of
             None \<Rightarrow> None
           | Some grant \<Rightarrow>
               (let i = jfield grant ''id'' in
                if jfield claims ''aud'' \<noteq> Some (JStr BLOB_TRANSFER_AUD) \<or> jfield grant ''dir'' \<noteq> Some (JStr (blobDir expected)) then None
                else if i \<noteq> None \<and> \<not> (case i of Some (JStr s) \<Rightarrow> BLOB_ID s | _ \<Rightarrow> False) then None
                else if \<not> blobIdOk expected i then None
                else Some claims)))"

subsection \<open>What the library promises\<close>

text \<open>
  \<open>compactVerify\<close> accepts a token under a secret only when its signature was made with that secret, and gives the payload that was
  signed; what \<open>CompactSign\<close> makes has three parts, verifies under its own secret, and its header can be read.
\<close>

definition jose_ok :: "token_lib \<Rightarrow> bool" where
  "jose_ok lib \<longleftrightarrow>
     (\<forall>k p s. length (split_on (CHR ''.'') (tl_sign lib k p s)) = 3 \<and> tl_kid lib (tl_sign lib k p s) = Some (Some k) \<and>
        tl_verify lib (tl_sign lib k p s) s = Some p) \<and>
     (\<forall>k p s s' p'. tl_verify lib (tl_sign lib k p s) s' = Some p' \<longrightarrow> p' = p) \<and>
     (\<forall>t s p. tl_verify lib t s = Some p \<longrightarrow> (\<exists>k. t = tl_sign lib k p s))"

lemma jose_okD:
  assumes "jose_ok lib"
  shows "length (split_on (CHR ''.'') (tl_sign lib k p s)) = 3" "tl_kid lib (tl_sign lib k p s) = Some (Some k)"
    "tl_verify lib (tl_sign lib k p s) s = Some p" "tl_verify lib (tl_sign lib k p s) s' = Some p' \<Longrightarrow> p' = p"
    "tl_verify lib t s = Some p \<Longrightarrow> \<exists>k. t = tl_sign lib k p s"
  using assms unfolding jose_ok_def by blast+

lemma verifyLoop_signed:
  assumes "jose_ok lib" "json_ok j" "s \<in> set secrets"
  shows "verifyLoop lib (tl_sign lib k (stringify j) s) secrets = Some j"
  using assms(3)
proof (induction secrets)
  case (Cons c cs)
  show ?case
  proof (cases "tl_verify lib (tl_sign lib k (stringify j) s) c")
    case None
    then have "c \<noteq> s" using jose_okD(3) [OF assms(1)] by force
    then show ?thesis using Cons None by simp
  next
    case (Some p)
    then have "p = stringify j" using jose_okD(4) [OF assms(1)] by blast
    then show ?thesis using Some parse_stringify [OF assms(2)] by simp
  qed
qed simp



lemma set_orderedSecrets [simp]: "set (orderedSecrets lib kid secrets) = set secrets"
  by (simp add: orderedSecrets_def split: option.split)



lemma set_jm_set: "set (jm_set k v m) \<subseteq> insert (k, v) (set m)"
  by (induction m) auto

lemma withOrg_ok: "list_all (\<lambda>f. json_ok (snd f)) claims \<Longrightarrow> json_ok (withOrg orgId claims)"
proof -
  have "distinct (map fst m) \<Longrightarrow> \<forall>f \<in> set m. json_ok (snd f) \<Longrightarrow> list_all (\<lambda>f. json_ok (snd f)) fs \<Longrightarrow>
      json_ok (JObj (fold (\<lambda>(k, v). jm_set k v) fs m))" for m :: "(string \<times> json) list" and fs
  proof (induction fs arbitrary: m)
    case (Cons f fs)
    obtain k v where f: "f = (k, v)" by fastforce
    have "\<forall>g \<in> set (jm_set k v m). json_ok (snd g)"
      using Cons.prems f set_jm_set [of k v m] by auto
    then show ?case using Cons.IH [of "jm_set k v m"] Cons.prems f by simp
  qed simp
  from this [of "[(''orgId'', JStr orgId)]" claims]
  show "list_all (\<lambda>f. json_ok (snd f)) claims \<Longrightarrow> json_ok (withOrg orgId claims)" by (simp only: withOrg_def) simp
qed

lemma minted_verifies:
  assumes "jose_ok lib" "list_all (\<lambda>f. json_ok (snd f)) claims" "secret \<in> set secrets"
  shows "verifySignedPayload lib (mintCapabilityToken lib orgId claims secret) secrets = Some (withOrg orgId claims)"
proof -
  let ?t = "mintCapabilityToken lib orgId claims secret" and ?c = "withOrg orgId claims"
  have t: "?t = tl_sign lib (signingKeyId lib secret) (stringify ?c) secret"
    by (simp add: mintCapabilityToken_def mintSignedPayload_def)
  have "verifyLoop lib ?t (orderedSecrets lib kid secrets) = Some ?c" for kid
    unfolding t using verifyLoop_signed [OF assms(1) withOrg_ok [OF assms(2)]] assms(3) by simp
  then show ?thesis using jose_okD(1,2) [OF assms(1)] by (simp add: verifySignedPayload_def t)
qed


text \<open>
  A capability for a transfer serves one use: a token accepted for reading a blob is accepted for no other blob and for no
  writing, and one for writing for no reading.\<close>

theorem blob_capability_is_exact:
  assumes "verifyBlobTransferCapability lib token secrets use now = Some claims" "use' \<noteq> use"
  shows "verifyBlobTransferCapability lib token secrets use' now' = None"
proof (rule ccontr)
  assume "\<not> ?thesis"
  then obtain claims' where other: "verifyBlobTransferCapability lib token secrets use' now' = Some claims'" by blast
  have same: "claims' = claims" using assms(1) other
    by (auto simp: verifyBlobTransferCapability_def verifyCapabilityToken_def Let_def split: option.splits if_splits)
  have d: "\<exists>g. jfield claims ''blob'' = Some g \<and> jfield g ''dir'' = Some (JStr (blobDir u)) \<and> blobIdOk u (jfield g ''id'')"
    if "verifyBlobTransferCapability lib token secrets u t = Some claims" for u t
    using that by (auto simp: verifyBlobTransferCapability_def Let_def split: option.splits if_splits)
  show False using d [OF assms(1)] d [OF other [unfolded same]] assms(2) by (cases use; cases use') auto
qed

subsection \<open>A library of this kind\<close>

definition spell :: "char \<Rightarrow> string" where
  "spell c = [char_of (97 + of_char c div 16 :: nat), char_of (97 + of_char c mod 16 :: nat)]"

definition spelled :: "string \<Rightarrow> string" where
  "spelled s = concat (map spell s)"

fun unspelled :: "string \<Rightarrow> string" where
  "unspelled (a # b # s) = char_of (16 * (of_char a - 97) + (of_char b - 97) :: nat) # unspelled s"
| "unspelled _ = []"

definition ex_sign :: "string \<Rightarrow> string \<Rightarrow> string \<Rightarrow> string" where
  "ex_sign k p s = spelled k @ CHR ''.'' # spelled p @ CHR ''.'' # spelled s"

definition ex_lib :: token_lib where
  "ex_lib =
     \<lparr>tl_sha = (\<lambda>s. s), tl_hmac64 = (\<lambda>s p. s @ p), tl_hmacHex = (\<lambda>s p. s @ p), tl_fromBase64url = (\<lambda>p. p), tl_sign = ex_sign,
      tl_kid = (\<lambda>t. Some (Some (unspelled (hd (split_on (CHR ''.'') t))))),
      tl_verify = (\<lambda>t s. case split_on (CHR ''.'') t of
         [a, b, c] \<Rightarrow> (if t = ex_sign (unspelled a) (unspelled b) s then Some (unspelled b) else None) | _ \<Rightarrow> None),
      tl_knownZone = (\<lambda>z. z = ''UTC'')\<rparr>"

lemma high_nibble: "of_char c div 16 < (16::nat)"
  by (rule less_mult_imp_div_less) simp

lemma unspell: "unspelled (spelled s) = s"
proof (induction s)
  case (Cons c s)
  have n: "of_char c div 16 < (16::nat)" "of_char c mod 16 < (16::nat)"
    by (simp_all add: high_nibble)
  have "of_char (char_of (97 + of_char c div 16 :: nat) :: char) = (97 + of_char c div 16 :: nat)"
    "of_char (char_of (97 + of_char c mod 16 :: nat) :: char) = (97 + of_char c mod 16 :: nat)"
    using n by simp_all
  then show ?case using Cons by (simp add: spelled_def spell_def)
qed (simp add: spelled_def)

lemma spelled_dotless: "CHR ''.'' \<notin> set (spelled s)"
proof -
  have "CHR ''.'' \<noteq> char_of (97 + n)" if "n < 16" for n :: nat
  proof
    assume "CHR ''.'' = char_of (97 + n)"
    then have "of_char (CHR ''.'') = (of_char (char_of (97 + n) :: char) :: nat)" by simp
    then show False using that by simp
  qed
  then show ?thesis by (auto simp: spelled_def spell_def high_nibble)
qed

lemma split_sign: "split_on (CHR ''.'') (ex_sign k p s) = [spelled k, spelled p, spelled s]"
  by (simp add: ex_sign_def split_on_append split_on_none spelled_dotless)

lemma ex_lib_jose: "jose_ok ex_lib"
  unfolding jose_ok_def
proof (intro conjI allI impI)
  fix k p s s' p' t
  show "length (split_on (CHR ''.'') (tl_sign ex_lib k p s)) = 3" by (simp add: ex_lib_def split_sign)
  show "tl_kid ex_lib (tl_sign ex_lib k p s) = Some (Some k)" by (simp add: ex_lib_def split_sign unspell)
  show "tl_verify ex_lib (tl_sign ex_lib k p s) s = Some p" by (simp add: ex_lib_def split_sign unspell)
  show "tl_verify ex_lib (tl_sign ex_lib k p s) s' = Some p' \<Longrightarrow> p' = p"
    by (simp add: ex_lib_def split_sign unspell split: if_splits)
  show "tl_verify ex_lib t s = Some p \<Longrightarrow> \<exists>k. t = tl_sign ex_lib k p s"
    by (auto simp: ex_lib_def split: list.splits if_splits)
qed

definition ex_claims :: "(string \<times> json) list" where
  "ex_claims =
     [(''actorId'', JStr ''u''), (''aud'', JStr BLOB_TRANSFER_AUD), (''scopeId'', JStr ''s''),
      (''blob'', JObj [(''dir'', JStr ''read''), (''id'', JStr (replicate 32 (CHR ''0'')))]), (''exp'', jint 9)]"

definition ex_token :: string where
  "ex_token = mintCapabilityToken ex_lib ''o'' ex_claims ''k''"

lemma ex_claims_ok: "list_all (\<lambda>f. json_ok (snd f)) ex_claims"
  by (auto simp: ex_claims_def jint_def canonical_number_def)

lemma ex_claims_hold: "claimsOk ex_lib (withOrg ''o'' ex_claims) 5" "intField (withOrg ''o'' ex_claims) ''exp'' = Some 9"
  by code_simp+

lemma ex_token_verifies:
  "''k'' \<in> set secrets \<Longrightarrow> verifyCapabilityToken ex_lib ex_token secrets 5 = Some (withOrg ''o'' ex_claims)"
  using minted_verifies [OF ex_lib_jose ex_claims_ok] ex_claims_hold(1) by (simp add: verifyCapabilityToken_def ex_token_def)



theorem blob_capability_is_exact_witness:
  "verifyBlobTransferCapability ex_lib ex_token [''k''] (ReadBlob (replicate 32 (CHR ''1''))) 5 = None \<and>
   verifyBlobTransferCapability ex_lib ex_token [''k''] WriteBlob 5 = None"
proof -
  have "verifyBlobTransferCapability ex_lib ex_token [''k''] (ReadBlob (replicate 32 (CHR ''0''))) 5 = Some (withOrg ''o'' ex_claims)"
  proof -
    let ?c = "withOrg ''o'' ex_claims" and ?i = "replicate 32 (CHR ''0'')"
    have "jfield ?c ''blob'' = Some (JObj [(''dir'', JStr ''read''), (''id'', JStr ?i)])" "jfield ?c ''aud'' = Some (JStr BLOB_TRANSFER_AUD)"
      "BLOB_ID ?i"
      by code_simp+
    then show ?thesis using ex_token_verifies [of "[''k'']"] by (simp add: verifyBlobTransferCapability_def)
  qed
  from blob_capability_is_exact [OF this] show ?thesis by simp
qed

end
