(* ===== verification/Keychain.thy ===== *)
theory Keychain
  imports Json Scopes DurableMap Cron Panel
begin

section \<open>The keychain\<close>

text \<open>
  Models \<open>src/src/credentials/keychain.ts\<close> (the store: credentials, grants, asks, service credentials and connector tokens), with
  \<open>encryptSecret\<close> and \<open>decryptSecret\<close> of \<open>connectors/connector-client-store.ts\<close>, \<open>credentials/paths.ts\<close> and \<open>hashId\<close>. The hash and
  the cipher of \<open>node:crypto\<close>, Base64 and the request that refreshes a token are a parameter \<open>kc_lib\<close>; the clock, initialisation
  vectors and new identifiers are arguments. An operation on the maps is one step; \<open>materialize\<close> is kept in the two parts that the
  claim of a one-time grant divides it into. Two calls that would share one refresh of a token refresh one after the other here.
\<close>

record kc_lib =
  kl_sha :: "string \<Rightarrow> string"
  kl_toBase64 :: "string \<Rightarrow> string"
  kl_seal :: "string \<Rightarrow> string \<Rightarrow> string \<Rightarrow> string \<times> string"
  kl_open :: "string \<Rightarrow> string \<Rightarrow> string \<Rightarrow> string \<Rightarrow> string option"

abbreviation nul_char :: char where "nul_char \<equiv> CHR 0x00"

definition hashId :: "kc_lib \<Rightarrow> string list \<Rightarrow> string" where
  "hashId lib parts = take 16 (kl_sha lib (join_with [nul_char] parts))"

subsection \<open>Sealed secrets\<close>

record secret_key =
  sk_current :: string
  sk_legacy :: string
  sk_fallbacks :: "(string \<times> string) list"

definition encryptSecret :: "kc_lib \<Rightarrow> string \<Rightarrow> string \<Rightarrow> secret_key \<Rightarrow> string" where
  "encryptSecret lib iv plain key =
     (case kl_seal lib (sk_current key) iv plain of
        (tag, ct) \<Rightarrow> ''v2:'' @ iv @ '':'' @ tag @ '':'' @ ct)"

fun firstSome :: "('a \<Rightarrow> 'b option) \<Rightarrow> 'a list \<Rightarrow> 'b option" where
  "firstSome f [] = None"
| "firstSome f (x # xs) = (case f x of Some y \<Rightarrow> Some y | None \<Rightarrow> firstSome f xs)"

definition decryptSecret :: "kc_lib \<Rightarrow> string \<Rightarrow> secret_key \<Rightarrow> string option" where
  "decryptSecret lib enc key =
     (let parts = split_on (CHR '':'') enc;
          v2 = (hd parts = ''v2'');
          args = (if v2 then tl parts else parts)
      in case args of
           [ivB, tagB, ctB] \<Rightarrow>
             (if ivB = [] \<or> tagB = [] then None
              else firstSome (\<lambda>(current, legacy). kl_open lib (if v2 then current else legacy) ivB tagB ctB)
                     ((sk_current key, sk_legacy key) # sk_fallbacks key))
         | _ \<Rightarrow> None)"

subsection \<open>Records\<close>

datatype credential_kind = KEnv | KFile | KBroker

record broker_delivery =
  bd_name :: string
  bd_env :: bool
  bd_envKey :: "string option"
  bd_injection :: "json option"
  bd_allowedMethods :: "string list option"
  bd_allowedPathPrefixes :: "string list option"
  bd_enabled :: bool
  bd_updatedBy :: "string option"

record credential_refresh =
  rf_refreshTokenEnc :: "string option"
  rf_accountType :: "string option"
  rf_clientRef :: "string option"
  rf_grantedScopes :: "string list option"
  rf_refreshFailedAt :: "millis option"
  rf_refreshError :: "string option"
  rf_orgId :: "string option"

record credential_file =
  cf_path :: string
  cf_contentBase64 :: string

record credential =
  cr_id :: string
  cr_ownerId :: string
  cr_orgId :: "string option"
  cr_service :: string
  cr_kind :: credential_kind
  cr_envKey :: "string option"
  cr_target :: "string option"
  cr_targets :: "string list option"
  cr_host :: "string option"
  cr_accountLabel :: "string option"
  cr_fields :: "(string \<times> bool) list option"
  cr_broker :: "broker_delivery option"
  cr_refresh :: "credential_refresh option"
  cr_managed :: bool
  cr_username :: "string option"
  cr_secretEnc :: string
  cr_fingerprint :: string
  cr_origin :: "string option"
  cr_expiresAt :: "millis option"
  cr_createdAt :: millis
  cr_updatedAt :: millis

datatype grant_mode = Once | Standing

datatype grant_status = GActive | GRevoked | GUsed

record keychain_grant =
  kg_id :: string
  kg_credentialId :: string
  kg_ownerId :: string
  kg_orgId :: "string option"
  kg_audienceScopeId :: string
  kg_mode :: grant_mode
  kg_purpose :: string
  kg_status :: grant_status
  kg_createdAt :: millis
  kg_expiresAt :: "millis option"
  kg_revokedAt :: "millis option"
  kg_usedAt :: "millis option"
  kg_usedBy :: "string option"
  kg_askId :: "string option"

datatype ask_status = AskPending | AskApproved | AskDeclined | AskExpired

record keychain_ask =
  ka_id :: string
  ka_credentialId :: string
  ka_ownerId :: string
  ka_requesterId :: string
  ka_orgId :: "string option"
  ka_requesterScopeId :: string
  ka_requesterDestination :: "destination option"
  ka_requesterThreadRef :: "string option"
  ka_purpose :: string
  ka_requestedMode :: "grant_mode option"
  ka_status :: ask_status
  ka_createdAt :: millis
  ka_expiresAt :: millis
  ka_resolvedAt :: "millis option"
  ka_grantId :: "string option"
  ka_note :: "string option"
  ka_notifiedAt :: "millis option"

record keychain =
  kc_creds :: "credential durable_map"
  kc_grants :: "keychain_grant durable_map"
  kc_asks :: "keychain_ask durable_map"

definition createKeychain :: keychain where
  "createKeychain = \<lparr>kc_creds = createMemoryMap, kc_grants = createMemoryMap, kc_asks = createMemoryMap\<rparr>"

datatype kc_error = KeychainError nat string | OtherError string

definition ASK_TTL_MS :: int where "ASK_TTL_MS = 24 * 60 * 60000"
definition ASK_PRUNE_AFTER_MS :: int where "ASK_PRUNE_AFTER_MS = 14 * 24 * 60 * 60000"

subsection \<open>Names and paths\<close>

definition upper_alnum :: "char \<Rightarrow> bool" where
  "upper_alnum c = (let n = (of_char c :: nat) in (65 \<le> n \<and> n \<le> 90) \<or> digit c)"

text \<open>\<open>toUpperCase\<close>; of the other letters with a capital above code unit 255 or of two letters only the sharp s matters here.\<close>

definition upper_char :: "char \<Rightarrow> string" where
  "upper_char c =
     (let n = (of_char c :: nat) in
      if 97 \<le> n \<and> n \<le> 122 \<or> 224 \<le> n \<and> n \<le> 254 \<and> n \<noteq> 247 then [char_of (n - 32)]
      else if n = 223 then ''SS'' else [c])"

definition to_upper :: "string \<Rightarrow> string" where
  "to_upper s = concat (map upper_char s)"

definition underscored :: "string \<Rightarrow> string" where
  "underscored s = map (\<lambda>c. if upper_alnum c then c else CHR ''_'') (to_upper s)"

definition defaultEnvKey :: "string \<Rightarrow> string" where
  "defaultEnvKey service = underscored service @ ''_TOKEN''"

definition connectorEnvKey :: "string \<Rightarrow> string" where
  "connectorEnvKey host = ''VAULT_TOKEN_'' @ underscored host"

definition env_start :: "char \<Rightarrow> bool" where
  "env_start c = (letter c \<or> c = CHR ''_'')"

definition ENV_KEY_RE :: "string \<Rightarrow> bool" where
  "ENV_KEY_RE s = (case s of c # cs \<Rightarrow> env_start c \<and> list_all (\<lambda>d. env_start d \<or> digit d) cs | [] \<Rightarrow> False)"

definition isValidCredentialSlug :: "string \<Rightarrow> bool" where
  "isValidCredentialSlug s =
     (case s of
        c # cs \<Rightarrow>
          (let ok = (\<lambda>d. digit d \<or> (97 \<le> (of_char d :: nat) \<and> (of_char d :: nat) \<le> 122))
           in ok c \<and> length cs \<le> 62 \<and> list_all (\<lambda>d. ok d \<or> d = CHR ''-'') cs)
      | [] \<Rightarrow> False)"

definition isValidServiceCredentialEnvKey :: "string \<Rightarrow> bool" where
  "isValidServiceCredentialEnvKey s =
     ((case s of
         c # cs \<Rightarrow> upper_alnum c \<and> \<not> digit c \<and> list_all (\<lambda>d. upper_alnum d \<or> d = CHR ''_'') cs
       | [] \<Rightarrow> False) \<and> \<not> starts_with ''AGENT_'' s)"

text \<open>\<open>/_(PASSWORD|PASS|TOKEN|SECRET|API_KEY|KEY)$/i\<close>: the leftmost match, of the longest suffix.\<close>

definition secretSuffix :: "string \<Rightarrow> bool" where
  "secretSuffix s =
     (to_lower s \<in> {''_password'', ''_pass'', ''_token'', ''_secret'', ''_api_key'', ''_key''})"

fun dropSecretSuffix :: "string \<Rightarrow> string" where
  "dropSecretSuffix [] = []"
| "dropSecretSuffix (c # s) = (if secretSuffix (c # s) then [] else c # dropSecretSuffix s)"

definition legacyUsernameEnvKey :: "string \<Rightarrow> string" where
  "legacyUsernameEnvKey k = (let base = dropSecretSuffix k in (if base = [] then k else base) @ ''_USERNAME'')"

definition stripHomePrefix :: "string \<Rightarrow> string" where
  "stripHomePrefix target =
     (let t = (if starts_with ''~/'' target then drop 2 target else target) in if t = ''~'' then [] else t)"

definition homeRelativePath :: "string \<Rightarrow> string option" where
  "homeRelativePath path =
     (let s = stripHomePrefix path; rel = (if starts_with ''./'' s then drop 2 s else s)
      in if rel = [] \<or> starts_with ''/'' rel \<or> ''..'' \<in> set (split_on (CHR ''/'') rel) then None else Some rel)"

definition keychainFilePath :: "string \<Rightarrow> kc_error + string" where
  "keychainFilePath path =
     (case homeRelativePath path of
        Some rel \<Rightarrow> Inr rel
      | None \<Rightarrow> Inl (KeychainError 400 (''file path must be home-relative: '' @ path)))"

definition credId :: "kc_lib \<Rightarrow> string \<Rightarrow> string \<Rightarrow> string \<Rightarrow> string" where
  "credId lib ownerId service slot = hashId lib [ownerId, service, slot]"

definition fingerprintOf :: "kc_lib \<Rightarrow> string \<Rightarrow> string" where
  "fingerprintOf lib secret = hashId lib [secret]"

definition expired :: "millis option \<Rightarrow> millis \<Rightarrow> bool" where
  "expired expiresAt now = (case expiresAt of Some e \<Rightarrow> e < now | None \<Rightarrow> False)"

definition credExpired :: "credential \<Rightarrow> millis \<Rightarrow> bool" where
  "credExpired c now = (cr_kind c \<noteq> KFile \<and> expired (cr_expiresAt c) now)"

definition isOwner :: "string \<Rightarrow> credential \<Rightarrow> bool" where
  "isOwner ownerId c = samePerson (Some (cr_ownerId c)) (Some ownerId)"

definition getOwned :: "string \<Rightarrow> string \<Rightarrow> keychain \<Rightarrow> credential option" where
  "getOwned ownerId i kc =
     (case dm_get (kc_creds kc) i of Some c \<Rightarrow> if isOwner ownerId c then Some c else None | None \<Rightarrow> None)"

subsection \<open>Opening a credential\<close>

record kc_extra =
  kx_grantId :: string
  kx_purpose :: string

record materialized =
  mt_kind :: credential_kind
  mt_credentialId :: string
  mt_ownerId :: string
  mt_service :: string
  mt_env :: "(string \<times> string) list"
  mt_files :: "credential_file list"
  mt_origin :: "string option"
  mt_extra :: "kc_extra option"

definition legacyUser :: "string \<Rightarrow> string option \<Rightarrow> (string \<times> string) list" where
  "legacyUser k u = (if truthy u then [(legacyUsernameEnvKey k, the u)] else [])"

definition decryptToEnv :: "kc_lib \<Rightarrow> secret_key \<Rightarrow> kc_extra option \<Rightarrow> credential \<Rightarrow> materialized option" where
  "decryptToEnv lib key extra c =
     (case decryptSecret lib (cr_secretEnc c) key of
        None \<Rightarrow> None
      | Some raw \<Rightarrow>
          (let out = (\<lambda>env. \<lparr>mt_kind = KEnv, mt_credentialId = cr_id c, mt_ownerId = cr_ownerId c, mt_service = cr_service c,
                            mt_env = env, mt_files = [], mt_origin = None, mt_extra = extra\<rparr>)
           in case cr_fields c of
                Some flds \<Rightarrow>
                  map_option (\<lambda>values. out (map (\<lambda>(k, _). (k, case strField values k of Some v \<Rightarrow> v | None \<Rightarrow> [])) flds))
                    (jsonParse raw)
              | None \<Rightarrow>
                  (let k = (case cr_envKey c of Some k \<Rightarrow> k | None \<Rightarrow> defaultEnvKey (cr_service c))
                   in Some (out ((k, raw) # legacyUser k (cr_username c))))))"

definition fileJson :: "credential_file \<Rightarrow> json" where
  "fileJson f = JObj [(''path'', JStr (cf_path f)), (''contentBase64'', JStr (cf_contentBase64 f))]"

definition fileOfJson :: "json \<Rightarrow> credential_file" where
  "fileOfJson j =
     \<lparr>cf_path = (case strField j ''path'' of Some p \<Rightarrow> p | None \<Rightarrow> []),
      cf_contentBase64 = (case strField j ''contentBase64'' of Some p \<Rightarrow> p | None \<Rightarrow> [])\<rparr>"

definition filesOfJson :: "json \<Rightarrow> credential_file list option" where
  "filesOfJson j = (case j of JArr xs \<Rightarrow> Some (map fileOfJson xs) | _ \<Rightarrow> None)"

definition decryptToFiles :: "kc_lib \<Rightarrow> secret_key \<Rightarrow> kc_extra option \<Rightarrow> credential \<Rightarrow> materialized option" where
  "decryptToFiles lib key extra c =
     (case decryptSecret lib (cr_secretEnc c) key of
        None \<Rightarrow> None
      | Some raw \<Rightarrow>
          map_option (\<lambda>files. \<lparr>mt_kind = KFile, mt_credentialId = cr_id c, mt_ownerId = cr_ownerId c, mt_service = cr_service c,
                        mt_env = [], mt_files = files, mt_origin = (if truthy (cr_origin c) then cr_origin c else None), mt_extra = extra\<rparr>)
            (case cr_targets c of
               Some _ \<Rightarrow> Option.bind (jsonParse raw) filesOfJson
             | None \<Rightarrow>
                 (case keychainFilePath (case cr_target c of Some t \<Rightarrow> t | None \<Rightarrow> []) of
                    Inr p \<Rightarrow> Some [\<lparr>cf_path = p, cf_contentBase64 = kl_toBase64 lib raw\<rparr>]
                  | Inl _ \<Rightarrow> None)))"

definition materializeDecrypted :: "kc_lib \<Rightarrow> secret_key \<Rightarrow> kc_extra option \<Rightarrow> credential \<Rightarrow> kc_error + materialized" where
  "materializeDecrypted lib key extra c =
     (case (if cr_kind c = KFile then decryptToFiles lib key extra c else decryptToEnv lib key extra c) of
        Some m \<Rightarrow> Inr m
      | None \<Rightarrow> Inl (KeychainError 422 ''credential does not decrypt under the current key''))"

subsection \<open>Saving\<close>

record save_input =
  si_ownerId :: string
  si_service :: string
  si_secret :: "string option"
  si_envKey :: "string option"
  si_fields :: "(string \<times> string \<times> bool option) list option"
  si_target :: "string option"
  si_files :: "credential_file list option"
  si_host :: "string option"
  si_accountLabel :: "string option"
  si_origin :: "string option"
  si_expiresAt :: "millis option"

fun allInr :: "('e + 'a) list \<Rightarrow> 'e + 'a list" where
  "allInr [] = Inr []"
| "allInr (Inl e # xs) = Inl e"
| "allInr (Inr x # xs) = (case allInr xs of Inl e \<Rightarrow> Inl e | Inr ys \<Rightarrow> Inr (x # ys))"

definition savedFiles :: "kc_lib \<Rightarrow> save_input \<Rightarrow> kc_error + credential_file list option" where
  "savedFiles lib inp =
     (case si_files inp of
        Some (f # fs) \<Rightarrow>
          (case allInr (map (\<lambda>f. map_sum id (\<lambda>p. f\<lparr>cf_path := p\<rparr>) (keychainFilePath (cf_path f))) (f # fs)) of
             Inl e \<Rightarrow> Inl e
           | Inr files \<Rightarrow> Inr (Some files))
      | _ \<Rightarrow>
          (if truthy (si_target inp) \<and> truthy (si_secret inp)
           then (case keychainFilePath (the (si_target inp)) of
                   Inl e \<Rightarrow> Inl e
                 | Inr p \<Rightarrow> Inr (Some [\<lparr>cf_path = p, cf_contentBase64 = kl_toBase64 lib (the (si_secret inp))\<rparr>]))
           else Inr None))"

definition savedFields :: "bool \<Rightarrow> save_input \<Rightarrow> (string \<times> string \<times> bool) list option" where
  "savedFields haveFiles inp =
     (case si_fields inp of
        Some (f # fs) \<Rightarrow>
          (if haveFiles then None
           else Some (map (\<lambda>(k, v, s). (js_trim k, v, s \<noteq> Some False)) (f # fs)))
      | _ \<Rightarrow> None)"

definition fieldsError :: "(string \<times> string \<times> bool) list option \<Rightarrow> kc_error option" where
  "fieldsError flds =
     (case flds of
        None \<Rightarrow> None
      | Some fs \<Rightarrow>
          (if \<not> list_all (\<lambda>(k, _). ENV_KEY_RE k) fs
           then Some (KeychainError 400 ''each credential field needs a valid environment-variable envKey'')
           else if \<not> list_all (\<lambda>(_, v, _). js_trim v \<noteq> []) fs
           then Some (KeychainError 400 ''each credential field needs a value'')
           else if \<not> distinct (map fst fs)
           then Some (KeychainError 400 ''credential field envKeys must be unique'')
           else None))"

definition savedSecret :: "save_input \<Rightarrow> credential_file list option \<Rightarrow> (string \<times> string \<times> bool) list option \<Rightarrow> string option" where
  "savedSecret inp files flds =
     (case files of
        Some fs \<Rightarrow> Some (stringify (JArr (map fileJson fs)))
      | None \<Rightarrow>
          (case flds of
             Some fs \<Rightarrow> Some (stringify (JObj (map (\<lambda>(k, v, _). (k, JStr v)) fs)))
           | None \<Rightarrow> si_secret inp))"

definition saveSlot :: "credential_file list option \<Rightarrow> (string \<times> string \<times> bool) list option \<Rightarrow> string option \<Rightarrow> string" where
  "saveSlot files flds envKey =
     (case files of
        Some _ \<Rightarrow> ''file''
      | None \<Rightarrow>
          (case flds of
             Some fs \<Rightarrow> ''env:'' @ join_with '','' (sort (map fst fs))
           | None \<Rightarrow> ''env:'' @ the envKey))"

definition savedRecord ::
  "kc_lib \<Rightarrow> secret_key \<Rightarrow> string \<Rightarrow> string \<Rightarrow> millis \<Rightarrow> save_input \<Rightarrow> string \<Rightarrow> credential_file list option \<Rightarrow> (string \<times> string \<times> bool) list option \<Rightarrow> string option \<Rightarrow> string \<Rightarrow> keychain \<Rightarrow> credential"
where
  "savedRecord lib key orgId iv now inp service files flds envKey secret kc =
     (let i = credId lib (si_ownerId inp) service (saveSlot files flds envKey) in
      \<lparr>cr_id = i, cr_ownerId = si_ownerId inp, cr_orgId = Some orgId, cr_service = service,
       cr_kind = (if files \<noteq> None then KFile else KEnv), cr_envKey = envKey, cr_target = None,
       cr_targets = map_option (map cf_path) files,
       cr_host = (if truthy (si_host inp) then si_host inp else None),
       cr_accountLabel = (if truthy (si_accountLabel inp) then si_accountLabel inp else None),
       cr_fields = map_option (map (\<lambda>(k, _, s). (k, s))) flds, cr_broker = None, cr_refresh = None,
       cr_managed = False, cr_username = None, cr_secretEnc = encryptSecret lib iv secret key,
       cr_fingerprint = fingerprintOf lib secret, cr_origin = (if truthy (si_origin inp) then si_origin inp else None),
       cr_expiresAt = si_expiresAt inp,
       cr_createdAt = (case dm_get (kc_creds kc) i of Some p \<Rightarrow> cr_createdAt p | None \<Rightarrow> now), cr_updatedAt = now\<rparr>)"

definition saveEnvKey :: "save_input \<Rightarrow> string \<Rightarrow> string" where
  "saveEnvKey inp service =
     (let k = js_trim (case si_envKey inp of Some k \<Rightarrow> k | None \<Rightarrow> []) in if k = [] then defaultEnvKey service else k)"

definition saveCredential ::
  "kc_lib \<Rightarrow> secret_key \<Rightarrow> string \<Rightarrow> string \<Rightarrow> millis \<Rightarrow> save_input \<Rightarrow> keychain \<Rightarrow> (kc_error + credential) \<times> keychain"
where
  "saveCredential lib key orgId iv now inp kc =
     (let service = to_lower (js_trim (si_service inp)) in
      if service = [] then (Inl (KeychainError 400 ''service required''), kc)
      else
        (case savedFiles lib inp of
           Inl e \<Rightarrow> (Inl e, kc)
         | Inr files \<Rightarrow>
             (let flds = savedFields (files \<noteq> None) inp; secret = savedSecret inp files flds;
                  envKey = (if files = None \<and> flds = None then Some (saveEnvKey inp service) else None) in
              case fieldsError flds of
                Some e \<Rightarrow> (Inl e, kc)
              | None \<Rightarrow>
                  (if js_trim (case secret of Some x \<Rightarrow> x | None \<Rightarrow> []) = [] then (Inl (KeychainError 400 ''empty secret''), kc)
                   else if envKey \<noteq> None \<and> \<not> ENV_KEY_RE (the envKey)
                   then (Inl (KeychainError 400 ''envKey must be a valid environment-variable name''), kc)
                   else
                     (let rec = savedRecord lib key orgId iv now inp service files flds envKey (the secret) kc
                      in (Inr rec, kc\<lparr>kc_creds := dm_put (cr_id rec) rec (kc_creds kc)\<rparr>))))))"

subsection \<open>Grants\<close>

record grant_input =
  gi_credentialId :: string
  gi_ownerId :: string
  gi_audienceScopeId :: string
  gi_mode :: grant_mode
  gi_purpose :: string
  gi_expiresAt :: "millis option"
  gi_askId :: "string option"

definition newGrant :: "kc_lib \<Rightarrow> millis \<Rightarrow> credential \<Rightarrow> grant_input \<Rightarrow> keychain_grant" where
  "newGrant lib t c inp =
     (let purpose = js_trim (gi_purpose inp) in
      \<lparr>kg_id = hashId lib [cr_id c, gi_audienceScopeId inp, show_int t, purpose], kg_credentialId = cr_id c, kg_ownerId = cr_ownerId c,
       kg_orgId = cr_orgId c, kg_audienceScopeId = gi_audienceScopeId inp, kg_mode = gi_mode inp, kg_purpose = purpose,
       kg_status = GActive, kg_createdAt = t, kg_expiresAt = gi_expiresAt inp, kg_revokedAt = None, kg_usedAt = None, kg_usedBy = None,
       kg_askId = (if truthy (gi_askId inp) then gi_askId inp else None)\<rparr>)"

definition mintGrant :: "kc_lib \<Rightarrow> millis \<Rightarrow> grant_input \<Rightarrow> keychain \<Rightarrow> (kc_error + keychain_grant) \<times> keychain" where
  "mintGrant lib t inp kc =
     (case dm_get (kc_creds kc) (gi_credentialId inp) of
        None \<Rightarrow> (Inl (KeychainError 404 ''unknown credential''), kc)
      | Some c \<Rightarrow>
          (if cr_kind c = KBroker
           then (Inl (KeychainError 400 ''broker credentials are org-owned and used via the credential broker, not grants''), kc)
           else if \<not> isOwner (gi_ownerId inp) c
           then (Inl (KeychainError 403 (''only the credential's owner can grant it '' @ [dash_char] @
                        '' and only on a turn the owner themself sent'')), kc)
           else if js_trim (gi_purpose inp) = []
           then (Inl (KeychainError 400 (''purpose required '' @ [dash_char] @ '' record the owner's approval verbatim'')), kc)
           else if \<not> cr_managed c \<and> credExpired c t then (Inl (KeychainError 410 ''credential is expired''), kc)
           else
             (let g = newGrant lib t c inp
              in (Inr g, kc\<lparr>kc_grants := dm_put (kg_id g) g (kc_grants kc)\<rparr>))))"

definition patchGrant :: "string \<Rightarrow> (keychain_grant \<Rightarrow> keychain_grant) \<Rightarrow> keychain \<Rightarrow> keychain" where
  "patchGrant i f kc = kc\<lparr>kc_grants := snd (dm_merge i f (kc_grants kc))\<rparr>"

definition markRevoked :: "millis \<Rightarrow> keychain_grant \<Rightarrow> keychain_grant" where
  "markRevoked t g = g\<lparr>kg_status := GRevoked, kg_revokedAt := Some t\<rparr>"

definition deleteCredential :: "millis \<Rightarrow> string \<Rightarrow> keychain \<Rightarrow> keychain" where
  "deleteCredential t i kc =
     (let kc1 = fold (\<lambda>g k. if kg_credentialId g = i \<and> kg_status g = GActive then patchGrant (kg_id g) (markRevoked t) k else k)
                  (dm_all (kc_grants kc)) kc
      in kc1\<lparr>kc_creds := dm_delete i (kc_creds kc1)\<rparr>)"

definition removeCredential :: "millis \<Rightarrow> string \<Rightarrow> string \<Rightarrow> keychain \<Rightarrow> bool \<times> keychain" where
  "removeCredential t ownerId i kc =
     (case getOwned ownerId i kc of
        None \<Rightarrow> (False, kc)
      | Some c \<Rightarrow> if cr_managed c \<or> cr_kind c = KBroker then (False, kc) else (True, deleteCredential t i kc))"

definition isPersonal :: "credential \<Rightarrow> bool" where
  "isPersonal c = (\<not> cr_managed c \<and> cr_kind c \<noteq> KBroker)"

text \<open>Listings leave the sealed secret out (\<open>toMeta\<close>).\<close>

definition toMeta :: "credential \<Rightarrow> credential" where
  "toMeta c = c\<lparr>cr_secretEnc := []\<rparr>"

definition listAllMetadata :: "keychain \<Rightarrow> credential list" where
  "listAllMetadata kc = map toMeta (filter isPersonal (dm_all (kc_creds kc)))"

definition listByOwner :: "string \<Rightarrow> keychain \<Rightarrow> credential list" where
  "listByOwner ownerId kc = map toMeta (filter (\<lambda>c. isOwner ownerId c \<and> isPersonal c) (dm_all (kc_creds kc)))"

definition getCredential :: "string \<Rightarrow> keychain \<Rightarrow> credential option" where
  "getCredential i kc = map_option toMeta (dm_get (kc_creds kc) i)"

text \<open>\<open>new Map(ownerIds.map(...))\<close>: of two spellings of one person the later counts.\<close>

definition bucketByOwner :: "credential list \<Rightarrow> string list \<Rightarrow> (credential \<Rightarrow> bool) \<Rightarrow> (credential \<Rightarrow> 'a) \<Rightarrow> (string, 'a list) jsmap" where
  "bucketByOwner creds ownerIds include item =
     (let byKey = fold (\<lambda>i m. jm_set (personKey (Some i)) i m) ownerIds []
      in fold (\<lambda>c out.
           if \<not> include c then out
           else (case jm_get byKey (personKey (Some (cr_ownerId c))) of
                   None \<Rightarrow> out
                 | Some owner \<Rightarrow> jm_set owner (jm_list out owner @ [item c]) out)) creds [])"

definition listByOwners :: "string list \<Rightarrow> keychain \<Rightarrow> (string, credential list) jsmap" where
  "listByOwners ownerIds kc = bucketByOwner (dm_all (kc_creds kc)) ownerIds isPersonal toMeta"

definition getGrant :: "string \<Rightarrow> keychain \<Rightarrow> keychain_grant option" where
  "getGrant i kc = dm_get (kc_grants kc) i"

definition listGrants :: "string option \<Rightarrow> string option \<Rightarrow> keychain \<Rightarrow> keychain_grant list" where
  "listGrants ownerId scope kc =
     filter (\<lambda>g. (ownerId = None \<or> samePerson (Some (kg_ownerId g)) ownerId) \<and> (scope = None \<or> Some (kg_audienceScopeId g) = scope))
       (dm_all (kc_grants kc))"

definition revokeGrant :: "millis \<Rightarrow> string \<Rightarrow> string \<Rightarrow> keychain \<Rightarrow> bool \<times> keychain" where
  "revokeGrant t ownerId i kc =
     (case getGrant i kc of
        None \<Rightarrow> (False, kc)
      | Some g \<Rightarrow>
          (if \<not> samePerson (Some (kg_ownerId g)) (Some ownerId) then (False, kc)
           else (True, if kg_status g = GActive then patchGrant i (markRevoked t) kc else kc)))"

definition activeGrantsFor :: "millis \<Rightarrow> string \<Rightarrow> keychain \<Rightarrow> keychain_grant list" where
  "activeGrantsFor t scope kc =
     filter (\<lambda>g. kg_audienceScopeId g = scope \<and> kg_status g = GActive \<and> \<not> expired (kg_expiresAt g) t) (dm_all (kc_grants kc))"

definition grantsForScope :: "millis \<Rightarrow> string \<Rightarrow> keychain \<Rightarrow> (keychain_grant \<times> credential) list" where
  "grantsForScope t scope kc =
     List.map_filter (\<lambda>g. case dm_get (kc_creds kc) (kg_credentialId g) of
         None \<Rightarrow> None
       | Some c \<Rightarrow> if cr_managed c \<or> \<not> credExpired c t then Some (g, toMeta c) else None) (activeGrantsFor t scope kc)"

text \<open>The atomic update of a one-time grant.\<close>

definition claimOnceCheck :: "millis \<Rightarrow> string \<Rightarrow> keychain_grant \<Rightarrow> kc_error option" where
  "claimOnceCheck usedAt scope g =
     (if kg_audienceScopeId g \<noteq> scope then Some (KeychainError 403 ''grant is for a different conversation'')
      else if kg_status g = GRevoked then Some (KeychainError 410 ''grant was revoked'')
      else if kg_status g = GUsed then Some (KeychainError 410 ''one-time grant already used'')
      else if expired (kg_expiresAt g) usedAt then Some (KeychainError 410 ''grant is expired'')
      else None)"

definition claimOnceGrant :: "millis \<Rightarrow> keychain_grant \<Rightarrow> string \<Rightarrow> string \<Rightarrow> keychain \<Rightarrow> kc_error option \<times> keychain" where
  "claimOnceGrant usedAt grant scope usedBy kc =
     (if kg_mode grant \<noteq> Once then (None, kc)
      else
        (case dm_get (kc_grants kc) (kg_id grant) of
           None \<Rightarrow> (Some (KeychainError 404 ''unknown grant''), kc)
         | Some current \<Rightarrow>
             (case claimOnceCheck usedAt scope current of
                Some e \<Rightarrow> (Some e, kc)
              | None \<Rightarrow>
                  (None, patchGrant (kg_id grant) (\<lambda>g. g\<lparr>kg_status := GUsed, kg_usedAt := Some usedAt, kg_usedBy := Some usedBy\<rparr>) kc))))"

subsection \<open>Asks\<close>

definition patchAsk :: "string \<Rightarrow> (keychain_ask \<Rightarrow> keychain_ask) \<Rightarrow> keychain \<Rightarrow> keychain" where
  "patchAsk i f kc = kc\<lparr>kc_asks := snd (dm_merge i f (kc_asks kc))\<rparr>"

definition askLapsed :: "keychain_ask \<Rightarrow> millis \<Rightarrow> bool" where
  "askLapsed a t = (ka_status a = AskPending \<and> ka_expiresAt a < t)"

definition markExpired :: "millis \<Rightarrow> keychain_ask \<Rightarrow> keychain_ask" where
  "markExpired t a = a\<lparr>ka_status := AskExpired, ka_resolvedAt := Some t\<rparr>"

definition freshAsk :: "millis \<Rightarrow> keychain_ask \<Rightarrow> keychain \<Rightarrow> keychain_ask \<times> keychain" where
  "freshAsk t a kc = (if askLapsed a t then (markExpired t a, patchAsk (ka_id a) (markExpired t) kc) else (a, kc))"

record ask_input =
  ai_credentialId :: string
  ai_requesterId :: string
  ai_requesterScopeId :: string
  ai_requesterDestination :: "destination option"
  ai_requesterThreadRef :: "string option"
  ai_purpose :: string
  ai_requestedMode :: "grant_mode option"
  ai_expiresAt :: "millis option"

text \<open>The loop over the asks stops at the first that is pending for the same credential and conversation.\<close>

fun findPending :: "millis \<Rightarrow> string \<Rightarrow> string \<Rightarrow> keychain_ask list \<Rightarrow> keychain \<Rightarrow> keychain_ask option \<times> keychain" where
  "findPending t cid scope [] kc = (None, kc)"
| "findPending t cid scope (rec # recs) kc =
     (case freshAsk t rec kc of
        (a, kc') \<Rightarrow>
          (if ka_status a = AskPending \<and> ka_credentialId a = cid \<and> ka_requesterScopeId a = scope then (Some a, kc')
           else findPending t cid scope recs kc'))"

definition createAsk :: "string \<Rightarrow> string \<Rightarrow> millis \<Rightarrow> ask_input \<Rightarrow> keychain \<Rightarrow> (kc_error + (keychain_ask \<times> bool)) \<times> keychain" where
  "createAsk newId orgId t inp kc =
     (let purpose = js_trim (ai_purpose inp) in
      if purpose = [] then (Inl (KeychainError 400 (''purpose required '' @ [dash_char] @ '' record the requester's words verbatim'')), kc)
      else
        (case dm_get (kc_creds kc) (ai_credentialId inp) of
           None \<Rightarrow> (Inl (KeychainError 404 ''unknown credential''), kc)
         | Some c \<Rightarrow>
             (if cr_kind c = KBroker then (Inl (KeychainError 404 ''unknown credential''), kc)
              else if \<not> cr_managed c \<and> credExpired c t
              then (Inl (KeychainError 410 (''credential is expired '' @ [dash_char] @ '' its owner must re-auth before it can be asked for'')), kc)
              else if isOwner (ai_requesterId inp) c
              then (Inl (KeychainError 400 (''you own this credential '' @ [dash_char] @ '' grant it directly instead of asking yourself'')), kc)
              else
                (case findPending t (cr_id c) (ai_requesterScopeId inp) (dm_all (kc_asks kc)) kc of
                   (Some a, kc') \<Rightarrow> (Inr (a, True), kc')
                 | (None, kc') \<Rightarrow>
                     (let a = \<lparr>ka_id = newId, ka_credentialId = cr_id c, ka_ownerId = cr_ownerId c, ka_requesterId = ai_requesterId inp,
                               ka_orgId = Some orgId, ka_requesterScopeId = ai_requesterScopeId inp,
                               ka_requesterDestination = ai_requesterDestination inp,
                               ka_requesterThreadRef = (if truthy (ai_requesterThreadRef inp) then ai_requesterThreadRef inp else None),
                               ka_purpose = purpose, ka_requestedMode = ai_requestedMode inp, ka_status = AskPending, ka_createdAt = t,
                               ka_expiresAt = (case ai_expiresAt inp of Some e \<Rightarrow> e | None \<Rightarrow> t + ASK_TTL_MS), ka_resolvedAt = None,
                               ka_grantId = None, ka_note = None, ka_notifiedAt = None\<rparr>
                      in (Inr (a, False), kc'\<lparr>kc_asks := dm_put newId a (kc_asks kc')\<rparr>))))))"

definition getAsk :: "millis \<Rightarrow> string \<Rightarrow> keychain \<Rightarrow> keychain_ask option \<times> keychain" where
  "getAsk t i kc =
     (case dm_get (kc_asks kc) i of None \<Rightarrow> (None, kc) | Some rec \<Rightarrow> (case freshAsk t rec kc of (a, kc') \<Rightarrow> (Some a, kc')))"

definition freshAll :: "millis \<Rightarrow> keychain \<Rightarrow> keychain_ask list \<times> keychain" where
  "freshAll t kc =
     fold (\<lambda>rec (out, k). case freshAsk t rec k of (a, k') \<Rightarrow> (out @ [a], k')) (dm_all (kc_asks kc)) ([], kc)"

definition listAsks :: "millis \<Rightarrow> string option \<Rightarrow> string option \<Rightarrow> string option \<Rightarrow> keychain \<Rightarrow> keychain_ask list \<times> keychain" where
  "listAsks t requesterId ownerId scope kc =
     (case freshAll t kc of
        (asks, kc') \<Rightarrow>
          (sort_key ka_createdAt
             (filter (\<lambda>a. (requesterId = None \<or> samePerson (Some (ka_requesterId a)) requesterId) \<and>
                          (ownerId = None \<or> samePerson (Some (ka_ownerId a)) ownerId) \<and>
                          (scope = None \<or> Some (ka_requesterScopeId a) = scope)) asks), kc'))"

fun askStatusName :: "ask_status \<Rightarrow> string" where
  "askStatusName AskPending = ''pending''"
| "askStatusName AskApproved = ''approved''"
| "askStatusName AskDeclined = ''declined''"
| "askStatusName AskExpired = ''expired''"

definition markApproved :: "millis \<Rightarrow> string \<Rightarrow> keychain_ask \<Rightarrow> keychain_ask" where
  "markApproved t grantId a = a\<lparr>ka_status := AskApproved, ka_resolvedAt := Some t, ka_grantId := Some grantId\<rparr>"

definition approveAsk ::
  "kc_lib \<Rightarrow> millis \<Rightarrow> string \<Rightarrow> string \<Rightarrow> grant_mode \<Rightarrow> string \<Rightarrow> millis option \<Rightarrow> keychain \<Rightarrow> (kc_error + (keychain_ask \<times> keychain_grant)) \<times> keychain"
where
  "approveAsk lib t askId ownerId mode purpose expiresAt kc =
     (case dm_get (kc_asks kc) askId of
        None \<Rightarrow> (Inl (KeychainError 404 ''unknown ask''), kc)
      | Some rec \<Rightarrow>
          (case freshAsk t rec kc of
             (a, kc1) \<Rightarrow>
               (if ka_status a \<noteq> AskPending then (Inl (KeychainError 410 (''ask already '' @ askStatusName (ka_status a))), kc1)
                else
                  (case mintGrant lib t \<lparr>gi_credentialId = ka_credentialId a, gi_ownerId = ownerId, gi_audienceScopeId = ka_requesterScopeId a,
                          gi_mode = mode, gi_purpose = purpose, gi_expiresAt = expiresAt, gi_askId = Some (ka_id a)\<rparr> kc1 of
                     (Inl e, kc2) \<Rightarrow> (Inl e, kc2)
                   | (Inr g, kc2) \<Rightarrow>
                       (Inr (markApproved t (kg_id g) a, g), patchAsk (ka_id a) (markApproved t (kg_id g)) kc2)))))"

definition declineAsk :: "millis \<Rightarrow> string \<Rightarrow> string \<Rightarrow> string option \<Rightarrow> keychain \<Rightarrow> (kc_error + keychain_ask) \<times> keychain" where
  "declineAsk t askId ownerId note kc =
     (case dm_get (kc_asks kc) askId of
        None \<Rightarrow> (Inl (KeychainError 404 ''unknown ask''), kc)
      | Some rec \<Rightarrow>
          (if \<not> samePerson (Some (ka_ownerId rec)) (Some ownerId)
           then (Inl (KeychainError 403 ''only the credential's owner can decline an ask''), kc)
           else
             (case freshAsk t rec kc of
                (a, kc1) \<Rightarrow>
                  (if ka_status a \<noteq> AskPending then (Inl (KeychainError 410 (''ask already '' @ askStatusName (ka_status a))), kc1)
                   else
                     (let n = js_trim (case note of Some n \<Rightarrow> n | None \<Rightarrow> []);
                          patch = (\<lambda>x. let y = x\<lparr>ka_status := AskDeclined, ka_resolvedAt := Some t\<rparr>
                                       in if n = [] then y else y\<lparr>ka_note := Some n\<rparr>)
                      in (Inr (patch a), patchAsk (ka_id a) patch kc1))))))"

definition unnotifiedOne :: "millis \<Rightarrow> keychain_ask \<Rightarrow> keychain_ask list \<times> keychain \<Rightarrow> keychain_ask list \<times> keychain" where
  "unnotifiedOne t rec st =
     (case st of
        (out, kc) \<Rightarrow>
          (case freshAsk t rec kc of
             (a, kc1) \<Rightarrow>
               (if ka_status a = AskPending then (out, kc1)
                else
                  (case ka_notifiedAt a of
                     None \<Rightarrow> (out @ [a], kc1)
                   | Some n \<Rightarrow>
                       (if n < t - ASK_PRUNE_AFTER_MS then (out, kc1\<lparr>kc_asks := dm_delete (ka_id a) (kc_asks kc1)\<rparr>) else (out, kc1))))))"

definition unnotifiedResolvedAsks :: "millis \<Rightarrow> keychain \<Rightarrow> keychain_ask list \<times> keychain" where
  "unnotifiedResolvedAsks t kc = fold (unnotifiedOne t) (dm_all (kc_asks kc)) ([], kc)"

definition markAskNotified :: "millis \<Rightarrow> string \<Rightarrow> keychain \<Rightarrow> keychain" where
  "markAskNotified t i kc = patchAsk i (\<lambda>a. a\<lparr>ka_notifiedAt := Some t\<rparr>) kc"

definition adoptOne :: "millis \<Rightarrow> keychain_grant \<Rightarrow> keychain_ask \<Rightarrow> keychain_ask list \<times> keychain \<Rightarrow> keychain_ask list \<times> keychain" where
  "adoptOne t g rec st =
     (case st of
        (out, kc) \<Rightarrow>
          (case freshAsk t rec kc of
             (a, kc1) \<Rightarrow>
               (if ka_status a \<noteq> AskPending \<or> ka_credentialId a \<noteq> kg_credentialId g \<or> ka_requesterScopeId a \<noteq> kg_audienceScopeId g
                then (out, kc1)
                else
                  (let patch = (\<lambda>x. (markApproved t (kg_id g) x)\<lparr>ka_notifiedAt := Some t\<rparr>)
                   in (out @ [patch a], patchGrant (kg_id g) (\<lambda>x. x\<lparr>kg_askId := Some (ka_id a)\<rparr>) (patchAsk (ka_id a) patch kc1))))))"

definition resolveAsksForGrant :: "millis \<Rightarrow> keychain_grant \<Rightarrow> keychain \<Rightarrow> keychain_ask list \<times> keychain" where
  "resolveAsksForGrant t g kc = fold (adoptOne t g) (dm_all (kc_asks kc)) ([], kc)"

subsection \<open>Service credentials\<close>

record service_input =
  sv_slug :: string
  sv_name :: string
  sv_secret :: "string option"
  sv_env :: bool
  sv_envKey :: "string option"
  sv_host :: string
  sv_injection :: "json option"
  sv_allowedMethods :: "string list option"
  sv_allowedPathPrefixes :: "string list option"
  sv_enabled :: "bool option"
  sv_updatedBy :: "string option"

definition brokerId :: "kc_lib \<Rightarrow> string \<Rightarrow> string \<Rightarrow> string" where
  "brokerId lib orgScope slug = credId lib orgScope slug ''broker''"

definition orgIdOf :: "string \<Rightarrow> string" where
  "orgIdOf orgScope = (if starts_with ''org:'' orgScope then drop 4 orgScope else orgScope)"

definition jsonOrNull :: "string option \<Rightarrow> string" where
  "jsonOrNull s = (case s of Some x \<Rightarrow> json_string x | None \<Rightarrow> ''null'')"

definition serviceCredentialRecord ::
  "kc_lib \<Rightarrow> secret_key \<Rightarrow> string \<Rightarrow> millis \<Rightarrow> string \<Rightarrow> service_input \<Rightarrow> credential option \<Rightarrow> kc_error + credential"
where
  "serviceCredentialRecord lib key iv now orgScope inp prior =
     (let secret = js_trim (case sv_secret inp of Some x \<Rightarrow> x | None \<Rightarrow> []);
          t = max now ((case prior of Some p \<Rightarrow> cr_updatedAt p | None \<Rightarrow> 0) + 1)
      in if sv_env inp \<and> (\<not> truthy (sv_envKey inp) \<or> \<not> isValidServiceCredentialEnvKey (the (sv_envKey inp)))
         then Inl (OtherError (''env-delivery credential '' @ sv_slug inp @ '' needs an UPPER_SNAKE_CASE envKey outside AGENT_* (got '' @
                jsonOrNull (sv_envKey inp) @ '')''))
         else if \<not> sv_env inp \<and> truthy (sv_envKey inp)
         then Inl (OtherError (''broker-delivery credential '' @ sv_slug inp @ '' must not carry an envKey''))
         else Inr
           \<lparr>cr_id = brokerId lib orgScope (sv_slug inp), cr_ownerId = orgScope, cr_orgId = Some (orgIdOf orgScope), cr_service = sv_slug inp,
            cr_kind = KBroker, cr_envKey = None, cr_target = None, cr_targets = None, cr_host = Some (sv_host inp), cr_accountLabel = None,
            cr_fields = None,
            cr_broker = Some \<lparr>bd_name = sv_name inp, bd_env = sv_env inp, bd_envKey = (if sv_env inp then sv_envKey inp else None),
                              bd_injection = sv_injection inp, bd_allowedMethods = map_option (map to_upper) (sv_allowedMethods inp),
                              bd_allowedPathPrefixes = sv_allowedPathPrefixes inp, bd_enabled = (sv_enabled inp \<noteq> Some False),
                              bd_updatedBy = (if truthy (sv_updatedBy inp) then sv_updatedBy inp else None)\<rparr>,
            cr_refresh = None, cr_managed = False, cr_username = None,
            cr_secretEnc = (if secret \<noteq> [] then encryptSecret lib iv secret key else (case prior of Some p \<Rightarrow> cr_secretEnc p | None \<Rightarrow> [])),
            cr_fingerprint = (if secret \<noteq> [] then fingerprintOf lib secret else (case prior of Some p \<Rightarrow> cr_fingerprint p | None \<Rightarrow> [])),
            cr_origin = None, cr_expiresAt = None,
            cr_createdAt = (case prior of Some p \<Rightarrow> cr_createdAt p | None \<Rightarrow> t), cr_updatedAt = t\<rparr>)"

definition setServiceCredential ::
  "kc_lib \<Rightarrow> secret_key \<Rightarrow> string \<Rightarrow> millis \<Rightarrow> string \<Rightarrow> service_input \<Rightarrow> keychain \<Rightarrow> kc_error option \<times> keychain"
where
  "setServiceCredential lib key iv now orgScope inp kc =
     (case serviceCredentialRecord lib key iv now orgScope inp (dm_get (kc_creds kc) (brokerId lib orgScope (sv_slug inp))) of
        Inl e \<Rightarrow> (Some e, kc)
      | Inr rec \<Rightarrow> (None, kc\<lparr>kc_creds := dm_put (cr_id rec) rec (kc_creds kc)\<rparr>))"

definition setServiceCredentialIfAbsent ::
  "kc_lib \<Rightarrow> secret_key \<Rightarrow> string \<Rightarrow> millis \<Rightarrow> string \<Rightarrow> service_input \<Rightarrow> keychain \<Rightarrow> (kc_error + millis option) \<times> keychain"
where
  "setServiceCredentialIfAbsent lib key iv now orgScope inp kc =
     (case serviceCredentialRecord lib key iv now orgScope inp None of
        Inl e \<Rightarrow> (Inl e, kc)
      | Inr rec \<Rightarrow>
          (case dm_insertIfAbsent (cr_id rec) rec (kc_creds kc) of
             (done, m) \<Rightarrow> (Inr (if done then Some (cr_updatedAt rec) else None), kc\<lparr>kc_creds := m\<rparr>)))"

definition currentBroker :: "string \<Rightarrow> millis \<Rightarrow> credential \<Rightarrow> bool" where
  "currentBroker orgScope expected c = (cr_kind c = KBroker \<and> cr_ownerId c = orgScope \<and> cr_updatedAt c = expected)"

definition setServiceCredentialIfCurrent ::
  "kc_lib \<Rightarrow> secret_key \<Rightarrow> string \<Rightarrow> millis \<Rightarrow> string \<Rightarrow> service_input \<Rightarrow> millis \<Rightarrow> keychain \<Rightarrow> (kc_error + millis option) \<times> keychain"
where
  "setServiceCredentialIfCurrent lib key iv now orgScope inp expected kc =
     (let i = brokerId lib orgScope (sv_slug inp) in
      case dm_get (kc_creds kc) i of
        None \<Rightarrow> (Inr None, kc)
      | Some prior \<Rightarrow>
          (if \<not> currentBroker orgScope expected prior then (Inr None, kc)
           else
             (case serviceCredentialRecord lib key iv now orgScope inp (Some prior) of
                Inl e \<Rightarrow> (Inl e, kc)
              | Inr rec \<Rightarrow> (Inr (Some (cr_updatedAt rec)), kc\<lparr>kc_creds := dm_put i rec (kc_creds kc)\<rparr>))))"

definition listServiceCredentials :: "string \<Rightarrow> keychain \<Rightarrow> credential list" where
  "listServiceCredentials orgScope kc =
     map toMeta (filter (\<lambda>c. cr_kind c = KBroker \<and> cr_ownerId c = orgScope) (dm_all (kc_creds kc)))"

definition deleteServiceCredential :: "kc_lib \<Rightarrow> string \<Rightarrow> string \<Rightarrow> keychain \<Rightarrow> keychain" where
  "deleteServiceCredential lib orgScope slug kc = kc\<lparr>kc_creds := dm_delete (brokerId lib orgScope slug) (kc_creds kc)\<rparr>"

definition deleteServiceCredentialIfCurrent :: "kc_lib \<Rightarrow> string \<Rightarrow> string \<Rightarrow> millis \<Rightarrow> keychain \<Rightarrow> bool \<times> keychain" where
  "deleteServiceCredentialIfCurrent lib orgScope slug expected kc =
     (case dm_deleteIf (brokerId lib orgScope slug) (currentBroker orgScope expected) (kc_creds kc) of
        (done, m) \<Rightarrow> (done, kc\<lparr>kc_creds := m\<rparr>))"

subsection \<open>Connector tokens\<close>

record oauth_token =
  ot_accessToken :: string
  ot_refreshToken :: "string option"
  ot_expiresAt :: "millis option"
  ot_grantedScopes :: "string list option"
  ot_clientRef :: "string option"
  ot_accountType :: "string option"
  ot_orgId :: "string option"

definition oauthSlot :: "string option \<Rightarrow> string" where
  "oauthSlot accountType = ''oauth:'' @ (if truthy accountType \<and> accountType \<noteq> Some ''default'' then the accountType else [])"

definition oauthId :: "kc_lib \<Rightarrow> string \<Rightarrow> string \<Rightarrow> string option \<Rightarrow> string" where
  "oauthId lib host principalId accountType = credId lib principalId (to_lower host) (oauthSlot accountType)"

definition fullString :: "string option \<Rightarrow> string option" where
  "fullString s = (if truthy s then s else None)"

definition putConnectorToken ::
  "kc_lib \<Rightarrow> secret_key \<Rightarrow> string \<Rightarrow> string \<times> string \<Rightarrow> millis \<Rightarrow> string \<Rightarrow> string \<Rightarrow> oauth_token \<Rightarrow> string option \<Rightarrow> keychain \<Rightarrow> keychain"
where
  "putConnectorToken lib key orgId ivs t host principalId token accountType kc =
     (let i = oauthId lib host principalId accountType;
          at = (case ot_accountType token of Some a \<Rightarrow> Some a | None \<Rightarrow> accountType);
          rec = \<lparr>cr_id = i, cr_ownerId = principalId,
                 cr_orgId = (case ot_orgId token of Some x \<Rightarrow> Some x | None \<Rightarrow> Some orgId), cr_service = to_lower host, cr_kind = KEnv,
                 cr_envKey = None, cr_target = None, cr_targets = None, cr_host = Some (to_lower host), cr_accountLabel = None,
                 cr_fields = None, cr_broker = None,
                 cr_refresh = Some \<lparr>rf_refreshTokenEnc = (if truthy (ot_refreshToken token)
                                                          then Some (encryptSecret lib (snd ivs) (the (ot_refreshToken token)) key) else None),
                                    rf_accountType = fullString at, rf_clientRef = fullString (ot_clientRef token),
                                    rf_grantedScopes = ot_grantedScopes token, rf_refreshFailedAt = None, rf_refreshError = None,
                                    rf_orgId = fullString (ot_orgId token)\<rparr>,
                 cr_managed = True, cr_username = None, cr_secretEnc = encryptSecret lib (fst ivs) (ot_accessToken token) key,
                 cr_fingerprint = fingerprintOf lib (ot_accessToken token), cr_origin = Some ''connector-oauth'',
                 cr_expiresAt = ot_expiresAt token,
                 cr_createdAt = (case dm_get (kc_creds kc) i of Some p \<Rightarrow> cr_createdAt p | None \<Rightarrow> t), cr_updatedAt = t\<rparr>
      in kc\<lparr>kc_creds := dm_put i rec (kc_creds kc)\<rparr>)"

definition refreshOf :: "credential \<Rightarrow> credential_refresh" where
  "refreshOf c =
     (case cr_refresh c of
        Some r \<Rightarrow> r
      | None \<Rightarrow> \<lparr>rf_refreshTokenEnc = None, rf_accountType = None, rf_clientRef = None, rf_grantedScopes = None, rf_refreshFailedAt = None,
                 rf_refreshError = None, rf_orgId = None\<rparr>)"

definition recToOAuthToken :: "kc_lib \<Rightarrow> secret_key \<Rightarrow> credential \<Rightarrow> oauth_token option" where
  "recToOAuthToken lib key c =
     (case decryptSecret lib (cr_secretEnc c) key of
        None \<Rightarrow> None
      | Some access \<Rightarrow>
          (let r = refreshOf c;
               token = (\<lambda>rt. \<lparr>ot_accessToken = access, ot_refreshToken = rt, ot_expiresAt = cr_expiresAt c,
                              ot_grantedScopes = rf_grantedScopes r, ot_clientRef = fullString (rf_clientRef r),
                              ot_accountType = fullString (rf_accountType r), ot_orgId = fullString (rf_orgId r)\<rparr>)
           in if truthy (rf_refreshTokenEnc r)
              then map_option (\<lambda>x. token (Some x)) (decryptSecret lib (the (rf_refreshTokenEnc r)) key)
              else Some (token None)))"

definition storedRefreshError :: "string \<Rightarrow> string" where
  "storedRefreshError e =
     (let msg = js_trim (collapseSpace False e) in if length msg > 500 then take 497 msg @ ''...'' else msg)"

definition markConnectorRefreshFailure :: "millis \<Rightarrow> credential \<Rightarrow> string \<Rightarrow> keychain \<Rightarrow> keychain" where
  "markConnectorRefreshFailure t rec message kc =
     (case dm_get (kc_creds kc) (cr_id rec) of
        None \<Rightarrow> kc
      | Some current \<Rightarrow>
          (if cr_updatedAt current \<noteq> cr_updatedAt rec \<or> cr_fingerprint current \<noteq> cr_fingerprint rec then kc
           else kc\<lparr>kc_creds := snd (dm_merge (cr_id rec)
                  (\<lambda>c. c\<lparr>cr_refresh := Some ((refreshOf current)\<lparr>rf_refreshFailedAt := Some t, rf_refreshError := Some message\<rparr>),
                          cr_updatedAt := t\<rparr>) (kc_creds kc))\<rparr>))"

definition mergeToken :: "oauth_token \<Rightarrow> oauth_token \<Rightarrow> oauth_token" where
  "mergeToken stored fresh =
     fresh\<lparr>ot_clientRef := (case ot_clientRef fresh of Some x \<Rightarrow> Some x | None \<Rightarrow> fullString (ot_clientRef stored)),
           ot_accountType := (case ot_accountType fresh of Some x \<Rightarrow> Some x | None \<Rightarrow> fullString (ot_accountType stored)),
           ot_orgId := (case ot_orgId fresh of Some x \<Rightarrow> Some x | None \<Rightarrow> fullString (ot_orgId stored))\<rparr>"

text \<open>
  The request is answered with a token or an error; \<open>kc\<close> is the keychain when the answer arrives, while \<open>rec\<close> was read before the
  request was sent.
\<close>

definition refreshAndStore ::
  "kc_lib \<Rightarrow> secret_key \<Rightarrow> string \<Rightarrow> string \<times> string \<Rightarrow> millis \<Rightarrow> string + oauth_token \<Rightarrow> string \<Rightarrow> credential \<Rightarrow> keychain \<Rightarrow> string option \<times> keychain"
where
  "refreshAndStore lib key orgId ivs t answer host rec kc =
     (case recToOAuthToken lib key rec of
        None \<Rightarrow> (None, kc)
      | Some stored \<Rightarrow>
          (let failed = (\<lambda>e. (None, markConnectorRefreshFailure t rec (storedRefreshError e) kc)) in
           case answer of
             Inl e \<Rightarrow> failed e
           | Inr fresh \<Rightarrow>
               (if ot_accessToken fresh = [] then failed ''refresh returned an empty access token''
                else
                  (let merged = mergeToken stored fresh
                   in (Some (ot_accessToken merged),
                       putConnectorToken lib key orgId ivs t host (cr_ownerId rec) merged (rf_accountType (refreshOf rec)) kc)))))"

record kc_clock =
  ck_skew :: int
  ck_margin :: int

definition oauthMargin :: "int option \<Rightarrow> int option \<Rightarrow> kc_clock" where
  "oauthMargin skew margin =
     (let s = (case skew of Some x \<Rightarrow> x | None \<Rightarrow> 60000)
      in \<lparr>ck_skew = s, ck_margin = max (case margin of Some x \<Rightarrow> x | None \<Rightarrow> 10 * 60000) s\<rparr>)"

definition oauthExpired :: "kc_clock \<Rightarrow> credential \<Rightarrow> millis \<Rightarrow> bool" where
  "oauthExpired ck c t = (case cr_expiresAt c of Some e \<Rightarrow> t \<ge> e - ck_skew ck | None \<Rightarrow> False)"

definition refreshableHost :: "bool \<Rightarrow> credential \<Rightarrow> string option" where
  "refreshableHost canRefresh c =
     (if truthy (rf_refreshTokenEnc (refreshOf c)) \<and> canRefresh \<and> truthy (cr_host c) then cr_host c else None)"

definition dueForRefresh :: "kc_clock \<Rightarrow> bool \<Rightarrow> credential \<Rightarrow> millis \<Rightarrow> bool" where
  "dueForRefresh ck canRefresh c t =
     (refreshableHost canRefresh c \<noteq> None \<and> (case cr_expiresAt c of Some e \<Rightarrow> t \<ge> e - ck_margin ck | None \<Rightarrow> False))"

definition connectorTokenForRecord ::
  "kc_lib \<Rightarrow> secret_key \<Rightarrow> string \<Rightarrow> kc_clock \<Rightarrow> (string + oauth_token) option \<Rightarrow> string \<times> string \<Rightarrow> millis \<Rightarrow> credential \<Rightarrow> keychain \<Rightarrow> string option \<times> keychain"
where
  "connectorTokenForRecord lib key orgId ck answer ivs t rec kc =
     (let canRefresh = (answer \<noteq> None) in
      if dueForRefresh ck canRefresh rec t
      then refreshAndStore lib key orgId ivs t (the answer) (the (refreshableHost canRefresh rec)) rec kc
      else if oauthExpired ck rec t \<and> refreshableHost canRefresh rec = None then (None, kc)
      else (decryptSecret lib (cr_secretEnc rec) key, kc))"

record connector_meta =
  cm_credentialId :: string
  cm_ownerId :: string
  cm_host :: string
  cm_accountType :: "string option"
  cm_expiresAt :: "millis option"
  cm_needsReconnect :: bool

definition needsReconnect :: "kc_clock \<Rightarrow> credential \<Rightarrow> millis \<Rightarrow> bool" where
  "needsReconnect ck c t =
     (let r = refreshOf c in oauthExpired ck c t \<and> (\<not> truthy (rf_refreshTokenEnc r) \<or> rf_refreshFailedAt r \<noteq> None))"

definition connectorMeta :: "kc_clock \<Rightarrow> millis \<Rightarrow> credential \<Rightarrow> connector_meta" where
  "connectorMeta ck t c =
     \<lparr>cm_credentialId = cr_id c, cm_ownerId = cr_ownerId c, cm_host = (case cr_host c of Some h \<Rightarrow> h | None \<Rightarrow> cr_service c),
      cm_accountType = fullString (rf_accountType (refreshOf c)), cm_expiresAt = cr_expiresAt c, cm_needsReconnect = needsReconnect ck c t\<rparr>"

definition listConnectorsByOwners :: "kc_clock \<Rightarrow> millis \<Rightarrow> string list \<Rightarrow> keychain \<Rightarrow> (string, connector_meta list) jsmap" where
  "listConnectorsByOwners ck t ownerIds kc = bucketByOwner (dm_all (kc_creds kc)) ownerIds cr_managed (connectorMeta ck t)"

definition connectorAccessToken ::
  "kc_lib \<Rightarrow> secret_key \<Rightarrow> string \<Rightarrow> kc_clock \<Rightarrow> (string + oauth_token) option \<Rightarrow> string \<times> string \<Rightarrow> millis \<Rightarrow> string \<Rightarrow> string \<Rightarrow> string option \<Rightarrow> keychain \<Rightarrow> string option \<times> keychain"
where
  "connectorAccessToken lib key orgId ck answer ivs t host principalId accountType kc =
     (case dm_get (kc_creds kc) (oauthId lib host principalId accountType) of
        None \<Rightarrow> (None, kc)
      | Some rec \<Rightarrow> connectorTokenForRecord lib key orgId ck answer ivs t rec kc)"

definition deleteConnectorToken :: "kc_lib \<Rightarrow> millis \<Rightarrow> string \<Rightarrow> string \<Rightarrow> string option \<Rightarrow> keychain \<Rightarrow> keychain" where
  "deleteConnectorToken lib t host principalId accountType kc = deleteCredential t (oauthId lib host principalId accountType) kc"

definition existingStanding :: "string \<Rightarrow> string \<Rightarrow> keychain \<Rightarrow> keychain_grant option" where
  "existingStanding i scope kc =
     find (\<lambda>g. kg_credentialId g = i \<and> kg_audienceScopeId g = scope \<and> kg_mode g = Standing \<and> kg_status g = GActive)
       (dm_all (kc_grants kc))"

definition grantConnectorToScope ::
  "kc_lib \<Rightarrow> millis \<Rightarrow> string \<Rightarrow> string \<Rightarrow> string option \<Rightarrow> string \<Rightarrow> string \<Rightarrow> keychain \<Rightarrow> (kc_error + keychain_grant) option \<times> keychain"
where
  "grantConnectorToScope lib t host principalId accountType scope purpose kc =
     (let i = oauthId lib host principalId accountType in
      case dm_get (kc_creds kc) i of
        None \<Rightarrow> (None, kc)
      | Some c \<Rightarrow>
          (case existingStanding i scope kc of
             Some g \<Rightarrow> (Some (Inr g), kc)
           | None \<Rightarrow>
               (case mintGrant lib t \<lparr>gi_credentialId = i, gi_ownerId = principalId, gi_audienceScopeId = scope, gi_mode = Standing,
                       gi_purpose = purpose, gi_expiresAt = None, gi_askId = None\<rparr> kc of
                  (r, kc') \<Rightarrow> (Some r, kc'))))"

subsection \<open>Using a grant\<close>

text \<open>What every use of a keychain has at hand: the library, the key, the organisation, the margins.\<close>

record kc_env =
  ke_lib :: kc_lib
  ke_key :: secret_key
  ke_orgId :: string
  ke_clock :: kc_clock

definition materializeConnectorEnv ::
  "kc_env \<Rightarrow> (string + oauth_token) option \<Rightarrow> string \<times> string \<Rightarrow> millis \<Rightarrow> credential \<Rightarrow> kc_extra option \<Rightarrow> keychain \<Rightarrow> (kc_error + materialized) \<times> keychain"
where
  "materializeConnectorEnv env answer ivs t c extra kc =
     (let (value, kc') = (if truthy (cr_host c) then connectorTokenForRecord (ke_lib env) (ke_key env) (ke_orgId env) (ke_clock env) answer ivs t c kc
                          else (None, kc))
      in if \<not> truthy value \<or> \<not> truthy (cr_host c)
         then (Inl (KeychainError 410 (''connector token expired and could not be refreshed '' @ [dash_char] @ '' its owner must reconnect the app'')), kc')
         else (Inr \<lparr>mt_kind = KEnv, mt_credentialId = cr_id c, mt_ownerId = cr_ownerId c, mt_service = cr_service c,
                    mt_env = [(connectorEnvKey (the (cr_host c)), the value)], mt_files = [], mt_origin = None, mt_extra = extra\<rparr>, kc'))"

definition materializeCheck :: "millis \<Rightarrow> string \<Rightarrow> string \<Rightarrow> keychain \<Rightarrow> kc_error + (keychain_grant \<times> credential)" where
  "materializeCheck t grantId scope kc =
     (case getGrant grantId kc of
        None \<Rightarrow> Inl (KeychainError 404 ''unknown grant'')
      | Some g \<Rightarrow>
          (case claimOnceCheck t scope g of
             Some e \<Rightarrow> Inl e
           | None \<Rightarrow>
               (case dm_get (kc_creds kc) (kg_credentialId g) of
                  None \<Rightarrow> Inl (KeychainError 404 ''credential no longer exists'')
                | Some c \<Rightarrow>
                    (if cr_kind c = KBroker
                     then Inl (KeychainError 403 (''broker credentials are not grantable '' @ [dash_char] @ '' they are used via the credential broker''))
                     else if \<not> cr_managed c \<and> credExpired c t then Inl (KeychainError 410 ''credential is expired'')
                     else Inr (g, c)))))"

text \<open>Up to the claim: the checks, and the secret that will be handed out if the claim succeeds.\<close>

definition materializeOpen ::
  "kc_env \<Rightarrow> (string + oauth_token) option \<Rightarrow> string \<times> string \<Rightarrow> millis \<Rightarrow> string \<Rightarrow> string \<Rightarrow> keychain \<Rightarrow> (kc_error + (keychain_grant \<times> materialized)) \<times> keychain"
where
  "materializeOpen env answer ivs t grantId scope kc =
     (case materializeCheck t grantId scope kc of
        Inl e \<Rightarrow> (Inl e, kc)
      | Inr (g, c) \<Rightarrow>
          (let extra = Some \<lparr>kx_grantId = kg_id g, kx_purpose = kg_purpose g\<rparr> in
           if cr_managed c
           then (case materializeConnectorEnv env answer ivs t c extra kc of
                   (Inl e, kc') \<Rightarrow> (Inl e, kc')
                 | (Inr m, kc') \<Rightarrow> (Inr (g, m), kc'))
           else (map_sum id (\<lambda>m. (g, m)) (materializeDecrypted (ke_lib env) (ke_key env) extra c), kc)))"

definition materializeClose :: "millis \<Rightarrow> keychain_grant \<Rightarrow> materialized \<Rightarrow> string \<Rightarrow> string \<Rightarrow> keychain \<Rightarrow> (kc_error + materialized) \<times> keychain" where
  "materializeClose t g m scope usedBy kc =
     (case claimOnceGrant t g scope usedBy kc of
        (Some e, kc') \<Rightarrow> (Inl e, kc')
      | (None, kc') \<Rightarrow> (Inr m, kc'))"

definition materialize ::
  "kc_env \<Rightarrow> (string + oauth_token) option \<Rightarrow> string \<times> string \<Rightarrow> millis \<Rightarrow> string \<Rightarrow> string \<Rightarrow> string \<Rightarrow> keychain \<Rightarrow> (kc_error + materialized) \<times> keychain"
where
  "materialize env answer ivs t grantId scope usedBy kc =
     (case materializeOpen env answer ivs t grantId scope kc of
        (Inl e, kc') \<Rightarrow> (Inl e, kc')
      | (Inr (g, m), kc') \<Rightarrow> materializeClose t g m scope usedBy kc')"

definition materializeOwnById ::
  "kc_env \<Rightarrow> (string + oauth_token) option \<Rightarrow> string \<times> string \<Rightarrow> millis \<Rightarrow> string \<Rightarrow> string \<Rightarrow> string \<Rightarrow> keychain \<Rightarrow> (kc_error + materialized) \<times> keychain"
where
  "materializeOwnById env answer ivs t ownerId credentialId scope kc =
     (if scope \<noteq> scopeId Personal ownerId
      then (Inl (KeychainError 403 (''a credential id loads only in its owner's own personal conversation '' @ [dash_char] @
                  '' anywhere else needs a grant from the owner'')), kc)
      else
        (case getOwned ownerId credentialId kc of
           None \<Rightarrow> (Inl (KeychainError 404 ''unknown credential''), kc)
         | Some c \<Rightarrow>
             (if cr_kind c = KBroker
              then (Inl (KeychainError 403 ''broker credentials are used via the credential broker, never materialized''), kc)
              else if cr_managed c then materializeConnectorEnv env answer ivs t c None kc
              else if credExpired c t then (Inl (KeychainError 410 ''credential is expired''), kc)
              else (materializeDecrypted (ke_lib env) (ke_key env) None c, kc))))"

definition materializeOwn :: "kc_env \<Rightarrow> millis \<Rightarrow> string \<Rightarrow> keychain \<Rightarrow> materialized list" where
  "materializeOwn env t ownerId kc =
     List.map_filter (decryptToEnv (ke_lib env) (ke_key env) None)
       (filter (\<lambda>c. isOwner ownerId c \<and> cr_kind c = KEnv \<and> \<not> cr_managed c \<and> \<not> expired (cr_expiresAt c) t) (dm_all (kc_creds kc)))"

definition materializeOwnFiles :: "kc_env \<Rightarrow> string \<Rightarrow> keychain \<Rightarrow> materialized list" where
  "materializeOwnFiles env ownerId kc =
     List.map_filter (decryptToFiles (ke_lib env) (ke_key env) None)
       (filter (\<lambda>c. isOwner ownerId c \<and> cr_kind c = KFile \<and> \<not> cr_managed c) (dm_all (kc_creds kc)))"

definition standingOne ::
  "kc_env \<Rightarrow> (string \<Rightarrow> (string + oauth_token) option) \<Rightarrow> string \<times> string \<Rightarrow> millis \<Rightarrow> keychain_grant \<Rightarrow> materialized list \<times> keychain \<Rightarrow> materialized list \<times> keychain"
where
  "standingOne env answer ivs t g st =
     (case st of
        (out, kc) \<Rightarrow>
          (if kg_mode g \<noteq> Standing then (out, kc)
           else
             (case dm_get (kc_creds kc) (kg_credentialId g) of
                None \<Rightarrow> (out, kc)
              | Some c \<Rightarrow>
                  (let extra = Some \<lparr>kx_grantId = kg_id g, kx_purpose = kg_purpose g\<rparr> in
                   if cr_kind c \<noteq> KEnv then (out, kc)
                   else if cr_managed c
                   then (case materializeConnectorEnv env (answer (cr_id c)) ivs t c extra kc of
                           (Inr m, kc') \<Rightarrow> (out @ [m], kc')
                         | (Inl _, kc') \<Rightarrow> (out, kc'))
                   else if credExpired c t then (out, kc)
                   else (case decryptToEnv (ke_lib env) (ke_key env) extra c of
                           Some m \<Rightarrow> (out @ [m], kc)
                         | None \<Rightarrow> (out, kc))))))"

definition materializeStanding ::
  "kc_env \<Rightarrow> (string \<Rightarrow> (string + oauth_token) option) \<Rightarrow> string \<times> string \<Rightarrow> millis \<Rightarrow> string \<Rightarrow> keychain \<Rightarrow> materialized list \<times> keychain"
where
  "materializeStanding env answer ivs t scope kc = fold (standingOne env answer ivs t) (activeGrantsFor t scope kc) ([], kc)"

subsection \<open>The script that loads a credential\<close>

text \<open>\<open>shq\<close>: in single quotes, a quote of its own written outside of them.\<close>

definition shq :: "string \<Rightarrow> string" where
  "shq s = [CHR 0x27] @ concat (map (\<lambda>c. if c = CHR 0x27 then [CHR 0x27, CHR 0x5C, CHR 0x27, CHR 0x27] else [c]) s) @ [CHR 0x27]"

definition dquoted :: "string \<Rightarrow> string" where
  "dquoted s = [CHR 0x22] @ s @ [CHR 0x22]"

definition parentOf :: "string \<Rightarrow> string" where
  "parentOf p = (if CHR 0x2F \<in> set p then rev (drop 1 (dropWhile (\<lambda>c. c \<noteq> CHR 0x2F) (rev p))) else [])"

definition fileLines :: "credential_file \<Rightarrow> string list" where
  "fileLines f =
     (let parent = parentOf (cf_path f); abs = dquoted (''$__kc_dir/'' @ cf_path f)
      in (if parent \<noteq> [] then [''mkdir -p '' @ dquoted (''$__kc_dir/'' @ parent)] else []) @
         [''printf '' @ shq ''%s'' @ '' '' @ shq (cf_contentBase64 f) @ '' | base64 -d > '' @ abs, ''chmod 600 '' @ abs])"

definition envScript :: "materialized \<Rightarrow> string" where
  "envScript m = join_with [newline_char] (map (\<lambda>(k, v). ''export '' @ k @ ''='' @ shq v) (mt_env m)) @ [newline_char]"

end
