(* ===== verification/KeychainUse.thy ===== *)
theory KeychainUse
  imports Keychain
begin

section \<open>Who gets a secret of the keychain\<close>

text \<open>
  The keychain as a state machine: the operations of \<open>Keychain\<close> in any order, with uses of grants in flight between their two parts.
  Beside the store the state keeps a history: which names credentials were filed under, who minted which grant, and what was handed
  out to which conversation.
\<close>

type_synonym cred_name = "string \<times> string \<times> string"

record open_use =
  ou_grant :: keychain_grant
  ou_secret :: materialized
  ou_scope :: string
  ou_usedBy :: string

record kc_sys =
  sy_kc :: keychain
  sy_open :: "open_use list"
  sy_standing :: "(string \<times> keychain_grant) list"
  sy_names :: "cred_name list"
  sy_minted :: "(string \<times> keychain_grant) list"
  sy_out :: "open_use list"

definition kc_start :: kc_sys where
  "kc_start = \<lparr>sy_kc = createKeychain, sy_open = [], sy_standing = [], sy_names = [], sy_minted = [], sy_out = []\<rparr>"

definition idOfName :: "kc_lib \<Rightarrow> cred_name \<Rightarrow> string" where
  "idOfName lib n = (case n of (ownerId, service, slot) \<Rightarrow> credId lib ownerId service slot)"

text \<open>The name a refresh of a connector token files its answer under.\<close>

definition refreshName :: "credential \<Rightarrow> cred_name" where
  "refreshName c = (cr_ownerId c, to_lower (case cr_host c of Some h \<Rightarrow> h | None \<Rightarrow> []), oauthSlot (rf_accountType (refreshOf c)))"

definition refreshNames :: "keychain \<Rightarrow> cred_name list" where
  "refreshNames kc = map refreshName (dm_all (kc_creds kc))"

definition savedSlot :: "credential \<Rightarrow> string" where
  "savedSlot c =
     (if cr_kind c = KFile then ''file''
      else (case cr_fields c of
              Some fs \<Rightarrow> ''env:'' @ join_with '','' (sort (map fst fs))
            | None \<Rightarrow> ''env:'' @ the (cr_envKey c)))"

datatype kc_op =
    OSave string millis save_input
  | ORemove millis string string
  | ORevoke millis string string
  | OAsk string millis ask_input
  | OGetAsk millis string
  | OListAsks millis
  | ODecline millis string string "string option"
  | OUnnotified millis
  | ONotified millis string
  | OResolve millis keychain_grant
  | OSetService string millis string service_input
  | OSetServiceIfAbsent string millis string service_input
  | OSetServiceIfCurrent string millis string service_input millis
  | ODeleteService string string
  | ODeleteServiceIfCurrent string string millis
  | OSetConnector "string \<times> string" millis string string oauth_token "string option"
  | ODeleteConnector millis string string "string option"
  | OAccessToken "(string + oauth_token) option" "string \<times> string" millis string string "string option"
  | OOwn "(string + oauth_token) option" "string \<times> string" millis string string string

fun kc_apply :: "kc_env \<Rightarrow> kc_op \<Rightarrow> keychain \<Rightarrow> keychain" where
  "kc_apply e (OSave iv now inp) kc = snd (saveCredential (ke_lib e) (ke_key e) (ke_orgId e) iv now inp kc)"
| "kc_apply e (ORemove t owner i) kc = snd (removeCredential t owner i kc)"
| "kc_apply e (ORevoke t owner i) kc = snd (revokeGrant t owner i kc)"
| "kc_apply e (OAsk newId t inp) kc = snd (createAsk newId (ke_orgId e) t inp kc)"
| "kc_apply e (OGetAsk t i) kc = snd (getAsk t i kc)"
| "kc_apply e (OListAsks t) kc = snd (freshAll t kc)"
| "kc_apply e (ODecline t i owner note) kc = snd (declineAsk t i owner note kc)"
| "kc_apply e (OUnnotified t) kc = snd (unnotifiedResolvedAsks t kc)"
| "kc_apply e (ONotified t i) kc = markAskNotified t i kc"
| "kc_apply e (OResolve t g) kc = snd (resolveAsksForGrant t g kc)"
| "kc_apply e (OSetService iv now org inp) kc = snd (setServiceCredential (ke_lib e) (ke_key e) iv now org inp kc)"
| "kc_apply e (OSetServiceIfAbsent iv now org inp) kc = snd (setServiceCredentialIfAbsent (ke_lib e) (ke_key e) iv now org inp kc)"
| "kc_apply e (OSetServiceIfCurrent iv now org inp x) kc = snd (setServiceCredentialIfCurrent (ke_lib e) (ke_key e) iv now org inp x kc)"
| "kc_apply e (ODeleteService org slug) kc = deleteServiceCredential (ke_lib e) org slug kc"
| "kc_apply e (ODeleteServiceIfCurrent org slug x) kc = snd (deleteServiceCredentialIfCurrent (ke_lib e) org slug x kc)"
| "kc_apply e (OSetConnector ivs t host who token acct) kc = putConnectorToken (ke_lib e) (ke_key e) (ke_orgId e) ivs t host who token acct kc"
| "kc_apply e (ODeleteConnector t host who acct) kc = deleteConnectorToken (ke_lib e) t host who acct kc"
| "kc_apply e (OAccessToken ans ivs t host who acct) kc =
     snd (connectorAccessToken (ke_lib e) (ke_key e) (ke_orgId e) (ke_clock e) ans ivs t host who acct kc)"
| "kc_apply e (OOwn ans ivs t owner i scope) kc = snd (materializeOwnById e ans ivs t owner i scope kc)"

text \<open>The name an operation files a credential under.\<close>

fun op_names :: "kc_env \<Rightarrow> kc_op \<Rightarrow> keychain \<Rightarrow> cred_name list" where
  "op_names e (OSave iv now inp) kc =
     (case fst (saveCredential (ke_lib e) (ke_key e) (ke_orgId e) iv now inp kc) of
        Inr c \<Rightarrow> [(cr_ownerId c, cr_service c, savedSlot c)] | Inl _ \<Rightarrow> [])"
| "op_names e (OSetService iv now org inp) kc = [(org, sv_slug inp, ''broker'')]"
| "op_names e (OSetServiceIfAbsent iv now org inp) kc = [(org, sv_slug inp, ''broker'')]"
| "op_names e (OSetServiceIfCurrent iv now org inp x) kc = [(org, sv_slug inp, ''broker'')]"
| "op_names e (OSetConnector ivs t host who token acct) kc = [(who, to_lower host, oauthSlot acct)]"
| "op_names e _ kc = []"

datatype mint_op =
    MGrant millis grant_input
  | MApprove millis string string grant_mode string "millis option"
  | MConnector millis string string "string option" string string

fun mint_actor :: "mint_op \<Rightarrow> string" where
  "mint_actor (MGrant t inp) = gi_ownerId inp"
| "mint_actor (MApprove t askId owner mode purpose ex) = owner"
| "mint_actor (MConnector t host who acct scope purpose) = who"

fun mint_apply :: "kc_env \<Rightarrow> mint_op \<Rightarrow> keychain \<Rightarrow> keychain_grant option \<times> keychain" where
  "mint_apply e (MGrant t inp) kc =
     (case mintGrant (ke_lib e) t inp kc of (Inr g, kc') \<Rightarrow> (Some g, kc') | (Inl _, kc') \<Rightarrow> (None, kc'))"
| "mint_apply e (MApprove t askId owner mode purpose ex) kc =
     (case approveAsk (ke_lib e) t askId owner mode purpose ex kc of (Inr (_, g), kc') \<Rightarrow> (Some g, kc') | (Inl _, kc') \<Rightarrow> (None, kc'))"
| "mint_apply e (MConnector t host who acct scope purpose) kc =
     (case grantConnectorToScope (ke_lib e) t host who acct scope purpose kc of
        (Some (Inr g), kc') \<Rightarrow> (if existingStanding (oauthId (ke_lib e) host who acct) scope kc = None then Some g else None, kc')
      | (_, kc') \<Rightarrow> (None, kc'))"

definition minted :: "string \<Rightarrow> keychain_grant option \<Rightarrow> (string \<times> keychain_grant) list" where
  "minted actor og = (case og of Some g \<Rightarrow> [(actor, g)] | None \<Rightarrow> [])"

inductive kc_step :: "kc_env \<Rightarrow> kc_sys \<Rightarrow> kc_sys \<Rightarrow> bool" for e where
  kc_op: "kc_step e s (s\<lparr>sy_kc := kc_apply e op (sy_kc s), sy_names := sy_names s @ op_names e op (sy_kc s) @ refreshNames (sy_kc s)\<rparr>)"
| kc_mint: "mint_apply e op (sy_kc s) = (og, kc') \<Longrightarrow>
     kc_step e s (s\<lparr>sy_kc := kc', sy_minted := sy_minted s @ minted (mint_actor op) og\<rparr>)"
| kc_open: "materializeOpen e ans ivs t i scope (sy_kc s) = (r, kc') \<Longrightarrow>
     kc_step e s (s\<lparr>sy_kc := kc', sy_names := sy_names s @ refreshNames (sy_kc s),
       sy_open := sy_open s @ (case r of Inr (g, m) \<Rightarrow> [\<lparr>ou_grant = g, ou_secret = m, ou_scope = scope, ou_usedBy = usedBy\<rparr>] | Inl _ \<Rightarrow> [])\<rparr>)"
| kc_close:
    "u \<in> set (sy_open s) \<Longrightarrow>
     materializeClose t (ou_grant u) (ou_secret u) (ou_scope u) (ou_usedBy u) (sy_kc s) = (r, kc') \<Longrightarrow>
     kc_step e s (s\<lparr>sy_kc := kc', sy_open := remove1 u (sy_open s), sy_out := sy_out s @ (case r of Inr _ \<Rightarrow> [u] | Inl _ \<Rightarrow> [])\<rparr>)"
| kc_list: "kc_step e s (s\<lparr>sy_standing := sy_standing s @ map (Pair scope) (activeGrantsFor t scope (sy_kc s))\<rparr>)"
| kc_inject: "(scope, g) \<in> set (sy_standing s) \<Longrightarrow> standingOne e ans ivs t g ([], sy_kc s) = (ms, kc') \<Longrightarrow>
     kc_step e s (s\<lparr>sy_kc := kc', sy_names := sy_names s @ refreshNames (sy_kc s), sy_standing := remove1 (scope, g) (sy_standing s),
       sy_out := sy_out s @ map (\<lambda>m. \<lparr>ou_grant = g, ou_secret = m, ou_scope = scope, ou_usedBy = []\<rparr>) ms\<rparr>)"

subsection \<open>What an operation may change\<close>

definition sameCore :: "keychain_grant \<Rightarrow> keychain_grant \<Rightarrow> bool" where
  "sameCore g g' \<longleftrightarrow> kg_id g' = kg_id g \<and> kg_credentialId g' = kg_credentialId g \<and> kg_ownerId g' = kg_ownerId g \<and>
     kg_audienceScopeId g' = kg_audienceScopeId g \<and> kg_mode g' = kg_mode g"

definition grants_le :: "keychain \<Rightarrow> keychain \<Rightarrow> bool" where
  "grants_le kc kc' \<longleftrightarrow>
     (jm_ok (kc_grants kc) \<longrightarrow> jm_ok (kc_grants kc')) \<and>
     (\<forall>i g'. dm_get (kc_grants kc') i = Some g' \<longrightarrow>
        (\<exists>g. dm_get (kc_grants kc) i = Some g \<and> sameCore g g' \<and> (kg_status g' = GActive \<longrightarrow> kg_status g = GActive)))"

definition creds_le :: "kc_lib \<Rightarrow> cred_name set \<Rightarrow> keychain \<Rightarrow> keychain \<Rightarrow> bool" where
  "creds_le lib names kc kc' \<longleftrightarrow>
     (\<forall>i c'. dm_get (kc_creds kc') i = Some c' \<longrightarrow>
        (\<exists>c. dm_get (kc_creds kc) i = Some c \<and> cr_id c' = cr_id c \<and> cr_ownerId c' = cr_ownerId c) \<or>
        (cr_id c' = i \<and> (\<exists>n \<in> names. fst n = cr_ownerId c' \<and> idOfName lib n = i)))"

definition quiet_le :: "kc_lib \<Rightarrow> cred_name set \<Rightarrow> keychain \<Rightarrow> keychain \<Rightarrow> bool" where
  "quiet_le lib names kc kc' \<longleftrightarrow> grants_le kc kc' \<and> creds_le lib names kc kc'"

lemma sameCore_refl [simp]: "sameCore g g"
  by (simp add: sameCore_def)

lemma quiet_refl [simp]: "quiet_le lib names kc kc"
  by (simp add: quiet_le_def grants_le_def creds_le_def)

lemma grants_le_trans:
  assumes "grants_le a b" "grants_le b c"
  shows "grants_le a c"
  unfolding grants_le_def
proof (intro conjI allI impI)
  show "jm_ok (kc_grants a) \<Longrightarrow> jm_ok (kc_grants c)" using assms unfolding grants_le_def by blast
  fix i g'
  assume "dm_get (kc_grants c) i = Some g'"
  then obtain g where g: "dm_get (kc_grants b) i = Some g" "sameCore g g'" "kg_status g' = GActive \<longrightarrow> kg_status g = GActive"
    using assms(2) unfolding grants_le_def by blast
  then obtain h where h: "dm_get (kc_grants a) i = Some h" "sameCore h g" "kg_status g = GActive \<longrightarrow> kg_status h = GActive"
    using assms(1) unfolding grants_le_def by blast
  show "\<exists>h. dm_get (kc_grants a) i = Some h \<and> sameCore h g' \<and> (kg_status g' = GActive \<longrightarrow> kg_status h = GActive)"
    using g(2,3) h by (intro exI [of _ h]) (simp add: sameCore_def)
qed

lemma creds_le_trans:
  assumes "creds_le lib names a b" "creds_le lib names b c"
  shows "creds_le lib names a c"
  unfolding creds_le_def
proof (intro allI impI)
  fix i c'
  assume "dm_get (kc_creds c) i = Some c'"
  then consider d where "dm_get (kc_creds b) i = Some d" "cr_id c' = cr_id d" "cr_ownerId c' = cr_ownerId d"
    | "cr_id c' = i \<and> (\<exists>n \<in> names. fst n = cr_ownerId c' \<and> idOfName lib n = i)"
    using assms(2) unfolding creds_le_def by blast
  then show "(\<exists>d. dm_get (kc_creds a) i = Some d \<and> cr_id c' = cr_id d \<and> cr_ownerId c' = cr_ownerId d) \<or>
      (cr_id c' = i \<and> (\<exists>n \<in> names. fst n = cr_ownerId c' \<and> idOfName lib n = i))"
  proof cases
    case 1
    then show ?thesis using assms(1) unfolding creds_le_def by metis
  qed blast
qed

lemma quiet_trans [trans]: "quiet_le lib names a b \<Longrightarrow> quiet_le lib names b c \<Longrightarrow> quiet_le lib names a c"
  unfolding quiet_le_def using grants_le_trans creds_le_trans by blast

lemma quiet_mono: "quiet_le lib names a b \<Longrightarrow> names \<subseteq> names' \<Longrightarrow> quiet_le lib names' a b"
  unfolding quiet_le_def creds_le_def by blast

lemma quiet_fold:
  assumes "\<And>x st. quiet_le lib names (snd st) (snd (f x st))"
  shows "quiet_le lib names (snd st) (snd (fold f xs st))"
proof (induction xs arbitrary: st)
  case (Cons x xs)
  then show ?case using assms [where st = st and x = x] quiet_trans by fastforce
qed simp

lemma quiet_asks [simp]: "quiet_le lib names kc (kc\<lparr>kc_asks := m\<rparr>)" "quiet_le lib names kc (patchAsk i f kc)"
  by (simp_all add: quiet_le_def grants_le_def creds_le_def patchAsk_def)

lemma quiet_patchGrant:
  assumes "\<And>g. sameCore g (f g)" "\<And>g. kg_status (f g) = GActive \<Longrightarrow> kg_status g = GActive"
  shows "quiet_le lib names kc (patchGrant i f kc)"
  using assms by (auto simp: quiet_le_def grants_le_def creds_le_def patchGrant_def dm_merge_update)
    (simp add: dm_update_def split: option.split)

lemma quiet_delete [simp]: "quiet_le lib names kc (kc\<lparr>kc_creds := dm_delete i (kc_creds kc)\<rparr>)"
  by (simp add: quiet_le_def grants_le_def creds_le_def)

lemma quiet_put:
  assumes "cr_id c = i" "n \<in> names" "fst n = cr_ownerId c" "idOfName lib n = i"
  shows "quiet_le lib names kc (kc\<lparr>kc_creds := dm_put i c (kc_creds kc)\<rparr>)"
  using assms by (auto simp: quiet_le_def grants_le_def creds_le_def)

subsection \<open>Every operation but a mint is quiet\<close>

lemma quiet_markRevoked [simp]: "quiet_le lib names kc (patchGrant i (markRevoked t) kc)"
  by (rule quiet_patchGrant) (simp_all add: markRevoked_def sameCore_def)

lemma quiet_deleteCredential [simp]: "quiet_le lib names kc (deleteCredential t i kc)"
proof -
  let ?f = "\<lambda>g k. if kg_credentialId g = i \<and> kg_status g = GActive then patchGrant (kg_id g) (markRevoked t) k else k"
  have "quiet_le lib names k (fold ?f gs k)" for gs k
  proof (induction gs arbitrary: k)
    case (Cons g gs)
    have "quiet_le lib names k (?f g k)" by simp
    from quiet_trans [OF this Cons] show ?case by simp
  qed simp
  then show ?thesis unfolding deleteCredential_def Let_def by (rule quiet_trans [OF _ quiet_delete])
qed

lemma quiet_freshAsk [simp]: "quiet_le lib names kc (snd (freshAsk t a kc))"
  by (simp add: freshAsk_def)

lemma quiet_findPending [simp]: "quiet_le lib names kc (snd (findPending t cid scope recs kc))"
proof (induction recs arbitrary: kc)
  case (Cons a recs)
  have "quiet_le lib names kc (snd (findPending t cid scope recs (snd (freshAsk t a kc))))"
    by (rule quiet_trans [OF quiet_freshAsk Cons])
  then show ?case by (simp add: case_prod_unfold)
qed simp

lemma quiet_createAsk [simp]: "quiet_le lib names kc (snd (createAsk newId org t inp kc))"
proof -
  have "quiet_le lib names kc (k\<lparr>kc_asks := m\<rparr>)" if "quiet_le lib names kc k" for k m
    using quiet_trans [OF that quiet_asks(1)] .
  then show ?thesis
    using quiet_findPending [of lib names kc t]
    by (auto simp: createAsk_def Let_def case_prod_unfold split: option.split)
qed

lemma quiet_askOps [simp]:
  "quiet_le lib names kc (snd (getAsk t i kc))" "quiet_le lib names kc (snd (freshAll t kc))"
  "quiet_le lib names kc (snd (declineAsk t i owner note kc))" "quiet_le lib names kc (snd (unnotifiedResolvedAsks t kc))"
  "quiet_le lib names kc (snd (resolveAsksForGrant t g kc))" "quiet_le lib names kc (markAskNotified t i kc)"
proof -
  show "quiet_le lib names kc (snd (getAsk t i kc))" "quiet_le lib names kc (markAskNotified t i kc)"
    by (simp_all add: getAsk_def markAskNotified_def case_prod_unfold split: option.split)
  have "quiet_le lib names (snd st) (snd ((\<lambda>rec (out, k). case freshAsk t rec k of (a, k') \<Rightarrow> (out @ [a], k')) rec st))"
    for rec and st :: "keychain_ask list \<times> keychain" by (simp add: case_prod_unfold)
  from quiet_fold [OF this, where st = "([], kc)"] show "quiet_le lib names kc (snd (freshAll t kc))"
    unfolding freshAll_def by simp
  have patched: "quiet_le lib names kc (patchAsk j f (snd (freshAsk t a kc)))" for j f a
    using quiet_trans [OF quiet_freshAsk quiet_asks(2)] .
  have pruned: "quiet_le lib names k ((snd (freshAsk t a k))\<lparr>kc_asks := m\<rparr>)" for k a m
    using quiet_trans [OF quiet_freshAsk quiet_asks(1)] .
  show "quiet_le lib names kc (snd (declineAsk t i owner note kc))"
    by (simp add: declineAsk_def Let_def case_prod_unfold patched split: option.split)
  have "quiet_le lib names (snd st) (snd (unnotifiedOne t rec st))" for rec st
    by (simp add: unnotifiedOne_def case_prod_unfold pruned split: option.split)
  from quiet_fold [OF this, where st = "([], kc)"] show "quiet_le lib names kc (snd (unnotifiedResolvedAsks t kc))"
    unfolding unnotifiedResolvedAsks_def by simp
  have named: "quiet_le lib names k (patchGrant j (\<lambda>x. x\<lparr>kg_askId := z\<rparr>) k)" for k j z
    by (rule quiet_patchGrant) (simp_all add: sameCore_def)
  have adopted: "quiet_le lib names k (patchGrant j (\<lambda>x. x\<lparr>kg_askId := z\<rparr>) (patchAsk l f (snd (freshAsk t a k))))" for k j z l f a
    by (rule quiet_trans [OF quiet_trans [OF quiet_freshAsk quiet_asks(2)] named])
  have "quiet_le lib names (snd st) (snd (adoptOne t g rec st))" for rec st
    by (simp add: adoptOne_def case_prod_unfold Let_def adopted)
  from quiet_fold [OF this, where st = "([], kc)"] show "quiet_le lib names kc (snd (resolveAsksForGrant t g kc))"
    unfolding resolveAsksForGrant_def by simp
qed

lemma quiet_revoke [simp]: "quiet_le lib names kc (snd (revokeGrant t owner i kc))" "quiet_le lib names kc (snd (removeCredential t owner i kc))"
  by (simp_all add: revokeGrant_def removeCredential_def split: option.split)

lemma savedRecord_shape:
  assumes "c = savedRecord lib key org iv now inp service files flds envKey secret kc"
  shows "cr_id c = credId lib (cr_ownerId c) (cr_service c) (savedSlot c)" "cr_ownerId c = si_ownerId inp"
proof -
  have "fst \<circ> (\<lambda>(k, _ :: string, s :: bool). (k, s)) = (fst :: string \<times> string \<times> bool \<Rightarrow> string)" by (simp add: fun_eq_iff)
  then have "savedSlot c = saveSlot files flds envKey"
    unfolding assms savedSlot_def saveSlot_def savedRecord_def Let_def by (cases files; cases flds) simp_all
  then show "cr_id c = credId lib (cr_ownerId c) (cr_service c) (savedSlot c)" "cr_ownerId c = si_ownerId inp"
    by (simp_all add: assms savedRecord_def Let_def)
qed

lemma saveCredential_result:
  assumes "saveCredential lib key org iv now inp kc = (r, kc')"
  obtains (refused) err where "r = Inl err" "kc' = kc"
  | (saved) service files flds envKey secret where
      "service = to_lower (js_trim (si_service inp))" "savedFiles lib inp = Inr files" "flds = savedFields (files \<noteq> None) inp"
      "fieldsError flds = None" "savedSecret inp files flds = Some secret"
      "envKey = (if files = None \<and> flds = None then Some (saveEnvKey inp service) else None)"
      "r = Inr (savedRecord lib key org iv now inp service files flds envKey secret kc)"
      "kc' = kc\<lparr>kc_creds := dm_put (cr_id (savedRecord lib key org iv now inp service files flds envKey secret kc))
         (savedRecord lib key org iv now inp service files flds envKey secret kc) (kc_creds kc)\<rparr>"
proof -
  define service where "service = to_lower (js_trim (si_service inp))"
  show thesis
  proof (cases "savedFiles lib inp")
    case (Inl err)
    then show thesis using assms refused by (auto simp: saveCredential_def Let_def split: if_splits)
  next
    case (Inr files)
    define flds where "flds = savedFields (files \<noteq> None) inp"
    define envKey where "envKey = (if files = None \<and> flds = None then Some (saveEnvKey inp service) else None)"
    define secret where "secret = savedSecret inp files flds"
    define rec where "rec = savedRecord lib key org iv now inp service files flds envKey (the secret) kc"
    have all: "(r, kc') =
        (if service = [] then (Inl (KeychainError 400 ''service required''), kc)
         else case fieldsError flds of
            Some e \<Rightarrow> (Inl e, kc)
          | None \<Rightarrow>
              (if js_trim (case secret of Some x \<Rightarrow> x | None \<Rightarrow> []) = [] then (Inl (KeychainError 400 ''empty secret''), kc)
               else if envKey \<noteq> None \<and> \<not> ENV_KEY_RE (the envKey)
               then (Inl (KeychainError 400 ''envKey must be a valid environment-variable name''), kc)
               else (Inr rec, kc\<lparr>kc_creds := dm_put (cr_id rec) rec (kc_creds kc)\<rparr>)))"
      using assms [symmetric] Inr
      unfolding saveCredential_def Let_def rec_def secret_def envKey_def flds_def service_def by (simp only: sum.case)
    show thesis
    proof (cases secret)
      case None
      then show thesis using all refused by (auto simp: js_trim_def split: if_splits option.splits)
    next
      case (Some x)
      then show thesis
        using all refused saved [of service files flds x envKey] Inr service_def flds_def envKey_def secret_def rec_def
        by (auto split: if_splits option.splits)
    qed
  qed
qed

lemma saved_shape:
  assumes "saveCredential lib key org iv now inp kc = (Inr c, kc')"
  shows "kc' = kc\<lparr>kc_creds := dm_put (cr_id c) c (kc_creds kc)\<rparr>" "cr_id c = credId lib (cr_ownerId c) (cr_service c) (savedSlot c)"
    "cr_ownerId c = si_ownerId inp"
proof -
  have "kc' = kc\<lparr>kc_creds := dm_put (cr_id c) c (kc_creds kc)\<rparr> \<and> cr_id c = credId lib (cr_ownerId c) (cr_service c) (savedSlot c) \<and>
      cr_ownerId c = si_ownerId inp"
  proof (rule saveCredential_result [OF assms])
    fix service files flds envKey secret
    let ?c = "savedRecord lib key org iv now inp service files flds envKey secret kc"
    assume "Inr c = (Inr ?c :: kc_error + credential)" "kc' = kc\<lparr>kc_creds := dm_put (cr_id ?c) ?c (kc_creds kc)\<rparr>"
    then have c: "c = ?c" "kc' = kc\<lparr>kc_creds := dm_put (cr_id c) c (kc_creds kc)\<rparr>" by simp_all
    show ?thesis using c(2) savedRecord_shape [OF c(1)] by blast
  qed simp
  then show "kc' = kc\<lparr>kc_creds := dm_put (cr_id c) c (kc_creds kc)\<rparr>" "cr_id c = credId lib (cr_ownerId c) (cr_service c) (savedSlot c)"
    "cr_ownerId c = si_ownerId inp"
    by blast+
qed

lemma save_refused: "saveCredential lib key org iv now inp kc = (Inl err, kc') \<Longrightarrow> kc' = kc"
  by (erule saveCredential_result) simp_all

lemma quiet_save:
  "quiet_le (ke_lib e) (set (op_names e (OSave iv now inp) kc)) kc (kc_apply e (OSave iv now inp) kc)"
proof (cases "saveCredential (ke_lib e) (ke_key e) (ke_orgId e) iv now inp kc")
  case (Pair r kc')
  show ?thesis
  proof (cases r)
    case (Inl err)
    then show ?thesis using Pair save_refused [OF Pair [unfolded Inl]] by simp
  next
    case (Inr c)
    note shape = saved_shape [OF Pair [unfolded Inr]]
    have "quiet_le (ke_lib e) (set (op_names e (OSave iv now inp) kc)) kc (kc\<lparr>kc_creds := dm_put (cr_id c) c (kc_creds kc)\<rparr>)"
      using Pair Inr shape(2) by (intro quiet_put) (auto simp: idOfName_def)
    then show ?thesis using Pair shape(1) by simp
  qed
qed

lemma service_shape:
  "serviceCredentialRecord lib key iv now org inp prior = Inr c \<Longrightarrow> cr_id c = brokerId lib org (sv_slug inp) \<and> cr_ownerId c = org"
  by (auto simp: serviceCredentialRecord_def Let_def split: if_splits)

lemma quiet_service:
  assumes "(org, sv_slug inp, ''broker'') \<in> names"
  shows "quiet_le lib names kc (snd (setServiceCredential lib key iv now org inp kc))"
    "quiet_le lib names kc (snd (setServiceCredentialIfAbsent lib key iv now org inp kc))"
    "quiet_le lib names kc (snd (setServiceCredentialIfCurrent lib key iv now org inp x kc))"
proof -
  have put: "quiet_le lib names kc (kc\<lparr>kc_creds := dm_put (cr_id c) c (kc_creds kc)\<rparr>)"
    if "serviceCredentialRecord lib key iv now org inp prior = Inr c" for prior c
    using service_shape [OF that] assms by (intro quiet_put) (auto simp: idOfName_def brokerId_def)
  show "quiet_le lib names kc (snd (setServiceCredential lib key iv now org inp kc))"
    using put by (auto simp: setServiceCredential_def split: sum.split)
  show "quiet_le lib names kc (snd (setServiceCredentialIfAbsent lib key iv now org inp kc))"
    using put by (auto simp: setServiceCredentialIfAbsent_def dm_insertIfAbsent_def dm_put_def split: sum.split)
  show "quiet_le lib names kc (snd (setServiceCredentialIfCurrent lib key iv now org inp x kc))"
    using put service_shape by (fastforce simp: setServiceCredentialIfCurrent_def Let_def split: sum.split option.split)
qed

lemma quiet_deleteService [simp]:
  "quiet_le lib names kc (deleteServiceCredential lib' org slug kc)"
  "quiet_le lib names kc (snd (deleteServiceCredentialIfCurrent lib' org slug x kc))"
  using quiet_delete [of lib names kc]
  by (auto simp: deleteServiceCredential_def deleteServiceCredentialIfCurrent_def dm_deleteIf_def dm_delete_def split: option.split)

lemma quiet_putConnector:
  assumes "(who, to_lower host, oauthSlot acct) \<in> names"
  shows "quiet_le lib names kc (putConnectorToken lib key org ivs t host who token acct kc)"
  unfolding putConnectorToken_def Let_def
  using assms by (intro quiet_put) (auto simp: idOfName_def oauthId_def)

lemma quiet_refreshFailure [simp]: "quiet_le lib names kc (markConnectorRefreshFailure t rec msg kc)"
  by (auto simp: markConnectorRefreshFailure_def quiet_le_def grants_le_def creds_le_def dm_merge_update split: option.split)

lemma to_lower_host: "cr_host c = Some h \<Longrightarrow> refreshName c = (cr_ownerId c, to_lower h, oauthSlot (rf_accountType (refreshOf c)))"
  by (simp add: refreshName_def)

lemma quiet_refresh:
  assumes "refreshName rec \<in> names" "cr_host rec = Some host"
  shows "quiet_le lib names kc (snd (refreshAndStore lib key org ivs t answer host rec kc))"
  using quiet_putConnector [of "cr_ownerId rec" host "rf_accountType (refreshOf rec)" names lib] assms
  by (simp add: refreshAndStore_def Let_def to_lower_host split: option.split sum.split)

lemma quiet_connectorToken:
  assumes "refreshName rec \<in> names"
  shows "quiet_le lib names kc (snd (connectorTokenForRecord lib key org ck answer ivs t rec kc))"
proof -
  have "cr_host rec = Some (the (refreshableHost b rec))" if "dueForRefresh ck b rec t" for b
    using that by (auto simp: dueForRefresh_def refreshableHost_def split: if_splits option.splits)
  then show ?thesis using quiet_refresh [OF assms] by (simp add: connectorTokenForRecord_def Let_def)
qed

lemma stored_refreshName: "dm_get (kc_creds kc) i = Some c \<Longrightarrow> refreshName c \<in> set (refreshNames kc)"
  by (auto simp: refreshNames_def set_dm_all dm_get_def dest: map_of_SomeD intro!: image_eqI)

lemma quiet_connectorEnv:
  assumes "refreshName c \<in> names"
  shows "quiet_le (ke_lib e) names kc (snd (materializeConnectorEnv e ans ivs t c x kc))"
  using quiet_connectorToken [OF assms]
  by (auto simp: materializeConnectorEnv_def Let_def case_prod_unfold)

lemma quiet_uses:
  assumes "set (refreshNames kc) \<subseteq> names"
  shows "quiet_le (ke_lib e) names kc (kc_apply e (OAccessToken ans ivs t host who acct) kc)"
    "quiet_le (ke_lib e) names kc (kc_apply e (OOwn ans ivs t owner i scope) kc)"
    "quiet_le (ke_lib e) names kc (snd (materializeOpen e ans ivs t i scope kc))"
proof -
  have known: "refreshName c \<in> names" if "dm_get (kc_creds kc) j = Some c" for j c
    using stored_refreshName [OF that] assms by blast
  show "quiet_le (ke_lib e) names kc (kc_apply e (OAccessToken ans ivs t host who acct) kc)"
    using known quiet_connectorToken by (auto simp: connectorAccessToken_def split: option.split)
  have owned: "refreshName c \<in> names" if "getOwned owner i kc = Some c" for c
    using that known by (auto simp: getOwned_def split: option.splits if_splits)
  show "quiet_le (ke_lib e) names kc (kc_apply e (OOwn ans ivs t owner i scope) kc)"
    using quiet_connectorEnv [OF owned] by (auto simp: materializeOwnById_def split: option.split)
  have opened: "refreshName c \<in> names" if "materializeCheck t i scope kc = Inr (g, c)" for g c
    using that known by (auto simp: materializeCheck_def split: option.splits if_splits)
  show "quiet_le (ke_lib e) names kc (snd (materializeOpen e ans ivs t i scope kc))"
  proof (cases "materializeCheck t i scope kc")
    case (Inr gc)
    obtain g c where gc: "gc = (g, c)" by fastforce
    have "quiet_le (ke_lib e) names kc (snd (materializeConnectorEnv e ans ivs t c x kc))" for x
      using quiet_connectorEnv [OF opened] Inr gc by simp
    then show ?thesis
      using Inr gc by (auto simp: materializeOpen_def Let_def split: prod.split sum.split) (metis snd_conv)+
  qed (simp add: materializeOpen_def)
qed

lemma quiet_standing:
  assumes "set (refreshNames kc) \<subseteq> names"
  shows "quiet_le (ke_lib e) names kc (snd (standingOne e ans ivs t g (out, kc)))"
proof (cases "dm_get (kc_creds kc) (kg_credentialId g)")
  case (Some c)
  have "quiet_le (ke_lib e) names kc (snd (materializeConnectorEnv e a ivs t c x kc))" for a x
    using stored_refreshName [OF Some] assms by (intro quiet_connectorEnv) blast
  then show ?thesis using Some by (auto simp: standingOne_def Let_def split: prod.split sum.split option.split) (metis snd_conv)+
qed (simp add: standingOne_def)

lemma quiet_op:
  "quiet_le (ke_lib e) (set (op_names e op kc) \<union> set (refreshNames kc)) kc (kc_apply e op kc)"
proof (cases op)
  case (OSave iv now inp)
  then show ?thesis using quiet_mono [OF quiet_save] by blast
next
  case (OAccessToken ans ivs t host who acct)
  then show ?thesis using quiet_uses(1) [of kc "set (op_names e op kc) \<union> set (refreshNames kc)"] by blast
next
  case (OOwn ans ivs t owner i scope)
  then show ?thesis using quiet_uses(2) [of kc "set (op_names e op kc) \<union> set (refreshNames kc)"] by blast
qed (simp_all add: quiet_service quiet_putConnector deleteConnectorToken_def)

subsection \<open>The invariant\<close>

definition vouched :: "kc_env \<Rightarrow> kc_sys \<Rightarrow> keychain_grant \<Rightarrow> bool" where
  "vouched e s g \<longleftrightarrow>
     (\<exists>a g'. (a, g') \<in> set (sy_minted s) \<and> sameCore g' g \<and> samePerson (Some (kg_ownerId g)) (Some a)) \<and>
     (\<exists>n \<in> set (sy_names s). fst n = kg_ownerId g \<and> idOfName (ke_lib e) n = kg_credentialId g)"

definition vouchedUse :: "kc_env \<Rightarrow> kc_sys \<Rightarrow> open_use \<Rightarrow> bool" where
  "vouchedUse e s u \<longleftrightarrow>
     vouched e s (ou_grant u) \<and> kg_audienceScopeId (ou_grant u) = ou_scope u \<and>
     mt_credentialId (ou_secret u) = kg_credentialId (ou_grant u) \<and>
     (\<exists>n \<in> set (sy_names s). fst n = mt_ownerId (ou_secret u) \<and> idOfName (ke_lib e) n = mt_credentialId (ou_secret u))"

definition named :: "kc_env \<Rightarrow> kc_sys \<Rightarrow> bool" where
  "named e s \<longleftrightarrow>
     (\<forall>i c. dm_get (kc_creds (sy_kc s)) i = Some c \<longrightarrow>
        cr_id c = i \<and> (\<exists>n \<in> set (sy_names s). fst n = cr_ownerId c \<and> idOfName (ke_lib e) n = i))"

definition granted :: "kc_env \<Rightarrow> kc_sys \<Rightarrow> bool" where
  "granted e s \<longleftrightarrow> jm_ok (kc_grants (sy_kc s)) \<and> (\<forall>i g. dm_get (kc_grants (sy_kc s)) i = Some g \<longrightarrow> kg_id g = i \<and> vouched e s g)"

definition onceUses :: "string \<Rightarrow> open_use list \<Rightarrow> nat" where
  "onceUses i out = length (filter (\<lambda>u. kg_id (ou_grant u) = i \<and> kg_mode (ou_grant u) = Once) out)"

definition mints :: "string \<Rightarrow> (string \<times> keychain_grant) list \<Rightarrow> nat" where
  "mints i ms = length (filter (\<lambda>x. kg_id (snd x) = i) ms)"

definition isActive :: "string \<Rightarrow> keychain \<Rightarrow> bool" where
  "isActive i kc = (\<exists>g. dm_get (kc_grants kc) i = Some g \<and> kg_status g = GActive)"

definition balanced :: "kc_sys \<Rightarrow> bool" where
  "balanced s \<longleftrightarrow> (\<forall>i. onceUses i (sy_out s) + of_bool (isActive i (sy_kc s)) \<le> mints i (sy_minted s))"

definition kc_inv :: "kc_env \<Rightarrow> kc_sys \<Rightarrow> bool" where
  "kc_inv e s \<longleftrightarrow> named e s \<and> granted e s \<and> balanced s \<and>
     (\<forall>u \<in> set (sy_open s) \<union> set (sy_out s). vouchedUse e s u) \<and>
     (\<forall>x \<in> set (sy_standing s). vouched e s (snd x) \<and> kg_audienceScopeId (snd x) = fst x)"

lemma vouched_mono:
  assumes "set (sy_names s) \<subseteq> set (sy_names s')" "set (sy_minted s) \<subseteq> set (sy_minted s')"
  shows "vouched e s g \<Longrightarrow> vouched e s' g" "vouchedUse e s u \<Longrightarrow> vouchedUse e s' u"
proof -
  show v: "vouched e s g \<Longrightarrow> vouched e s' g" for g using assms unfolding vouched_def by blast
  show "vouchedUse e s u \<Longrightarrow> vouchedUse e s' u" using v assms unfolding vouchedUse_def by blast
qed

lemma vouched_core: "vouched e s g \<Longrightarrow> sameCore g g' \<Longrightarrow> vouched e s g'"
  unfolding vouched_def sameCore_def by auto

lemma named_quiet:
  assumes "named e s" "creds_le (ke_lib e) (set (sy_names s')) (sy_kc s) (sy_kc s')" "set (sy_names s) \<subseteq> set (sy_names s')"
  shows "named e s'"
  unfolding named_def
proof (intro allI impI)
  fix i c'
  assume "dm_get (kc_creds (sy_kc s')) i = Some c'"
  then consider c where "dm_get (kc_creds (sy_kc s)) i = Some c" "cr_id c' = cr_id c" "cr_ownerId c' = cr_ownerId c"
    | "cr_id c' = i \<and> (\<exists>n \<in> set (sy_names s'). fst n = cr_ownerId c' \<and> idOfName (ke_lib e) n = i)"
    using assms(2) unfolding creds_le_def by blast
  then show "cr_id c' = i \<and> (\<exists>n \<in> set (sy_names s'). fst n = cr_ownerId c' \<and> idOfName (ke_lib e) n = i)"
  proof cases
    case 1
    then have "cr_id c = i" "\<exists>n \<in> set (sy_names s). fst n = cr_ownerId c \<and> idOfName (ke_lib e) n = i"
      using assms(1) unfolding named_def by blast+
    then show ?thesis using 1(2,3) assms(3) by auto
  qed
qed

lemma granted_quiet:
  assumes "granted e s" "grants_le (sy_kc s) (sy_kc s')" "set (sy_names s) \<subseteq> set (sy_names s')" "set (sy_minted s) \<subseteq> set (sy_minted s')"
  shows "granted e s'"
  unfolding granted_def
proof (intro conjI allI impI)
  show "jm_ok (kc_grants (sy_kc s'))" using assms(1,2) unfolding granted_def grants_le_def by blast
  fix i g'
  assume "dm_get (kc_grants (sy_kc s')) i = Some g'"
  then obtain g where g: "dm_get (kc_grants (sy_kc s)) i = Some g" "sameCore g g'" using assms(2) unfolding grants_le_def by blast
  then have "kg_id g = i" "vouched e s' g" using assms(1) vouched_mono(1) [OF assms(3,4)] unfolding granted_def by blast+
  then show "kg_id g' = i" "vouched e s' g'" using g(2) vouched_core by (simp_all add: sameCore_def)
qed

lemma isActive_quiet: "grants_le kc kc' \<Longrightarrow> isActive i kc' \<Longrightarrow> isActive i kc"
  unfolding grants_le_def isActive_def by blast

text \<open>A quiet step that hands out nothing more under one-time grants keeps the invariant.\<close>

lemma kc_inv_quiet:
  assumes inv: "kc_inv e s" and le: "quiet_le (ke_lib e) (set (sy_names s')) (sy_kc s) (sy_kc s')"
    and names: "set (sy_names s) \<subseteq> set (sy_names s')" and minted: "sy_minted s' = sy_minted s"
    and out: "\<And>i. onceUses i (sy_out s') = onceUses i (sy_out s)"
    and uses: "\<forall>u \<in> set (sy_open s') \<union> set (sy_out s'). u \<in> set (sy_open s) \<union> set (sy_out s) \<or> vouchedUse e s' u"
    and standing: "\<forall>x \<in> set (sy_standing s'). x \<in> set (sy_standing s) \<or> vouched e s' (snd x) \<and> kg_audienceScopeId (snd x) = fst x"
  shows "kc_inv e s'"
proof -
  have m: "set (sy_minted s) \<subseteq> set (sy_minted s')" using minted by simp
  have "balanced s'"
    unfolding balanced_def
  proof
    fix i
    have "onceUses i (sy_out s) + of_bool (isActive i (sy_kc s)) \<le> mints i (sy_minted s)"
      using inv by (simp add: kc_inv_def balanced_def)
    moreover have "of_bool (isActive i (sy_kc s')) \<le> (of_bool (isActive i (sy_kc s)) :: nat)"
      using isActive_quiet le by (auto simp: quiet_le_def)
    ultimately show "onceUses i (sy_out s') + of_bool (isActive i (sy_kc s')) \<le> mints i (sy_minted s')"
      unfolding minted out by linarith
  qed
  moreover have "named e s'" "granted e s'"
    using inv le names m named_quiet granted_quiet unfolding kc_inv_def quiet_le_def by blast+
  moreover have "\<forall>u \<in> set (sy_open s') \<union> set (sy_out s'). vouchedUse e s' u"
    using inv uses vouched_mono(2) [OF names m] unfolding kc_inv_def by blast
  moreover have "\<forall>x \<in> set (sy_standing s'). vouched e s' (snd x) \<and> kg_audienceScopeId (snd x) = fst x"
    using inv standing vouched_mono(1) [OF names m] unfolding kc_inv_def by blast
  ultimately show ?thesis by (simp add: kc_inv_def)
qed

lemma jm_ok_put: "jm_ok m \<Longrightarrow> jm_ok (dm_put i v m)"
  by (simp add: dm_put_def)

lemma mintGrant_shape:
  assumes "mintGrant lib t inp kc = (Inr g, kc')"
  obtains c where "dm_get (kc_creds kc) (gi_credentialId inp) = Some c" "isOwner (gi_ownerId inp) c" "kg_credentialId g = cr_id c"
    "kg_ownerId g = cr_ownerId c" "kg_audienceScopeId g = gi_audienceScopeId inp" "kg_status g = GActive" "cr_kind c \<noteq> KBroker"
    "kc' = kc\<lparr>kc_grants := dm_put (kg_id g) g (kc_grants kc)\<rparr>"
  using assms by (auto simp: mintGrant_def newGrant_def Let_def split: option.splits if_splits)

lemma mintGrant_refused: "mintGrant lib t inp kc = (Inl err, kc') \<Longrightarrow> kc' = kc"
  by (auto simp: mintGrant_def Let_def split: option.splits if_splits)

text \<open>A mint writes one grant, for an owner who asked for it, of a credential that owner has.\<close>

definition mint_ok :: "string \<Rightarrow> keychain \<Rightarrow> keychain_grant \<Rightarrow> keychain \<Rightarrow> bool" where
  "mint_ok actor kc g kc' \<longleftrightarrow>
     kc_creds kc' = kc_creds kc \<and> kg_status g = GActive \<and> (jm_ok (kc_grants kc) \<longrightarrow> jm_ok (kc_grants kc')) \<and>
     (\<forall>i. dm_get (kc_grants kc') i = (if i = kg_id g then Some g else dm_get (kc_grants kc) i)) \<and>
     (\<exists>i c. dm_get (kc_creds kc) i = Some c \<and> isOwner actor c \<and> kg_credentialId g = cr_id c \<and> kg_ownerId g = cr_ownerId c)"

lemma mintGrant_ok:
  assumes "mintGrant lib t inp kc = (Inr g, kc')"
  shows "mint_ok (gi_ownerId inp) kc g kc'"
  by (rule mintGrant_shape [OF assms]) (auto simp: mint_ok_def jm_ok_put)

lemma freshAsk_store [simp]: "kc_creds (snd (freshAsk t a kc)) = kc_creds kc" "kc_grants (snd (freshAsk t a kc)) = kc_grants kc"
  by (simp_all add: freshAsk_def patchAsk_def)

lemma mint_ok_asks:
  assumes "kc_creds k = kc_creds kc" "kc_grants k = kc_grants kc" "mint_ok actor k g kc'"
  shows "mint_ok actor kc g kc'" "mint_ok actor kc g (patchAsk i f kc')"
  using assms by (simp_all add: mint_ok_def patchAsk_def)

lemma approve_shape:
  assumes "approveAsk lib t i owner mode purpose ex kc = (r, kc')"
  shows "case r of Inr (a, g) \<Rightarrow> mint_ok owner kc g kc' | Inl _ \<Rightarrow> kc_creds kc' = kc_creds kc \<and> kc_grants kc' = kc_grants kc"
proof (cases "dm_get (kc_asks kc) i")
  case None
  then show ?thesis using assms by (auto simp: approveAsk_def)
next
  case (Some rec)
  obtain a kc1 where f: "freshAsk t rec kc = (a, kc1)" by fastforce
  have store: "kc_creds kc1 = kc_creds kc" "kc_grants kc1 = kc_grants kc" using freshAsk_store [of t rec kc] f by simp_all
  let ?inp = "\<lparr>gi_credentialId = ka_credentialId a, gi_ownerId = owner, gi_audienceScopeId = ka_requesterScopeId a,
      gi_mode = mode, gi_purpose = purpose, gi_expiresAt = ex, gi_askId = Some (ka_id a)\<rparr>"
  obtain q kc2 where m: "mintGrant lib t ?inp kc1 = (q, kc2)" by fastforce
  show ?thesis
  proof (cases "ka_status a = AskPending")
    case True
    show ?thesis
    proof (cases q)
      case (Inl err)
      then have "r = Inl err" "kc' = kc2" using assms Some f True m by (simp_all add: approveAsk_def)
      then show ?thesis using mintGrant_refused [OF m [unfolded Inl]] store by simp
    next
      case (Inr g)
      then have "r = Inr (markApproved t (kg_id g) a, g)" "kc' = patchAsk (ka_id a) (markApproved t (kg_id g)) kc2"
        using assms Some f True m by (simp_all add: approveAsk_def)
      then show ?thesis using mint_ok_asks(2) [OF store mintGrant_ok [OF m [unfolded Inr]]] by simp
    qed
  next
    case False
    then show ?thesis using assms Some f store by (auto simp: approveAsk_def)
  qed
qed

lemma mint_shape:
  assumes "mint_apply e op kc = (og, kc')"
  shows "case og of Some g \<Rightarrow> mint_ok (mint_actor op) kc g kc'
    | None \<Rightarrow> kc_creds kc' = kc_creds kc \<and> kc_grants kc' = kc_grants kc"
proof (cases op)
  case (MGrant t inp)
  then show ?thesis
    using assms mintGrant_ok mintGrant_refused by (auto split: prod.splits sum.splits) blast+
next
  case (MApprove t i owner mode purpose ex)
  obtain r k where a: "approveAsk (ke_lib e) t i owner mode purpose ex kc = (r, k)" by fastforce
  from approve_shape [OF a] a assms MApprove show ?thesis by (auto split: sum.splits prod.splits)
next
  case (MConnector t host who acct scope purpose)
  let ?i = "oauthId (ke_lib e) host who acct"
  let ?inp = "\<lparr>gi_credentialId = ?i, gi_ownerId = who, gi_audienceScopeId = scope, gi_mode = Standing, gi_purpose = purpose,
      gi_expiresAt = None, gi_askId = None\<rparr>"
  obtain q k where m: "mintGrant (ke_lib e) t ?inp kc = (q, k)" by fastforce
  show ?thesis
  proof (cases "dm_get (kc_creds kc) ?i")
    case None
    then show ?thesis using assms MConnector by (auto simp: grantConnectorToScope_def)
  next
    case (Some c)
    show ?thesis
    proof (cases "existingStanding ?i scope kc")
      case None
      have eq: "grantConnectorToScope (ke_lib e) t host who acct scope purpose kc = (Some q, k)"
        using Some None m by (simp add: grantConnectorToScope_def Let_def)
      show ?thesis
      proof (cases q)
        case (Inl err)
        then show ?thesis using assms MConnector eq mintGrant_refused [OF m [unfolded Inl]] by auto
      next
        case (Inr g)
        have "og = Some g" "kc' = k" using assms MConnector eq Inr None by simp_all
        then show ?thesis using mintGrant_ok [OF m [unfolded Inr]] MConnector by simp
      qed
    next
      case (Some g)
      then show ?thesis using assms MConnector \<open>dm_get (kc_creds kc) ?i = Some c\<close> by (auto simp: grantConnectorToScope_def Let_def)
    qed
  qed
qed

lemma kc_inv_mint:
  assumes inv: "kc_inv e s" and m: "mint_apply e op (sy_kc s) = (og, kc')"
  shows "kc_inv e (s\<lparr>sy_kc := kc', sy_minted := sy_minted s @ minted (mint_actor op) og\<rparr>)"
proof (cases og)
  case None
  have "quiet_le (ke_lib e) (set (sy_names s)) (sy_kc s) kc'"
    using mint_shape [OF m] None by (auto simp: quiet_le_def grants_le_def creds_le_def)
  then show ?thesis using inv None by (intro kc_inv_quiet [OF inv]) (simp_all add: minted_def)
next
  case (Some g)
  let ?s = "s\<lparr>sy_kc := kc', sy_minted := sy_minted s @ [(mint_actor op, g)]\<rparr>"
  have ok: "mint_ok (mint_actor op) (sy_kc s) g kc'" using mint_shape [OF m] Some by simp
  have sub: "set (sy_names s) \<subseteq> set (sy_names ?s)" "set (sy_minted s) \<subseteq> set (sy_minted ?s)" by auto
  note parts = inv [unfolded kc_inv_def]
  obtain i c where c: "dm_get (kc_creds (sy_kc s)) i = Some c" "isOwner (mint_actor op) c" "kg_credentialId g = cr_id c"
    "kg_ownerId g = cr_ownerId c" using ok unfolding mint_ok_def by blast
  have nm: "cr_id c = i" "\<exists>n \<in> set (sy_names s). fst n = cr_ownerId c \<and> idOfName (ke_lib e) n = i"
    using parts c(1) unfolding named_def by blast+
  have "(mint_actor op, g) \<in> set (sy_minted ?s)" "samePerson (Some (kg_ownerId g)) (Some (mint_actor op))"
    using c by (simp_all add: isOwner_def)
  moreover have "\<exists>n \<in> set (sy_names ?s). fst n = kg_ownerId g \<and> idOfName (ke_lib e) n = kg_credentialId g" using c nm by simp
  ultimately have g: "vouched e ?s g" unfolding vouched_def by (meson sameCore_refl)
  have "named e ?s" using parts ok unfolding named_def mint_ok_def by simp
  moreover have "granted e ?s"
    unfolding granted_def
  proof (intro conjI allI impI)
    show "jm_ok (kc_grants (sy_kc ?s))" using ok parts unfolding granted_def mint_ok_def by simp
    fix j h
    assume "dm_get (kc_grants (sy_kc ?s)) j = Some h"
    then have "h = g \<and> j = kg_id g \<or> dm_get (kc_grants (sy_kc s)) j = Some h"
      using ok by (auto simp: mint_ok_def split: if_splits)
    then show "kg_id h = j" "vouched e ?s h"
      using g parts vouched_mono(1) [OF sub] unfolding granted_def by blast+
  qed
  moreover have "balanced ?s"
    unfolding balanced_def
  proof
    fix j
    have "onceUses j (sy_out s) + of_bool (isActive j (sy_kc s)) \<le> mints j (sy_minted s)" using parts by (simp add: balanced_def)
    moreover have "isActive j kc' \<longleftrightarrow> j = kg_id g \<or> isActive j (sy_kc s)" using ok by (auto simp: isActive_def mint_ok_def)
    ultimately show "onceUses j (sy_out ?s) + of_bool (isActive j (sy_kc ?s)) \<le> mints j (sy_minted ?s)"
      by (auto simp: mints_def)
  qed
  ultimately show ?thesis
    using parts vouched_mono [OF sub] Some unfolding kc_inv_def by (simp add: minted_def)
qed

lemma connectorEnv_owner:
  "materializeConnectorEnv e ans ivs t c x kc = (Inr m, kc') \<Longrightarrow> mt_credentialId m = cr_id c \<and> mt_ownerId m = cr_ownerId c"
  by (auto simp: materializeConnectorEnv_def Let_def case_prod_unfold split: if_splits)

lemma decrypted_owner:
  "decryptToEnv lib key x c = Some m \<Longrightarrow> mt_credentialId m = cr_id c \<and> mt_ownerId m = cr_ownerId c"
  "decryptToFiles lib key x c = Some m \<Longrightarrow> mt_credentialId m = cr_id c \<and> mt_ownerId m = cr_ownerId c"
  "materializeDecrypted lib key x c = Inr m \<Longrightarrow> mt_credentialId m = cr_id c \<and> mt_ownerId m = cr_ownerId c"
proof -
  show e: "decryptToEnv lib key x c = Some m \<Longrightarrow> mt_credentialId m = cr_id c \<and> mt_ownerId m = cr_ownerId c" for m
    by (auto simp: decryptToEnv_def Let_def split: option.splits)
  show f: "decryptToFiles lib key x c = Some m \<Longrightarrow> mt_credentialId m = cr_id c \<and> mt_ownerId m = cr_ownerId c" for m
    by (auto simp: decryptToFiles_def)(auto split: option.splits)
  show "materializeDecrypted lib key x c = Inr m \<Longrightarrow> mt_credentialId m = cr_id c \<and> mt_ownerId m = cr_ownerId c"
    using e f by (auto simp: materializeDecrypted_def split: option.splits if_splits)
qed

lemma materializeCheck_shape:
  assumes "materializeCheck t i scope kc = Inr (g, c)"
  shows "dm_get (kc_grants kc) i = Some g" "dm_get (kc_creds kc) (kg_credentialId g) = Some c" "claimOnceCheck t scope g = None"
  using assms by (auto simp: materializeCheck_def getGrant_def split: option.splits if_splits)

lemma claimOnceCheck_ok:
  "claimOnceCheck t scope g = None \<longleftrightarrow> kg_audienceScopeId g = scope \<and> kg_status g = GActive \<and> \<not> expired (kg_expiresAt g) t"
  by (cases "kg_status g") (auto simp: claimOnceCheck_def)

lemma materializeOpen_shape:
  assumes "materializeOpen e ans ivs t i scope kc = (Inr (g, m), kc')"
  obtains c where "dm_get (kc_grants kc) i = Some g" "dm_get (kc_creds kc) (kg_credentialId g) = Some c"
    "kg_audienceScopeId g = scope" "mt_credentialId m = cr_id c" "mt_ownerId m = cr_ownerId c"
proof (cases "materializeCheck t i scope kc")
  case (Inl err)
  then show thesis using assms by (simp add: materializeOpen_def)
next
  case (Inr gc)
  obtain g' c where gc: "gc = (g', c)" by fastforce
  note shape = materializeCheck_shape [OF Inr [unfolded gc]]
  have "g' = g \<and> mt_credentialId m = cr_id c \<and> mt_ownerId m = cr_ownerId c"
    using assms Inr gc connectorEnv_owner decrypted_owner(3)
    by (auto simp: materializeOpen_def Let_def map_sum_def split: prod.splits sum.splits if_splits)
  then show thesis using that [of c] shape by (simp add: claimOnceCheck_ok)
qed

text \<open>Under the invariant, what is opened with a grant of the store is vouched for.\<close>

lemma vouched_secret:
  assumes inv: "kc_inv e s" and "vouched e s g" "dm_get (kc_creds (sy_kc s)) (kg_credentialId g) = Some c"
    and "mt_credentialId m = cr_id c" "mt_ownerId m = cr_ownerId c" "kg_audienceScopeId g = scope"
  shows "vouchedUse e s \<lparr>ou_grant = g, ou_secret = m, ou_scope = scope, ou_usedBy = w\<rparr>"
proof -
  have "cr_id c = kg_credentialId g \<and> (\<exists>n \<in> set (sy_names s). fst n = cr_ownerId c \<and> idOfName (ke_lib e) n = kg_credentialId g)"
    using inv assms(3) unfolding kc_inv_def named_def by blast
  then show ?thesis using assms(2,4-6) by (simp add: vouchedUse_def)
qed

lemma kc_inv_open:
  assumes inv: "kc_inv e s" and m: "materializeOpen e ans ivs t i scope (sy_kc s) = (r, kc')"
  shows "kc_inv e (s\<lparr>sy_kc := kc', sy_names := sy_names s @ refreshNames (sy_kc s),
       sy_open := sy_open s @ (case r of Inr (g, m) \<Rightarrow> [\<lparr>ou_grant = g, ou_secret = m, ou_scope = scope, ou_usedBy = w\<rparr>] | Inl _ \<Rightarrow> [])\<rparr>)"
    (is "kc_inv e ?s")
proof (rule kc_inv_quiet [OF inv])
  show "quiet_le (ke_lib e) (set (sy_names ?s)) (sy_kc s) (sy_kc ?s)"
    using quiet_uses(3) [of "sy_kc s" "set (sy_names ?s)" e ans ivs t i scope] m by simp
  show "\<forall>u \<in> set (sy_open ?s) \<union> set (sy_out ?s). u \<in> set (sy_open s) \<union> set (sy_out s) \<or> vouchedUse e ?s u"
  proof (cases r)
    case (Inr gm)
    obtain g x where gm: "gm = (g, x)" by fastforce
    obtain c where c: "dm_get (kc_grants (sy_kc s)) i = Some g" "dm_get (kc_creds (sy_kc s)) (kg_credentialId g) = Some c"
      "kg_audienceScopeId g = scope" "mt_credentialId x = cr_id c" "mt_ownerId x = cr_ownerId c"
      using materializeOpen_shape m Inr gm by blast
    have "vouched e s g" using inv c(1) unfolding kc_inv_def granted_def by blast
    from vouched_secret [OF inv this c(2,4,5,3), of w]
    have "vouchedUse e ?s \<lparr>ou_grant = g, ou_secret = x, ou_scope = scope, ou_usedBy = w\<rparr>"
      by (rule vouched_mono(2) [rotated 2]) auto
    then show ?thesis using Inr gm by auto
  qed simp
qed auto

lemma kc_inv_close:
  assumes inv: "kc_inv e s" and u: "u \<in> set (sy_open s)"
    and m: "materializeClose t (ou_grant u) (ou_secret u) (ou_scope u) (ou_usedBy u) (sy_kc s) = (r, kc')"
  shows "kc_inv e (s\<lparr>sy_kc := kc', sy_open := remove1 u (sy_open s), sy_out := sy_out s @ (case r of Inr _ \<Rightarrow> [u] | Inl _ \<Rightarrow> [])\<rparr>)"
    (is "kc_inv e ?s")
proof -
  have sub: "set (remove1 u (sy_open s)) \<subseteq> set (sy_open s)" by (rule set_remove1_subset)
  show ?thesis
  proof (cases "kg_mode (ou_grant u) = Once \<and> (\<exists>z. r = Inr z)")
    case False
    have "kc' = sy_kc s"
      using m False by (auto simp: materializeClose_def claimOnceGrant_def split: option.splits if_splits)
    moreover have "onceUses i (sy_out ?s) = onceUses i (sy_out s)" for i
      using False by (auto simp: onceUses_def split: sum.split)
    ultimately show ?thesis using u sub by (intro kc_inv_quiet [OF inv]) (auto split: sum.split)
  next
    case True
    let ?i = "kg_id (ou_grant u)"
    let ?use = "\<lambda>g. g\<lparr>kg_status := GUsed, kg_usedAt := Some t, kg_usedBy := Some (ou_usedBy u)\<rparr>"
    obtain g where g: "dm_get (kc_grants (sy_kc s)) ?i = Some g" "claimOnceCheck t (ou_scope u) g = None" "kc' = patchGrant ?i ?use (sy_kc s)"
      using m True by (auto simp: materializeClose_def claimOnceGrant_def split: option.splits if_splits)
    have act: "isActive ?i (sy_kc s)" "\<not> isActive ?i kc'"
      using g by (auto simp: isActive_def claimOnceCheck_ok patchGrant_def dm_merge_update)
    have le: "quiet_le (ke_lib e) (set (sy_names s)) (sy_kc s) kc'"
      unfolding g(3) by (rule quiet_patchGrant) (simp_all add: sameCore_def)
    have out: "sy_out ?s = sy_out s @ [u]" using True by auto
    have "balanced ?s"
      unfolding balanced_def
    proof
      fix j
      have b: "onceUses j (sy_out s) + of_bool (isActive j (sy_kc s)) \<le> mints j (sy_minted s)"
        using inv by (simp add: kc_inv_def balanced_def)
      show "onceUses j (sy_out ?s) + of_bool (isActive j (sy_kc ?s)) \<le> mints j (sy_minted ?s)"
      proof (cases "j = ?i")
        case True
        then show ?thesis using b act by (simp add: onceUses_def out)
      next
        case False
        have "isActive j kc' \<Longrightarrow> isActive j (sy_kc s)" using isActive_quiet le by (auto simp: quiet_le_def)
        then show ?thesis using b False by (cases "isActive j kc'") (simp_all add: onceUses_def out)
      qed
    qed
    moreover have "kc_inv e (s\<lparr>sy_kc := kc'\<rparr>)" using le by (intro kc_inv_quiet [OF inv]) simp_all
    ultimately show ?thesis
      using u sub inv unfolding kc_inv_def named_def granted_def vouchedUse_def vouched_def out by auto
  qed
qed

lemma standingOne_shape:
  assumes "standingOne e ans ivs t g ([], kc) = (ms, kc')" "m \<in> set ms"
  obtains c where "kg_mode g = Standing" "dm_get (kc_creds kc) (kg_credentialId g) = Some c" "mt_credentialId m = cr_id c"
    "mt_ownerId m = cr_ownerId c"
proof -
  obtain c where c: "kg_mode g = Standing" "dm_get (kc_creds kc) (kg_credentialId g) = Some c"
    using assms by (auto simp: standingOne_def split: option.splits if_splits)
  have "mt_credentialId m = cr_id c \<and> mt_ownerId m = cr_ownerId c"
    using assms c
    by (auto simp: standingOne_def Let_def split: option.splits if_splits prod.splits sum.splits dest: connectorEnv_owner decrypted_owner(1))
  then show thesis using that [OF c] by blast
qed

lemma kc_inv_inject:
  assumes inv: "kc_inv e s" and x: "(scope, g) \<in> set (sy_standing s)" and m: "standingOne e ans ivs t g ([], sy_kc s) = (ms, kc')"
  shows "kc_inv e (s\<lparr>sy_kc := kc', sy_names := sy_names s @ refreshNames (sy_kc s), sy_standing := remove1 (scope, g) (sy_standing s),
       sy_out := sy_out s @ map (\<lambda>m. \<lparr>ou_grant = g, ou_secret = m, ou_scope = scope, ou_usedBy = []\<rparr>) ms\<rparr>)"
    (is "kc_inv e ?s")
proof (rule kc_inv_quiet [OF inv])
  show "quiet_le (ke_lib e) (set (sy_names ?s)) (sy_kc s) (sy_kc ?s)"
    using quiet_standing [of "sy_kc s" "set (sy_names ?s)" e ans ivs t g "[]"] m by simp
  show "onceUses i (sy_out ?s) = onceUses i (sy_out s)" for i
  proof (cases "kg_mode g = Once")
    case True
    then have "ms = []" using m by (simp add: standingOne_def)
    then show ?thesis by simp
  qed (simp add: onceUses_def filter_empty_conv comp_def)
  have v: "vouched e s g" "kg_audienceScopeId g = scope" using inv x unfolding kc_inv_def by force+
  have "vouchedUse e ?s \<lparr>ou_grant = g, ou_secret = y, ou_scope = scope, ou_usedBy = []\<rparr>" if "y \<in> set ms" for y
  proof -
    obtain c where c: "dm_get (kc_creds (sy_kc s)) (kg_credentialId g) = Some c" "mt_credentialId y = cr_id c" "mt_ownerId y = cr_ownerId c"
      using standingOne_shape [OF m \<open>y \<in> set ms\<close>] by blast
    show ?thesis by (rule vouched_mono(2) [OF _ _ vouched_secret [OF inv v(1) c v(2)]]) auto
  qed
  then show "\<forall>u \<in> set (sy_open ?s) \<union> set (sy_out ?s). u \<in> set (sy_open s) \<union> set (sy_out s) \<or> vouchedUse e ?s u" by auto
  show "\<forall>x \<in> set (sy_standing ?s). x \<in> set (sy_standing s) \<or> vouched e ?s (snd x) \<and> kg_audienceScopeId (snd x) = fst x"
    using set_remove1_subset [of "(scope, g)" "sy_standing s"] by auto
qed auto

lemma kc_inv_list:
  assumes inv: "kc_inv e s"
  shows "kc_inv e (s\<lparr>sy_standing := sy_standing s @ map (Pair scope) (activeGrantsFor t scope (sy_kc s))\<rparr>)" (is "kc_inv e ?s")
proof (rule kc_inv_quiet [OF inv])
  have "vouched e ?s g \<and> kg_audienceScopeId g = scope" if "g \<in> set (activeGrantsFor t scope (sy_kc s))" for g
  proof -
    have g: "g \<in> set (dm_all (kc_grants (sy_kc s)))" "kg_audienceScopeId g = scope" using that by (auto simp: activeGrantsFor_def)
    have "jm_ok (kc_grants (sy_kc s))" using inv by (simp add: kc_inv_def granted_def)
    then obtain i where "dm_get (kc_grants (sy_kc s)) i = Some g" using g(1) by (auto simp: dm_all_iff)
    then have "vouched e s g" using inv unfolding kc_inv_def granted_def by blast
    then show ?thesis using g(2) by (simp add: vouched_def)
  qed
  then show "\<forall>x \<in> set (sy_standing ?s). x \<in> set (sy_standing s) \<or> vouched e ?s (snd x) \<and> kg_audienceScopeId (snd x) = fst x" by auto
qed auto

lemma kc_inv_op:
  assumes inv: "kc_inv e s"
  shows "kc_inv e (s\<lparr>sy_kc := kc_apply e op (sy_kc s), sy_names := sy_names s @ op_names e op (sy_kc s) @ refreshNames (sy_kc s)\<rparr>)"
  by (rule kc_inv_quiet [OF inv]) (auto intro: quiet_mono [OF quiet_op])

lemma kc_step_inv:
  assumes inv: "kc_inv e s" and step: "kc_step e s s'"
  shows "kc_inv e s'"
  using step
proof cases
  case (kc_op op)
  then show ?thesis using kc_inv_op [OF inv] by (simp only:)
next
  case (kc_mint op og kc')
  then show ?thesis using kc_inv_mint [OF inv] by (simp only:)
next
  case (kc_open ans ivs t i scope r kc' usedBy)
  then show ?thesis using kc_inv_open [OF inv kc_open(2)] by (simp only:)
next
  case (kc_close u t r kc')
  then show ?thesis using kc_inv_close [OF inv kc_close(2,3)] by (simp only:)
next
  case (kc_list scope t)
  then show ?thesis using kc_inv_list [OF inv] by (simp only:)
next
  case (kc_inject scope g ans ivs t ms kc')
  then show ?thesis using kc_inv_inject [OF inv kc_inject(2,3)] by (simp only:)
qed

interpretation keychain_uses: step_system "kc_step e" "kc_inv e"
  for e by unfold_locales (rule kc_step_inv)

lemma kc_inv_start: "kc_inv e kc_start"
  by (simp add: kc_inv_def kc_start_def createKeychain_def createMemoryMap_def named_def granted_def balanced_def onceUses_def isActive_def
      dm_get_def mints_def)

subsection \<open>A secret leaves with the consent of its owner\<close>

text \<open>
  Identifiers of credentials are hashes. No two credentials that were ever filed for different owners have the same identifier.
\<close>

definition ids_apart :: "kc_lib \<Rightarrow> cred_name list \<Rightarrow> bool" where
  "ids_apart lib names \<longleftrightarrow> (\<forall>n \<in> set names. \<forall>n' \<in> set names. idOfName lib n = idOfName lib n' \<longrightarrow> fst n = fst n')"

text \<open>
  C32. Whatever operations were carried out, in whatever order and with however many uses in flight: a secret handed out to a conversation
  under a grant belongs to a credential whose owner in person minted a grant of exactly that credential for exactly that conversation.\<close>

theorem secret_leaves_by_owners_grant:
  assumes "(kc_step e)\<^sup>*\<^sup>* kc_start s" "ids_apart (ke_lib e) (sy_names s)" "u \<in> set (sy_out s)"
  shows "\<exists>actor g. (actor, g) \<in> set (sy_minted s) \<and> samePerson (Some (mt_ownerId (ou_secret u))) (Some actor) \<and>
     kg_ownerId g = mt_ownerId (ou_secret u) \<and> kg_credentialId g = mt_credentialId (ou_secret u) \<and>
     kg_audienceScopeId g = ou_scope u \<and> kg_mode g = kg_mode (ou_grant u)"
proof -
  have "vouchedUse e s u" using keychain_uses.steps_inv [OF assms(1) kc_inv_start] assms(3) by (simp add: kc_inv_def)
  then have v: "vouched e s (ou_grant u)" "kg_audienceScopeId (ou_grant u) = ou_scope u"
    "mt_credentialId (ou_secret u) = kg_credentialId (ou_grant u)"
    "\<exists>n \<in> set (sy_names s). fst n = mt_ownerId (ou_secret u) \<and> idOfName (ke_lib e) n = mt_credentialId (ou_secret u)"
    unfolding vouchedUse_def by blast+
  obtain a g where g: "(a, g) \<in> set (sy_minted s)" "sameCore g (ou_grant u)" "samePerson (Some (kg_ownerId (ou_grant u))) (Some a)"
    using v(1) unfolding vouched_def by blast
  have "mt_ownerId (ou_secret u) = kg_ownerId (ou_grant u)"
    using v(1,3,4) assms(2) unfolding vouched_def ids_apart_def by metis
  then show ?thesis using g v by (intro exI [of _ a] exI [of _ g]) (auto simp: sameCore_def)
qed

text \<open>
  C33. A one-time grant is good for one use: however its uses interleave with each other and with everything else, the number of secrets
  handed out under it is at most the number of times it was minted, and while it is still open one less.\<close>

theorem one_time_grant_is_used_once:
  assumes "(kc_step e)\<^sup>*\<^sup>* kc_start s"
  shows "length (filter (\<lambda>u. kg_id (ou_grant u) = i \<and> kg_mode (ou_grant u) = Once) (sy_out s)) +
      (if \<exists>g. getGrant i (sy_kc s) = Some g \<and> kg_status g = GActive then 1 else 0)
     \<le> length (filter (\<lambda>x. kg_id (snd x) = i) (sy_minted s))"
proof -
  have "balanced s" using keychain_uses.steps_inv [OF assms kc_inv_start] by (simp add: kc_inv_def)
  then have "onceUses i (sy_out s) + of_bool (isActive i (sy_kc s)) \<le> mints i (sy_minted s)" by (simp add: balanced_def)
  then show ?thesis by (simp add: onceUses_def mints_def isActive_def getGrant_def of_bool_def split: if_splits)
qed

subsection \<open>An example\<close>

definition ex_kc_lib :: kc_lib where
  "ex_kc_lib = \<lparr>kl_sha = id, kl_toBase64 = id, kl_seal = (\<lambda>k iv p. (''t'', p)), kl_open = (\<lambda>k iv tag ct. Some ct)\<rparr>"

definition ex_kc_env :: kc_env where
  "ex_kc_env = \<lparr>ke_lib = ex_kc_lib, ke_key = \<lparr>sk_current = ''c'', sk_legacy = ''l'', sk_fallbacks = []\<rparr>, ke_orgId = ''o'',
     ke_clock = oauthMargin None None\<rparr>"

definition ex_save :: save_input where
  "ex_save = \<lparr>si_ownerId = ''U'', si_service = ''gh'', si_secret = Some ''key'', si_envKey = Some ''K'', si_fields = None, si_target = None,
     si_files = None, si_host = None, si_accountLabel = None, si_origin = None, si_expiresAt = None\<rparr>"

definition ex_grant_input :: grant_input where
  "ex_grant_input = \<lparr>gi_credentialId = credId ex_kc_lib ''U'' ''gh'' ''env:K'', gi_ownerId = ''U'', gi_audienceScopeId = ''channel:C'',
     gi_mode = Once, gi_purpose = ''deploy'', gi_expiresAt = None, gi_askId = None\<rparr>"

definition ex_credId :: string where
  "ex_credId = [CHR ''U'', nul_char, CHR ''g'', CHR ''h'', nul_char, CHR ''e'', CHR ''n'', CHR ''v'', CHR '':'', CHR ''K'']"

definition ex_grant :: keychain_grant where
  "ex_grant =
     \<lparr>kg_id = ex_credId @ [nul_char, CHR ''c'', CHR ''h'', CHR ''a'', CHR ''n'', CHR ''n''], kg_credentialId = ex_credId, kg_ownerId = ''U'',
      kg_orgId = Some ''o'', kg_audienceScopeId = ''channel:C'', kg_mode = Once, kg_purpose = ''deploy'', kg_status = GActive, kg_createdAt = 2,
      kg_expiresAt = None, kg_revokedAt = None, kg_usedAt = None, kg_usedBy = None, kg_askId = None\<rparr>"

definition ex_credential :: credential where
  "ex_credential =
     \<lparr>cr_id = ex_credId, cr_ownerId = ''U'', cr_orgId = Some ''o'', cr_service = ''gh'', cr_kind = KEnv, cr_envKey = Some ''K'', cr_target = None,
      cr_targets = None, cr_host = None, cr_accountLabel = None, cr_fields = None, cr_broker = None, cr_refresh = None, cr_managed = False,
      cr_username = None, cr_secretEnc = ''v2:iv:t:key'', cr_fingerprint = ''key'', cr_origin = None, cr_expiresAt = None, cr_createdAt = 1,
      cr_updatedAt = 1\<rparr>"

definition ex_saved :: keychain where
  "ex_saved = \<lparr>kc_creds = [(ex_credId, ex_credential)], kc_grants = [], kc_asks = []\<rparr>"

definition ex_granted :: keychain where
  "ex_granted = ex_saved\<lparr>kc_grants := [(kg_id ex_grant, ex_grant)]\<rparr>"

definition ex_use :: open_use where
  "ex_use =
     \<lparr>ou_grant = ex_grant,
      ou_secret = \<lparr>mt_kind = KEnv, mt_credentialId = ex_credId, mt_ownerId = ''U'', mt_service = ''gh'', mt_env = [(''K'', ''key'')], mt_files = [],
        mt_origin = None, mt_extra = Some \<lparr>kx_grantId = kg_id ex_grant, kx_purpose = ''deploy''\<rparr>\<rparr>,
      ou_scope = ''channel:C'', ou_usedBy = ''V''\<rparr>"

definition ex_close :: "(kc_error + materialized) \<times> keychain" where
  "ex_close = materializeClose 4 (ou_grant ex_use) (ou_secret ex_use) (ou_scope ex_use) (ou_usedBy ex_use) ex_granted"

definition ex_kc1 :: kc_sys where
  "ex_kc1 = kc_start\<lparr>sy_kc := ex_saved, sy_names := [(''U'', ''gh'', ''env:K'')]\<rparr>"

definition ex_kc2 :: kc_sys where
  "ex_kc2 = ex_kc1\<lparr>sy_kc := ex_granted, sy_minted := [(''U'', ex_grant)]\<rparr>"

definition ex_kc3 :: kc_sys where
  "ex_kc3 = ex_kc2\<lparr>sy_names := sy_names ex_kc2 @ refreshNames ex_granted, sy_open := [ex_use]\<rparr>"

definition ex_kc4 :: kc_sys where
  "ex_kc4 = ex_kc3\<lparr>sy_kc := snd ex_close, sy_open := [], sy_out := [ex_use]\<rparr>"

lemma ex_kc_first: "kc_step ex_kc_env kc_start ex_kc1"
proof -
  let ?op = "OSave ''iv'' 1 ex_save"
  have "kc_apply ex_kc_env ?op (sy_kc kc_start) = ex_saved" by code_simp
  moreover have "sy_names kc_start @ op_names ex_kc_env ?op (sy_kc kc_start) @ refreshNames (sy_kc kc_start) = [(''U'', ''gh'', ''env:K'')]"
    by code_simp
  ultimately show ?thesis using kc_op [of ex_kc_env kc_start ?op] unfolding ex_kc1_def by metis
qed

lemma ex_kc_second: "kc_step ex_kc_env ex_kc1 ex_kc2"
proof -
  have "mint_apply ex_kc_env (MGrant 2 ex_grant_input) ex_saved = (Some ex_grant, ex_granted)" by code_simp
  then have "mint_apply ex_kc_env (MGrant 2 ex_grant_input) (sy_kc ex_kc1) = (Some ex_grant, ex_granted)" by (simp add: ex_kc1_def)
  from kc_mint [OF this] show ?thesis by (simp add: ex_kc2_def ex_kc1_def kc_start_def minted_def ex_grant_input_def)
qed

lemma ex_kc_third: "kc_step ex_kc_env ex_kc2 ex_kc3"
proof -
  have "materializeOpen ex_kc_env None ([], []) 3 (kg_id ex_grant) ''channel:C'' ex_granted = (Inr (ex_grant, ou_secret ex_use), ex_granted)"
    by code_simp
  then have "materializeOpen ex_kc_env None ([], []) 3 (kg_id ex_grant) ''channel:C'' (sy_kc ex_kc2) = (Inr (ex_grant, ou_secret ex_use), ex_granted)"
    by (simp add: ex_kc2_def)
  from kc_open [OF this, of "''V''"] show ?thesis by (simp add: ex_kc3_def ex_kc2_def ex_kc1_def kc_start_def ex_use_def)
qed

lemma ex_kc_fourth: "kc_step ex_kc_env ex_kc3 ex_kc4"
proof -
  have u: "ex_use \<in> set (sy_open ex_kc3)" by (simp add: ex_kc3_def)
  have "\<not> isl (fst ex_close)" by code_simp
  then obtain m kc' where c: "ex_close = (Inr m, kc')" by (metis prod.collapse isl_def sum.exhaust_sel)
  have "sy_kc ex_kc3 = ex_granted" by (simp add: ex_kc3_def ex_kc2_def)
  then have "materializeClose 4 (ou_grant ex_use) (ou_secret ex_use) (ou_scope ex_use) (ou_usedBy ex_use) (sy_kc ex_kc3) = (Inr m, kc')"
    using c by (simp only: ex_close_def)
  from kc_close [OF u this] show ?thesis by (simp add: ex_kc4_def c ex_kc3_def ex_kc2_def ex_kc1_def kc_start_def)
qed

lemma ex_kc_reachable: "(kc_step ex_kc_env)\<^sup>*\<^sup>* kc_start ex_kc4"
  by (meson converse_rtranclp_into_rtranclp rtranclp.rtrancl_refl ex_kc_first ex_kc_second ex_kc_third ex_kc_fourth)

lemma ids_apart_one_owner: "list_all (\<lambda>n. fst n = w) names \<Longrightarrow> ids_apart lib names"
  unfolding ids_apart_def list_all_iff by metis

lemma ex_kc_names: "ids_apart lib (sy_names ex_kc4)"
proof -
  have "list_all (\<lambda>n. fst n = ''U'') (sy_names ex_kc1 @ refreshNames ex_granted)" by code_simp
  then have "list_all (\<lambda>n. fst n = ''U'') (sy_names ex_kc4)" by (simp add: ex_kc4_def ex_kc3_def ex_kc2_def)
  then show ?thesis by (rule ids_apart_one_owner)
qed

lemma ex_kc_out: "sy_out ex_kc4 = [ex_use]"
  by (simp add: ex_kc4_def)

lemma ex_kc_minted: "sy_minted ex_kc4 = [(''U'', ex_grant)]"
  by (simp add: ex_kc4_def ex_kc3_def ex_kc2_def)

theorem secret_leaves_by_owners_grant_witness:
  "mt_env (ou_secret ex_use) = [(''K'', ''key'')] \<and>
   (\<exists>actor g. (actor, g) \<in> set (sy_minted ex_kc4) \<and> samePerson (Some (mt_ownerId (ou_secret ex_use))) (Some actor) \<and>
     kg_audienceScopeId g = ou_scope ex_use)"
proof -
  have "ex_use \<in> set (sy_out ex_kc4)" by (simp add: ex_kc_out)
  from secret_leaves_by_owners_grant [OF ex_kc_reachable ex_kc_names this] have
    "\<exists>actor g. (actor, g) \<in> set (sy_minted ex_kc4) \<and> samePerson (Some (mt_ownerId (ou_secret ex_use))) (Some actor) \<and>
     kg_audienceScopeId g = ou_scope ex_use" by blast
  moreover have "mt_env (ou_secret ex_use) = [(''K'', ''key'')]" by (simp add: ex_use_def)
  ultimately show ?thesis by blast
qed

theorem one_time_grant_is_used_once_witness:
  "length (filter (\<lambda>u. kg_id (ou_grant u) = kg_id ex_grant \<and> kg_mode (ou_grant u) = Once) (sy_out ex_kc4)) \<le> 1"
proof -
  have "length (filter (\<lambda>x. kg_id (snd x) = kg_id ex_grant) (sy_minted ex_kc4)) = 1" by (simp add: ex_kc_minted)
  then show ?thesis using one_time_grant_is_used_once [OF ex_kc_reachable, of "kg_id ex_grant"] by linarith
qed

end
