(* ===== verification/KeychainSave.thy ===== *)
theory KeychainSave
  imports KeychainUse Capability
begin

section \<open>A saved credential comes back\<close>

text \<open>
  What \<open>save\<close> seals is what \<open>materializeOwnById\<close> hands to the owner. Of the cipher the hypothesis \<open>seal_ok\<close> says what
  \<open>aes-256-gcm\<close> and Base64 promise: no colon in the text, and deciphering under the same key gives the plain text back.
\<close>

definition seal_ok :: "kc_lib \<Rightarrow> bool" where
  "seal_ok lib \<longleftrightarrow>
     (\<forall>k iv p. (case kl_seal lib k iv p of
        (tag, ct) \<Rightarrow> tag \<noteq> [] \<and> CHR '':'' \<notin> set tag \<and> CHR '':'' \<notin> set ct \<and> kl_open lib k iv tag ct = Some p))"

lemma decrypt_encrypt:
  assumes "seal_ok lib" "iv \<noteq> []" "CHR '':'' \<notin> set iv"
  shows "decryptSecret lib (encryptSecret lib iv p key) key = Some p"
proof -
  obtain tag ct where s: "kl_seal lib (sk_current key) iv p = (tag, ct)" by (cases "kl_seal lib (sk_current key) iv p")
  have l: "tag \<noteq> []" "CHR '':'' \<notin> set tag" "CHR '':'' \<notin> set ct" "kl_open lib (sk_current key) iv tag ct = Some p"
    using assms(1) [unfolded seal_ok_def, rule_format, of "sk_current key" iv p] s by simp_all
  have "encryptSecret lib iv p key = ''v2'' @ CHR '':'' # iv @ CHR '':'' # tag @ CHR '':'' # ct" by (simp add: encryptSecret_def s)
  moreover have "split_on (CHR '':'') (''v2'' @ CHR '':'' # iv @ CHR '':'' # tag @ CHR '':'' # ct) = [''v2'', iv, tag, ct]"
    using assms(3) l(2,3) by (subst split_on_append, simp)+ (simp add: split_on_none)
  ultimately show ?thesis using l(1,4) assms(2) by (simp add: decryptSecret_def)
qed

lemma fileOfJson_fileJson [simp]: "fileOfJson (fileJson f) = f"
  by (cases f) (simp add: fileOfJson_def fileJson_def strField_def)

lemma files_back: "jsonParse (stringify (JArr (map fileJson fs))) = Some (JArr (map fileJson fs))"
  by (rule parse_stringify) (auto simp: fileJson_def)

lemma fields_back:
  assumes "fieldsError (Some fs) = None"
  shows "jsonParse (stringify (JObj (map (\<lambda>(k, v, _). (k, JStr v)) fs))) = Some (JObj (map (\<lambda>(k, v, _). (k, JStr v)) fs))"
    "map (\<lambda>(k, _). (k, case strField (JObj (map (\<lambda>(k, v, _). (k, JStr v)) fs)) k of Some v \<Rightarrow> v | None \<Rightarrow> [])) (map (\<lambda>(k, _, s). (k, s)) fs) =
     map (\<lambda>(k, v, _). (k, v)) fs"
proof -
  have d: "distinct (map fst fs)" using assms by (auto simp: fieldsError_def split: if_splits)
  have e: "map fst (map (\<lambda>(k, v, _). (k, JStr v)) fs) = map fst fs" by (auto simp: case_prod_unfold)
  show "jsonParse (stringify (JObj (map (\<lambda>(k, v, _). (k, JStr v)) fs))) = Some (JObj (map (\<lambda>(k, v, _). (k, JStr v)) fs))"
  proof (rule parse_stringify)
    show "json_ok (JObj (map (\<lambda>(k, v, _). (k, JStr v)) fs))" unfolding json_ok.simps e using d by auto
  qed
  have "map_of (map (\<lambda>(k, v, _). (k, JStr v)) fs) k = Some (JStr v)" if "(k, v, s) \<in> set fs" for k v s
    proof (rule map_of_is_SomeI)
    show "distinct (map fst (map (\<lambda>(k, v, _). (k, JStr v)) fs))" unfolding e by (rule d)
    show "(k, JStr v) \<in> set (map (\<lambda>(k, v, _). (k, JStr v)) fs)" using that by force
  qed
  then show "map (\<lambda>(k, _). (k, case strField (JObj (map (\<lambda>(k, v, _). (k, JStr v)) fs)) k of Some v \<Rightarrow> v | None \<Rightarrow> [])) (map (\<lambda>(k, _, s). (k, s)) fs) =
     map (\<lambda>(k, v, _). (k, v)) fs"
    by (auto simp: strField_def)
qed

definition comes_back :: "kc_lib \<Rightarrow> save_input \<Rightarrow> materialized \<Rightarrow> bool" where
  "comes_back lib inp m \<longleftrightarrow>
     (case savedFiles lib inp of
        Inr (Some files) \<Rightarrow> mt_files m = files \<and> mt_env m = []
      | _ \<Rightarrow>
          (mt_files m = [] \<and>
           mt_env m = (case savedFields False inp of
             Some flds \<Rightarrow> map (\<lambda>(k, v, _). (k, v)) flds
           | None \<Rightarrow> [(saveEnvKey inp (to_lower (js_trim (si_service inp))), the (si_secret inp))])))"

lemma saved_materializes:
  assumes "seal_ok lib" "iv \<noteq> []" "CHR '':'' \<notin> set iv"
    "saveCredential lib key org iv t inp kc = (Inr c, kc')"
  shows "\<exists>m. materializeDecrypted lib key x c = Inr m \<and> mt_ownerId m = si_ownerId inp \<and> mt_credentialId m = cr_id c \<and> comes_back lib inp m"
  using assms(4)
proof (cases rule: saveCredential_result)
  case (saved service files flds envKey secret)
  let ?c = "savedRecord lib key org iv t inp service files flds envKey secret kc"
  have c: "c = ?c" using saved(7) by simp
  have dec: "decryptSecret lib (cr_secretEnc c) key = Some secret"
    using decrypt_encrypt [OF assms(1-3)] by (simp add: c savedRecord_def Let_def)
  show ?thesis
  proof (cases files)
    case (Some fs)
    then have "secret = stringify (JArr (map fileJson fs))" using saved(5) by (simp add: savedSecret_def)
    then have "Option.bind (jsonParse secret) filesOfJson = Some fs"
      by (simp only: files_back Option.bind.simps) (simp add: filesOfJson_def comp_def)
    moreover have "cr_kind c = KFile" "cr_targets c = Some (map cf_path fs)" "cr_ownerId c = si_ownerId inp"
      by (simp_all add: c Some savedRecord_def Let_def)
    ultimately show ?thesis using dec saved(2) Some by (simp add: materializeDecrypted_def decryptToFiles_def comes_back_def)
  next
    case None
    have k: "cr_kind c = KEnv" "cr_ownerId c = si_ownerId inp" "cr_fields c = map_option (map (\<lambda>(k, _, s). (k, s))) flds"
      "cr_envKey c = envKey" "cr_username c = None" by (simp_all add: c None savedRecord_def Let_def)
    show ?thesis
    proof (cases flds)
      case (Some fs)
      then have s: "secret = stringify (JObj (map (\<lambda>(k, v, _). (k, JStr v)) fs))" using saved(5) None by (simp add: savedSecret_def)
      have "fieldsError (Some fs) = None" using saved(4) Some by simp
      note b = fields_back [OF this]
      have "decryptToEnv lib key x c = Some \<lparr>mt_kind = KEnv, mt_credentialId = cr_id c, mt_ownerId = cr_ownerId c, mt_service = cr_service c,
          mt_env = map (\<lambda>(k, v, _). (k, v)) fs, mt_files = [], mt_origin = None, mt_extra = x\<rparr>"
        unfolding decryptToEnv_def Let_def dec k(3) Some option.map option.case
        by (simp only: s b(1) option.map b(2))
      then show ?thesis using saved(2) saved(3) [symmetric] None Some k by (simp add: materializeDecrypted_def comes_back_def)
    next
      case N: None
      then have "si_secret inp = Some secret" using saved(5) None by (simp add: savedSecret_def)
      then show ?thesis using dec saved(1,2,3,6) None N k
        by (simp add: materializeDecrypted_def decryptToEnv_def Let_def comes_back_def legacyUser_def)
    qed
  qed
qed simp_all

text \<open>
  C34. A credential that was saved comes back to its owner, in the owner's own conversation and until it expires: the files with the
  content they had under their home-relative paths, the fields under their names in the order given, or the one secret under its name.\<close>

theorem saved_credential_comes_back:
  assumes "seal_ok (ke_lib e)" "iv \<noteq> []" "CHR '':'' \<notin> set iv" "personKey (Some (si_ownerId inp)) \<noteq> []"
    "saveCredential (ke_lib e) (ke_key e) (ke_orgId e) iv t inp kc = (Inr c, kc')" "\<not> expired (si_expiresAt inp) t'"
  shows "\<exists>m. materializeOwnById e answer ivs t' (si_ownerId inp) (cr_id c) (scopeId Personal (si_ownerId inp)) kc' = (Inr m, kc') \<and>
     mt_ownerId m = si_ownerId inp \<and> comes_back (ke_lib e) inp m"
proof -
  obtain m where m: "materializeDecrypted (ke_lib e) (ke_key e) None c = Inr m" "mt_ownerId m = si_ownerId inp" "comes_back (ke_lib e) inp m"
    using saved_materializes [OF assms(1-3,5)] by blast
  have "cr_kind c \<noteq> KBroker \<and> \<not> cr_managed c \<and> cr_expiresAt c = si_expiresAt inp"
    using assms(5) by (cases rule: saveCredential_result) (auto simp: savedRecord_def Let_def)
  moreover have "getOwned (si_ownerId inp) (cr_id c) kc' = Some c"
    using saved_shape [OF assms(5)] assms(4) by (simp add: getOwned_def isOwner_def samePerson_def)
  ultimately show ?thesis using m assms(6) by (auto simp: materializeOwnById_def credExpired_def)
qed

definition ex_fields :: save_input where
  "ex_fields = ex_save\<lparr>si_secret := None, si_envKey := None, si_fields := Some [(''A'', ''x:1'', None), (''B'', ''y'', Some False)]\<rparr>"

definition ex_sealed :: kc_lib where
  "ex_sealed = \<lparr>kl_sha = id, kl_toBase64 = id, kl_seal = (\<lambda>k iv p. (''t'', spelled p)), kl_open = (\<lambda>k iv tag ct. Some (unspelled ct))\<rparr>"

lemma spelled_colonless: "CHR '':'' \<notin> set (spelled s)"
proof -
  have "CHR '':'' \<noteq> char_of (97 + n)" if "n < 16" for n :: nat
  proof
    assume "CHR '':'' = char_of (97 + n)"
    then have "of_char (CHR '':'') = (of_char (char_of (97 + n) :: char) :: nat)" by simp
    then show False using that by simp
  qed
  then show ?thesis by (auto simp: spelled_def spell_def high_nibble)
qed

lemma ex_sealed_ok: "seal_ok ex_sealed"
  by (simp add: seal_ok_def ex_sealed_def spelled_colonless unspell)

theorem saved_credential_comes_back_witness:
  "\<exists>c kc' m. saveCredential ex_sealed (ke_key ex_kc_env) ''o'' ''iv'' 1 ex_fields createKeychain = (Inr c, kc') \<and>
     materializeOwnById (ex_kc_env\<lparr>ke_lib := ex_sealed\<rparr>) None ([], []) 2 ''U'' (cr_id c) ''personal:U'' kc' = (Inr m, kc') \<and>
     mt_env m = [(''A'', ''x:1''), (''B'', ''y'')]"
proof -
  let ?e = "ex_kc_env\<lparr>ke_lib := ex_sealed\<rparr>"
  obtain r kc' where s: "saveCredential ex_sealed (ke_key ex_kc_env) ''o'' ''iv'' 1 ex_fields createKeychain = (r, kc')" by fastforce
  have "\<not> isl (fst (saveCredential ex_sealed (ke_key ex_kc_env) ''o'' ''iv'' 1 ex_fields createKeychain))" by code_simp
  then obtain c where c: "r = Inr c" using s by (cases r) auto
  have p: "personKey (Some (si_ownerId ex_fields)) \<noteq> []" "\<not> expired (si_expiresAt ex_fields) 2" by code_simp+
  have w: "seal_ok (ke_lib ?e)" "saveCredential (ke_lib ?e) (ke_key ?e) (ke_orgId ?e) ''iv'' 1 ex_fields createKeychain = (Inr c, kc')"
    using s ex_sealed_ok by (simp_all add: c) (simp add: ex_kc_env_def)
  obtain m where m: "materializeOwnById ?e None ([], []) 2 (si_ownerId ex_fields) (cr_id c) (scopeId Personal (si_ownerId ex_fields)) kc' = (Inr m, kc')"
    "comes_back (ke_lib ?e) ex_fields m"
    using saved_credential_comes_back [OF w(1) _ _ p(1) w(2) p(2)] by fastforce
  have w': "si_ownerId ex_fields = ''U''" "scopeId Personal ''U'' = ''personal:U''" by code_simp+
  have f: "savedFiles ex_sealed ex_fields = Inr None" "savedFields False ex_fields = Some [(''A'', ''x:1'', True), (''B'', ''y'', False)]" by code_simp+
  have "mt_env m = [(''A'', ''x:1''), (''B'', ''y'')]" using m(2) by (simp add: comes_back_def f)
  then show ?thesis using m(1) s c by (simp add: w')
qed

end
