(* ===== verification/Broker.thy ===== *)
theory Broker
  imports Keychain Capability Membership
begin

section \<open>The credential broker\<close>

text \<open>
  Models \<open>src/src/api/credential-broker.ts\<close>, \<open>src/src/api/git-http-broker.ts\<close> and the part of \<open>gate\<close> in \<open>src/src/api/server.ts\<close>
  that a route with an audience passes through. The reader of credentials is the keychain, the tokens those of \<open>Capability\<close>, the
  membership checks those of \<open>Membership\<close>. The parser of URLs is a parameter; what the other side answers is an argument. What a call
  does to the world (the request that carries the secret, the usage and audit records) is the list of its events.
\<close>

subsection \<open>\<open>decodeURIComponent\<close>\<close>

text \<open>
  Decoding may leave the characters below 256, so it works on lists of UTF-16 code units. An escape is a byte; a byte above 127 leads a
  UTF-8 sequence, which must be the shortest one of a code point that is no surrogate.
\<close>

type_synonym units = "nat list"

definition units :: "string \<Rightarrow> units" where
  "units s = map of_char s"

definition hexDigit :: "nat \<Rightarrow> nat option" where
  "hexDigit c =
     (if 48 \<le> c \<and> c \<le> 57 then Some (c - 48) else if 65 \<le> c \<and> c \<le> 70 then Some (c - 55)
      else if 97 \<le> c \<and> c \<le> 102 then Some (c - 87) else None)"

definition pctByte :: "units \<Rightarrow> (nat \<times> units) option" where
  "pctByte s =
     (case s of
        p # a # b # r \<Rightarrow>
          (if p = 37 then (case (hexDigit a, hexDigit b) of (Some x, Some y) \<Rightarrow> Some (16 * x + y, r) | _ \<Rightarrow> None) else None)
      | _ \<Rightarrow> None)"

fun contBytes :: "nat \<Rightarrow> units \<Rightarrow> (nat list \<times> units) option" where
  "contBytes 0 s = Some ([], s)"
| "contBytes (Suc n) s =
     (case pctByte s of
        Some (b, r) \<Rightarrow> if 128 \<le> b \<and> b \<le> 191 then map_option (\<lambda>(bs, r'). (b # bs, r')) (contBytes n r) else None
      | None \<Rightarrow> None)"

definition utf8Lead :: "nat \<Rightarrow> (nat \<times> nat) option" where
  "utf8Lead b =
     (if 192 \<le> b \<and> b < 224 then Some (1, b - 192) else if 224 \<le> b \<and> b < 240 then Some (2, b - 224)
      else if 240 \<le> b \<and> b < 248 then Some (3, b - 240) else None)"

definition codePoint :: "nat \<Rightarrow> nat list \<Rightarrow> nat" where
  "codePoint b bs = foldl (\<lambda>a x. a * 64 + (x - 128)) b bs"

definition validPoint :: "nat \<Rightarrow> nat \<Rightarrow> bool" where
  "validPoint n cp =
     (if n = 1 then 128 \<le> cp else if n = 2 then 2048 \<le> cp \<and> \<not> (55296 \<le> cp \<and> cp \<le> 57343) else 65536 \<le> cp \<and> cp \<le> 1114111)"

definition utf16 :: "nat \<Rightarrow> units" where
  "utf16 cp = (if cp < 65536 then [cp] else [55296 + (cp - 65536) div 1024, 56320 + (cp - 65536) mod 1024])"

definition pctChar :: "units \<Rightarrow> (units \<times> units) option" where
  "pctChar s =
     (case pctByte s of
        None \<Rightarrow> None
      | Some (b, r) \<Rightarrow>
          (if b < 128 then Some ([b], r)
           else
             (case utf8Lead b of
                None \<Rightarrow> None
              | Some (n, x) \<Rightarrow>
                  (case contBytes n r of
                     None \<Rightarrow> None
                   | Some (bs, r') \<Rightarrow>
                       (let cp = codePoint x bs in if validPoint n cp then Some (utf16 cp, r') else None)))))"

lemma pctByte_shorter: "pctByte s = Some (b, r) \<Longrightarrow> length r < length s"
  by (auto simp: pctByte_def split: list.splits option.splits if_splits)

lemma contBytes_shorter: "contBytes n s = Some (bs, r) \<Longrightarrow> length r \<le> length s"
  by (induction n arbitrary: s bs) (fastforce split: option.splits if_splits dest: pctByte_shorter)+

lemma pctChar_shorter: "pctChar s = Some (u, r) \<Longrightarrow> length r < length s"
  unfolding pctChar_def Let_def
  by (auto split: option.splits if_splits prod.splits dest!: pctByte_shorter contBytes_shorter)

function decodeURIComponent :: "units \<Rightarrow> units option" where
  "decodeURIComponent [] = Some []"
| "decodeURIComponent (c # s) =
     (if c = 37 then (case pctChar (c # s) of None \<Rightarrow> None | Some (u, r) \<Rightarrow> map_option ((@) u) (decodeURIComponent r))
      else map_option ((#) c) (decodeURIComponent s))"
  by pat_completeness auto
termination by (relation "measure length") (auto dest: pctChar_shorter)

subsection \<open>Paths\<close>

definition isSlash :: "nat \<Rightarrow> bool" where
  "isSlash c = (c = 47 \<or> c = 92)"

fun splitBy :: "('a \<Rightarrow> bool) \<Rightarrow> 'a list \<Rightarrow> 'a list list" where
  "splitBy f [] = [[]]"
| "splitBy f (c # s) = (if f c then [] # splitBy f s else (case splitBy f s of [] \<Rightarrow> [[c]] | p # ps \<Rightarrow> (c # p) # ps))"

definition dotSegment :: "units \<Rightarrow> bool" where
  "dotSegment seg = (seg = [46, 46] \<or> seg = [46])"

fun parentLoop :: "nat \<Rightarrow> units \<Rightarrow> bool" where
  "parentLoop 0 cur = True"
| "parentLoop (Suc n) cur =
     (case decodeURIComponent cur of
        None \<Rightarrow> True
      | Some d \<Rightarrow>
          (if list_ex dotSegment (splitBy isSlash d) then True
           else if d = cur then False
           else parentLoop n d))"

definition resolvesToParentSegment :: "string \<Rightarrow> bool" where
  "resolvesToParentSegment pathname = parentLoop 4 (units pathname)"

definition underPrefix :: "string \<Rightarrow> string \<Rightarrow> bool" where
  "underPrefix pathname pre =
     (if ends_with ''/'' pre then starts_with pre pathname else pathname = pre \<or> starts_with (pre @ ''/'') pathname)"

definition prefixesOf :: "string list option \<Rightarrow> string list" where
  "prefixesOf pres = (case pres of Some (p # ps) \<Rightarrow> p # ps | _ \<Rightarrow> [''/''])"

definition brokerPathAllowed :: "string \<Rightarrow> string list option \<Rightarrow> bool" where
  "brokerPathAllowed pathname pres =
     (if resolvesToParentSegment pathname then False else list_ex (underPrefix pathname) (prefixesOf pres))"

definition brokerHostMatches :: "string \<Rightarrow> string \<Rightarrow> bool" where
  "brokerHostMatches requestHost pinnedHost =
     (let h = to_lower requestHost; p = to_lower pinnedHost in h = p \<or> ends_with (CHR ''.'' # p) h)"

subsection \<open>The credential\<close>

record service_secret =
  ss_slug :: string
  ss_name :: string
  ss_secret :: string
  ss_env :: bool
  ss_envKey :: "string option"
  ss_host :: string
  ss_injection :: "json option"
  ss_allowedMethods :: "string list option"
  ss_allowedPathPrefixes :: "string list option"
  ss_enabled :: bool



definition endsInSpace :: "string \<Rightarrow> bool" where
  "endsInSpace s = (s \<noteq> [] \<and> is_space (last s))"

definition brokerCredentialAuthHeader :: "service_secret \<Rightarrow> string \<times> string" where
  "brokerCredentialAuthHeader rec =
     (let injHeader = (case Option.bind (ss_injection rec) (\<lambda>j. nonemptyField j ''header'') of Some h \<Rightarrow> h | None \<Rightarrow> ''Authorization'');
          rawScheme = (case Option.bind (ss_injection rec) (\<lambda>j. strField j ''scheme'') of Some s \<Rightarrow> s | None \<Rightarrow> ''Bearer '');
          injScheme = (if rawScheme \<noteq> [] \<and> \<not> endsInSpace rawScheme then rawScheme @ '' '' else rawScheme)
      in (injHeader, injScheme @ ss_secret rec))"

subsection \<open>A brokered call\<close>

record parsed_url =
  pu_protocol :: string
  pu_hostname :: string
  pu_pathname :: string
  pu_search :: string
  pu_href :: string

record url_lib =
  ul_parse :: "string \<Rightarrow> parsed_url option"
  ul_setSearch :: "string \<Rightarrow> parsed_url \<Rightarrow> parsed_url"

datatype upstream_answer = Unreachable | BrokenBody nat | Answered nat "string option" string

datatype usage_status = UsageDenied | UsageError | UsageOk

datatype broker_event =
    Fetched string string "(string \<times> string) list" "string option"
  | UsageRecorded string string usage_status "nat option" string string
  | Audited string string string string string "string option"

definition ALLOWED_CALLER_HEADERS :: "string list" where
  "ALLOWED_CALLER_HEADERS = [''accept'', ''accept-language'', ''content-type'', ''user-agent'']"

definition MAX_RESPONSE_BYTES :: nat where "MAX_RESPONSE_BYTES = 5000000"

definition textAt :: "json \<Rightarrow> string \<Rightarrow> string" where
  "textAt j k = (case strField j k of Some s \<Rightarrow> s | None \<Rightarrow> [])"

text \<open>The records of a refusal, of a call that failed and of one that was answered; \<open>kind\<close> is \<open>credential.broker\<close> or \<open>credential.git\<close>.\<close>

definition denied :: "json \<Rightarrow> string \<Rightarrow> string \<Rightarrow> string \<Rightarrow> string \<Rightarrow> broker_event list" where
  "denied claims kind slug host code =
     [UsageRecorded slug host UsageDenied None (textAt claims ''scopeId'') (textAt claims ''actorId''),
      Audited (textAt claims ''actorId'') (kind @ ''.denied'') (if slug = [] then ''(none)'' else slug) (textAt claims ''scopeId'') ''denied''
        (Some code)]"

definition failedCall :: "json \<Rightarrow> string \<Rightarrow> string \<Rightarrow> string \<Rightarrow> broker_event list" where
  "failedCall claims kind slug host =
     [UsageRecorded slug host UsageError None (textAt claims ''scopeId'') (textAt claims ''actorId''),
      Audited (textAt claims ''actorId'') (kind @ ''.error'') slug (textAt claims ''scopeId'') ''error'' None]"

definition answeredCall :: "json \<Rightarrow> string \<Rightarrow> string \<Rightarrow> string \<Rightarrow> nat \<Rightarrow> broker_event list" where
  "answeredCall claims kind slug host status =
     [UsageRecorded slug host UsageOk (Some status) (textAt claims ''scopeId'') (textAt claims ''actorId''),
      Audited (textAt claims ''actorId'') (kind @ ''.use'') slug (textAt claims ''scopeId'') ''ok'' None]"

definition errorJson :: "string \<Rightarrow> string \<Rightarrow> json" where
  "errorJson code message = JObj [(''error'', JStr code), (''message'', JStr message)]"

definition deny :: "json \<Rightarrow> string \<Rightarrow> string \<Rightarrow> nat \<Rightarrow> string \<Rightarrow> string \<Rightarrow> string \<Rightarrow> (nat \<times> json) option \<times> broker_event list" where
  "deny claims kind slug status code message host = (Some (status, errorJson code message), denied claims kind slug host code)"

definition callerHeaders :: "json \<Rightarrow> (string \<times> string) list" where
  "callerHeaders body =
     (case jfield body ''headers'' of
        Some (JObj fs) \<Rightarrow>
          fold (\<lambda>(k, v) hs. case v of JStr x \<Rightarrow> (if to_lower k \<in> set ALLOWED_CALLER_HEADERS then jm_set k x hs else hs) | _ \<Rightarrow> hs) fs []
      | _ \<Rightarrow> [])"

definition entitledTo :: "json \<Rightarrow> string \<Rightarrow> bool" where
  "entitledTo claims slug = (case jfield claims ''credentials'' of Some (JArr xs) \<Rightarrow> JStr slug \<in> set xs | _ \<Rightarrow> False)"

definition methodsOf :: "service_secret \<Rightarrow> string list" where
  "methodsOf rec = map to_upper (case ss_allowedMethods rec of Some (m # ms) \<Rightarrow> m # ms | _ \<Rightarrow> [''GET''])"

definition upstreamJson :: "nat \<Rightarrow> string option \<Rightarrow> string \<Rightarrow> json" where
  "upstreamJson status ctype body =
     JObj ([(''status'', JNum (show_nat status))] @ (if truthy ctype then [(''contentType'', JStr (the ctype))] else []) @
       [(''body'', JStr (take MAX_RESPONSE_BYTES body))] @ (if length body > MAX_RESPONSE_BYTES then [(''truncated'', JBool True)] else []))"

text \<open>The check of a target, from the parsed URL on: what is refused, or nothing.\<close>

definition targetRefused :: "service_secret \<Rightarrow> string \<Rightarrow> parsed_url \<Rightarrow> (string \<times> string) option" where
  "targetRefused rec method u =
     (if pu_protocol u \<noteq> ''https:'' then Some (''scheme_not_allowed'', ''only https targets are allowed'')
      else if \<not> brokerHostMatches (pu_hostname u) (ss_host rec)
      then Some (''host_not_allowed'', ''url host is not the credential's pinned host'')
      else if method \<notin> set (methodsOf rec)
      then Some (''method_not_allowed'', ''method '' @ method @ '' is not allowed for this credential'')
      else if \<not> brokerPathAllowed (pu_pathname u) (ss_allowedPathPrefixes rec)
      then Some (''path_not_allowed'', ''url path is not in the credential's allowlist'')
      else None)"

text \<open>From the request that carries the secret on.\<close>

definition brokerFetch ::
  "json \<Rightarrow> json \<Rightarrow> service_secret \<Rightarrow> string \<Rightarrow> string \<Rightarrow> parsed_url \<Rightarrow> upstream_answer \<Rightarrow> (nat \<times> json) option \<times> broker_event list"
where
  "brokerFetch claims body rec slug method u answer =
     (let (h, v) = brokerCredentialAuthHeader rec;
          fetch = Fetched (pu_href u) method (jm_set h v (callerHeaders body)) (strField body ''body'')
      in case answer of
           Unreachable \<Rightarrow>
             (Some (502, errorJson ''upstream_unreachable'' ''the credential's host could not be reached''),
              fetch # failedCall claims ''credential.broker'' slug (ss_host rec))
         | BrokenBody status \<Rightarrow> (None, [fetch])
         | Answered status ctype reply \<Rightarrow>
             (Some (200, upstreamJson status ctype reply),
              fetch # answeredCall claims ''credential.broker'' slug (ss_host rec) status))"

text \<open>\<open>None\<close> as a result: the call throws.\<close>

definition brokerCredentialCall ::
  "url_lib \<Rightarrow> (string \<Rightarrow> (kc_error + service_secret) option) \<Rightarrow> upstream_answer \<Rightarrow> json \<Rightarrow> json \<Rightarrow> (nat \<times> json) option \<times> broker_event list"
where
  "brokerCredentialCall ul reader answer claims body =
     (if body = JNull then (None, [])
      else
        (let slug = textAt body ''credential''; rawUrl = textAt body ''url'';
             method = to_upper (case strField body ''method'' of Some m \<Rightarrow> m | None \<Rightarrow> ''GET'');
             refuse = deny claims ''credential.broker'' slug
         in if slug = [] \<or> rawUrl = []
            then (Some (400, errorJson ''bad_request'' ''credential (slug) and url are required''), [])
            else if \<not> entitledTo claims slug then refuse 403 ''not_entitled'' ''this session is not entitled to that credential'' []
            else
              (case reader slug of
                 Some (Inl e) \<Rightarrow> (None, [])
               | None \<Rightarrow> refuse 404 ''credential_unavailable'' ''credential not found or disabled'' []
               | Some (Inr rec) \<Rightarrow>
                   (if \<not> ss_enabled rec \<or> ss_env rec
                    then refuse 404 ''credential_unavailable'' ''credential not found or disabled'' (ss_host rec)
                    else
                      (case ul_parse ul rawUrl of
                         None \<Rightarrow> refuse 400 ''bad_url'' ''url is not a valid absolute URL'' (ss_host rec)
                       | Some u \<Rightarrow>
                           (case targetRefused rec method u of
                              Some (code, message) \<Rightarrow> refuse 403 code message (ss_host rec)
                            | None \<Rightarrow> brokerFetch claims body rec slug method u answer))))))"

subsection \<open>The gate\<close>

text \<open>The way of a request through \<open>gate\<close> to a route with an audience; \<open>svc\<close> is the identity service as refreshed.\<close>

record gate_env =
  ge_tokens :: token_lib
  ge_secrets :: "string list"
  ge_org :: string
  ge_svc :: identity_service
  ge_projects :: project_store
  ge_scopes :: scope_deps

definition capabilityScope :: "json \<Rightarrow> capability_scope" where
  "capabilityScope claims =
     \<lparr>cs_actorId = textAt claims ''actorId'', cs_scopeId = textAt claims ''scopeId'', cs_scopeVersion = nonemptyField claims ''scopeVersion''\<rparr>"

definition gateClaims :: "gate_env \<Rightarrow> string \<Rightarrow> string option \<Rightarrow> millis \<Rightarrow> (nat \<times> json) + json" where
  "gateClaims ge aud token now =
     (if \<not> truthy token then Inl (401, errorJson ''unauthorized'' (aud @ '' capability token required''))
      else
        (case verifyCapabilityToken (ge_tokens ge) (the token) (ge_secrets ge) now of
           None \<Rightarrow> Inl (401, errorJson ''unauthorized'' ''invalid or expired capability token'')
         | Some claims \<Rightarrow>
             (if p_type (classify (ge_svc ge) (textAt claims ''actorId'') False) \<noteq> Internal
              then Inl (401, errorJson ''unauthorized'' ''principal is no longer active'')
              else if \<not> authorizesCapabilityScope (ge_scopes ge) (ge_org ge) (ge_projects ge) (capabilityScope claims)
              then Inl (403, errorJson ''forbidden'' ''capability scope membership has been revoked'')
              else if jfield claims ''aud'' \<noteq> Some (JStr aud)
              then Inl (403, errorJson ''forbidden'' (''this route requires a capability token with audience \"'' @ aud @ ''\"''))
              else Inr claims)))"

definition CREDENTIAL_BROKER_AUD :: string where "CREDENTIAL_BROKER_AUD = ''credential-broker''"

definition requestBody :: "string \<Rightarrow> json option" where
  "requestBody raw = (if raw = [] then Some (JObj []) else jsonParse raw)"

text \<open>\<open>POST /v1/credentials/broker\<close>\<close>

definition brokerCredential ::
  "gate_env \<Rightarrow> url_lib \<Rightarrow> (string \<Rightarrow> (kc_error + service_secret) option) \<Rightarrow> upstream_answer \<Rightarrow> string option \<Rightarrow> string \<Rightarrow> millis \<Rightarrow> (nat \<times> json) option \<times> broker_event list"
where
  "brokerCredential ge ul reader answer token raw now =
     (case gateClaims ge CREDENTIAL_BROKER_AUD token now of
        Inl refused \<Rightarrow> (Some refused, [])
      | Inr claims \<Rightarrow>
          (case requestBody raw of
             None \<Rightarrow> (Some (400, errorJson ''bad_request'' ''invalid JSON body''), [])
           | Some body \<Rightarrow> brokerCredentialCall ul reader answer claims body))"

subsection \<open>Git over the broker\<close>

definition GIT_HTTP_BROKER_PREFIX :: string where "GIT_HTTP_BROKER_PREFIX = ''/v1/credentials/git/''"

definition parseBrokerPath :: "string \<Rightarrow> (string \<times> string) option" where
  "parseBrokerPath pathname =
     (if \<not> starts_with GIT_HTTP_BROKER_PREFIX pathname then None
      else
        (let rest = drop (length GIT_HTTP_BROKER_PREFIX) pathname in
         case index_of (CHR ''/'') rest of
           None \<Rightarrow> None
         | Some slash \<Rightarrow>
             (if slash = 0 then None
              else
                (case decodeURIComponent (units (take slash rest)) of
                   None \<Rightarrow> None
                 | Some us \<Rightarrow>
                     (let slug = map char_of us; upstreamPath = CHR ''/'' # drop (Suc slash) rest in
                      if \<not> list_all (\<lambda>u. u < 256) us \<or> \<not> isValidCredentialSlug slug then None
                      else if upstreamPath = ''/'' \<or> nul_char \<in> set upstreamPath then None
                      else Some (slug, upstreamPath))))))"

definition ALLOWED_GIT_HEADERS :: "string list" where
  "ALLOWED_GIT_HEADERS = [''accept'', ''content-length'', ''content-type'', ''git-protocol'', ''user-agent'']"

definition gitCallerHeaders :: "(string \<times> string) list \<Rightarrow> (string \<times> string) list" where
  "gitCallerHeaders hs =
     fold (\<lambda>(k, v) acc. let l = to_lower k in if l \<in> set ALLOWED_GIT_HEADERS then jm_set l v acc else acc) hs []"

definition gitUrlFor :: "url_lib \<Rightarrow> service_secret \<Rightarrow> string \<Rightarrow> string \<Rightarrow> parsed_url option" where
  "gitUrlFor ul rec upstreamPath search =
     map_option (ul_setSearch ul search) (ul_parse ul (''https://'' @ ss_host rec @ upstreamPath))"

text \<open>What the route answers: a JSON body, the upstream's answer passed through, or nothing because it throws.\<close>

datatype git_reply = GitJson nat json | GitPassed nat | GitThrown

definition gitFetch ::
  "json \<Rightarrow> (string \<times> string) list \<Rightarrow> string \<Rightarrow> service_secret \<Rightarrow> string \<Rightarrow> string \<Rightarrow> parsed_url \<Rightarrow> nat option \<Rightarrow> git_reply \<times> broker_event list"
where
  "gitFetch claims hs raw rec slug method u answer =
     (let (h, v) = brokerCredentialAuthHeader rec;
          fetch = Fetched (pu_href u) method (jm_set h v (gitCallerHeaders hs)) (if method = ''POST'' then Some raw else None)
      in case answer of
           None \<Rightarrow>
             (GitJson 502 (errorJson ''upstream_unreachable'' ''the credential's host could not be reached''),
              fetch # failedCall claims ''credential.git'' slug (ss_host rec))
         | Some status \<Rightarrow> (GitPassed status, fetch # answeredCall claims ''credential.git'' slug (ss_host rec) status))"

definition gitClaims :: "gate_env \<Rightarrow> string option \<Rightarrow> millis \<Rightarrow> (nat \<times> json) + json" where
  "gitClaims ge token now =
     (case (if truthy token then verifyCapabilityToken (ge_tokens ge) (the token) (ge_secrets ge) now else None) of
        None \<Rightarrow> Inl (401, errorJson ''unauthorized'' ''credential-broker capability token required'')
      | Some claims \<Rightarrow>
          (if p_type (classify (ge_svc ge) (textAt claims ''actorId'') False) \<noteq> Internal
           then Inl (401, errorJson ''unauthorized'' ''principal is no longer active'')
           else if jfield claims ''aud'' \<noteq> Some (JStr CREDENTIAL_BROKER_AUD)
           then Inl (403, errorJson ''forbidden'' ''git credential broker requires a credential-broker capability token'')
           else if \<not> authorizesCapabilityScope (ge_scopes ge) (ge_org ge) (ge_projects ge) (capabilityScope claims)
           then Inl (403, errorJson ''forbidden'' ''capability scope membership has been revoked'')
           else Inr claims))"

definition gitDeny :: "json \<Rightarrow> string \<Rightarrow> nat \<Rightarrow> string \<Rightarrow> string \<Rightarrow> string \<Rightarrow> git_reply \<times> broker_event list" where
  "gitDeny claims slug status code message host = (GitJson status (errorJson code message), denied claims ''credential.git'' slug host code)"

definition gitCall ::
  "url_lib \<Rightarrow> (string \<Rightarrow> (kc_error + service_secret) option) \<Rightarrow> nat option \<Rightarrow> json \<Rightarrow> string \<Rightarrow> string \<Rightarrow> string \<Rightarrow> string \<Rightarrow> (string \<times> string) list \<Rightarrow> string \<Rightarrow> git_reply \<times> broker_event list"
where
  "gitCall ul reader answer claims slug upstreamPath method search hs raw =
     (let refuse = gitDeny claims slug in
      if \<not> entitledTo claims slug then refuse 403 ''not_entitled'' ''this session is not entitled to that credential'' []
      else
        (case reader slug of
           Some (Inl e) \<Rightarrow> (GitThrown, [])
         | None \<Rightarrow> refuse 404 ''credential_unavailable'' ''credential not found or disabled'' []
         | Some (Inr rec) \<Rightarrow>
             (if \<not> ss_enabled rec \<or> ss_env rec
              then refuse 404 ''credential_unavailable'' ''credential not found or disabled'' (ss_host rec)
              else if method \<notin> set (methodsOf rec)
              then refuse 403 ''method_not_allowed'' (''method '' @ method @ '' is not allowed for this credential'') (ss_host rec)
              else
                (case gitUrlFor ul rec upstreamPath search of
                   None \<Rightarrow> (GitThrown, [])
                 | Some u \<Rightarrow>
                     (if \<not> brokerPathAllowed (pu_pathname u) (ss_allowedPathPrefixes rec)
                      then refuse 403 ''path_not_allowed'' ''url path is not in the credential's allowlist'' (ss_host rec)
                      else gitFetch claims hs raw rec slug method u answer)))))"

definition brokerGitHttp ::
  "gate_env \<Rightarrow> url_lib \<Rightarrow> (string \<Rightarrow> (kc_error + service_secret) option) \<Rightarrow> nat option \<Rightarrow> string \<Rightarrow> string \<Rightarrow> string \<Rightarrow> (string \<times> string) list \<Rightarrow> string option \<Rightarrow> string \<Rightarrow> millis \<Rightarrow> git_reply \<times> broker_event list"
where
  "brokerGitHttp ge ul reader answer verb pathname search hs token raw now =
     (case parseBrokerPath pathname of
        None \<Rightarrow> (GitJson 404 (JObj [(''error'', JStr ''not_found'')]), [])
      | Some (slug, upstreamPath) \<Rightarrow>
          (let method = to_upper verb in
           if method \<noteq> ''GET'' \<and> method \<noteq> ''POST''
           then (GitJson 405 (errorJson ''method_not_allowed'' ''git smart HTTP supports GET and POST''), [])
           else
             (case gitClaims ge token now of
                Inl (status, j) \<Rightarrow> (GitJson status j, [])
              | Inr claims \<Rightarrow> gitCall ul reader answer claims slug upstreamPath method search hs raw)))"

subsection \<open>Whatever the other side makes of an allowed path\<close>














subsection \<open>Where a secret may go\<close>






lemma no_fetch [simp]: "Fetched url m h b \<notin> set (denied claims k slug host code)" "Fetched url m h b \<notin> set (failedCall claims k slug host)"
    "Fetched url m h b \<notin> set (answeredCall claims k slug host st)"
  by (simp_all add: denied_def failedCall_def answeredCall_def)




lemma deny_events [simp]: "Fetched url m h b \<notin> set (snd (deny claims kind slug st code msg host))"
    "Fetched url m h b \<notin> set (snd (gitDeny claims slug st code msg host))"
  by (simp_all add: deny_def gitDeny_def)





text \<open>Everything but the headers of the request: what the caller and the records get to see.\<close>

fun unheaded :: "broker_event \<Rightarrow> broker_event" where
  "unheaded (Fetched url m hs b) = Fetched url m [] b"
| "unheaded e = e"

definition withSecret :: "string \<Rightarrow> (string \<Rightarrow> (kc_error + service_secret) option) \<Rightarrow> string \<Rightarrow> (kc_error + service_secret) option" where
  "withSecret x reader slug = map_option (map_sum id (ss_secret_update (\<lambda>_. x))) (reader slug)"

lemma secret_update [simp]: "methodsOf (rec\<lparr>ss_secret := x\<rparr>) = methodsOf rec"
  by (simp add: methodsOf_def)

lemma targetRefused_secret [simp]: "targetRefused (rec\<lparr>ss_secret := x\<rparr>) method u = targetRefused rec method u"
  by (simp add: targetRefused_def)

lemma unheaded_records [simp]: "map unheaded (denied claims k slug host code) = denied claims k slug host code"
    "map unheaded (failedCall claims k slug host) = failedCall claims k slug host"
    "map unheaded (answeredCall claims k slug host st) = answeredCall claims k slug host st"
  by (simp_all add: denied_def failedCall_def answeredCall_def)

lemma brokerFetch_secret:
  "fst (brokerFetch claims body (rec\<lparr>ss_secret := x\<rparr>) slug method u answer) = fst (brokerFetch claims body rec slug method u answer)"
  "map unheaded (snd (brokerFetch claims body (rec\<lparr>ss_secret := x\<rparr>) slug method u answer)) =
     map unheaded (snd (brokerFetch claims body rec slug method u answer))"
  by (cases answer; simp add: brokerFetch_def Let_def case_prod_unfold)+

lemma brokerCall_secret:
  "fst (brokerCredentialCall ul (withSecret x reader) answer claims body) = fst (brokerCredentialCall ul reader answer claims body) \<and>
   map unheaded (snd (brokerCredentialCall ul (withSecret x reader) answer claims body)) =
     map unheaded (snd (brokerCredentialCall ul reader answer claims body))"
  unfolding brokerCredentialCall_def Let_def withSecret_def
  by (cases "reader (textAt body ''credential'')")
    (simp_all add: brokerFetch_secret split: sum.split option.split)

lemma gitFetch_secret:
  "fst (gitFetch claims hs raw (rec\<lparr>ss_secret := x\<rparr>) slug method u answer) = fst (gitFetch claims hs raw rec slug method u answer)"
  "map unheaded (snd (gitFetch claims hs raw (rec\<lparr>ss_secret := x\<rparr>) slug method u answer)) =
     map unheaded (snd (gitFetch claims hs raw rec slug method u answer))"
  by (cases answer; simp add: gitFetch_def Let_def case_prod_unfold)+

lemma gitUrlFor_secret [simp]: "gitUrlFor ul (rec\<lparr>ss_secret := x\<rparr>) path search = gitUrlFor ul rec path search"
  by (simp add: gitUrlFor_def)

lemma gitCall_secret:
  "fst (gitCall ul (withSecret x reader) answer claims slug path method search hs raw) =
     fst (gitCall ul reader answer claims slug path method search hs raw) \<and>
   map unheaded (snd (gitCall ul (withSecret x reader) answer claims slug path method search hs raw)) =
     map unheaded (snd (gitCall ul reader answer claims slug path method search hs raw))"
  unfolding gitCall_def Let_def withSecret_def
  by (cases "reader slug") (simp_all add: gitFetch_secret split: sum.split option.split)

text \<open>
  C36. The secret reaches nobody but the upstream: whatever it is, over either route the answer to the caller, the records of usage and
  audit, and the request but for its headers are the same.\<close>

theorem secret_is_not_seen_by_caller:
  "fst (brokerCredential ge ul (withSecret x reader) answer token raw now) = fst (brokerCredential ge ul reader answer token raw now) \<and>
   map unheaded (snd (brokerCredential ge ul (withSecret x reader) answer token raw now)) =
     map unheaded (snd (brokerCredential ge ul reader answer token raw now)) \<and>
   fst (brokerGitHttp ge ul (withSecret x reader) answered verb pathname search rhs token raw now) =
     fst (brokerGitHttp ge ul reader answered verb pathname search rhs token raw now) \<and>
   map unheaded (snd (brokerGitHttp ge ul (withSecret x reader) answered verb pathname search rhs token raw now)) =
     map unheaded (snd (brokerGitHttp ge ul reader answered verb pathname search rhs token raw now))"
  unfolding brokerCredential_def brokerGitHttp_def Let_def
  by (simp add: brokerCall_secret gitCall_secret split: sum.split option.split prod.split)



subsection \<open>An example\<close>















end
