(* ===== verification/Trigger.thy ===== *)
theory Trigger
  imports Guards Delivery Reach Membership Cron
begin

section \<open>Triggers\<close>

text \<open>
  Models \<open>src/src/triggers/run-trigger.ts\<close>: what a cron or a monitor that fires does. The idempotency store, the deliveries, the identity
  service and the membership checks are the models of this library. The turn itself is an argument: what \<open>run\<close> answers, or the error it
  throws; the requests made to it are kept in a list. Clock values and fresh identifiers are arguments. A trigger runs from start to end
  here; its calls to the idempotency store are those of \<open>Guards\<close>.
\<close>

record turn_result =
  tr_status :: string
  tr_reply :: "string option"
  tr_attachments :: "json list option"
  tr_reason :: "string option"
  tr_sessionId :: "string option"

datatype run_as = AsOwner | ScopeFloor | ScopeShared

datatype trigger_conversation =
    DmOf string
  | ChannelOf string string "(string \<times> string list option) list option"
  | GroupOf string string "(string \<times> string list option) list option"

record trigger_turn =
  tt_surface :: string
  tt_actorId :: string
  tt_conversation :: trigger_conversation
  tt_text :: string
  tt_securityScreenData :: "string option"
  tt_thinkingLevel :: string
  tt_readOnly :: bool
  tt_turnWallClockMs :: "int option"
  tt_destination :: "destination option"
  tt_surfaceTools :: bool
  tt_ownerKeychainUnion :: bool
  tt_idempotencyKey :: string

record trigger_spec =
  sp_owner :: string
  sp_ownerScopeId :: scope_id
  sp_input :: string
  sp_securityScreenData :: "string option"
  sp_fireKey :: string
  sp_surface :: string
  sp_destination :: "destination option"
  sp_message :: "string option"
  sp_threadRef :: "string option"
  sp_runAs :: run_as
  sp_members :: "principal list option"
  sp_recipientConsent :: "recipient_consent option"
  sp_recipientConsentRequired :: bool
  sp_shadow :: bool
  sp_thinkingLevel :: "string option"
  sp_readOnly :: bool
  sp_turnWallClockMs :: "int option"
  sp_errorNotice :: "(string \<Rightarrow> string) option"

record trigger_directory =
  tdir_visibility :: visibility_directory
  tdir_displayName :: "string \<Rightarrow> string option"
  tdir_channelPrivacy :: "string \<Rightarrow> bool option"

text \<open>\<open>td_members\<close>: \<open>currentScopeMembers\<close>, which may be absent, throw, or know nothing of the scope.\<close>

record trigger_deps =
  td_identity :: identity_service
  td_members :: "(scope_id \<Rightarrow> principal list option option) option"
  td_directory :: "trigger_directory option"

record trigger_sys =
  ts_idem :: idem_state
  ts_deliveries :: delivery_store
  ts_turns :: "trigger_turn list"
  ts_enqueued :: "delivery_input list"

text \<open>\<open>ts_turns\<close> and \<open>ts_enqueued\<close>: the turns asked for and the messages handed to the delivery store so far.\<close>

definition isTriggerFailure :: "trigger_outcome \<Rightarrow> bool" where
  "isTriggerFailure r = (to_ran r \<and> to_status r \<noteq> None \<and> to_status r \<noteq> Some ''ok'' \<and> to_status r \<noteq> Some ''silent'')"

definition deliveryProvenance :: "trigger_spec \<Rightarrow> string \<Rightarrow> turn_result option \<Rightarrow> provenance" where
  "deliveryProvenance sp threadRef res =
     \<lparr>pv_fireKey = sp_fireKey sp, pv_sourceThreadRef = threadRef,
      pv_sourceSessionId = (case res of Some r \<Rightarrow> if truthy (tr_sessionId r) then tr_sessionId r else None | None \<Rightarrow> None)\<rparr>"

definition relayAttribution :: "trigger_deps \<Rightarrow> trigger_spec \<Rightarrow> string option" where
  "relayAttribution deps sp =
     (if sp_message sp = None then None else Option.bind (td_directory deps) (\<lambda>d. tdir_displayName d (sp_owner sp)))"

definition actorMayReadScope :: "trigger_deps \<Rightarrow> string \<Rightarrow> scope_kind option \<Rightarrow> string \<Rightarrow> bool" where
  "actorMayReadScope deps actorId kind ref =
     (if ref = [] then False
      else if kind = Some Personal then samePerson (Some actorId) (Some ref)
      else case td_directory deps of
             None \<Rightarrow> kind \<noteq> Some Group \<and> kind \<noteq> Some Channel
           | Some dir \<Rightarrow>
               (if kind = Some Group then isVisible (tdir_visibility dir) actorId (VGroup ref)
                else if kind \<noteq> Some Channel then True
                else case tdir_channelPrivacy dir ref of
                       None \<Rightarrow> False
                     | Some isPrivate \<Rightarrow> isVisible (tdir_visibility dir) actorId (VChannel ref (Some isPrivate))))"

definition destinationVisible :: "trigger_deps \<Rightarrow> string \<Rightarrow> destination \<Rightarrow> bool" where
  "destinationVisible deps actorId d =
     (case td_directory deps of
        None \<Rightarrow> True
      | Some dir \<Rightarrow>
          (let i = hd (split_on (CHR '':'') (d_target d)); v = tdir_visibility dir in
           if d_type d = ''slack''
           then (case d_audienceScopeId d of
                   None \<Rightarrow> isVisible v actorId (VChannel i None)
                 | Some scope \<Rightarrow>
                     (if scope = [] then isVisible v actorId (VChannel i None)
                      else case parseScopeId scope of
                             (Some Personal, ref) \<Rightarrow> isVisible v actorId (VDm ref)
                           | (Some Group, ref) \<Rightarrow> isVisible v actorId (VGroup i)
                           | _ \<Rightarrow> isVisible v actorId (VChannel i None)))
           else if d_type d = ''group'' then isVisible v actorId (VGroup i)
           else True))"

subsection \<open>On whose behalf\<close>

definition internal :: "trigger_deps \<Rightarrow> string \<Rightarrow> bool" where
  "internal deps i = (p_type (classify (td_identity deps) i False) = Internal)"

definition isInternalMember :: "trigger_deps \<Rightarrow> principal \<Rightarrow> bool" where
  "isInternalMember deps m = (p_type m = Internal \<and> internal deps (p_id m))"

definition memberIs :: "string \<Rightarrow> principal \<Rightarrow> bool" where
  "memberIs i m = samePerson (Some (p_id m)) (Some i)"

definition chooseActor :: "trigger_deps \<Rightarrow> trigger_spec \<Rightarrow> principal list option \<Rightarrow> string + string" where
  "chooseActor deps sp current =
     (let members = (case current of Some ms \<Rightarrow> ms | None \<Rightarrow> (case sp_members sp of Some ms \<Rightarrow> ms | None \<Rightarrow> [])) in
      if sp_runAs sp = ScopeFloor
      then (case filter (isInternalMember deps) members of
              [] \<Rightarrow> Inl ''scopeFloor cron has no internal members left''
            | m # ms \<Rightarrow> Inr (if list_ex (memberIs (sp_owner sp)) (m # ms) then sp_owner sp else p_id m))
      else if \<not> internal deps (sp_owner sp) then Inl ''owner is no longer an internal principal''
      else if sp_runAs sp = ScopeShared \<and> current \<noteq> None \<and> \<not> list_ex (memberIs (sp_owner sp)) (the current)
      then Inl ''scopeShared owner is no longer a current scope member''
      else Inr (sp_owner sp))"

definition threadRefOf :: "trigger_spec \<Rightarrow> string" where
  "threadRefOf sp = (case sp_threadRef sp of Some t \<Rightarrow> t | None \<Rightarrow> sp_fireKey sp)"

definition conversationOf :: "trigger_spec \<Rightarrow> principal list option \<Rightarrow> trigger_conversation" where
  "conversationOf sp current =
     (let members = (case current of Some ms \<Rightarrow> ms | None \<Rightarrow> (case sp_members sp of Some ms \<Rightarrow> ms | None \<Rightarrow> []));
          audience = (if sp_runAs sp \<noteq> AsOwner \<and> members \<noteq> [] then Some (map (\<lambda>m. (p_id m, p_teamIds m)) members) else None)
      in case parseScopeId (sp_ownerScopeId sp) of
           (Some Channel, ref) \<Rightarrow> ChannelOf ref (threadRefOf sp) audience
         | (Some Group, ref) \<Rightarrow> GroupOf ref (threadRefOf sp) audience
         | _ \<Rightarrow> DmOf (threadRefOf sp))"

subsection \<open>Where to\<close>

definition deliverable :: "trigger_deps \<Rightarrow> trigger_spec \<Rightarrow> string \<Rightarrow> bool" where
  "deliverable deps sp actorId = (case sp_destination sp of Some d \<Rightarrow> destinationVisible deps actorId d | None \<Rightarrow> True)"

definition consented :: "trigger_spec \<Rightarrow> bool" where
  "consented sp =
     recipientConsentSatisfied (sp_recipientConsent sp)
       (consentRequiredRecipient (sp_owner sp) (sp_recipientConsentRequired sp) (sp_destination sp))"

definition consentNote :: "trigger_spec \<Rightarrow> string" where
  "consentNote sp =
     (if map_option rcn_status (sp_recipientConsent sp) = Some ConsentDeclined
      then ''recipient turned this delivery off '' @ [dash_char] @ '' skipped''
      else ''awaiting the recipient's consent '' @ [dash_char] @ '' delivery skipped'')"

definition notVisibleNote :: string where
  "notVisibleNote = ''destination is no longer visible to the cron owner '' @ [dash_char] @ '' delivery skipped''"

definition liveDelivery :: "trigger_deps \<Rightarrow> trigger_spec \<Rightarrow> string \<Rightarrow> bool" where
  "liveDelivery deps sp actorId =
     (sp_surface sp = ''monitor'' \<and> sp_destination sp \<noteq> None \<and> consented sp \<and> deliverable deps sp actorId)"

definition canReadHome :: "trigger_deps \<Rightarrow> trigger_spec \<Rightarrow> principal list option \<Rightarrow> string \<Rightarrow> bool" where
  "canReadHome deps sp current actorId =
     (case current of
        None \<Rightarrow>
          td_directory deps = None \<or>
          (case parseScopeId (sp_ownerScopeId sp) of (kind, ref) \<Rightarrow> actorMayReadScope deps actorId kind ref)
      | Some ms \<Rightarrow> list_ex (memberIs actorId) ms)"

subsection \<open>What it does\<close>

record trigger_report =
  rep_status :: "string option"
  rep_note :: "string option"
  rep_reply :: "string option"
  rep_sessionId :: "string option"

definition report :: "string option \<Rightarrow> string option \<Rightarrow> trigger_report" where
  "report status note = \<lparr>rep_status = status, rep_note = note, rep_reply = None, rep_sessionId = None\<rparr>"

definition handDelivery :: "string \<Rightarrow> millis \<Rightarrow> delivery_input \<Rightarrow> trigger_sys \<Rightarrow> trigger_sys" where
  "handDelivery uuid t inp sys =
     sys\<lparr>ts_deliveries := snd (delivery_enqueue uuid t inp (ts_deliveries sys)), ts_enqueued := ts_enqueued sys @ [inp]\<rparr>"

definition relayInput :: "trigger_deps \<Rightarrow> trigger_spec \<Rightarrow> destination \<Rightarrow> string \<Rightarrow> reach_enqueue_input" where
  "relayInput deps sp d message =
     \<lparr>rq_destination = d, rq_text = message, rq_attachments = None, rq_idempotencyKey = sp_fireKey sp,
      rq_provenance = Some (deliveryProvenance sp (threadRefOf sp) None),
      rq_attributeAs = (if truthy (relayAttribution deps sp) then relayAttribution deps sp else None), rq_shadow = sp_shadow sp\<rparr>"

definition replyInput :: "trigger_spec \<Rightarrow> destination \<Rightarrow> turn_result \<Rightarrow> reach_enqueue_input" where
  "replyInput sp d res =
     \<lparr>rq_destination = d, rq_text = (case tr_reply res of Some r \<Rightarrow> r | None \<Rightarrow> []),
      rq_attachments = (case tr_attachments res of Some (a # as) \<Rightarrow> Some (a # as) | _ \<Rightarrow> None), rq_idempotencyKey = sp_fireKey sp,
      rq_provenance = Some (deliveryProvenance sp (threadRefOf sp) (Some res)), rq_attributeAs = None, rq_shadow = sp_shadow sp\<rparr>"

text \<open>A fixed message.\<close>

definition sendMessage ::
  "trigger_deps \<Rightarrow> trigger_spec \<Rightarrow> string \<Rightarrow> string \<Rightarrow> millis \<Rightarrow> string \<Rightarrow> trigger_sys \<Rightarrow> trigger_report \<times> trigger_sys"
where
  "sendMessage deps sp actorId uuid t message sys =
     (case sp_destination sp of
        None \<Rightarrow> (report (Some ''ok'') None, sys)
      | Some d \<Rightarrow>
          (if \<not> consented sp then (report (Some ''ok'') (Some (consentNote sp)), sys)
           else if \<not> deliverable deps sp actorId then (report (Some ''ok'') (Some notVisibleNote), sys)
           else (report (Some ''ok'') None, handDelivery uuid t (reachDelivery (relayInput deps sp d message)) sys)))"

definition turnOf :: "trigger_deps \<Rightarrow> trigger_spec \<Rightarrow> principal list option \<Rightarrow> string \<Rightarrow> trigger_turn" where
  "turnOf deps sp current actorId =
     \<lparr>tt_surface = sp_surface sp, tt_actorId = actorId, tt_conversation = conversationOf sp current, tt_text = sp_input sp,
      tt_securityScreenData = sp_securityScreenData sp,
      tt_thinkingLevel = (if truthy (sp_thinkingLevel sp) then the (sp_thinkingLevel sp) else ''xhigh''),
      tt_readOnly = sp_readOnly sp, tt_turnWallClockMs = sp_turnWallClockMs sp, tt_destination = sp_destination sp,
      tt_surfaceTools = liveDelivery deps sp actorId, tt_ownerKeychainUnion = (sp_runAs sp = ScopeShared),
      tt_idempotencyKey = sp_fireKey sp\<rparr>"

text \<open>What becomes of the answer of the turn.\<close>

definition takeAnswer ::
  "trigger_deps \<Rightarrow> trigger_spec \<Rightarrow> string \<Rightarrow> string \<Rightarrow> millis \<Rightarrow> turn_result \<Rightarrow> trigger_sys \<Rightarrow> trigger_report \<times> trigger_sys"
where
  "takeAnswer deps sp actorId uuid t res sys =
     (let rep = (\<lambda>note. \<lparr>rep_status = Some (tr_status res), rep_note = note, rep_reply = tr_reply res, rep_sessionId = tr_sessionId res\<rparr>) in
      if tr_status res = ''silent'' then (rep None, sys)
      else if tr_status res = ''pending_approval''
      then (rep (Some (''hit a require_approval command '' @ [dash_char] @ '' failed closed (no human at fire/event time)'')), sys)
      else if tr_status res = ''ok'' \<and> (truthy (tr_reply res) \<or> (case tr_attachments res of Some (a # as) \<Rightarrow> True | _ \<Rightarrow> False))
      then (case sp_destination sp of
              None \<Rightarrow> (rep None, sys)
            | Some d \<Rightarrow>
                (if liveDelivery deps sp actorId then (rep None, sys)
                 else if \<not> consented sp then (rep (Some (consentNote sp)), sys)
                 else if \<not> deliverable deps sp actorId then (rep (Some notVisibleNote), sys)
                 else (rep None, handDelivery uuid t (reachDelivery (replyInput sp d res)) sys)))
      else if tr_status res = ''ok'' then (rep (Some ''produced no reply''), sys)
      else (rep (Some (if truthy (tr_reason res) then tr_status res @ '': '' @ the (tr_reason res) else tr_status res)), sys))"

text \<open>The callback given to \<open>once\<close>.\<close>

definition triggerBody ::
  "trigger_deps \<Rightarrow> trigger_spec \<Rightarrow> principal list option \<Rightarrow> string \<Rightarrow> (trigger_turn \<Rightarrow> string + turn_result) \<Rightarrow> string \<Rightarrow> millis \<Rightarrow> trigger_sys \<Rightarrow>
     (string + trigger_report) \<times> trigger_sys"
where
  "triggerBody deps sp current actorId run uuid t sys =
     (case sp_message sp of
        Some message \<Rightarrow> (case sendMessage deps sp actorId uuid t message sys of (rep, sys') \<Rightarrow> (Inr rep, sys'))
      | None \<Rightarrow>
          (if \<not> canReadHome deps sp current actorId
           then (Inr (report None (Some (''the acting person is no longer a member of this trigger's home scope '' @ [dash_char] @ '' run skipped''))), sys)
           else
             (let turn = turnOf deps sp current actorId; asked = sys\<lparr>ts_turns := ts_turns sys @ [turn]\<rparr> in
              case run turn of
                Inl e \<Rightarrow> (Inl e, asked)
              | Inr res \<Rightarrow> (case takeAnswer deps sp actorId uuid t res asked of (rep, sys') \<Rightarrow> (Inr rep, sys')))))"

text \<open>\<open>once\<close> of the idempotency store, in one go: the check at \<open>t\<close>, the callback, the commit at \<open>t'\<close>.\<close>

record idem_times =
  im_retention :: millis
  im_interval :: millis

definition runOnce ::
  "idem_times \<Rightarrow> millis \<Rightarrow> millis \<Rightarrow> string \<Rightarrow> (trigger_sys \<Rightarrow> (string + 'r) \<times> trigger_sys) \<Rightarrow> trigger_sys \<Rightarrow> (string + 'r option) \<times> trigger_sys"
where
  "runOnce im t t' key body sys =
     (if key \<in> set (id_inflight (ts_idem sys)) then (Inr None, sys)
      else
        (case isCommitted (im_retention im) t key (ts_idem sys) of
           (True, idem) \<Rightarrow> (Inr None, sys\<lparr>ts_idem := idem\<rparr>)
         | (False, idem) \<Rightarrow>
             (case body (sys\<lparr>ts_idem := idem\<rparr>) of
                (Inl e, sys') \<Rightarrow> (Inl e, sys')
              | (Inr r, sys') \<Rightarrow> (Inr (Some r), sys'\<lparr>ts_idem := commit (im_retention im) (im_interval im) t' key (ts_idem sys')\<rparr>))))"

definition outcomeOf :: "trigger_report option \<Rightarrow> trigger_outcome" where
  "outcomeOf r =
     (case r of
        None \<Rightarrow> \<lparr>to_authzFailed = False, to_ran = False, to_status = None, to_note = None, to_reply = None, to_sessionId = None\<rparr>
      | Some rep \<Rightarrow>
          \<lparr>to_authzFailed = False, to_ran = True, to_status = rep_status rep,
           to_note = (if truthy (rep_note rep) then rep_note rep else None), to_reply = rep_reply rep,
           to_sessionId = (if truthy (rep_sessionId rep) then rep_sessionId rep else None)\<rparr>)"

definition noticeInput :: "trigger_spec \<Rightarrow> destination \<Rightarrow> string \<Rightarrow> delivery_input" where
  "noticeInput sp d text =
     \<lparr>di_destination = d, di_text = text, di_attachments = None, di_provenance = Some (deliveryProvenance sp (threadRefOf sp) None),
      di_idempotencyKey = sp_fireKey sp @ '':err'', di_shadow = sp_shadow sp\<rparr>"

definition sendNotice :: "trigger_deps \<Rightarrow> trigger_spec \<Rightarrow> string \<Rightarrow> string \<Rightarrow> millis \<Rightarrow> trigger_outcome \<Rightarrow> trigger_sys \<Rightarrow> trigger_sys" where
  "sendNotice deps sp actorId uuid t outcome sys =
     (case (sp_errorNotice sp, sp_destination sp) of
        (Some notice, Some d) \<Rightarrow>
          (if consented sp \<and> deliverable deps sp actorId \<and> isTriggerFailure outcome
           then handDelivery uuid t (noticeInput sp d (notice (case to_note outcome of Some n \<Rightarrow> n | None \<Rightarrow> the (to_status outcome)))) sys
           else sys)
      | _ \<Rightarrow> sys)"

definition refusedOutcome :: "string \<Rightarrow> trigger_outcome" where
  "refusedOutcome note =
     \<lparr>to_authzFailed = True, to_ran = False, to_status = None, to_note = Some note, to_reply = None, to_sessionId = None\<rparr>"

definition membersNow :: "trigger_deps \<Rightarrow> trigger_spec \<Rightarrow> principal list option option" where
  "membersNow deps sp = (case td_members deps of None \<Rightarrow> Some None | Some f \<Rightarrow> f (sp_ownerScopeId sp))"

definition runTrigger ::
  "trigger_deps \<Rightarrow> idem_times \<Rightarrow> (trigger_turn \<Rightarrow> string + turn_result) \<Rightarrow> string \<times> string \<Rightarrow> millis \<Rightarrow> millis \<Rightarrow> trigger_spec \<Rightarrow> trigger_sys \<Rightarrow>
     (string + trigger_outcome) \<times> trigger_sys"
where
  "runTrigger deps im run uuids t t' sp sys =
     (case map_option (\<lambda>current. (current, chooseActor deps sp current)) (membersNow deps sp) of
        None \<Rightarrow> (Inl ''members unknown'', sys)
      | Some (current, Inl note) \<Rightarrow> (Inr (refusedOutcome note), sys)
      | Some (current, Inr actorId) \<Rightarrow>
          (case runOnce im t t' (sp_fireKey sp) (triggerBody deps sp current actorId run (fst uuids) t') sys of
             (Inl e, sys') \<Rightarrow> (Inl e, sys')
           | (Inr r, sys') \<Rightarrow> (Inr (outcomeOf r), sendNotice deps sp actorId (snd uuids) t' (outcomeOf r) sys')))"

subsection \<open>Who speaks, and to whom\<close>

lemma internal_samePerson: "internal deps a \<Longrightarrow> samePerson (Some a) (Some b) \<Longrightarrow> internal deps b"
  by (simp add: internal_def classify_def isDeactivated_def samePerson_def)

lemma chosen_actor_internal:
  assumes "chooseActor deps sp current = Inr a"
  shows "internal deps a"
proof (cases "sp_runAs sp = ScopeFloor")
  case True
  define members where "members = (case current of Some ms \<Rightarrow> ms | None \<Rightarrow> (case sp_members sp of Some ms \<Rightarrow> ms | None \<Rightarrow> []))"
  obtain m ms where f: "filter (isInternalMember deps) members = m # ms"
    and a: "a = (if list_ex (memberIs (sp_owner sp)) (m # ms) then sp_owner sp else p_id m)"
    using assms True by (auto simp: chooseActor_def Let_def members_def split: list.splits)
  have all: "isInternalMember deps x" if "x \<in> set (m # ms)" for x using that f [symmetric] by auto
  show ?thesis
  proof (cases "list_ex (memberIs (sp_owner sp)) (m # ms)")
    case True
    then obtain x where "x \<in> set (m # ms)" "memberIs (sp_owner sp) x" unfolding list_ex_iff by blast
    then have "internal deps (sp_owner sp)"
      using all [of x] internal_samePerson [of deps "p_id x" "sp_owner sp"] by (simp add: isInternalMember_def memberIs_def)
    then show ?thesis using a True by simp
  next
    case False
    then show ?thesis using all [of m] a by (simp add: isInternalMember_def)
  qed
next
  case False
  then show ?thesis using assms by (auto simp: chooseActor_def Let_def split: if_splits)
qed

text \<open>What a step adds to the turns and messages: turns on behalf of one person only, messages only where they may go.\<close>

definition mayAsk :: "trigger_deps \<Rightarrow> trigger_spec \<Rightarrow> principal list option \<Rightarrow> string \<Rightarrow> trigger_turn \<Rightarrow> bool" where
  "mayAsk deps sp current a turn \<longleftrightarrow> sp_message sp = None \<and> turn = turnOf deps sp current a \<and> canReadHome deps sp current a"

definition maySend :: "trigger_deps \<Rightarrow> trigger_spec \<Rightarrow> string \<Rightarrow> delivery_input \<Rightarrow> bool" where
  "maySend deps sp a m \<longleftrightarrow>
     sp_destination sp = Some (di_destination m) \<and> consented sp \<and> destinationVisible deps a (di_destination m) \<and>
     di_idempotencyKey m \<in> {sp_fireKey sp, sp_fireKey sp @ '':err''}"

definition adds :: "trigger_deps \<Rightarrow> trigger_spec \<Rightarrow> principal list option \<Rightarrow> string \<Rightarrow> trigger_sys \<Rightarrow> trigger_sys \<Rightarrow> bool" where
  "adds deps sp current a s s' \<longleftrightarrow>
     (\<exists>turns msgs. ts_turns s' = ts_turns s @ turns \<and> ts_enqueued s' = ts_enqueued s @ msgs \<and>
        (\<forall>turn \<in> set turns. mayAsk deps sp current a turn) \<and> (\<forall>m \<in> set msgs. maySend deps sp a m))"

lemma adds_same [intro]: "ts_turns s' = ts_turns s \<Longrightarrow> ts_enqueued s' = ts_enqueued s \<Longrightarrow> adds deps sp current a s s'"
  unfolding adds_def by (intro exI [of _ "[]"]) simp

lemma adds_trans: "adds deps sp current a s s' \<Longrightarrow> adds deps sp current a s' s'' \<Longrightarrow> adds deps sp current a s s''"
proof -
  assume "adds deps sp current a s s'" "adds deps sp current a s' s''"
  then obtain t1 m1 t2 m2 where "ts_turns s' = ts_turns s @ t1" "ts_enqueued s' = ts_enqueued s @ m1"
      "\<forall>turn \<in> set t1. mayAsk deps sp current a turn" "\<forall>m \<in> set m1. maySend deps sp a m"
      "ts_turns s'' = ts_turns s' @ t2" "ts_enqueued s'' = ts_enqueued s' @ m2"
      "\<forall>turn \<in> set t2. mayAsk deps sp current a turn" "\<forall>m \<in> set m2. maySend deps sp a m"
    unfolding adds_def by blast
  then show ?thesis unfolding adds_def by (intro exI [of _ "t1 @ t2"] exI [of _ "m1 @ m2"]) auto
qed

lemma adds_deliver: "maySend deps sp a m \<Longrightarrow> adds deps sp current a s (handDelivery uuid t m s)"
  unfolding adds_def by (intro exI [of _ "[]"] exI [of _ "[m]"]) (simp add: handDelivery_def)

lemma adds_turn: "mayAsk deps sp current a turn \<Longrightarrow> adds deps sp current a s (s\<lparr>ts_turns := ts_turns s @ [turn]\<rparr>)"
  unfolding adds_def by (intro exI [of _ "[turn]"] exI [of _ "[]"]) simp

lemma reachDelivery_fields: "di_destination (reachDelivery inp) = rq_destination inp" "di_idempotencyKey (reachDelivery inp) = rq_idempotencyKey inp"
  by (simp_all add: reachDelivery_def)

lemma adds_message: "adds deps sp current a s (snd (sendMessage deps sp a uuid t message s))"
  by (auto simp: sendMessage_def deliverable_def maySend_def reachDelivery_fields relayInput_def intro!: adds_deliver split: option.split)

lemma adds_answer: "adds deps sp current a s (snd (takeAnswer deps sp a uuid t res s))"
  by (auto simp: takeAnswer_def Let_def deliverable_def maySend_def reachDelivery_fields replyInput_def intro!: adds_deliver split: option.split)

lemma adds_body: "adds deps sp current a s (snd (triggerBody deps sp current a run uuid t s))"
proof (cases "sp_message sp")
  case (Some message)
  then show ?thesis using adds_message by (simp add: triggerBody_def case_prod_unfold)
next
  case None
  let ?turn = "turnOf deps sp current a"
  have "adds deps sp current a s (s\<lparr>ts_turns := ts_turns s @ [?turn]\<rparr>)" if "canReadHome deps sp current a"
    using that None by (intro adds_turn) (simp add: mayAsk_def)
  then show ?thesis using None adds_answer [THEN [2] adds_trans]
    by (auto simp: triggerBody_def Let_def case_prod_unfold split: sum.split)
qed

lemma adds_notice: "adds deps sp current a s (sendNotice deps sp a uuid t outcome s)"
  by (auto simp: sendNotice_def deliverable_def maySend_def noticeInput_def intro!: adds_deliver split: option.split)

lemma adds_once:
  assumes "\<And>s. adds deps sp current a s (snd (body s))"
  shows "adds deps sp current a s (snd (runOnce im t t' key body s))"
proof -
  have idem: "adds deps sp current a s (s\<lparr>ts_idem := idem\<rparr>)" for s idem by (rule adds_same) simp_all
  show ?thesis
  proof (cases "isCommitted (im_retention im) t key (ts_idem s)")
    case (Pair b idem)
    let ?s = "s\<lparr>ts_idem := idem\<rparr>"
    have body: "adds deps sp current a s (snd (body ?s))" by (rule adds_trans [OF idem assms])
    show ?thesis
    proof (cases b)
      case True
      then show ?thesis using Pair idem by (simp add: runOnce_def adds_same)
    next
      case False
      then show ?thesis
        using Pair body adds_trans [OF body idem] by (simp add: runOnce_def adds_same case_prod_unfold split: sum.split)
    qed
  qed
qed

lemma runTrigger_adds:
  assumes "runTrigger deps im run uuids t t' sp sys = (r, sys')"
  shows "sys' = sys \<or> (\<exists>current a. membersNow deps sp = Some current \<and> chooseActor deps sp current = Inr a \<and> adds deps sp current a sys sys')"
proof (cases "membersNow deps sp")
  case None
  then show ?thesis using assms by (simp add: runTrigger_def)
next
  case (Some current)
  show ?thesis
  proof (cases "chooseActor deps sp current")
    case (Inl why)
    then show ?thesis using assms Some by (simp add: runTrigger_def)
  next
    case (Inr a)
    let ?once = "runOnce im t t' (sp_fireKey sp) (triggerBody deps sp current a run (fst uuids) t') sys"
    have o: "adds deps sp current a sys (snd ?once)" by (intro adds_once adds_body)
    have "adds deps sp current a sys sys'"
    proof (cases "fst ?once")
      case (Inl e)
      then show ?thesis using assms Some Inr o by (cases ?once) (simp add: runTrigger_def)
    next
      case (Inr x)
      then have "sys' = sendNotice deps sp a (snd uuids) t' (outcomeOf x) (snd ?once)"
        using assms Some \<open>chooseActor deps sp current = Inr a\<close> by (cases ?once) (simp add: runTrigger_def)
      then show ?thesis using adds_trans [OF o adds_notice] by simp
    qed
    then show ?thesis using Some Inr by blast
  qed
qed

text \<open>Nobody turned the delivery off, and a recipient who is asked first has accepted.\<close>

definition agreed :: "trigger_spec \<Rightarrow> bool" where
  "agreed sp \<longleftrightarrow>
     map_option rcn_status (sp_recipientConsent sp) \<in> {None, Some ConsentAccepted} \<and>
     (\<forall>who. consentRequiredRecipient (sp_owner sp) (sp_recipientConsentRequired sp) (sp_destination sp) = Some who \<and> who \<noteq> [] \<longrightarrow>
        (\<exists>c. sp_recipientConsent sp = Some c \<and> rcn_status c = ConsentAccepted \<and> samePerson (Some (rcn_recipientId c)) (Some who)))"

lemma consented_agreed: "consented sp \<Longrightarrow> agreed sp"
  by (auto simp: consented_def agreed_def recipientConsentSatisfied_def split: option.splits if_splits)

lemma turn_actor: "tt_actorId (turnOf deps sp current a) = a"
  by (simp add: turnOf_def)

text \<open>
  C39. A trigger acts on behalf of one internal person: it asks for a turn only while that person may read the trigger's home, and hands
  out a message only to the destination it was set up with, where that person can see it, and only if whoever must agree to it has done so.\<close>

theorem trigger_speaks_within_rights:
  assumes "runTrigger deps im run uuids t t' sp sys = (r, sys')"
  shows "\<exists>turns msgs a. ts_turns sys' = ts_turns sys @ turns \<and> ts_enqueued sys' = ts_enqueued sys @ msgs \<and>
     (turns = [] \<and> msgs = [] \<or> internal deps a) \<and>
     (\<forall>turn \<in> set turns. tt_actorId turn = a \<and> (\<exists>current. membersNow deps sp = Some current \<and> canReadHome deps sp current a)) \<and>
     (\<forall>m \<in> set msgs. sp_destination sp = Some (di_destination m) \<and> destinationVisible deps a (di_destination m) \<and> agreed sp)"
proof -
  from runTrigger_adds [OF assms] show ?thesis
  proof
    assume "sys' = sys"
    then show ?thesis by (intro exI [of _ "[]"]) simp
  next
    assume "\<exists>current a. membersNow deps sp = Some current \<and> chooseActor deps sp current = Inr a \<and> adds deps sp current a sys sys'"
    then obtain current a turns msgs where m: "membersNow deps sp = Some current" "chooseActor deps sp current = Inr a"
      and add: "ts_turns sys' = ts_turns sys @ turns" "ts_enqueued sys' = ts_enqueued sys @ msgs"
        "\<forall>turn \<in> set turns. mayAsk deps sp current a turn" "\<forall>m \<in> set msgs. maySend deps sp a m"
      unfolding adds_def by blast
    have "\<forall>turn \<in> set turns. tt_actorId turn = a \<and> (\<exists>current. membersNow deps sp = Some current \<and> canReadHome deps sp current a)"
      using add(3) m(1) unfolding mayAsk_def by (metis turn_actor)
    moreover have "\<forall>m \<in> set msgs. sp_destination sp = Some (di_destination m) \<and> destinationVisible deps a (di_destination m) \<and> agreed sp"
      using add(4) consented_agreed by (simp add: maySend_def)
    ultimately show ?thesis using add(1,2) chosen_actor_internal [OF m(2)] by blast
  qed
qed

subsection \<open>Once\<close>

definition recorded :: "string \<Rightarrow> millis \<Rightarrow> trigger_sys \<Rightarrow> bool" where
  "recorded key at s \<longleftrightarrow> jm_ok (id_done (ts_idem s)) \<and> (\<exists>x. jm_get (id_done (ts_idem s)) key = Some x \<and> at \<le> x)"

lemma isCommitted_recorded:
  assumes "recorded key at s" "isCommitted retention t k (ts_idem s) = (b, idem)"
  shows "recorded key at (s\<lparr>ts_idem := idem\<rparr>) \<and> (k = key \<and> t - retention \<le> at \<longrightarrow> b)"
proof -
  have "\<exists>x. jm_get (id_done (ts_idem s)) key = Some x \<and> at \<le> x" "jm_ok (id_done (ts_idem s))"
    using assms(1) by (auto simp: recorded_def)
  then obtain x where x: "jm_get (id_done (ts_idem s)) key = Some x" "at \<le> x" by blast
  show ?thesis
  proof (cases "k = key")
    case True
    then show ?thesis
      using assms x by (fastforce simp: isCommitted_def Let_def recorded_def split: option.splits if_splits)
  next
    case False
    then show ?thesis
      using assms x by (fastforce simp: isCommitted_def Let_def recorded_def split: option.splits if_splits)
  qed
qed

lemma commit_recorded:
  assumes "recorded key at s" "t - retention \<le> at" "at \<le> t"
  shows "recorded key at (s\<lparr>ts_idem := commit retention interval t k (ts_idem s)\<rparr>)"
proof -
  let ?done = "jm_set k t (id_done (ts_idem s))"
  have ok: "jm_ok ?done" using assms(1) by (simp add: recorded_def)
  obtain y where y: "jm_get (id_done (ts_idem s)) key = Some y" "at \<le> y" using assms(1) unfolding recorded_def by blast
  obtain x where x: "jm_get ?done key = Some x" "at \<le> x"
    using y assms(3) jm_get_set [of k t "id_done (ts_idem s)" key] by (cases "key = k") simp_all
  have "jm_get (filter (\<lambda>(k, at). \<not> at < t - retention) ?done) key = Some x"
    using ok x assms(2) by (simp add: map_of_filter_value)
  then show ?thesis
    using ok x by (auto simp: recorded_def commit_def pruneIfDue_def Let_def distinct_filter_keys)
qed

lemma committed_key:
  assumes "jm_ok (id_done (ts_idem s))" "0 \<le> retention"
  shows "recorded k t (s\<lparr>ts_idem := commit retention interval t k (ts_idem s)\<rparr>)"
proof -
  let ?done = "jm_set k t (id_done (ts_idem s))"
  have "jm_ok ?done" using assms(1) by simp
  moreover have "jm_get (filter (\<lambda>(k, at). \<not> at < t - retention) ?done) k = Some t"
    using \<open>jm_ok ?done\<close> assms(2) by (simp add: map_of_filter_value)
  ultimately show ?thesis by (auto simp: recorded_def commit_def pruneIfDue_def Let_def distinct_filter_keys)
qed

lemma idem_frame [simp]:
  "ts_idem (handDelivery uuid t m s) = ts_idem s"
  "ts_idem (snd (sendMessage deps sp a uuid t message s)) = ts_idem s"
  "ts_idem (snd (takeAnswer deps sp a uuid t res s)) = ts_idem s"
  "ts_idem (sendNotice deps sp a uuid t outcome s) = ts_idem s"
  by (auto simp: handDelivery_def sendMessage_def takeAnswer_def sendNotice_def Let_def split: option.split)

lemma idem_body [simp]: "ts_idem (snd (triggerBody deps sp current a run uuid t s)) = ts_idem s"
  by (auto simp: triggerBody_def Let_def case_prod_unfold split: option.split sum.split)

lemma recorded_cong: "ts_idem s' = ts_idem s \<Longrightarrow> recorded key at s' = recorded key at s"
  by (simp add: recorded_def)

lemma runOnce_recorded:
  assumes "recorded key at s" "t \<le> t'" "at \<le> t" "t' - im_retention im \<le> at" "\<And>s. ts_idem (snd (body s)) = ts_idem s"
  shows "recorded key at (snd (runOnce im t t' k body s))"
    and "k = key \<Longrightarrow> fst (runOnce im t t' k body s) = Inr None \<and> ts_turns (snd (runOnce im t t' k body s)) = ts_turns s \<and>
      ts_enqueued (snd (runOnce im t t' k body s)) = ts_enqueued s"
proof -
  obtain b idem where c: "isCommitted (im_retention im) t k (ts_idem s) = (b, idem)" by (cases "isCommitted (im_retention im) t k (ts_idem s)")
  let ?s = "s\<lparr>ts_idem := idem\<rparr>"
  have r: "recorded key at ?s" "k = key \<Longrightarrow> b" using isCommitted_recorded [OF assms(1) c] assms(2,4) by simp_all
  have body: "recorded key at (snd (body ?s))" using r(1) assms(5) [of ?s] recorded_cong by blast
  have cm: "recorded key at ((snd (body ?s))\<lparr>ts_idem := commit (im_retention im) (im_interval im) t' k (ts_idem (snd (body ?s)))\<rparr>)"
    using commit_recorded [OF body] assms(2-4) by simp
  show "recorded key at (snd (runOnce im t t' k body s))"
    using assms(1) c r(1) body cm by (cases b) (simp_all add: runOnce_def case_prod_unfold split: sum.split)
  show "fst (runOnce im t t' k body s) = Inr None \<and> ts_turns (snd (runOnce im t t' k body s)) = ts_turns s \<and>
      ts_enqueued (snd (runOnce im t t' k body s)) = ts_enqueued s" if "k = key"
    using r(2) [OF that] c by (simp add: runOnce_def)
qed

definition quietOutcome :: "string + trigger_outcome \<Rightarrow> bool" where
  "quietOutcome r \<longleftrightarrow> (case r of Inl e \<Rightarrow> True | Inr x \<Rightarrow> \<not> to_ran x)"

lemma recorded_notice [simp]: "recorded key at (sendNotice deps sp a uuid t outcome s) = recorded key at s"
  by (rule recorded_cong) simp

lemma no_notice [simp]: "sendNotice deps sp a uuid t (outcomeOf None) s = s"
  by (simp add: sendNotice_def outcomeOf_def isTriggerFailure_def split: option.split)

lemma runTrigger_recorded:
  assumes "recorded key at s" "t \<le> t'" "at \<le> t" "t' - im_retention im \<le> at"
  shows "recorded key at (snd (runTrigger deps im run uuids t t' sp s))"
    and "sp_fireKey sp = key \<Longrightarrow> quietOutcome (fst (runTrigger deps im run uuids t t' sp s)) \<and>
      ts_turns (snd (runTrigger deps im run uuids t t' sp s)) = ts_turns s \<and> ts_enqueued (snd (runTrigger deps im run uuids t t' sp s)) = ts_enqueued s"
proof -
  let ?run = "runTrigger deps im run uuids t t' sp s"
  have "recorded key at (snd ?run) \<and> (sp_fireKey sp = key \<longrightarrow> quietOutcome (fst ?run) \<and> ts_turns (snd ?run) = ts_turns s \<and> ts_enqueued (snd ?run) = ts_enqueued s)"
  proof (cases "membersNow deps sp")
    case None
    then show ?thesis using assms(1) by (simp add: runTrigger_def quietOutcome_def)
  next
    case (Some current)
    note now = Some
    show ?thesis
    proof (cases "chooseActor deps sp current")
      case (Inl why)
      then show ?thesis using assms(1) now by (simp add: runTrigger_def quietOutcome_def refusedOutcome_def)
    next
      case (Inr a)
      let ?once = "runOnce im t t' (sp_fireKey sp) (triggerBody deps sp current a run (fst uuids) t') s"
      note o = runOnce_recorded [where body = "triggerBody deps sp current a run (fst uuids) t'" and k = "sp_fireKey sp", OF assms idem_body]
      have run: "?run = (case ?once of (Inl e, s') \<Rightarrow> (Inl e, s') | (Inr r, s') \<Rightarrow> (Inr (outcomeOf r), sendNotice deps sp a (snd uuids) t' (outcomeOf r) s'))"
        using now Inr by (simp add: runTrigger_def)
      have "recorded key at (snd ?run)"
        using o(1) unfolding run by (simp add: case_prod_unfold split: sum.split)
      moreover have "quietOutcome (fst ?run) \<and> ts_turns (snd ?run) = ts_turns s \<and> ts_enqueued (snd ?run) = ts_enqueued s" if eq: "sp_fireKey sp = key"
      proof -
        obtain s' where "?once = (Inr None, s')" "ts_turns s' = ts_turns s" "ts_enqueued s' = ts_enqueued s"
          using o(2) [OF eq] by (cases ?once) auto
        then show ?thesis by (simp add: run) (simp add: quietOutcome_def outcomeOf_def)
      qed
      ultimately show ?thesis by blast
    qed
  qed
  then show "recorded key at (snd ?run)" and "sp_fireKey sp = key \<Longrightarrow> quietOutcome (fst ?run) \<and> ts_turns (snd ?run) = ts_turns s \<and> ts_enqueued (snd ?run) = ts_enqueued s"
    by blast+
qed

lemma ran_recorded:
  assumes "jm_ok (id_done (ts_idem s))" "0 \<le> im_retention im" "fst (runTrigger deps im run uuids t t' sp s) = Inr x" "to_ran x"
  shows "recorded (sp_fireKey sp) t' (snd (runTrigger deps im run uuids t t' sp s))"
proof -
  obtain current where now: "membersNow deps sp = Some current" using assms(3) by (cases "membersNow deps sp") (simp_all add: runTrigger_def)
  obtain a where a: "chooseActor deps sp current = Inr a"
    using assms(3,4) now by (cases "chooseActor deps sp current") (auto simp: runTrigger_def refusedOutcome_def)
  let ?once = "runOnce im t t' (sp_fireKey sp) (triggerBody deps sp current a run (fst uuids) t') s"
  have run: "runTrigger deps im run uuids t t' sp s =
      (case ?once of (Inl e, s') \<Rightarrow> (Inl e, s') | (Inr r, s') \<Rightarrow> (Inr (outcomeOf r), sendNotice deps sp a (snd uuids) t' (outcomeOf r) s'))"
    using now a by (simp add: runTrigger_def)
  obtain r s' where o': "?once = (r, s')" by (cases ?once)
  obtain rep where "r = Inr (Some rep)"
  proof (cases r)
    case (Inr y)
    then have "x = outcomeOf y" using assms(3) by (simp add: run o')
    then show ?thesis using assms(4) Inr that by (cases y) (simp_all add: outcomeOf_def)
  qed (use assms(3) in \<open>simp add: run o'\<close>)
  then have rep: "fst ?once = Inr (Some rep)" by (simp add: o')
  obtain b idem where c: "isCommitted (im_retention im) t (sp_fireKey sp) (ts_idem s) = (b, idem)"
    by (cases "isCommitted (im_retention im) t (sp_fireKey sp) (ts_idem s)")
  have ok: "jm_ok (id_done idem)" using assms(1) c by (auto simp: isCommitted_def Let_def split: option.splits if_splits)
  let ?body = "triggerBody deps sp current a run (fst uuids) t' (s\<lparr>ts_idem := idem\<rparr>)"
  have o: "snd ?once = (snd ?body)\<lparr>ts_idem := commit (im_retention im) (im_interval im) t' (sp_fireKey sp) (ts_idem (snd ?body))\<rparr>"
    using rep c by (auto simp: runOnce_def case_prod_unfold split: if_splits bool.splits sum.splits)
  have "ts_idem (snd ?body) = idem" by simp
  then have "recorded (sp_fireKey sp) t' (snd ?once)" unfolding o using committed_key [OF _ assms(2), of "snd ?body"] ok by simp
  then show ?thesis using o' \<open>r = Inr (Some rep)\<close> by (simp add: run)
qed

text \<open>A history of triggers: of each the state of the world it meets, what the turn answers, the clock at its start and at its end.\<close>

type_synonym trigger_call = "trigger_deps \<times> (trigger_turn \<Rightarrow> string + turn_result) \<times> (string \<times> string) \<times> millis \<times> millis \<times> trigger_spec"

fun runTriggers :: "idem_times \<Rightarrow> trigger_call list \<Rightarrow> trigger_sys \<Rightarrow> trigger_sys" where
  "runTriggers im [] s = s"
| "runTriggers im ((deps, run, uuids, t, t', sp) # cs) s = runTriggers im cs (snd (runTrigger deps im run uuids t t' sp s))"

fun callTimes :: "trigger_call list \<Rightarrow> millis list" where
  "callTimes [] = []"
| "callTimes ((deps, run, uuids, t, t', sp) # cs) = t # t' # callTimes cs"

lemma runTriggers_recorded:
  assumes "recorded key at s" "sorted (at # callTimes cs)" "\<forall>t \<in> set (callTimes cs). t - im_retention im \<le> at"
  shows "recorded key at (runTriggers im cs s)"
  using assms
proof (induction cs arbitrary: s)
  case (Cons c cs)
  obtain deps run uuids t t' sp where c: "c = (deps, run, uuids, t, t', sp)" by (cases c)
  have "recorded key at (snd (runTrigger deps im run uuids t t' sp s))"
    using Cons.prems c by (intro runTrigger_recorded(1)) auto
  then show ?case using Cons.IH Cons.prems c by auto
qed simp

text \<open>
  C40. A fire is carried out once. After a trigger ran, whatever other triggers run in between, every further call with its key within
  the time of retention asks for no turn, hands out no message and reports that it did not run.\<close>

theorem trigger_fires_once:
  assumes "jm_ok (id_done (ts_idem sys))" "fst (runTrigger deps im run uuids t t' sp sys) = Inr x" "to_ran x"
    and "sorted (t' # callTimes cs @ [u, u'])" "u' - im_retention im \<le> t'" "sp_fireKey again = sp_fireKey sp"
  shows "quietOutcome (fst (runTrigger deps2 im run2 uuids2 u u' again (runTriggers im cs (snd (runTrigger deps im run uuids t t' sp sys))))) \<and>
    ts_turns (snd (runTrigger deps2 im run2 uuids2 u u' again (runTriggers im cs (snd (runTrigger deps im run uuids t t' sp sys))))) =
      ts_turns (runTriggers im cs (snd (runTrigger deps im run uuids t t' sp sys))) \<and>
    ts_enqueued (snd (runTrigger deps2 im run2 uuids2 u u' again (runTriggers im cs (snd (runTrigger deps im run uuids t t' sp sys))))) =
      ts_enqueued (runTriggers im cs (snd (runTrigger deps im run uuids t t' sp sys)))"
proof -
  let ?s = "snd (runTrigger deps im run uuids t t' sp sys)"
  have r: "0 \<le> im_retention im" "\<forall>w \<in> set (callTimes cs). w - im_retention im \<le> t'" "sorted (t' # callTimes cs)" "u \<le> u'" "t' \<le> u"
    using assms(4,5) by (auto simp: sorted_append)
  have "recorded (sp_fireKey sp) t' (runTriggers im cs ?s)"
    by (rule runTriggers_recorded [OF ran_recorded [OF assms(1) r(1) assms(2,3)] r(3,2)])
  from runTrigger_recorded(2) [OF this r(4,5) assms(5,6)] show ?thesis .
qed

subsection \<open>An example\<close>

definition ex_trigger_deps :: trigger_deps where
  "ex_trigger_deps = \<lparr>td_identity = createIdentityService createMemoryMap, td_members = None, td_directory = None\<rparr>"

definition ex_trigger :: trigger_spec where
  "ex_trigger =
     \<lparr>sp_owner = ''U1'', sp_ownerScopeId = ''personal:U1'', sp_input = ''report'', sp_securityScreenData = None, sp_fireKey = ''cron:a:1'',
      sp_surface = ''cron'', sp_destination = Some \<lparr>d_type = ''principal'', d_target = ''U2'', d_audienceScopeId = None, d_rest = []\<rparr>,
      sp_message = None, sp_threadRef = None, sp_runAs = AsOwner, sp_members = None,
      sp_recipientConsent = Some \<lparr>rcn_recipientId = ''U2'', rcn_status = ConsentAccepted, rcn_decidedAt = Some 1\<rparr>,
      sp_recipientConsentRequired = True, sp_shadow = False, sp_thinkingLevel = None, sp_readOnly = False, sp_turnWallClockMs = None,
      sp_errorNotice = None\<rparr>"

definition ex_answer :: "trigger_turn \<Rightarrow> string + turn_result" where
  "ex_answer turn = Inr \<lparr>tr_status = ''ok'', tr_reply = Some ''done'', tr_attachments = None, tr_reason = None, tr_sessionId = None\<rparr>"

definition ex_trigger_sys :: trigger_sys where
  "ex_trigger_sys = \<lparr>ts_idem = createIdempotencyStore None 0, ts_deliveries = createDeliveryStore, ts_turns = [], ts_enqueued = []\<rparr>"

definition ex_times :: idem_times where
  "ex_times = \<lparr>im_retention = 100, im_interval = 10\<rparr>"

definition ex_fired :: "(string + trigger_outcome) \<times> trigger_sys" where
  "ex_fired = runTrigger ex_trigger_deps ex_times ex_answer (''d1'', ''d2'') 5 6 ex_trigger ex_trigger_sys"

theorem trigger_speaks_within_rights_witness:
  "\<exists>a. internal ex_trigger_deps a \<and> agreed ex_trigger \<and> (\<exists>m \<in> set (ts_enqueued (snd ex_fired)). destinationVisible ex_trigger_deps a (di_destination m))"
proof -
  have n: "ts_enqueued (snd ex_fired) \<noteq> []" "ts_enqueued ex_trigger_sys = []" by code_simp+
  have "runTrigger ex_trigger_deps ex_times ex_answer (''d1'', ''d2'') 5 6 ex_trigger ex_trigger_sys = (fst ex_fired, snd ex_fired)"
    by (simp add: ex_fired_def)
  from trigger_speaks_within_rights [OF this] show ?thesis using n by (metis append_Nil last_in_set)
qed

theorem trigger_fires_once_witness:
  "quietOutcome (fst (runTrigger ex_trigger_deps ex_times ex_answer (''d3'', ''d4'') 50 60 ex_trigger (snd ex_fired)))"
proof -
  have ok: "jm_ok (id_done (ts_idem ex_trigger_sys))" by code_simp
  have "(case fst ex_fired of Inr x \<Rightarrow> to_ran x | Inl _ \<Rightarrow> False)" by code_simp
  then obtain x where x: "fst (runTrigger ex_trigger_deps ex_times ex_answer (''d1'', ''d2'') 5 6 ex_trigger ex_trigger_sys) = Inr x" "to_ran x"
    unfolding ex_fired_def by (auto split: sum.splits)
  from trigger_fires_once [OF ok x, of "[]" 50 60 ex_trigger ex_trigger_deps ex_answer "(''d3'', ''d4'')"] show ?thesis
    by (simp add: ex_fired_def ex_times_def)
qed

end
