(* ===== verification/Spec2Isabelle.thy ===== *)
theory Spec2Isabelle
  imports Prelude Runs Scopes Egress Acl Transcript Sessions Listings DurableMap Guards Cron Shell ShellPayloads CommandPolicy RunSpec Worker Signals Tasks Delivery Payload Compaction TapeFold Replay Directory Reach Identity Projects Membership Panel Answers Json Capability Keychain KeychainUse KeychainSave Broker Trigger
begin

text \<open>
  \<^bold>\<open>What is verified.\<close> qm is a multiplayer agent harness: people talk to one agent in rooms of a chat
  service and on the web, every room and person has a scope of its own, and turns of the agent are
  queued, run by workers and answered by deliveries. This library models the core of it, the
  TypeScript under \<open>src/src\<close>, as HOL functions on explicit states and proves the properties its parts
  rely on.

  \<^bold>\<open>How the parts fit together.\<close> A turn arrives at the API past the admission guards, or from a cron
  slot. It becomes a run in the run store. A worker claims the oldest run of an idle session, keeps
  its lease alive, hands it to the orchestrator and settles it; a reaper retires runs whose worker
  died and frees their sessions. While a turn runs, signals steer or abort it. The turn reads the log
  and the tape of its session, narrowed to the audience of the room, compacts them when they grow,
  and seeds the model with the fold of the tape or a replay of the log. Commands it wants to execute
  pass the command policy, its network requests the egress policy. What it sends leaves through the
  delivery store; tasks record what is open. Grants of the access-control store decide who may use a
  resource of another scope.

  \<^bold>\<open>Theories and the code they model.\<close>
  \<^item> \<open>Prelude\<close>: the insertion-ordered map of JavaScript and its interface \<open>keyed_map\<close>, string functions,
    JSON values, and the interfaces \<open>step_system\<close>, \<open>step_preorder\<close> and \<open>simulation\<close> that lift facts about one
    step of a state machine to all its runs. \<open>Payload\<close>: reading JSON payloads.
  \<^item> \<open>Runs\<close>: \<open>runs/run-store.ts\<close>, \<open>runs/memory-run-store.ts\<close>, \<open>runs/tool-ledger.ts\<close>. One definition per
    operation on the record \<open>run_store\<close>, the step relation \<open>run_step\<close>, its invariant; sessions run one turn
    at a time, ended runs stay ended, stale leases are fenced. \<open>RunSpec\<close>: the contract of the queue and
    the proof that the store refines it.
  \<^item> \<open>Worker\<close>: \<open>runs/worker.ts\<close>, \<open>runs/reaper.ts\<close>, \<open>runs/drain.ts\<close>. The loop of a worker between its
    awaits, interleaved with any operation on the run store; a worker left alone empties the queue.
    \<open>Signals\<close>: \<open>runs/run-signal-store.ts\<close>, the poll as a state machine.
  \<^item> \<open>Scopes\<close>: \<open>types.ts\<close>, \<open>directory/person.ts\<close>, \<open>directory/visibility.ts\<close>, \<open>acl/resource-ref.ts\<close>,
    \<open>resolution/context-filter.ts\<close>, \<open>resolution/publish-audience.ts\<close>; what narrows with an audience.
    \<open>Acl\<close>: \<open>acl/acl-store.ts\<close>. \<open>Egress\<close>: \<open>resolution/egress-policy.ts\<close>, \<open>resolution/audience-floor.ts\<close>,
    \<open>util/network.ts\<close> and the decision of \<open>egress-authz-main.ts\<close>.
  \<^item> \<open>Transcript\<close>, \<open>Sessions\<close>, \<open>Listings\<close>: \<open>sessions/session-store.ts\<close> and
    \<open>sessions/memory-session-store.ts\<close>: logs behind leases, participants and their windows, transcripts
    under a byte budget, listings and statistics.
  \<^item> \<open>Compaction\<close>: \<open>harness/context-compaction.ts\<close>, \<open>core/orchestrator/compaction.ts\<close>. \<open>TapeFold\<close>:
    \<open>harness/tape-fold.ts\<close>. \<open>Replay\<close>: \<open>harness/replay.ts\<close>, \<open>util/message-tag.ts\<close>. Together: what a model is
    told of a session. A compaction loses nothing, an audience is shown only what every member is
    entitled to, and what is told passes the lint.
  \<^item> \<open>Guards\<close>: \<open>ratelimit/rate-limiter.ts\<close>, \<open>auth/source-auth.ts\<close>, \<open>auth/replay-dedupe.ts\<close>,
    \<open>idempotency/idempotency-store.ts\<close>. \<open>DurableMap\<close>: the memory map of \<open>persistence/durable-map.ts\<close>.
    \<open>Cron\<close>: \<open>triggers/trigger-store.ts\<close>, \<open>cron/schedule.ts\<close>, \<open>cron/cron-store.ts\<close>, \<open>cron/scheduler.ts\<close>.
    \<open>Tasks\<close>: \<open>tasks/memory-task-store.ts\<close>. \<open>Delivery\<close>: \<open>delivery/delivery-store.ts\<close>.
  \<^item> \<open>Shell\<close>, \<open>ShellPayloads\<close>, \<open>CommandPolicy\<close>: \<open>policy/command-policy.ts\<close> and \<open>util/safe-regex.ts\<close>: the scanner
    of shell commands, the scripts found inside them, and the rules with the floor of the organisation.
  \<^item> \<open>Directory\<close>: \<open>directory/directory-store.ts\<close>. \<open>Identity\<close>: \<open>identity/identity-service.ts\<close>. \<open>Projects\<close>:
    \<open>projects/project-store.ts\<close>. \<open>Membership\<close>: \<open>resolution/scope-membership.ts\<close> over these three as \<open>wiring.ts\<close>
    and \<open>api/app-helpers.ts\<close> connect them. \<open>Reach\<close>: \<open>reach/reach.ts\<close> and \<open>reachNow\<close>. Together: who may read, write
    and manage what, and whom an agent may write to. A deactivated person loses every shared access, the
    roster of a project decides alone, and nothing is addressed where the sender could not write.
  \<^item> \<open>Panel\<close>: \<open>agents/persona-store.ts\<close> and \<open>agents/panel-driver.ts\<close>. The agents of a scope keep distinct names; a panel
    gives every member its turn in each round, invited agents at most one, ends, and never through its ceiling on turns.
  \<^item> \<open>Answers\<close>: \<open>core/turn-origin.ts\<close>, \<open>delivery/run-result-delivery.ts\<close> and \<open>delivery/persona-identity.ts\<close>, composed with
    the stores of runs, tasks and deliveries: each run that ends is answered once, whatever the interleaving.
  \<^item> \<open>Json\<close>: \<open>JSON.parse\<close>, the inverse of \<open>JSON.stringify\<close> of \<open>Payload\<close>. \<open>Capability\<close>: \<open>auth/signed-token.ts\<close> and
    \<open>auth/capability-token.ts\<close>: what is accepted was signed, and what was minted is accepted.
  \<^item> \<open>Keychain\<close>: \<open>credentials/keychain.ts\<close>, with \<open>credentials/paths.ts\<close> and the sealing of secrets of
    \<open>connectors/connector-client-store.ts\<close>. \<open>KeychainUse\<close>: the store as a state machine in which uses of grants
    interleave with every other operation: a secret leaves only by a grant its owner minted for that
    conversation, and by a one-time grant once. \<open>KeychainSave\<close>: what was saved comes back to its owner.
  \<^item> \<open>Broker\<close>: \<open>api/credential-broker.ts\<close> and \<open>api/git-http-broker.ts\<close> with the gate of \<open>api/server.ts\<close>, over the
    keychain, the capabilities and the membership checks: where a secret of the organisation may go, that the caller
    never sees it, and that an allowed path stays under its prefix however often it is decoded.
  \<^item> \<open>Trigger\<close>: \<open>triggers/run-trigger.ts\<close>, over the stores of keys and deliveries, the identity service and the consent of
    recipients: for whom a trigger acts, whom it writes to, and that a fire is carried out once.

  \<^bold>\<open>Conventions.\<close> An operation takes the clock, fresh identifiers and the answers of services as
  arguments and returns its result with the new state. Thrown errors are values (\<open>Inl\<close>, \<open>None\<close> or a
  constructor). A string is a list of code units below 256. Integers of the source are counters and
  milliseconds far below the bound of exact numbers, hence \<open>int\<close> or \<open>nat\<close>. Asynchronous code is a state
  machine whose steps are the stretches between two awaits, so that a property about its runs covers
  every interleaving. Sorting is stable, as the language demands.

  \<^bold>\<open>Loops and bounds.\<close> Loops are structural recursions or functions with a measure: the walk to the root
  of a thread (entries not yet seen), the scanner of commands (the rest of the command), nested
  scripts (the depth limit 8 of the source). The budget of rounds in which a worker empties its queue,
  \<open>queue_budget\<close>, counts what each run may still cost: its remaining claims. Nothing runs on fuel
  of the model's own.

  \<^bold>\<open>Not modelled.\<close> Input and output and what belongs to others: the turn of the orchestrator and the
  harness adapters, the Postgres stores (SQL), HTTP routes, the Slack client, sandboxes and cloud
  providers, OAuth and encryption, the command line tool and the browser plugins. Of the modelled
  files: timers and log lines, the memo table of token counts, time zones of cron expressions
  (an argument), \<open>isoFromTs\<close> (floating point and calendar), regular expressions of policy rules (an
  argument that matches), and \<open>localeCompare\<close> (an argument that orders).
\<close>

end
